(* ===== verification/Prelude.thy ===== *)
theory Prelude
  imports Main "HOL-Library.Word"
begin

text \<open>
  Shared vocabulary of the development: the fixed-width integer types of
  \<^verbatim>\<open>src/platform/types.h\<close>, the error numbers the C code returns, the arithmetic of
  power-of-two masks and of free-running 32-bit counters on which every ring buffer of the
  repository rests, and byte-level access to memory regions (a region is a list of bytes).
\<close>

unbundle bit_operations_syntax

section \<open>Machine integers\<close>

type_synonym u8 = "8 word"
type_synonym u16 = "16 word"
type_synonym u32 = "32 word"
type_synonym u64 = "64 word"

text \<open>A C \<^verbatim>\<open>int\<close> result: the mathematical value of the returned integer.\<close>

type_synonym cint = int

section \<open>Error numbers\<close>

text \<open>The values of \<^verbatim>\<open>errno.h\<close> on Linux; the code returns them negated.\<close>

definition ENOENT :: cint where "ENOENT = 2"
definition E2BIG :: cint where "E2BIG = 7"
definition EAGAIN :: cint where "EAGAIN = 11"
definition ENOMEM :: cint where "ENOMEM = 12"
definition EEXIST :: cint where "EEXIST = 17"
definition EINVAL :: cint where "EINVAL = 22"
definition ENOSPC :: cint where "ENOSPC = 28"
definition ENOSYS :: cint where "ENOSYS = 38"

lemmas errno_defs = ENOENT_def E2BIG_def EAGAIN_def ENOMEM_def EEXIST_def EINVAL_def
  ENOSPC_def ENOSYS_def

section \<open>Power-of-two masks\<close>

named_theorems mask_arith \<open>masks and counters moved to arithmetic on nat\<close>

lemma div_eqI: "n = S * d + r \<Longrightarrow> r < S \<Longrightarrow> n div S = d" for n :: nat
  by simp

lemma unat_and_mask [mask_arith]:
  fixes x :: "'a::len word"
  shows "unat (x AND mask k) = unat x mod 2 ^ k"
proof -
  have "unat (take_bit k x) = take_bit k (unat x)" by (rule unsigned_take_bit_eq)
  then show ?thesis by (simp only: flip: take_bit_eq_mask take_bit_eq_mod)
qed

lemma unat_of_nat_and_mask [mask_arith]:
  assumes "k \<le> LENGTH('a::len)"
  shows "unat ((of_nat n :: 'a word) AND mask k) = n mod 2 ^ k"
proof -
  have "unat ((of_nat n :: 'a word) AND mask k) = (n mod 2 ^ LENGTH('a)) mod 2 ^ k"
    by (simp add: unat_and_mask unat_of_nat)
  also have "\<dots> = n mod 2 ^ k"
    using assms by (simp add: mod_mod_cancel le_imp_power_dvd)
  finally show ?thesis .
qed

lemma of_nat_and_mask:
  assumes "k \<le> LENGTH('a::len)"
  shows "(of_nat n :: 'a word) AND mask k = of_nat (n mod 2 ^ k)"
proof -
  have "n mod 2 ^ k < (2::nat) ^ k" by simp
  also have "\<dots> \<le> 2 ^ LENGTH('a)" using assms by (simp add: power_increasing)
  finally have "unat (of_nat (n mod 2 ^ k) :: 'a word) = n mod 2 ^ k"
    by (simp add: unat_of_nat)
  then show ?thesis using assms by (simp only: word_unat_eq_iff unat_of_nat_and_mask)
qed

lemma and_not_mask:
  fixes x :: "'a::len word"
  shows "x AND NOT (mask k) = x - (x AND mask k)"
proof -
  have "x - (x AND mask k) = x AND NOT (x AND mask k)"
    by (rule disjunctive_diff) (simp add: bit_simps)
  also have "\<dots> = x AND NOT (mask k)"
    by (rule bit_word_eqI) (auto simp: bit_simps)
  finally show ?thesis by simp
qed

lemma of_nat_and_not_mask:
  assumes "k \<le> LENGTH('a::len)"
  shows "(of_nat n :: 'a word) AND NOT (mask k) = of_nat (2 ^ k * (n div 2 ^ k))"
proof -
  have "(of_nat n :: 'a word) AND NOT (mask k) = of_nat n - of_nat (n mod 2 ^ k)"
    using assms by (simp add: and_not_mask of_nat_and_mask)
  also have "\<dots> = of_nat (n - n mod 2 ^ k)" by simp
  finally show ?thesis by (simp only: minus_mod_eq_mult_div)
qed

lemma unat_mask [mask_arith]:
  "k \<le> LENGTH('a::len) \<Longrightarrow> unat (mask k :: 'a word) = 2 ^ k - 1"
  using unat_of_nat_and_mask [where 'a = 'a, of k "2 ^ k - 1"]
  by (simp add: of_nat_diff flip: mask_eq_decr_exp)

text \<open>
  The test \<^verbatim>\<open>(n & (n - 1)) == 0\<close> that the C code uses for ``is a power of two''.
  It holds for the powers of two and for zero, and for nothing else.
\<close>

lemma of_nat_last: "0 < n \<Longrightarrow> of_nat b + of_nat n - 1 = (of_nat (b + n - 1) :: 'a::len word)"
  by (cases n) simp_all

lemma ucast_of_nat_down: "LENGTH('b::len) \<le> LENGTH('a::len) \<Longrightarrow> (ucast (of_nat n :: 'a word) :: 'b word) = of_nat n"
  by transfer (simp add: min_def)

lemma ucast_of_nat_up: "n < 2 ^ LENGTH('a::len) \<Longrightarrow> (ucast (of_nat n :: 'a word) :: 'b::len word) = of_nat n"
  by (simp add: unsigned_of_nat take_bit_nat_eq_self)

lemma ucast_down_add: "LENGTH('b::len) \<le> LENGTH('a::len) \<Longrightarrow> (ucast (x + y :: 'a word) :: 'b word) = ucast x + ucast y"
proof -
  assume a: "LENGTH('b) \<le> LENGTH('a)"
  have "x + y = of_nat (unat x + unat y)" by simp
  then have "(ucast (x + y) :: 'b word) = of_nat (unat x + unat y)" using ucast_of_nat_down [OF a] by metis
  also have "\<dots> = ucast x + ucast y" by simp
  finally show ?thesis .
qed

lemma unat_ucast_16_64: "unat (ucast (x :: u16) :: u64) = unat x"
  by transfer simp

lemma map_filter_append: "List.map_filter f (xs @ ys) = List.map_filter f xs @ List.map_filter f ys"
  by (simp add: List.map_filter_def)

lemma map_filter_one: "List.map_filter f [x] = (case f x of None \<Rightarrow> [] | Some y \<Rightarrow> [y])"
  by (simp add: List.map_filter_def split: option.split)

lemma ucast_up_down: "(ucast (ucast (x :: u32) :: u64) :: u32) = x"
  by transfer simp

lemma ucast_and: "(ucast (x AND y :: 'a::len word) :: 'b::len word) = ucast x AND ucast y"
  by (rule bit_word_eqI) (auto simp: bit_unsigned_iff bit_and_iff)

lemma pow2_and_pred:
  fixes k :: nat
  shows "(2 ^ k :: 'a::len word) AND (2 ^ k - 1) = 0"
proof -
  have "(2 ^ k :: 'a::len word) AND mask k = 0"
    by (rule bit_word_eqI) (auto simp: bit_simps)
  then show ?thesis by (simp add: mask_eq_decr_exp)
qed

lemma bit_top:
  fixes n :: "'a::len word"
  assumes "2 ^ k \<le> unat n" and "unat n < 2 ^ Suc k"
  shows "bit n k"
proof -
  have "unat n div 2 ^ k = 1"
    using assms by (intro div_nat_eqI) simp_all
  then have "bit (unat n) k" by (simp add: bit_iff_odd)
  then show ?thesis by (simp add: bit_unsigned_iff)
qed

lemma pow2_test:
  fixes n :: "'a::len word"
  assumes "n AND (n - 1) = 0" and "n \<noteq> 0"
  shows "\<exists>k < LENGTH('a). n = 2 ^ k"
proof -
  have pos: "0 < unat n" using assms(2) by (simp add: unat_gt_0)
  then obtain k where k1: "2 ^ k \<le> unat n" and k2: "unat n < 2 ^ Suc k"
    using ex_power_ivl1 [of 2 "unat n"] by auto
  have lt: "unat n < 2 ^ LENGTH('a)" by (rule unsigned_less)
  have "(2::nat) ^ k < 2 ^ LENGTH('a)" using k1 lt by (rule le_less_trans)
  then have kl: "k < LENGTH('a)" by simp
  have "unat n = 2 ^ k"
  proof (rule ccontr)
    assume "unat n \<noteq> 2 ^ k"
    then have "2 ^ k \<le> unat (n - 1)" "unat (n - 1) < 2 ^ Suc k"
      using k1 k2 assms(2) by (simp_all add: unat_minus_one)
    then have "bit (n - 1) k" by (rule bit_top)
    moreover have "bit n k" using k1 k2 by (rule bit_top)
    ultimately have "bit (n AND (n - 1)) k" by (simp add: bit_and_iff)
    with assms(1) show False by simp
  qed
  moreover have "n = of_nat (unat n)" by simp
  ultimately have "n = of_nat (2 ^ k)" by simp
  then show ?thesis using kl by auto
qed

text \<open>A ring mask: one less than a power of two that the width can hold.\<close>

definition pow2_mask :: "'a::len word \<Rightarrow> bool" where
  "pow2_mask m \<longleftrightarrow> m + 1 \<noteq> 0 \<and> (m + 1) AND m = 0"

lemma pow2_maskE:
  assumes "pow2_mask (m :: 'a::len word)"
  obtains k where "k < LENGTH('a)" and "m = mask k" and "unat (m + 1) = 2 ^ k"
proof -
  from assms have "(m + 1) AND ((m + 1) - 1) = 0" and nz: "m + 1 \<noteq> 0"
    by (simp_all add: pow2_mask_def)
  then obtain k where k: "k < LENGTH('a)" "m + 1 = 2 ^ k" using pow2_test by blast
  then have "m = mask k" by (simp add: mask_eq_decr_exp algebra_simps)
  moreover have "unat (of_nat (2 ^ k) :: 'a word) = 2 ^ k"
    using k(1) by (simp add: unat_of_nat del: of_nat_power)
  then have "unat (m + 1) = 2 ^ k" using k(2) by simp
  ultimately show ?thesis using k(1) that by blast
qed

lemma pow2_mask_mask: "k < LENGTH('a::len) \<Longrightarrow> pow2_mask (mask k :: 'a word)"
  by (simp add: pow2_mask_def mask_eq_decr_exp pow2_and_pred)

section \<open>Free-running counters\<close>

text \<open>
  Heads and tails of the queues are unsigned counters that are incremented for ever and
  wrap. Reading such a counter as \<^term>\<open>of_nat p\<close> for an unbounded position \<^term>\<open>p\<close>
  turns the wrapping subtraction of two counters into the distance of the positions.
\<close>

lemma unat_counter_diff [mask_arith]:
  assumes "a \<le> b" and "b - a < 2 ^ LENGTH('a::len)"
  shows "unat (of_nat b - of_nat a :: 'a word) = b - a"
proof -
  have "(of_nat b - of_nat a :: 'a word) = of_nat (b - a)" using assms(1) by simp
  then show ?thesis using assms(2) by (simp add: unat_of_nat)
qed

lemma counter_eq_iff:
  assumes "a \<le> b" and "b - a < 2 ^ LENGTH('a::len)"
  shows "(of_nat b :: 'a word) = of_nat a \<longleftrightarrow> b = a"
proof
  assume "(of_nat b :: 'a word) = of_nat a"
  then have "unat (of_nat b - of_nat a :: 'a word) = 0" by simp
  then show "b = a" using assms by (simp add: unat_counter_diff)
qed simp

text \<open>The slot of the ring that a counter \<^term>\<open>i\<close> past \<^term>\<open>h\<close> selects.\<close>

lemma unat_slot [mask_arith]:
  fixes h :: "'a::len word"
  assumes "k < LENGTH('a)"
  shows "unat ((h + of_nat i) AND mask k) = (unat h + i) mod 2 ^ k"
proof -
  have "h + of_nat i = of_nat (unat h + i)" by simp
  then show ?thesis using assms by (simp only: unat_of_nat_and_mask less_imp_le_nat)
qed

lemma slot_inj_le:
  fixes S :: nat
  assumes "(h + i) mod S = (h + j) mod S" and "i \<le> j" and "j < S"
  shows "i = j"
proof -
  have "S dvd (h + j) - (h + i)"
    using assms(1,2) mod_eq_dvd_iff_nat [of "h + i" "h + j" S] by simp
  then have "S dvd j - i" by simp
  then show ?thesis using assms(2,3) by (auto dest: dvd_imp_le)
qed

lemma slot_inj:
  fixes S :: nat
  assumes "(h + i) mod S = (h + j) mod S" and "i < S" and "j < S"
  shows "i = j"
  using slot_inj_le [of h i S j] slot_inj_le [of h j S i] assms by (cases "i \<le> j") auto

lemma slot_apart:
  fixes x y S :: nat
  assumes "x < y" and "y < x + S"
  shows "x mod S \<noteq> y mod S"
proof
  assume "x mod S = y mod S"
  then have "0 = y - x" using assms slot_inj_le [of x 0 S "y - x"] by (simp add: less_diff_conv2)
  then show False using assms(1) by simp
qed

text \<open>The \<^term>\<open>n\<close> elements of a ring from position \<^term>\<open>h\<close> on.\<close>

definition ring_slice :: "'a list \<Rightarrow> nat \<Rightarrow> nat \<Rightarrow> 'a list" where
  "ring_slice xs h n = map (\<lambda>i. xs ! ((h + i) mod length xs)) [0..<n]"

lemma length_ring_slice [simp]: "length (ring_slice xs h n) = n"
  by (simp add: ring_slice_def)

lemma nth_ring_slice: "i < n \<Longrightarrow> ring_slice xs h n ! i = xs ! ((h + i) mod length xs)"
  by (simp add: ring_slice_def)

lemma ring_slice_0 [simp]: "ring_slice xs h 0 = []"
  by (simp add: ring_slice_def)

lemma ring_slice_cong:
  "h mod length xs = h' mod length xs \<Longrightarrow> ring_slice xs h n = ring_slice xs h' n"
  by (auto simp: ring_slice_def intro: arg_cong [where f = "(!) xs"] mod_add_cong)

lemma drop_ring_slice: "drop j (ring_slice xs h n) = ring_slice xs (h + j) (n - j)"
  by (rule nth_equalityI) (simp_all add: nth_ring_slice add.assoc)

lemma ring_slice_Cons:
  "0 < n \<Longrightarrow> ring_slice xs h n = xs ! (h mod length xs) # ring_slice xs (h + 1) (n - 1)"
  by (rule nth_equalityI) (auto simp: nth_ring_slice nth_Cons split: nat.splits)

lemma ring_slice_snoc:
  assumes "n < length xs"
  shows "ring_slice (xs[(h + n) mod length xs := x]) h (Suc n) = ring_slice xs h n @ [x]"
proof (rule nth_equalityI)
  fix i assume "i < length (ring_slice (xs[(h + n) mod length xs := x]) h (Suc n))"
  then have i: "i < Suc n" by simp
  have pos: "(h + n) mod length xs < length xs" using assms by (intro mod_less_divisor) auto
  show "ring_slice (xs[(h + n) mod length xs := x]) h (Suc n) ! i = (ring_slice xs h n @ [x]) ! i"
  proof (cases "i = n")
    case True
    then show ?thesis using pos by (simp add: nth_ring_slice nth_append)
  next
    case False
    then have "(h + n) mod length xs \<noteq> (h + i) mod length xs"
      using slot_inj [of h n "length xs" i] assms i by auto
    then show ?thesis using False i by (simp add: nth_ring_slice nth_append)
  qed
qed simp

text \<open>
  Two stretches of unbounded positions that do not cross a multiple of the ring size, one
  starting after the other ends and ending less than a whole ring later, occupy disjoint
  stretches of the ring.
\<close>

lemma ring_disjoint:
  fixes p q a b S :: nat
  assumes "0 < S" and "p + a \<le> q" and "q + b \<le> p + S"
    and pa: "p mod S + a \<le> S" and qb: "q mod S + b \<le> S"
  shows "p mod S + a \<le> q mod S \<or> q mod S + b \<le> p mod S"
proof -
  have p: "p = S * (p div S) + p mod S" and q: "q = S * (q div S) + q mod S" by simp_all
  have "p div S \<le> q div S" using assms(2) by (simp add: div_le_mono)
  moreover have "q div S \<le> (p + S) div S" using assms(3) by (intro div_le_mono) simp
  moreover have "(p + S) div S = p div S + 1" using assms(1) by (simp add: div_add_self2)
  ultimately consider "q div S = p div S" | "q div S = p div S + 1" by linarith
  then show ?thesis
  proof cases
    case 1
    then have "S * (q div S) = S * (p div S)" by simp
    then show ?thesis using assms(2) p q by linarith
  next
    case 2
    then have "S * (q div S) = S * (p div S) + S" by simp
    then show ?thesis using assms(3) p q by linarith
  qed
qed

text \<open>Lengths padded to a multiple of eight bytes.\<close>

definition align8n :: "nat \<Rightarrow> nat" where
  "align8n n = 8 * ((n + 7) div 8)"

lemma align8n_ge: "n \<le> align8n n"
  by (simp add: align8n_def)

lemma align8n_le: "align8n n \<le> n + 7"
  by (simp add: align8n_def)

lemma sint_of_nat32: "n < 2 ^ 31 \<Longrightarrow> sint (of_nat n :: u32) = int n"
  by (simp add: signed_of_nat signed_take_bit_int_eq_self_iff)

section \<open>Memory regions\<close>

definition load_bytes :: "'a list \<Rightarrow> nat \<Rightarrow> nat \<Rightarrow> 'a list" where
  "load_bytes m off n = take n (drop off m)"

definition store_bytes :: "'a list \<Rightarrow> nat \<Rightarrow> 'a list \<Rightarrow> 'a list" where
  "store_bytes m off bs = take off m @ bs @ drop (off + length bs) m"

lemma length_load_bytes [simp]:
  "off + n \<le> length m \<Longrightarrow> length (load_bytes m off n) = n"
  by (simp add: load_bytes_def)

lemma length_store_bytes [simp]:
  "off + length bs \<le> length m \<Longrightarrow> length (store_bytes m off bs) = length m"
  by (simp add: store_bytes_def)

lemma store_bytes_Nil [simp]: "store_bytes m off [] = m"
  by (simp add: store_bytes_def)

lemma load_bytes_0 [simp]: "load_bytes m off 0 = []"
  by (simp add: load_bytes_def)

lemma nth_load_bytes [simp]:
  "i < n \<Longrightarrow> off + n \<le> length m \<Longrightarrow> load_bytes m off n ! i = m ! (off + i)"
  by (simp add: load_bytes_def)

lemma nth_store_bytes:
  assumes "off + length bs \<le> length m" and "i < length m"
  shows "store_bytes m off bs ! i =
    (if off \<le> i \<and> i < off + length bs then bs ! (i - off) else m ! i)"
  using assms by (auto simp: store_bytes_def nth_append min_def)

lemma load_store_same:
  "off + length bs \<le> length m \<Longrightarrow> load_bytes (store_bytes m off bs) off (length bs) = bs"
  by (simp add: load_bytes_def store_bytes_def)

lemma load_store_disjoint:
  assumes "off + length bs \<le> length m" and "o' + n \<le> length m"
    and "o' + n \<le> off \<or> off + length bs \<le> o'"
  shows "load_bytes (store_bytes m off bs) o' n = load_bytes m o' n"
  using assms by (intro nth_equalityI) (auto simp: nth_store_bytes)

lemma store_bytes_two:
  "length as + length bs \<le> length m \<Longrightarrow> store_bytes (store_bytes m 0 as) (length as) bs = store_bytes m 0 (as @ bs)"
  by (simp add: store_bytes_def add.commute)

subsection \<open>Little-endian integers in memory\<close>

primrec le_nat :: "u8 list \<Rightarrow> nat" where
  "le_nat [] = 0"
| "le_nat (b # bs) = unat b + 256 * le_nat bs"

primrec le_bytes :: "nat \<Rightarrow> nat \<Rightarrow> u8 list" where
  "le_bytes 0 v = []"
| "le_bytes (Suc n) v = of_nat v # le_bytes n (v div 256)"

lemma le_bytes_numeral:
  "le_bytes (numeral k) v = of_nat v # le_bytes (pred_numeral k) (v div 256)"
  using le_bytes.simps(2) [of "pred_numeral k" v] by (simp only: numeral_eq_Suc [symmetric])

lemma length_le_bytes [simp]: "length (le_bytes n v) = n"
  by (induction n arbitrary: v) auto

lemma le_nat_le_bytes: "le_nat (le_bytes n v) = v mod 256 ^ n"
proof (induction n arbitrary: v)
  case (Suc n)
  have "unat (of_nat v :: u8) = v mod 256" by (simp add: unat_of_nat)
  then show ?case using Suc by (simp add: mod_mult2_eq)
qed simp

lemma le_nat_less: "le_nat bs < 256 ^ length bs"
proof (induction bs)
  case (Cons b bs)
  have "unat b < 2 ^ LENGTH(8)" by (rule unsigned_less)
  then have "unat b < 256" by simp
  with Cons show ?case by simp
qed simp

subsection \<open>Byte strings in a ring\<close>

text \<open>Writing a byte string at an unbounded position of a ring, one byte after the other.\<close>

primrec ring_store :: "'a list \<Rightarrow> nat \<Rightarrow> 'a list \<Rightarrow> 'a list" where
  "ring_store xs p [] = xs"
| "ring_store xs p (b # bs) = ring_store (xs[p mod length xs := b]) (Suc p) bs"

lemma length_ring_store [simp]: "length (ring_store xs p bs) = length xs"
  by (induction bs arbitrary: xs p) auto

lemma ring_store_append:
  "ring_store xs p (as @ bs) = ring_store (ring_store xs p as) (p + length as) bs"
  by (induction as arbitrary: xs p) auto

lemma nth_ring_store_other:
  "(\<And>i. i < length bs \<Longrightarrow> (p + i) mod length xs \<noteq> j) \<Longrightarrow> ring_store xs p bs ! j = xs ! j"
proof (induction bs arbitrary: xs p)
  case (Cons b bs)
  have "p mod length xs \<noteq> j" using Cons.prems [of 0] by simp
  moreover have "(Suc p + i) mod length xs \<noteq> j" if "i < length bs" for i
    using Cons.prems [of "Suc i"] that by simp
  ultimately show ?case using Cons.IH [of "Suc p" "xs[p mod length xs := b]"] by simp
qed simp

lemma nth_ring_store:
  assumes "length bs \<le> length xs" and "i < length bs"
  shows "ring_store xs p bs ! ((p + i) mod length xs) = bs ! i"
  using assms
proof (induction bs arbitrary: xs p i)
  case (Cons b bs)
  let ?xs = "xs[p mod length xs := b]"
  show ?case
  proof (cases i)
    case 0
    have "(Suc p + k) mod length xs \<noteq> p mod length xs" if "k < length bs" for k
      using slot_apart [of p "Suc p + k" "length xs"] that Cons.prems(1) by simp
    moreover have "p mod length xs < length xs" using Cons.prems by (intro mod_less_divisor) auto
    ultimately show ?thesis
      using 0 nth_ring_store_other [of bs "Suc p" ?xs "p mod length xs"] by simp
  next
    case (Suc k)
    then show ?thesis using Cons.IH [of ?xs k "Suc p"] Cons.prems by simp
  qed
qed simp

lemma ring_slice_store_same:
  "length bs \<le> length xs \<Longrightarrow> ring_slice (ring_store xs p bs) p (length bs) = bs"
  by (rule nth_equalityI) (simp_all add: nth_ring_slice nth_ring_store)

lemma ring_slice_store_other:
  assumes "p + n \<le> q \<and> q + length bs \<le> p + length xs \<or> q + length bs \<le> p \<and> p + n \<le> q + length xs"
  shows "ring_slice (ring_store xs q bs) p n = ring_slice xs p n"
proof (rule nth_equalityI)
  fix i assume "i < length (ring_slice (ring_store xs q bs) p n)"
  then have i: "i < n" by simp
  have "(q + k) mod length xs \<noteq> (p + i) mod length xs" if "k < length bs" for k
  proof (cases "p + i < q + k")
    case True
    then show ?thesis using slot_apart [of "p + i" "q + k" "length xs"] assms i that by linarith
  next
    case False
    then show ?thesis using slot_apart [of "q + k" "p + i" "length xs"] assms i that by linarith
  qed
  then show "ring_slice (ring_store xs q bs) p n ! i = ring_slice xs p n ! i"
    using i by (simp add: nth_ring_slice nth_ring_store_other)
qed simp

lemma ring_slice_add: "ring_slice xs p (a + b) = ring_slice xs p a @ ring_slice xs (p + a) b"
  by (rule nth_equalityI) (auto simp: nth_ring_slice nth_append)

lemma ring_slice_load:
  assumes "p mod length xs + n \<le> length xs"
  shows "ring_slice xs p n = load_bytes xs (p mod length xs) n"
proof (rule nth_equalityI)
  fix i assume i: "i < length (ring_slice xs p n)"
  have "(p + i) mod length xs = p mod length xs + i"
    using assms i mod_add_left_eq [of p "length xs" i] by simp
  then show "ring_slice xs p n ! i = load_bytes xs (p mod length xs) n ! i"
    using assms i by (simp add: nth_ring_slice)
qed (use assms in simp)

lemma ring_slice_load_wrap:
  assumes "length xs < p mod length xs + n" and "n \<le> length xs" and "0 < length xs"
  defines "k \<equiv> length xs - p mod length xs"
  shows "ring_slice xs p n = load_bytes xs (p mod length xs) k @ load_bytes xs 0 (n - k)"
proof -
  have b: "p mod length xs < length xs" using assms(3) by simp
  have z: "(p + k) mod length xs = 0"
    using b mod_add_left_eq [of p "length xs" k] by (simp add: k_def)
  have "n = k + (n - k)" using assms(1) b by (simp add: k_def)
  then have "ring_slice xs p n = ring_slice xs p k @ ring_slice xs (p + k) (n - k)"
    using ring_slice_add by metis
  then show ?thesis
    using assms(2) b z ring_slice_load [of p xs k] ring_slice_load [of "p + k" xs "n - k"]
    by (simp add: k_def)
qed

lemma store_bytes_ring:
  assumes "p mod length xs + length bs \<le> length xs"
  shows "store_bytes xs (p mod length xs) bs = ring_store xs p bs"
proof (rule nth_equalityI)
  fix j assume "j < length (store_bytes xs (p mod length xs) bs)"
  then have j: "j < length xs" using assms by simp
  have slot: "(p + i) mod length xs = p mod length xs + i" if "i < length bs" for i
    using assms that mod_add_left_eq [of p "length xs" i] by simp
  show "store_bytes xs (p mod length xs) bs ! j = ring_store xs p bs ! j"
  proof (cases "p mod length xs \<le> j \<and> j < p mod length xs + length bs")
    case True
    then have i: "j - p mod length xs < length bs" by linarith
    then show ?thesis
      using True assms j nth_ring_store [OF _ i, of xs p] slot [OF i]
      by (simp add: nth_store_bytes)
  next
    case False
    then have "ring_store xs p bs ! j = xs ! j" using slot by (intro nth_ring_store_other) auto
    then show ?thesis using assms j False by (auto simp: nth_store_bytes)
  qed
qed (use assms in simp)

lemma store_bytes_ring_wrap:
  assumes "length xs < p mod length xs + length bs" and "length bs \<le> length xs" and "0 < length xs"
  defines "k \<equiv> length xs - p mod length xs"
  shows "store_bytes (store_bytes xs (p mod length xs) (take k bs)) 0 (drop k bs) = ring_store xs p bs"
proof -
  have b: "p mod length xs < length xs" using assms(3) by simp
  have z: "(p + k) mod length xs = 0"
    using b mod_add_left_eq [of p "length xs" k] unfolding k_def by simp
  have k: "k \<le> length bs" using assms(1) unfolding k_def by linarith
  have pk: "p mod length xs + k = length xs" using b unfolding k_def by linarith
  have lk: "length (take k bs) = k" using k by simp
  let ?ys = "ring_store xs p (take k bs)"
  have 0: "ring_store ?ys (p + k) (drop k bs) = ring_store xs p bs"
    using ring_store_append [of xs p "take k bs" "drop k bs"] unfolding append_take_drop_id lk by simp
  have 1: "store_bytes xs (p mod length xs) (take k bs) = ?ys"
    by (rule store_bytes_ring) (use pk lk in linarith)
  have "store_bytes ?ys ((p + k) mod length ?ys) (drop k bs) = ring_store ?ys (p + k) (drop k bs)"
    by (rule store_bytes_ring) (use assms(2) z in simp)
  then show ?thesis unfolding 0 1 length_ring_store z .
qed

end
