(* ===== verification/Fifo_Spec.thy ===== *)
theory Fifo_Spec
  imports Prelude
begin

text \<open>
  The contract that the queues of \<^verbatim>\<open>src/util\<close> promise to their clients: a bounded
  first-in first-out queue. A provider gives an invariant, the list of queued items, a
  \<open>put\<close> that fails exactly when the queue has no room for the item, and a \<open>get\<close> that
  fails exactly when the queue is empty. The client lemma is proved once: whatever
  sequence of operations runs, the delivered items followed by the queued ones are the
  initially queued ones followed by the accepted ones, so nothing is lost, duplicated or
  reordered.
\<close>

datatype 'a fifo_op = Put 'a | Get

fun fifo_run ::
  "('a \<Rightarrow> 's \<Rightarrow> 's option) \<Rightarrow> ('s \<Rightarrow> ('a \<times> 's) option) \<Rightarrow> 'a fifo_op list \<Rightarrow> 's \<Rightarrow> 'a list \<times> 'a list \<times> 's"
  where
  "fifo_run put get [] s = ([], [], s)"
| "fifo_run put get (Put a # ops) s =
     (case put a s of
        None \<Rightarrow> fifo_run put get ops s
      | Some s' \<Rightarrow> (let (acc, del, t) = fifo_run put get ops s' in (a # acc, del, t)))"
| "fifo_run put get (Get # ops) s =
     (case get s of
        None \<Rightarrow> fifo_run put get ops s
      | Some (a, s') \<Rightarrow> (let (acc, del, t) = fifo_run put get ops s' in (acc, a # del, t)))"

locale bounded_fifo =
  fixes inv :: "'s \<Rightarrow> bool"
    and items :: "'s \<Rightarrow> 'a list"
    and room :: "'s \<Rightarrow> 'a \<Rightarrow> bool"
    and put :: "'a \<Rightarrow> 's \<Rightarrow> 's option"
    and get :: "'s \<Rightarrow> ('a \<times> 's) option"
  assumes put_inv: "inv s \<Longrightarrow> put a s = Some s' \<Longrightarrow> inv s'"
    and put_items: "inv s \<Longrightarrow> put a s = Some s' \<Longrightarrow> items s' = items s @ [a]"
    and put_None: "inv s \<Longrightarrow> put a s = None \<longleftrightarrow> \<not> room s a"
    and get_inv: "inv s \<Longrightarrow> get s = Some (a, s') \<Longrightarrow> inv s'"
    and get_items: "inv s \<Longrightarrow> get s = Some (a, s') \<Longrightarrow> items s = a # items s'"
    and get_None: "inv s \<Longrightarrow> get s = None \<longleftrightarrow> items s = []"
begin

lemma run_fifo:
  assumes "inv s" and "fifo_run put get ops s = (acc, del, t)"
  shows "inv t \<and> del @ items t = items s @ acc"
  using assms
proof (induction ops arbitrary: s acc del)
  case (Cons oper ops)
  show ?case
  proof (cases oper)
    case (Put a)
    show ?thesis
    proof (cases "put a s")
      case None
      then show ?thesis using Cons Put by auto
    next
      case (Some s')
      then obtain acc' where "acc = a # acc'" "fifo_run put get ops s' = (acc', del, t)"
        using Cons.prems(2) Put by (auto split: prod.splits)
      then show ?thesis
        using Cons.IH [of s' acc'] put_inv put_items Cons.prems(1) Some by auto
    qed
  next
    case Get
    show ?thesis
    proof (cases "get s")
      case None
      then show ?thesis using Cons Get by auto
    next
      case (Some r)
      then obtain a s' del' where r: "get s = Some (a, s')" "del = a # del'"
        "fifo_run put get ops s' = (acc, del', t)"
        using Cons.prems(2) Get by (cases r) (auto split: prod.splits)
      then show ?thesis
        using Cons.IH [of s' acc del'] get_inv get_items [OF Cons.prems(1) r(1)] Cons.prems(1)
        by auto
    qed
  qed
qed simp

text \<open>A queue that is filled and then drained hands back what was accepted, in order.\<close>

lemma put_then_get:
  assumes "inv s" and "items s = []" and "put a s = Some s'"
  shows "\<exists>t. get s' = Some (a, t) \<and> items t = []"
proof -
  have s': "inv s'" "items s' = [a]" using assms by (auto dest: put_inv put_items)
  then obtain b t where g: "get s' = Some (b, t)" using get_None [of s'] by fastforce
  then show ?thesis using s' get_items [OF s'(1) g] by simp
qed

end

end
