(* ===== verification/Circular_Queue.thy ===== *)
theory Circular_Queue
  imports Fifo_Spec
begin

text \<open>
  \<^verbatim>\<open>src/util/circular_queue.h\<close>: a ring of fixed-size elements indexed by two free-running
  32-bit counters. The element buffer \<^verbatim>\<open>elems\<close> is a list; the three instantiations
  (u16, u32, u64) of the \<^verbatim>\<open>using_circular_queue\<close> macro are one polymorphic definition.
\<close>

unbundle bit_operations_syntax

section \<open>Model\<close>

record 'a circular_queue =
  cq_head :: u32
  cq_tail :: u32
  cq_mask :: u32
  cq_elems :: "'a list"

definition cq_init :: "'a circular_queue \<Rightarrow> 'a list \<Rightarrow> u32 \<Rightarrow> cint \<times> 'a circular_queue" where
  "cq_init q elems num_elems =
     (if (num_elems AND (num_elems - 1)) \<noteq> 0 then (- EINVAL, q)
      else (0, q\<lparr>cq_head := 0, cq_tail := 0, cq_mask := num_elems - 1, cq_elems := elems\<rparr>))"

definition cq_enqueue :: "'a circular_queue \<Rightarrow> 'a \<Rightarrow> 'a circular_queue" where
  "cq_enqueue q x =
     (let tail = cq_tail q
      in q\<lparr>cq_elems := (cq_elems q)[unat (tail AND cq_mask q) := x], cq_tail := tail + 1\<rparr>)"

definition cq_dequeue :: "'a circular_queue \<Rightarrow> 'a \<times> 'a circular_queue" where
  "cq_dequeue q =
     (let head = cq_head q
      in (cq_elems q ! unat (head AND cq_mask q), q\<lparr>cq_head := head + 1\<rparr>))"

definition cq_peek :: "'a circular_queue \<Rightarrow> 'a" where
  "cq_peek q = cq_elems q ! unat (cq_head q AND cq_mask q)"

definition cq_empty :: "'a circular_queue \<Rightarrow> bool" where
  "cq_empty q \<longleftrightarrow> cq_tail q = cq_head q"

definition cq_occupancy :: "'a circular_queue \<Rightarrow> u32" where
  "cq_occupancy q = cq_tail q - cq_head q"

definition cq_space :: "'a circular_queue \<Rightarrow> u32" where
  "cq_space q = cq_mask q + 1 - (cq_tail q - cq_head q)"

definition cq_full :: "'a circular_queue \<Rightarrow> bool" where
  "cq_full q \<longleftrightarrow> cq_occupancy q \<ge> cq_mask q + 1"

definition cq_discard :: "'a circular_queue \<Rightarrow> u32 \<Rightarrow> 'a circular_queue" where
  "cq_discard q n_elems = q\<lparr>cq_head := cq_head q + n_elems\<rparr>"

section \<open>Invariant and abstraction\<close>

definition cq_inv :: "'a circular_queue \<Rightarrow> bool" where
  "cq_inv q \<longleftrightarrow> pow2_mask (cq_mask q) \<and> length (cq_elems q) = unat (cq_mask q + 1) \<and>
     unat (cq_tail q - cq_head q) \<le> length (cq_elems q)"

definition cq_items :: "'a circular_queue \<Rightarrow> 'a list" where
  "cq_items q =
     map (\<lambda>i. cq_elems q ! unat ((cq_head q + of_nat i) AND cq_mask q))
       [0..<unat (cq_tail q - cq_head q)]"

text \<open>The client's use of the queue: check, then enqueue or dequeue.\<close>

definition cq_put :: "'a \<Rightarrow> 'a circular_queue \<Rightarrow> 'a circular_queue option" where
  "cq_put x q = (if cq_full q then None else Some (cq_enqueue q x))"

definition cq_get :: "'a circular_queue \<Rightarrow> ('a \<times> 'a circular_queue) option" where
  "cq_get q = (if cq_empty q then None else Some (cq_dequeue q))"

lemma length_cq_items: "length (cq_items q) = unat (cq_occupancy q)"
  by (simp add: cq_items_def cq_occupancy_def)

lemma cq_full_iff:
  assumes "cq_inv q"
  shows "cq_full q \<longleftrightarrow> length (cq_items q) = length (cq_elems q)"
  using assms by (auto simp: cq_inv_def cq_full_def length_cq_items cq_occupancy_def word_le_nat_alt)

lemma cq_empty_iff: "cq_empty q \<longleftrightarrow> cq_items q = []"
  by (auto simp: cq_empty_def cq_items_def unat_0_iff)

lemma unat_succ_diff:
  fixes t h :: u32
  assumes "unat (t - h) < n" and "n < 2 ^ 32"
  shows "unat (t + 1 - h) = Suc (unat (t - h))"
proof -
  have "t + 1 - h = of_nat (Suc (unat (t - h)))" by simp
  moreover have "Suc (unat (t - h)) < 2 ^ 32" using assms by linarith
  ultimately show ?thesis by (simp only: unat_of_nat) simp
qed

lemma cq_slot:
  assumes "cq_inv q"
  shows "unat ((cq_head q + of_nat i) AND cq_mask q) =
    (unat (cq_head q) + i) mod length (cq_elems q)"
proof -
  obtain k where k: "k < 32" "cq_mask q = mask k" "unat (cq_mask q + 1) = 2 ^ k"
    using assms pow2_maskE [of "cq_mask q"] by (auto simp: cq_inv_def)
  then show ?thesis using assms by (simp add: cq_inv_def unat_slot)
qed

lemma cq_items_ring:
  assumes "cq_inv q"
  shows "cq_items q = ring_slice (cq_elems q) (unat (cq_head q)) (unat (cq_occupancy q))"
  by (simp add: cq_items_def ring_slice_def cq_occupancy_def cq_slot [OF assms])

lemma cq_tail_slot:
  assumes "cq_inv q"
  shows "unat (cq_tail q AND cq_mask q) =
    (unat (cq_head q) + unat (cq_occupancy q)) mod length (cq_elems q)"
proof -
  show ?thesis using cq_slot [OF assms, of "unat (cq_occupancy q)"] by (simp add: cq_occupancy_def)
qed

lemma cq_length_less:
  assumes "cq_inv q" shows "length (cq_elems q) < 2 ^ 32"
proof -
  have "unat (cq_mask q + 1) < 2 ^ LENGTH(32)" by (rule unsigned_less)
  then show ?thesis using assms by (simp add: cq_inv_def)
qed

lemma cq_enqueue_occupancy:
  assumes "cq_inv q" and "\<not> cq_full q"
  shows "unat (cq_occupancy (cq_enqueue q x)) = Suc (unat (cq_occupancy q))"
    and "unat (cq_occupancy q) < length (cq_elems q)"
proof -
  show lt: "unat (cq_occupancy q) < length (cq_elems q)"
    using assms by (simp add: cq_full_def cq_inv_def word_le_nat_alt)
  show "unat (cq_occupancy (cq_enqueue q x)) = Suc (unat (cq_occupancy q))"
    using unat_succ_diff [OF lt [unfolded cq_occupancy_def] cq_length_less [OF assms(1)]]
    by (simp add: cq_occupancy_def cq_enqueue_def Let_def)
qed

lemma cq_enqueue_inv:
  assumes "cq_inv q" and "\<not> cq_full q"
  shows "cq_inv (cq_enqueue q x)"
  using assms cq_enqueue_occupancy(1) [OF assms, of x] cq_enqueue_occupancy(2) [OF assms]
  by (simp add: cq_inv_def cq_occupancy_def cq_enqueue_def Let_def)

lemma cq_enqueue_items:
  assumes "cq_inv q" and "\<not> cq_full q"
  shows "cq_items (cq_enqueue q x) = cq_items q @ [x]"
proof -
  have "cq_items (cq_enqueue q x) = ring_slice
      ((cq_elems q)[(unat (cq_head q) + unat (cq_occupancy q)) mod length (cq_elems q) := x])
      (unat (cq_head q)) (Suc (unat (cq_occupancy q)))"
    using cq_items_ring [OF cq_enqueue_inv [OF assms]] cq_enqueue_occupancy(1) [OF assms, of x] cq_enqueue_occupancy(2) [OF assms]
    by (simp add: cq_tail_slot [OF assms(1)] cq_enqueue_def Let_def)
  also have "\<dots> = cq_items q @ [x]"
    using cq_enqueue_occupancy(2) [OF assms]
    by (simp add: ring_slice_snoc cq_items_ring [OF assms(1)])
  finally show ?thesis .
qed

text \<open>Advancing the head drops items from the front.\<close>

lemma cq_advance:
  assumes inv: "cq_inv q" and n: "n \<le> cq_occupancy q"
  shows "cq_items (q\<lparr>cq_head := cq_head q + n\<rparr>) = drop (unat n) (cq_items q)"
    and "cq_inv (q\<lparr>cq_head := cq_head q + n\<rparr>)"
proof -
  let ?q = "q\<lparr>cq_head := cq_head q + n\<rparr>"
  have "cq_occupancy ?q = cq_occupancy q - n" by (simp add: cq_occupancy_def)
  then have occ: "unat (cq_occupancy ?q) = unat (cq_occupancy q) - unat n"
    using n by (simp add: unat_sub)
  show inv': "cq_inv ?q"
    using inv occ by (auto simp: cq_inv_def cq_occupancy_def)
  have "unat (cq_head q + n) mod length (cq_elems q) = (unat (cq_head q) + unat n) mod length (cq_elems q)"
    using cq_slot [OF inv, of "unat n"] cq_slot [OF inv', of 0] by simp
  then have "ring_slice (cq_elems q) (unat (cq_head q + n)) m =
      ring_slice (cq_elems q) (unat (cq_head q) + unat n) m" for m
    by (intro ring_slice_cong) simp
  then show "cq_items ?q = drop (unat n) (cq_items q)"
    by (simp add: cq_items_ring [OF inv'] cq_items_ring [OF inv] drop_ring_slice occ)
qed

lemma cq_peek_items:
  assumes "cq_inv q" and "\<not> cq_empty q"
  shows "cq_items q \<noteq> []" and "cq_peek q = hd (cq_items q)"
proof -
  have pos: "0 < unat (cq_occupancy q)"
    using assms(2) by (simp add: cq_empty_def cq_occupancy_def unat_gt_0)
  then show "cq_items q \<noteq> []" using cq_empty_iff assms(2) by blast
  show "cq_peek q = hd (cq_items q)"
    using pos cq_slot [OF assms(1), of 0]
    by (simp add: cq_items_ring [OF assms(1)] ring_slice_Cons cq_peek_def)
qed

lemma cq_dequeue_items:
  assumes "cq_inv q" and "\<not> cq_empty q"
  shows "cq_items q = fst (cq_dequeue q) # cq_items (snd (cq_dequeue q))"
    and "cq_inv (snd (cq_dequeue q))"
proof -
  have "1 \<le> cq_occupancy q"
    using assms(2) by (simp add: cq_empty_def cq_occupancy_def word_le_nat_alt unat_gt_0 Suc_le_eq)
  note adv = cq_advance [OF assms(1) this]
  have "cq_items q = cq_peek q # drop 1 (cq_items q)"
    using cq_peek_items [OF assms] by (cases "cq_items q") auto
  then show "cq_items q = fst (cq_dequeue q) # cq_items (snd (cq_dequeue q))"
    using adv(1) by (simp add: cq_dequeue_def cq_peek_def Let_def)
  show "cq_inv (snd (cq_dequeue q))"
    using adv(2) by (simp add: cq_dequeue_def Let_def)
qed

interpretation cq: bounded_fifo cq_inv cq_items
  "\<lambda>q _. length (cq_items q) < length (cq_elems q)" cq_put cq_get
proof (unfold_locales, goal_cases)
  case (1 q a q') then show ?case by (auto simp: cq_put_def cq_enqueue_inv split: if_splits)
next
  case (2 q a q') then show ?case by (auto simp: cq_put_def cq_enqueue_items split: if_splits)
next
  case (3 q a)
  then have "length (cq_items q) \<le> length (cq_elems q)"
    by (simp add: cq_inv_def length_cq_items cq_occupancy_def)
  then show ?case using cq_full_iff [OF 3] by (auto simp: cq_put_def)
next
  case (4 q a q')
  then show ?case using cq_dequeue_items(2) [of q] by (auto simp: cq_get_def split: if_splits)
next
  case (5 q a q')
  then show ?case using cq_dequeue_items(1) [of q] by (auto simp: cq_get_def split: if_splits)
next
  case (6 q) then show ?case by (simp add: cq_get_def cq_empty_iff)
qed

lemma cq_init_inv:
  assumes "cq_init q elems n = (0, q0)" and "n \<noteq> 0" and "length elems = unat n"
  shows "cq_inv q0" and "cq_items q0 = []" and "cq_elems q0 = elems"
proof -
  have n: "n AND (n - 1) = 0" and q0: "q0 = q\<lparr>cq_head := 0, cq_tail := 0, cq_mask := n - 1, cq_elems := elems\<rparr>"
    using assms(1) by (auto simp: cq_init_def errno_defs split: if_splits)
  obtain k where "k < 32" "n = 2 ^ k" using pow2_test [OF n assms(2)] by auto
  then have "pow2_mask (n - 1)" using pow2_mask_mask [of k, where 'a = 32] by (simp add: mask_eq_decr_exp)
  then show "cq_inv q0" using assms(3) by (simp add: q0 cq_inv_def)
qed (use assms in \<open>auto simp: cq_init_def cq_items_def errno_defs split: if_splits\<close>)

section \<open>Properties\<close>

text \<open>
  C7. A circular queue that \<open>cq_init\<close> accepted delivers in order. For every sequence of
  guarded enqueues and dequeues, whatever the wrap-around of the 32-bit counters, the
  elements dequeued followed by those still queued are the elements accepted, and never
  more than the capacity are queued.
\<close>

theorem cq_client_fifo:
  assumes "cq_init q elems n = (0, q0)" and "n \<noteq> 0" and "length elems = unat n"
    and "fifo_run cq_put cq_get ops q0 = (acc, del, t)"
  shows "del @ cq_items t = acc \<and> length (cq_items t) \<le> length (cq_elems t)"
proof -
  note init = cq_init_inv [OF assms(1-3)]
  from cq.run_fifo [OF init(1) assms(4)] have "cq_inv t" "del @ cq_items t = acc"
    by (simp_all add: init(2))
  then show ?thesis by (simp add: cq_inv_def length_cq_items cq_occupancy_def)
qed

definition cq_demo :: "u8 circular_queue" where
  "cq_demo = \<lparr>cq_head = 0, cq_tail = 0, cq_mask = 1, cq_elems = [0, 0]\<rparr>"

theorem cq_client_fifo_witness:
  "\<exists>t. fifo_run cq_put cq_get [Put 7, Put 8, Put 9, Get, Put 5] cq_demo = ([7, 8, 5], [7], t)
     \<and> [7] @ cq_items t = [7, 8, 5] \<and> length (cq_items t) \<le> length (cq_elems t)"
proof -
  have run: "\<exists>t. fifo_run cq_put cq_get [Put 7, Put 8, Put 9, Get, Put 5] cq_demo = ([7, 8, 5], [7], t)"
    by (simp add: cq_put_def cq_get_def cq_full_def cq_empty_def cq_occupancy_def cq_enqueue_def cq_dequeue_def
        cq_demo_def word_le_nat_alt)
  moreover have "cq_init cq_demo [0, 0] 2 = (0, cq_demo)" by (simp add: cq_init_def cq_demo_def)
  ultimately show ?thesis using cq_client_fifo [of cq_demo "[0, 0]" 2 cq_demo] by fastforce
qed

text \<open>
  C8. The counters report the contents. In a well-formed queue the occupancy and the space
  are the number of queued and of free slots, \<open>cq_empty\<close> and \<open>cq_full\<close> decide the two
  extremes, \<open>cq_peek\<close> is the oldest element, and \<open>cq_discard\<close> of at most the occupancy drops
  that many of the oldest elements and keeps the queue well formed.
\<close>

theorem cq_observers:
  assumes "cq_inv q" and "n \<le> cq_occupancy q"
  shows "unat (cq_occupancy q) = length (cq_items q)
    \<and> unat (cq_space q) = length (cq_elems q) - length (cq_items q)
    \<and> cq_empty q = (cq_items q = [])
    \<and> cq_full q = (length (cq_items q) = length (cq_elems q))
    \<and> (cq_items q \<noteq> [] \<longrightarrow> cq_peek q = hd (cq_items q))
    \<and> cq_inv (cq_discard q n) \<and> cq_items (cq_discard q n) = drop (unat n) (cq_items q)"
proof -
  have "cq_tail q - cq_head q \<le> cq_mask q + 1" using assms(1) by (simp add: cq_inv_def word_le_nat_alt)
  then have "unat (cq_space q) = unat (cq_mask q + 1) - unat (cq_occupancy q)"
    by (simp add: cq_space_def cq_occupancy_def unat_sub)
  then have "unat (cq_space q) = length (cq_elems q) - length (cq_items q)"
    using assms(1) by (simp add: cq_inv_def length_cq_items)
  then show ?thesis
    using cq_advance [OF assms] cq_peek_items(2) [OF assms(1)]
    by (simp add: cq_discard_def length_cq_items [symmetric] cq_full_iff [OF assms(1)] cq_empty_iff)
qed

theorem cq_observers_witness:
  "cq_items (cq_discard (cq_enqueue cq_demo 7) 1) = drop 1 (cq_items (cq_enqueue cq_demo 7))
    \<and> cq_items (cq_enqueue cq_demo 7) = [7] \<and> unat (cq_space (cq_enqueue cq_demo 7)) = 1"
proof -
  have "pow2_mask (1 :: u32)" using pow2_mask_mask [of 1, where 'a = 32] by (simp add: mask_eq_decr_exp)
  then have "cq_inv (cq_enqueue cq_demo 7)" by (simp add: cq_inv_def cq_enqueue_def cq_demo_def)
  moreover have "cq_occupancy (cq_enqueue cq_demo 7) = 1" "cq_items (cq_enqueue cq_demo 7) = [7]"
      "length (cq_elems (cq_enqueue cq_demo 7)) = 2"
    by (simp_all add: cq_occupancy_def cq_items_def cq_enqueue_def cq_demo_def)
  ultimately show ?thesis using cq_observers [of "cq_enqueue cq_demo 7" 1] by simp
qed

end
