(* ===== verification/Element_Queue.thy ===== *)
theory Element_Queue
  imports Fifo_Spec
begin

text \<open>
  \<^verbatim>\<open>src/util/element_queue.h\<close> and \<^verbatim>\<open>src/util/element_queue.c\<close>: a queue of byte
  strings of variable length in memory shared by one writer and one reader. The shared
  region (\<open>eq_memory\<close>) holds the four published counters, the ring of element lengths and
  the ring of payload bytes; each side has its own \<open>element_queue\<close> structure with its view
  of the counters.

  The first part is the model of every function of the component. The second part is the
  arithmetic of element placement. The third part is the composed system: a writer and a
  reader interleaved at the granularity of single loads and stores of the shared counters,
  with the invariant that makes delivery first-in first-out.
\<close>

unbundle bit_operations_syntax

section \<open>Model\<close>

record element_queue_shared =
  sh_elem_head :: u32
  sh_buf_head :: u32
  sh_elem_tail :: u32
  sh_buf_tail :: u32

record element_queue =
  elem_mask :: u32
  buf_mask :: u32
  elem_head :: u32
  buf_head :: u32
  elem_tail :: u32
  buf_tail :: u32

text \<open>The memory that the pointers \<^verbatim>\<open>shared\<close>, \<^verbatim>\<open>elems\<close> and \<^verbatim>\<open>data\<close> of the structure lead to.\<close>

record eq_memory =
  eq_shared :: element_queue_shared
  eq_elems :: "u32 list"
  eq_data :: "u8 list"

definition eq_next_offset_by_len :: "u32 \<Rightarrow> u32 \<Rightarrow> u32 \<Rightarrow> u32" where
  "eq_next_offset_by_len buf_offset bmask len =
     (if sint (((buf_offset + len - 1) AND NOT bmask) - (buf_offset AND NOT bmask)) > 0
      then (buf_offset + len - 1) AND NOT bmask
      else buf_offset)"

definition eq_init_shared :: "element_queue_shared \<Rightarrow> element_queue_shared" where
  "eq_init_shared shared =
     shared\<lparr>sh_elem_head := 0, sh_elem_tail := 0, sh_buf_head := 0, sh_buf_tail := 0\<rparr>"

text \<open>A pointer argument that the code compares with NULL is an option.\<close>

definition eq_init_contig ::
  "element_queue option \<Rightarrow> u32 \<Rightarrow> u32 \<Rightarrow> eq_memory option \<Rightarrow> cint \<times> element_queue option" where
  "eq_init_contig eq n_elems buf_len data =
     (case (eq, data) of
        (Some q, Some m) \<Rightarrow>
          if n_elems AND (n_elems - 1) \<noteq> 0 then (- EINVAL, eq)
          else if buf_len AND (buf_len - 1) \<noteq> 0 then (- EINVAL, eq)
          else (0, Some (q\<lparr>elem_mask := n_elems - 1, buf_mask := buf_len - 1,
                 elem_head := sh_elem_head (eq_shared m), elem_tail := sh_elem_tail (eq_shared m),
                 buf_head := sh_buf_head (eq_shared m), buf_tail := sh_buf_tail (eq_shared m)\<rparr>))
      | _ \<Rightarrow> (- EINVAL, eq))"

text \<open>Sixteen bytes of counters, four per element length, then the payload buffer.\<close>

definition eq_contig_size :: "u32 \<Rightarrow> u32 \<Rightarrow> u32" where
  "eq_contig_size n_elems buf_len = ucast (16 + 4 * ucast n_elems + ucast buf_len :: u64)"

text \<open>
  The asserted expression \<^verbatim>\<open>(int)tail - head >= 0\<close>: the cast applies to \<^verbatim>\<open>tail\<close> only, so
  the subtraction is one of unsigned operands.
\<close>

definition eq_assert_order :: "u32 \<Rightarrow> u32 \<Rightarrow> bool" where
  "eq_assert_order tail head \<longleftrightarrow> (0::u32) \<le> tail - head"

definition eq_start_write_batch :: "eq_memory \<Rightarrow> element_queue \<Rightarrow> element_queue" where
  "eq_start_write_batch m q =
     (let q = q\<lparr>elem_head := sh_elem_head (eq_shared m)\<rparr>
      in q\<lparr>buf_head := sh_buf_head (eq_shared m)\<rparr>)"

definition align8 :: "u32 \<Rightarrow> u32" where
  "align8 len = (len + 7) AND NOT 7"

definition eq_write ::
  "eq_memory \<Rightarrow> element_queue option \<Rightarrow> u32 \<Rightarrow> cint \<times> eq_memory \<times> element_queue option" where
  "eq_write m eq len =
     (let aligned_len = align8 len
      in case eq of
        None \<Rightarrow> (- EINVAL, m, eq)
      | Some q \<Rightarrow>
          if aligned_len > buf_mask q then (- EINVAL, m, eq)
          else if elem_tail q - elem_head q \<ge> elem_mask q + 1 then (- ENOSPC, m, eq)
          else
            (let tail = eq_next_offset_by_len (buf_tail q) (buf_mask q) aligned_len
             in if tail + aligned_len - buf_head q > buf_mask q + 1 then (- ENOSPC, m, eq)
                else (sint (tail AND buf_mask q),
                      m\<lparr>eq_elems := (eq_elems m)[unat (elem_tail q AND elem_mask q) := len]\<rparr>,
                      Some (q\<lparr>buf_tail := tail + aligned_len, elem_tail := elem_tail q + 1\<rparr>))))"

definition eq_finish_write_batch :: "eq_memory \<Rightarrow> element_queue \<Rightarrow> eq_memory" where
  "eq_finish_write_batch m q =
     (let m = m\<lparr>eq_shared := (eq_shared m)\<lparr>sh_buf_tail := buf_tail q\<rparr>\<rparr>
      in m\<lparr>eq_shared := (eq_shared m)\<lparr>sh_elem_tail := elem_tail q\<rparr>\<rparr>)"

definition eq_start_read_batch :: "eq_memory \<Rightarrow> element_queue \<Rightarrow> element_queue" where
  "eq_start_read_batch m q = q\<lparr>elem_tail := sh_elem_tail (eq_shared m)\<rparr>"

definition eq_peek :: "eq_memory \<Rightarrow> element_queue \<Rightarrow> cint" where
  "eq_peek m q =
     (if elem_tail q = elem_head q then - ENOENT
      else sint (eq_elems m ! unat (elem_head q AND elem_mask q)))"

text \<open>The second component is what is stored through \<^verbatim>\<open>lenp\<close> (\<^verbatim>\<open>None\<close>: the pointer is NULL).\<close>

definition eq_peek_offset :: "eq_memory \<Rightarrow> element_queue \<Rightarrow> u32 option \<Rightarrow> cint \<times> u32 option" where
  "eq_peek_offset m q lenp =
     (if elem_tail q = elem_head q then (- ENOENT, lenp)
      else
        (let len = eq_elems m ! unat (elem_head q AND elem_mask q);
             aligned_len = align8 len;
             offset = eq_next_offset_by_len (buf_head q) (buf_mask q) aligned_len
         in (sint (offset AND buf_mask q), map_option (\<lambda>_. len) lenp)))"

definition eq_read ::
  "eq_memory \<Rightarrow> element_queue option \<Rightarrow> u32 option \<Rightarrow> cint \<times> element_queue option \<times> u32 option" where
  "eq_read m eq lenp =
     (case (eq, lenp) of
        (Some q, Some _) \<Rightarrow>
          if elem_tail q = elem_head q then (- EAGAIN, eq, lenp)
          else
            (let len = eq_elems m ! unat (elem_head q AND elem_mask q);
                 aligned_len = align8 len;
                 offset = eq_next_offset_by_len (buf_head q) (buf_mask q) aligned_len
             in (sint (offset AND buf_mask q),
                 Some (q\<lparr>elem_head := elem_head q + 1, buf_head := offset + aligned_len\<rparr>),
                 Some len))
      | _ \<Rightarrow> (- EINVAL, eq, lenp))"

definition eq_finish_read_batch :: "eq_memory \<Rightarrow> element_queue \<Rightarrow> eq_memory" where
  "eq_finish_read_batch m q =
     (let m = m\<lparr>eq_shared := (eq_shared m)\<lparr>sh_buf_head := buf_head q\<rparr>\<rparr>
      in m\<lparr>eq_shared := (eq_shared m)\<lparr>sh_elem_head := elem_head q\<rparr>\<rparr>)"

text \<open>The two failed assertions are compiled out, so that their error returns are reached.\<close>

definition eq_move ::
  "eq_memory \<Rightarrow> element_queue \<Rightarrow> eq_memory \<Rightarrow> element_queue
    \<Rightarrow> cint \<times> eq_memory \<times> element_queue \<times> element_queue" where
  "eq_move mt to mf from =
     (let peek_len = eq_peek mf from
      in if peek_len < 0 then (- ENOENT, mt, to, from)
         else
           (case eq_write mt (Some to) (word_of_int peek_len) of (write_offset, mt', to') \<Rightarrow>
             if write_offset = - ENOSPC then (- ENOSPC, mt', the to', from)
             else if write_offset < 0 then (- ENOSYS, mt', the to', from)
             else
               (case eq_read mf (Some from) (Some 0) of (read_offset, from', lenp) \<Rightarrow>
                 if read_offset < 0 \<or> the lenp \<noteq> word_of_int peek_len
                 then (- ENOSYS, mt', the to', the from')
                 else
                   (sint (the lenp),
                    mt'\<lparr>eq_data := store_bytes (eq_data mt') (nat write_offset)
                           (load_bytes (eq_data mf) (nat read_offset) (unat (the lenp)))\<rparr>,
                    the to', the from'))))"

definition eq_elem_count :: "element_queue \<Rightarrow> u32" where
  "eq_elem_count q = elem_tail q - elem_head q"

definition eq_elem_capacity :: "element_queue \<Rightarrow> u32" where
  "eq_elem_capacity q = elem_mask q + 1"

definition eq_buf_used :: "element_queue \<Rightarrow> u32" where
  "eq_buf_used q = buf_tail q - buf_head q"

definition eq_buf_capacity :: "element_queue \<Rightarrow> u32" where
  "eq_buf_capacity q = buf_mask q + 1"

section \<open>Placement of elements\<close>

text \<open>
  On unbounded positions: an element of \<^term>\<open>a\<close> bytes that would cross the end of the
  buffer is moved to the next multiple of the buffer size \<^term>\<open>S\<close>.
\<close>

definition place :: "nat \<Rightarrow> nat \<Rightarrow> nat \<Rightarrow> nat" where
  "place S p a = (if p mod S + a \<le> S then p else p + (S - p mod S))"

lemma place_ge: "p \<le> place S p a"
  by (simp add: place_def)

lemma place_fits:
  assumes "0 < S" and "a \<le> S"
  shows "place S p a mod S + a \<le> S"
proof (cases "p mod S + a \<le> S")
  case False
  have "p + (S - p mod S) = S * (p div S) + S"
    using mod_less_divisor [OF assms(1), of p] mult_div_mod_eq [of S p] by linarith
  then have "(p + (S - p mod S)) mod S = 0" by (metis mod_add_self2 mod_mult_self1_is_0)
  with False assms show ?thesis by (simp add: place_def)
qed (simp add: place_def)

lemma align8_of_nat: "align8 (of_nat n) = of_nat (align8n n)"
proof -
  have "(7::u32) = mask 3" by (simp add: mask_eq_decr_exp)
  moreover have "(of_nat n + mask 3 :: u32) = of_nat (n + 7)" by (simp add: mask_eq_decr_exp)
  ultimately have "align8 (of_nat n) = (of_nat (n + 7) :: u32) AND NOT (mask 3)"
    by (simp add: align8_def)
  also have "\<dots> = of_nat (2 ^ 3 * ((n + 7) div 2 ^ 3))"
    by (rule of_nat_and_not_mask) simp
  finally show ?thesis by (simp add: align8n_def)
qed

lemma sint_neg_of_nat32: "n < 2 ^ 31 \<Longrightarrow> sint (- of_nat n :: u32) = - int n"
  using sint_of_nat32 [of n] by (simp add: sint_word_minus signed_take_bit_int_eq_self_iff)

lemma sint_pow2:
  assumes "k < 31"
  shows "sint (of_nat (2 ^ k) :: u32) = 2 ^ k"
proof -
  have "(2::nat) ^ k < 2 ^ 31" using assms by (intro power_strict_increasing) simp_all
  then show ?thesis by (simp only: sint_of_nat32) simp
qed

text \<open>
  The code decides by the sign of a 32-bit difference, which is why the buffer may have at
  most \<open>2 ^ 30\<close> bytes.
\<close>

lemma eq_next_offset_place:
  assumes k: "k \<le> 30" and a: "a < 2 ^ k"
  shows "eq_next_offset_by_len (of_nat p) (mask k) (of_nat a) = of_nat (place (2 ^ k) p a)"
proof (cases "a = 0")
  case True
  define S :: nat where "S = 2 ^ k"
  define q where "q = p + 2 ^ 32"
  have S0: "0 < S" by (simp add: S_def)
  have q: "(of_nat p :: u32) = of_nat q" by (simp add: q_def)
  have "(of_nat q - 1 :: u32) = of_nat (q - 1)" by (simp add: q_def)
  then have x: "(of_nat q - 1 :: u32) AND NOT (mask k) = of_nat (S * ((q - 1) div S))"
    using k by (simp add: S_def of_nat_and_not_mask del: of_nat_mult of_nat_power)
  have y: "(of_nat q :: u32) AND NOT (mask k) = of_nat (S * (q div S))"
    using k by (simp add: S_def of_nat_and_not_mask del: of_nat_mult of_nat_power)
  have "Suc (q - 1) = q" by (simp add: q_def)
  then consider "(q - 1) div S = q div S" | "q div S = (q - 1) div S + 1"
    using div_Suc [of "q - 1" S] by (cases "q mod S = 0") auto
  then have "sint (of_nat (S * ((q - 1) div S)) - of_nat (S * (q div S)) :: u32) \<le> 0"
  proof cases
    case 2
    then have "of_nat (S * ((q - 1) div S)) - of_nat (S * (q div S)) = (- of_nat S :: u32)"
      by (simp add: algebra_simps)
    moreover have "S < 2 ^ 31" unfolding S_def using k by (intro power_strict_increasing) simp_all
    ultimately show ?thesis using sint_neg_of_nat32 [of S] by simp
  qed simp
  then show ?thesis
    using True by (simp add: eq_next_offset_by_len_def q x y place_def)
next
  case False
  define S :: nat where "S = 2 ^ k"
  define n where "n = p + a - 1"
  have "(of_nat p + of_nat a - 1 :: u32) = of_nat n" using False by (simp add: n_def)
  then have x: "(of_nat p + of_nat a - 1 :: u32) AND NOT (mask k) = of_nat (S * (n div S))"
    using k by (simp add: S_def of_nat_and_not_mask del: of_nat_mult of_nat_power)
  have y: "(of_nat p :: u32) AND NOT (mask k) = of_nat (S * (p div S))"
    using k by (simp add: S_def of_nat_and_not_mask del: of_nat_mult of_nat_power)
  have S0: "0 < S" and aS: "a < S" by (simp_all add: S_def a)
  show ?thesis
  proof (cases "p mod S + a \<le> S")
    case True
    have "n = S * (p div S) + (p mod S + a - 1)" using False mult_div_mod_eq [of S p] by (simp add: n_def)
    moreover have "p mod S + a - 1 < S" using True False by linarith
    ultimately have "n div S = p div S" by (rule div_eqI)
    then show ?thesis
      using True by (simp add: eq_next_offset_by_len_def x y place_def S_def)
  next
    case over: False
    have "n = S * (p div S + 1) + (p mod S + a - 1 - S)"
      using over mult_div_mod_eq [of S p] by (simp add: n_def)
    moreover have "p mod S + a - 1 - S < S" using aS S0 mod_less_divisor [OF S0, of p] by linarith
    ultimately have nd: "n div S = p div S + 1" by (rule div_eqI)
    have d: "(of_nat (S * (n div S)) - of_nat (S * (p div S)) :: u32) = of_nat S"
      by (simp add: nd algebra_simps)
    have "sint (of_nat S :: u32) > 0" using sint_pow2 [of k] k by (simp add: S_def)
    then have "eq_next_offset_by_len (of_nat p) (mask k) (of_nat a) = of_nat (S * (n div S))"
      unfolding eq_next_offset_by_len_def x y d by (simp only: if_True)
    moreover have "S * (n div S) = p + (S - p mod S)"
      unfolding nd distrib_left using mult_div_mod_eq [of S p] mod_less_divisor [OF S0, of p] by linarith
    ultimately show ?thesis
      using over unfolding place_def S_def [symmetric] by (simp only: if_False)
  qed
qed

text \<open>
  Positions in the payload ring after the first \<^term>\<open>i\<close> elements, and the position where
  element \<^term>\<open>i\<close> starts, for elements of the lengths \<^term>\<open>ls\<close>.
\<close>

definition eq_end :: "nat \<Rightarrow> nat list \<Rightarrow> nat \<Rightarrow> nat" where
  "eq_end S ls i = foldl (\<lambda>p l. place S p (align8n l) + align8n l) 0 (take i ls)"

definition eq_begin :: "nat \<Rightarrow> nat list \<Rightarrow> nat \<Rightarrow> nat" where
  "eq_begin S ls i = place S (eq_end S ls i) (align8n (ls ! i))"

lemma eq_end_Suc: "i < length ls \<Longrightarrow> eq_end S ls (Suc i) = eq_begin S ls i + align8n (ls ! i)"
  by (simp add: eq_end_def eq_begin_def take_Suc_conv_app_nth)

lemma eq_end_append [simp]: "i \<le> length ls \<Longrightarrow> eq_end S (ls @ xs) i = eq_end S ls i"
  by (simp add: eq_end_def)

lemma eq_begin_append [simp]: "i < length ls \<Longrightarrow> eq_begin S (ls @ xs) i = eq_begin S ls i"
  by (simp add: eq_begin_def nth_append)

lemma eq_end_le_begin: "eq_end S ls i \<le> eq_begin S ls i"
  by (simp add: eq_begin_def place_ge)

lemma eq_end_mono: "i \<le> j \<Longrightarrow> j \<le> length ls \<Longrightarrow> eq_end S ls i \<le> eq_end S ls j"
proof (induction j rule: dec_induct)
  case (step j)
  then show ?case using eq_end_Suc [of j ls S] eq_end_le_begin [of S ls j] by simp
qed simp

lemma eq_begin_fits:
  "0 < S \<Longrightarrow> align8n (ls ! i) \<le> S \<Longrightarrow> eq_begin S ls i mod S + align8n (ls ! i) \<le> S"
  by (simp add: eq_begin_def place_fits)

section \<open>Writer and reader\<close>

text \<open>
  The composed system. \<open>es_sent\<close> and \<open>es_recvd\<close> record the payloads that the writer has
  put into the queue and the reader has taken out of it. Each load or store of a shared
  counter is a step of its own, so that the batches of the two sides interleave freely.
  The writer keeps to lengths below \<open>2 ^ 32 - 7\<close>: \<open>eq_write\<close> accepts a longer element as one
  of zero bytes, and its bytes would then go beyond the buffer.
\<close>

record eq_sys =
  es_mem :: eq_memory
  es_wr :: element_queue
  es_rd :: element_queue
  es_sent :: "u8 list list"
  es_recvd :: "u8 list list"

abbreviation es_sh :: "eq_sys \<Rightarrow> element_queue_shared" where
  "es_sh s \<equiv> eq_shared (es_mem s)"

inductive eq_step :: "eq_sys \<Rightarrow> eq_sys \<Rightarrow> bool" where
  w_load_elem_head:
    "eq_step s (s\<lparr>es_wr := (es_wr s)\<lparr>elem_head := sh_elem_head (es_sh s)\<rparr>\<rparr>)"
| w_load_buf_head:
    "eq_step s (s\<lparr>es_wr := (es_wr s)\<lparr>buf_head := sh_buf_head (es_sh s)\<rparr>\<rparr>)"
| w_write:
    "length bs + 7 < 2 ^ 32 \<Longrightarrow>
     eq_write (es_mem s) (Some (es_wr s)) (of_nat (length bs)) = (off, m', Some w') \<Longrightarrow> 0 \<le> off \<Longrightarrow>
     eq_step s (s\<lparr>es_mem := m'\<lparr>eq_data := store_bytes (eq_data m') (nat off) bs\<rparr>, es_wr := w',
                  es_sent := es_sent s @ [bs]\<rparr>)"
| w_store_buf_tail:
    "eq_step s (s\<lparr>es_mem := (es_mem s)\<lparr>eq_shared := (es_sh s)\<lparr>sh_buf_tail := buf_tail (es_wr s)\<rparr>\<rparr>\<rparr>)"
| w_store_elem_tail:
    "eq_step s (s\<lparr>es_mem := (es_mem s)\<lparr>eq_shared := (es_sh s)\<lparr>sh_elem_tail := elem_tail (es_wr s)\<rparr>\<rparr>\<rparr>)"
| r_load_elem_tail:
    "eq_step s (s\<lparr>es_rd := (es_rd s)\<lparr>elem_tail := sh_elem_tail (es_sh s)\<rparr>\<rparr>)"
| r_read:
    "eq_read (es_mem s) (Some (es_rd s)) (Some l) = (off, Some r', Some len) \<Longrightarrow> 0 \<le> off \<Longrightarrow>
     eq_step s (s\<lparr>es_rd := r',
                  es_recvd := es_recvd s @ [load_bytes (eq_data (es_mem s)) (nat off) (unat len)]\<rparr>)"
| r_store_buf_head:
    "eq_step s (s\<lparr>es_mem := (es_mem s)\<lparr>eq_shared := (es_sh s)\<lparr>sh_buf_head := buf_head (es_rd s)\<rparr>\<rparr>\<rparr>)"
| r_store_elem_head:
    "eq_step s (s\<lparr>es_mem := (es_mem s)\<lparr>eq_shared := (es_sh s)\<lparr>sh_elem_head := elem_head (es_rd s)\<rparr>\<rparr>\<rparr>)"

text \<open>
  The initial state: the memory after \<open>eq_init_shared\<close>, both sides attached to it with
  \<open>eq_init_contig\<close>, for rings of \<open>2 ^ ke\<close> elements and \<open>2 ^ kb\<close> bytes.
\<close>

definition eq_start :: "nat \<Rightarrow> nat \<Rightarrow> eq_memory \<Rightarrow> element_queue \<Rightarrow> element_queue \<Rightarrow> eq_sys" where
  "eq_start ke kb m w r =
     (let m0 = m\<lparr>eq_shared := eq_init_shared (eq_shared m)\<rparr>
      in \<lparr>es_mem = m0,
          es_wr = the (snd (eq_init_contig (Some w) (2 ^ ke) (2 ^ kb) (Some m0))),
          es_rd = the (snd (eq_init_contig (Some r) (2 ^ ke) (2 ^ kb) (Some m0))),
          es_sent = [], es_recvd = []\<rparr>)"

inductive eq_reachable :: "eq_sys \<Rightarrow> eq_sys \<Rightarrow> bool" for s0 where
  start: "eq_reachable s0 s0"
| step: "eq_reachable s0 s \<Longrightarrow> eq_step s t \<Longrightarrow> eq_reachable s0 t"

text \<open>
  The invariant, for cursors that say which element each counter refers to: the writer's
  copies of the heads (\<open>weh\<close>, \<open>wbh\<close>), the published heads (\<open>seh\<close>, \<open>sbh\<close>), the reader's
  copy of the tail (\<open>rt\<close>) and the published tail (\<open>st\<close>).
\<close>

definition eq_ok ::
  "nat \<Rightarrow> nat \<Rightarrow> nat \<Rightarrow> nat \<Rightarrow> nat \<Rightarrow> nat \<Rightarrow> nat \<Rightarrow> nat \<Rightarrow> eq_sys \<Rightarrow> bool" where
  "eq_ok ke kb weh wbh seh sbh rt st s \<longleftrightarrow>
     (let S = 2 ^ kb; E = 2 ^ ke; m = es_mem s; w = es_wr s; r = es_rd s; sh = es_sh s;
          N = length (es_sent s); R = length (es_recvd s); ls = map length (es_sent s)
      in elem_mask w = mask ke \<and> buf_mask w = mask kb \<and> elem_mask r = mask ke \<and> buf_mask r = mask kb
       \<and> length (eq_elems m) = E \<and> length (eq_data m) = S
       \<and> elem_head w = of_nat weh \<and> buf_head w = of_nat (eq_end S ls wbh)
       \<and> elem_tail w = of_nat N \<and> buf_tail w = of_nat (eq_end S ls N)
       \<and> sh_elem_head sh = of_nat seh \<and> sh_buf_head sh = of_nat (eq_end S ls sbh)
       \<and> sh_elem_tail sh = of_nat st \<and> elem_tail r = of_nat rt
       \<and> elem_head r = of_nat R \<and> buf_head r = of_nat (eq_end S ls R)
       \<and> weh \<le> seh \<and> seh \<le> R \<and> wbh \<le> sbh \<and> sbh \<le> R \<and> R \<le> rt \<and> rt \<le> st \<and> st \<le> N
       \<and> N - weh \<le> E \<and> eq_end S ls N - eq_end S ls wbh \<le> S
       \<and> (\<forall>i<N. align8n (ls ! i) < S \<and> ls ! i + 7 < 2 ^ 32)
       \<and> (\<forall>i. weh \<le> i \<and> i < N \<longrightarrow> eq_elems m ! (i mod E) = of_nat (ls ! i))
       \<and> (\<forall>i. wbh \<le> i \<and> i < N \<longrightarrow>
            load_bytes (eq_data m) (eq_begin S ls i mod S) (ls ! i) = es_sent s ! i)
       \<and> take R (es_sent s) = es_recvd s)"

lemma eq_ok_start:
  assumes "ke \<le> 31" and "kb \<le> 30" and "length (eq_elems m) = 2 ^ ke" and "length (eq_data m) = 2 ^ kb"
  shows "eq_ok ke kb 0 0 0 0 0 0 (eq_start ke kb m w r)"
  using assms by (simp add: eq_ok_def eq_start_def Let_def eq_init_contig_def eq_init_shared_def
      pow2_and_pred mask_eq_decr_exp eq_end_def)

text \<open>The steps that copy a counter move one cursor.\<close>

lemma eq_ok_copies:
  assumes "eq_ok ke kb weh wbh seh sbh rt st s"
  shows "eq_ok ke kb seh wbh seh sbh rt st (s\<lparr>es_wr := (es_wr s)\<lparr>elem_head := sh_elem_head (es_sh s)\<rparr>\<rparr>)"
    and "eq_ok ke kb weh sbh seh sbh rt st (s\<lparr>es_wr := (es_wr s)\<lparr>buf_head := sh_buf_head (es_sh s)\<rparr>\<rparr>)"
    and "eq_ok ke kb weh wbh seh sbh rt st
           (s\<lparr>es_mem := (es_mem s)\<lparr>eq_shared := (es_sh s)\<lparr>sh_buf_tail := buf_tail (es_wr s)\<rparr>\<rparr>\<rparr>)"
    and "eq_ok ke kb weh wbh seh sbh rt (length (es_sent s))
           (s\<lparr>es_mem := (es_mem s)\<lparr>eq_shared := (es_sh s)\<lparr>sh_elem_tail := elem_tail (es_wr s)\<rparr>\<rparr>\<rparr>)"
    and "eq_ok ke kb weh wbh seh sbh st st (s\<lparr>es_rd := (es_rd s)\<lparr>elem_tail := sh_elem_tail (es_sh s)\<rparr>\<rparr>)"
    and "eq_ok ke kb weh wbh seh (length (es_recvd s)) rt st
           (s\<lparr>es_mem := (es_mem s)\<lparr>eq_shared := (es_sh s)\<lparr>sh_buf_head := buf_head (es_rd s)\<rparr>\<rparr>\<rparr>)"
    and "eq_ok ke kb weh wbh (length (es_recvd s)) sbh rt st
           (s\<lparr>es_mem := (es_mem s)\<lparr>eq_shared := (es_sh s)\<lparr>sh_elem_head := elem_head (es_rd s)\<rparr>\<rparr>\<rparr>)"
proof -
  let ?E = "eq_end (2 ^ kb) (map length (es_sent s))"
  have "?E wbh \<le> ?E sbh"
    using assms by (intro eq_end_mono) (simp_all add: eq_ok_def Let_def)
  note * = assms [unfolded eq_ok_def Let_def] this
  show "eq_ok ke kb seh wbh seh sbh rt st (s\<lparr>es_wr := (es_wr s)\<lparr>elem_head := sh_elem_head (es_sh s)\<rparr>\<rparr>)"
    using * by (elim conjE) (simp add: eq_ok_def Let_def)
  show "eq_ok ke kb weh sbh seh sbh rt st (s\<lparr>es_wr := (es_wr s)\<lparr>buf_head := sh_buf_head (es_sh s)\<rparr>\<rparr>)"
    using * by (elim conjE) (simp add: eq_ok_def Let_def)
  show "eq_ok ke kb weh wbh seh sbh rt st
           (s\<lparr>es_mem := (es_mem s)\<lparr>eq_shared := (es_sh s)\<lparr>sh_buf_tail := buf_tail (es_wr s)\<rparr>\<rparr>\<rparr>)"
    using * by (elim conjE) (simp add: eq_ok_def Let_def)
  show "eq_ok ke kb weh wbh seh sbh rt (length (es_sent s))
           (s\<lparr>es_mem := (es_mem s)\<lparr>eq_shared := (es_sh s)\<lparr>sh_elem_tail := elem_tail (es_wr s)\<rparr>\<rparr>\<rparr>)"
    using * by (elim conjE) (simp add: eq_ok_def Let_def)
  show "eq_ok ke kb weh wbh seh sbh st st (s\<lparr>es_rd := (es_rd s)\<lparr>elem_tail := sh_elem_tail (es_sh s)\<rparr>\<rparr>)"
    using * by (elim conjE) (simp add: eq_ok_def Let_def)
  show "eq_ok ke kb weh wbh seh (length (es_recvd s)) rt st
           (s\<lparr>es_mem := (es_mem s)\<lparr>eq_shared := (es_sh s)\<lparr>sh_buf_head := buf_head (es_rd s)\<rparr>\<rparr>\<rparr>)"
    using * by (elim conjE) (simp add: eq_ok_def Let_def)
  show "eq_ok ke kb weh wbh (length (es_recvd s)) sbh rt st
           (s\<lparr>es_mem := (es_mem s)\<lparr>eq_shared := (es_sh s)\<lparr>sh_elem_head := elem_head (es_rd s)\<rparr>\<rparr>\<rparr>)"
    using * by (elim conjE) (simp add: eq_ok_def Let_def)
qed

text \<open>What a reader that sees an element gets from \<open>eq_read\<close>.\<close>

lemma eq_read_ok:
  assumes ok: "eq_ok ke kb weh wbh seh sbh rt st s" and k: "ke \<le> 31" "kb \<le> 30"
    and ne: "elem_tail (es_rd s) \<noteq> elem_head (es_rd s)"
  defines "S \<equiv> 2 ^ kb" and "ls \<equiv> map length (es_sent s)" and "R \<equiv> length (es_recvd s)"
  shows "R < rt" and "R < length (es_sent s)"
    and "eq_read (es_mem s) (Some (es_rd s)) (Some l) =
      (int (eq_begin S ls R mod S),
       Some ((es_rd s)\<lparr>elem_head := of_nat (Suc R), buf_head := of_nat (eq_end S ls (Suc R))\<rparr>),
       Some (of_nat (ls ! R)))"
    and "eq_begin S ls R mod S + ls ! R \<le> S" and "ls ! R + 7 < 2 ^ 32"
    and "load_bytes (eq_data (es_mem s)) (eq_begin S ls R mod S) (ls ! R) = es_sent s ! R"
proof -
  note * = ok [unfolded eq_ok_def Let_def, folded S_def ls_def R_def]
  have tl: "elem_tail (es_rd s) = of_nat rt" "elem_head (es_rd s) = of_nat R"
      "buf_head (es_rd s) = of_nat (eq_end S ls R)" "elem_mask (es_rd s) = mask ke"
      "buf_mask (es_rd s) = mask kb"
    and ord: "R \<le> rt" "rt \<le> length (es_sent s)" "weh \<le> R" "wbh \<le> R"
    using * by (simp_all only: ) linarith+
  have "R \<noteq> rt" using ne by (auto simp: tl)
  then show Rrt: "R < rt" and R: "R < length (es_sent s)" using ord by linarith+
  have Rl: "R < length ls" using R by (simp add: ls_def)
  have slot: "unat (of_nat R AND mask ke :: u32) = R mod 2 ^ ke"
    using k by (simp add: unat_of_nat_and_mask)
  have l: "eq_elems (es_mem s) ! (R mod 2 ^ ke) = of_nat (ls ! R)" using * R ord(3) by blast
  have a: "align8n (ls ! R) < S" "ls ! R + 7 < 2 ^ 32" using * R by blast+
  then show "ls ! R + 7 < 2 ^ 32" by simp
  have next_off: "eq_next_offset_by_len (of_nat (eq_end S ls R)) (mask kb) (of_nat (align8n (ls ! R)))
      = of_nat (eq_begin S ls R)"
    using eq_next_offset_place [OF k(2) a(1) [unfolded S_def]] by (simp add: S_def eq_begin_def)
  have m: "of_nat (eq_begin S ls R) AND mask kb = (of_nat (eq_begin S ls R mod S) :: u32)"
    using k by (simp add: of_nat_and_mask S_def)
  have "eq_begin S ls R mod S < S" by (simp add: S_def)
  moreover have "S < 2 ^ 31" unfolding S_def using k by (intro power_strict_increasing) simp_all
  ultimately have "sint (of_nat (eq_begin S ls R mod S) :: u32) = int (eq_begin S ls R mod S)"
    by (intro sint_of_nat32) linarith
  then show "eq_read (es_mem s) (Some (es_rd s)) (Some l) =
      (int (eq_begin S ls R mod S),
       Some ((es_rd s)\<lparr>elem_head := of_nat (Suc R), buf_head := of_nat (eq_end S ls (Suc R))\<rparr>),
       Some (of_nat (ls ! R)))"
    using ne Rl by (simp add: eq_read_def slot l align8_of_nat next_off m Let_def eq_end_Suc tl add.commute)
  show "eq_begin S ls R mod S + ls ! R \<le> S"
    using eq_begin_fits [of S ls R] a(1) align8n_ge [of "ls ! R"] by (simp add: S_def)
  show "load_bytes (eq_data (es_mem s)) (eq_begin S ls R mod S) (ls ! R) = es_sent s ! R"
    using * R ord(4) by blast
qed

lemma eq_ok_read:
  assumes ok: "eq_ok ke kb weh wbh seh sbh rt st s" and k: "ke \<le> 31" "kb \<le> 30"
    and rd: "eq_read (es_mem s) (Some (es_rd s)) (Some l) = (off, Some r', Some len)" and off: "0 \<le> off"
  shows "eq_ok ke kb weh wbh seh sbh rt st
    (s\<lparr>es_rd := r', es_recvd := es_recvd s @ [load_bytes (eq_data (es_mem s)) (nat off) (unat len)]\<rparr>)"
proof -
  note * = ok [unfolded eq_ok_def Let_def]
  have ne: "elem_tail (es_rd s) \<noteq> elem_head (es_rd s)" 
    using rd off by (auto simp: eq_read_def errno_defs)
  note r = eq_read_ok [OF ok k ne]
  have "unat len = map length (es_sent s) ! length (es_recvd s)"
    using rd r(3) [of l] r(5) by (auto simp: unat_of_nat)
  then have "load_bytes (eq_data (es_mem s)) (nat off) (unat len) = es_sent s ! length (es_recvd s)"
    using rd r(3) [of l] r(6) by auto
  moreover have "r' = (es_rd s)\<lparr>elem_head := of_nat (Suc (length (es_recvd s))),
      buf_head := of_nat (eq_end (2 ^ kb) (map length (es_sent s)) (Suc (length (es_recvd s))))\<rparr>"
    using rd r(3) [of l] by simp
  ultimately show ?thesis using * r(1,2)
    by (elim conjE) (simp add: eq_ok_def Let_def take_Suc_conv_app_nth)
qed

text \<open>
  What \<open>eq_write\<close> does, on every branch, with its counters read as unbounded positions: a
  writer that has issued \<^term>\<open>N\<close> elements up to position \<^term>\<open>p\<close>, and knows that the reader
  has released \<^term>\<open>e\<close> elements and the bytes below \<^term>\<open>h\<close>.
\<close>

definition eq_view :: "nat \<Rightarrow> nat \<Rightarrow> nat \<Rightarrow> nat \<Rightarrow> nat \<Rightarrow> nat \<Rightarrow> element_queue \<Rightarrow> bool" where
  "eq_view ke kb e N h p w \<longleftrightarrow>
     elem_mask w = mask ke \<and> buf_mask w = mask kb \<and>
     elem_head w = of_nat e \<and> elem_tail w = of_nat N \<and> buf_head w = of_nat h \<and> buf_tail w = of_nat p \<and>
     e \<le> N \<and> N - e \<le> 2 ^ ke \<and> h \<le> p \<and> p - h \<le> 2 ^ kb"

lemma place_le: "0 < S \<Longrightarrow> place S p a \<le> p + S"
  by (simp add: place_def)

text \<open>
  The padded length is computed in 32 bits: for the last seven lengths it wraps to zero.
\<close>

definition padded :: "u32 \<Rightarrow> nat" where
  "padded len = (if unat len + 7 < 2 ^ 32 then align8n (unat len) else 0)"

lemma align8_padded: "align8 len = of_nat (padded len)"
proof (cases "unat len + 7 < 2 ^ 32")
  case True
  then show ?thesis using align8_of_nat [of "unat len"] by (simp add: padded_def)
next
  case False
  have "unat len < 2 ^ LENGTH(32)" by (rule unsigned_less)
  with False have "(unat len + 7) div 8 = 2 ^ 29" by (intro div_nat_eqI) simp_all
  then have "align8n (unat len) = 2 ^ 32" by (simp add: align8n_def)
  moreover have "(of_nat (2 ^ 32) :: u32) = 0" by (simp only: word_of_nat_eq_0_iff) simp
  ultimately show ?thesis using False align8_of_nat [of "unat len"] by (simp add: padded_def)
qed

lemma padded_less: "padded len < 2 ^ 32"
  using align8n_le [of "unat len"] by (simp add: padded_def)

lemma padded_of_nat: "L + 7 < 2 ^ 32 \<Longrightarrow> padded (of_nat L) = align8n L"
  by (simp add: padded_def unat_of_nat)

lemma eq_write_padded:
  fixes len :: u32
  assumes k: "ke \<le> 31" "kb \<le> 30" and v: "eq_view ke kb e N h p w"
  defines "S \<equiv> 2 ^ kb" and "a \<equiv> padded len"
  shows "eq_write m (Some w) len =
    (if S \<le> a then (- EINVAL, m, Some w)
     else if N - e = 2 ^ ke then (- ENOSPC, m, Some w)
     else if S < place S p a + a - h then (- ENOSPC, m, Some w)
     else (int (place S p a mod S), m\<lparr>eq_elems := (eq_elems m)[N mod 2 ^ ke := len]\<rparr>,
           Some (w\<lparr>buf_tail := of_nat (place S p a + a), elem_tail := of_nat (Suc N)\<rparr>)))"
proof -
  note w = v [unfolded eq_view_def]
  have S: "0 < S" "S \<le> 2 ^ 30" using k by (simp_all add: S_def power_increasing [of kb 30 "2::nat", simplified])
  have E: "(2::nat) ^ ke \<le> 2 ^ 31" using k by (intro power_increasing) simp_all
  have a32: "a < 2 ^ 32" unfolding a_def by (rule padded_less)
  have um: "unat (mask kb :: u32) = S - 1" "unat (mask ke :: u32) = 2 ^ ke - 1"
    using k by (simp_all add: S_def unat_mask)
  have m1: "(mask kb :: u32) + 1 = of_nat S" "(mask ke :: u32) + 1 = of_nat (2 ^ ke)"
    by (simp_all add: S_def mask_eq_decr_exp)
  have "(of_nat a :: u32) > mask kb \<longleftrightarrow> S \<le> a"
    using S(1) a32 by (auto simp: word_less_nat_alt um unat_of_nat)
  moreover have "elem_tail w - elem_head w \<ge> mask ke + 1 \<longleftrightarrow> N - e = 2 ^ ke"
  proof -
    have "unat (of_nat (2 ^ ke) :: u32) = 2 ^ ke" using E by (simp add: unat_of_nat del: of_nat_power)
    moreover have "unat (of_nat N - of_nat e :: u32) = N - e"
      using w E by (intro unat_counter_diff) auto
    ultimately show ?thesis using w by (simp add: m1 word_le_nat_alt del: of_nat_power) linarith
  qed
  moreover have "of_nat (place S p a) + of_nat a - buf_head w > mask kb + 1 \<longleftrightarrow> S < place S p a + a - h"
    if "a < S"
  proof -
    have "place S p a \<le> p + S" using S(1) by (rule place_le)
    then have "unat (of_nat (place S p a + a) - of_nat h :: u32) = place S p a + a - h"
      using w S that place_ge [of p S a] by (intro unat_counter_diff) (auto simp: S_def)
    moreover have "unat (of_nat S :: u32) = S" using S(2) by (simp add: unat_of_nat)
    ultimately show ?thesis using w by (simp add: m1 word_less_nat_alt)
  qed
  moreover have "eq_next_offset_by_len (buf_tail w) (mask kb) (of_nat a) = of_nat (place S p a)" if "a < S"
    using w eq_next_offset_place [OF k(2) that [unfolded S_def]] by (simp add: S_def)
  moreover have "unat (elem_tail w AND mask ke) = N mod 2 ^ ke"
    using w k by (simp add: unat_of_nat_and_mask)
  moreover have "sint (of_nat (place S p a) AND mask kb :: u32) = int (place S p a mod S)"
  proof -
    have "place S p a mod S < 2 ^ 31" using mod_less_divisor [OF S(1), of "place S p a"] S(2) by simp
    then show ?thesis using k by (simp add: of_nat_and_mask S_def sint_of_nat32)
  qed
  ultimately show ?thesis
    using w by (simp add: eq_write_def align8_padded a_def [symmetric] Let_def not_le add.commute)
qed

lemma eq_write_view:
  assumes "ke \<le> 31" "kb \<le> 30" and "eq_view ke kb e N h p w" and "L + 7 < 2 ^ 32"
  defines "S \<equiv> 2 ^ kb" and "a \<equiv> align8n L"
  shows "eq_write m (Some w) (of_nat L) =
    (if S \<le> a then (- EINVAL, m, Some w)
     else if N - e = 2 ^ ke then (- ENOSPC, m, Some w)
     else if S < place S p a + a - h then (- ENOSPC, m, Some w)
     else (int (place S p a mod S), m\<lparr>eq_elems := (eq_elems m)[N mod 2 ^ ke := of_nat L]\<rparr>,
           Some (w\<lparr>buf_tail := of_nat (place S p a + a), elem_tail := of_nat (Suc N)\<rparr>)))"
  using eq_write_padded [OF assms(1-3), of m "of_nat L"] padded_of_nat [OF assms(4)] by (simp add: S_def a_def)

lemma eq_ok_view:
  assumes "eq_ok ke kb weh wbh seh sbh rt st s"
  defines "F \<equiv> eq_end (2 ^ kb) (map length (es_sent s))"
  shows "eq_view ke kb weh (length (es_sent s)) (F wbh) (F (length (es_sent s))) (es_wr s)"
proof -
  note * = assms(1) [unfolded eq_ok_def Let_def]
  have "F wbh \<le> F (length (es_sent s))"
    using * unfolding F_def by (elim conjE, intro eq_end_mono) (simp_all del: length_0_conv)
  then show ?thesis using * unfolding F_def eq_view_def by (elim conjE) simp
qed

text \<open>A new payload does not touch an element that the writer still has to count as unread.\<close>

lemma eq_store_keeps:
  assumes S: "0 < S" "length d = S" and i: "wbh \<le> i" "i < length ls"
    and fit: "\<forall>j < length ls. align8n (ls ! j) < S"
    and a: "align8n (length bs) < S"
    and room: "place S (eq_end S ls (length ls)) (align8n (length bs)) + align8n (length bs)
      - eq_end S ls wbh \<le> S"
  shows "load_bytes (store_bytes d (place S (eq_end S ls (length ls)) (align8n (length bs)) mod S) bs)
      (eq_begin S ls i mod S) (ls ! i) = load_bytes d (eq_begin S ls i mod S) (ls ! i)"
proof -
  define q where "q = place S (eq_end S ls (length ls)) (align8n (length bs))"
  have "eq_end S ls (Suc i) \<le> eq_end S ls (length ls)" using i by (intro eq_end_mono) simp_all
  then have b: "eq_begin S ls i + align8n (ls ! i) \<le> q"
    using i(2) place_ge [of "eq_end S ls (length ls)" S "align8n (length bs)"] by (simp add: eq_end_Suc q_def)
  have "eq_end S ls wbh \<le> eq_begin S ls i"
    using eq_end_mono [of wbh i ls S] eq_end_le_begin [of S ls i] i by linarith
  then have t: "q + align8n (length bs) \<le> eq_begin S ls i + S" using room by (simp add: q_def)
  have f1: "eq_begin S ls i mod S + align8n (ls ! i) \<le> S"
    using fit i S(1) by (intro eq_begin_fits) auto
  have f2: "q mod S + align8n (length bs) \<le> S" unfolding q_def using S(1) a by (intro place_fits) simp_all
  show ?thesis
    unfolding q_def [symmetric]
    using ring_disjoint [OF S(1) b t f1 f2] align8n_ge [of "length bs"] align8n_ge [of "ls ! i"] f1 f2 S(2)
    by (intro load_store_disjoint) linarith+
qed

lemma eq_ok_write:
  assumes ok: "eq_ok ke kb weh wbh seh sbh rt st s" and k: "ke \<le> 31" "kb \<le> 30"
    and L: "length bs + 7 < 2 ^ 32"
    and wr: "eq_write (es_mem s) (Some (es_wr s)) (of_nat (length bs)) = (off, m', Some w')" "0 \<le> off"
  shows "eq_ok ke kb weh wbh seh sbh rt st
    (s\<lparr>es_mem := m'\<lparr>eq_data := store_bytes (eq_data m') (nat off) bs\<rparr>, es_wr := w',
       es_sent := es_sent s @ [bs]\<rparr>)"
proof -
  define S :: nat where "S = 2 ^ kb"
  define ls where "ls = map length (es_sent s)"
  define a where "a = align8n (length bs)"
  define q where "q = place S (eq_end S ls (length ls)) a"
  note * = ok [unfolded eq_ok_def Let_def, folded S_def ls_def]
  have len: "length (es_sent s) = length ls" by (simp add: ls_def)
  have S0: "0 < S" by (simp add: S_def)
  note view = eq_ok_view [OF ok, folded S_def ls_def, unfolded len]
  note out = eq_write_view [OF k view L, of "es_mem s", folded S_def a_def, folded q_def]
  have c: "a < S" "length ls - weh \<noteq> 2 ^ ke" "q + a - eq_end S ls wbh \<le> S"
    using wr unfolding out by (auto simp: errno_defs split: if_splits)
  then have r: "off = int (q mod S)"
      "m' = (es_mem s)\<lparr>eq_elems := (eq_elems (es_mem s))[length ls mod 2 ^ ke := of_nat (length bs)]\<rparr>"
      "w' = (es_wr s)\<lparr>buf_tail := of_nat (q + a), elem_tail := of_nat (Suc (length ls))\<rparr>"
    using wr unfolding out by (auto split: if_splits)
  have e: "eq_end S (ls @ [length bs]) (Suc (length ls)) = q + a"
    by (subst eq_end_Suc) (simp_all add: eq_begin_def q_def a_def)
  have b: "eq_begin S (ls @ [length bs]) (length ls) = q"
    by (simp add: eq_begin_def q_def a_def)
  have fit: "\<forall>j < length ls. align8n (ls ! j) < S" using * by (simp add: len)
  have keep: "load_bytes (store_bytes (eq_data (es_mem s)) (q mod S) bs) (eq_begin S ls i mod S) (ls ! i)
      = es_sent s ! i" if "wbh \<le> i" "i < length ls" for i
    using eq_store_keeps [OF S0 _ that fit, of "eq_data (es_mem s)" bs] c that *
    by (simp add: len a_def q_def)
  have f2: "q mod S + length bs \<le> S"
    using place_fits [OF S0, of a "eq_end S ls (length ls)"] c(1) align8n_ge [of "length bs"]
    by (simp add: q_def a_def)
  then have new: "load_bytes (store_bytes (eq_data (es_mem s)) (q mod S) bs) (q mod S) (length bs) = bs"
    using * by (intro load_store_same) simp
  have lt: "length ls - weh < 2 ^ ke" using c(2) * by (simp add: len)
  have slots: "(eq_elems (es_mem s))[length ls mod 2 ^ ke := of_nat (length bs)] ! (i mod 2 ^ ke)
      = of_nat ((ls @ [length bs]) ! i)" if i: "weh \<le> i" "i < Suc (length ls)" for i
  proof (cases "i = length ls")
    case False
    have "length ls - i < 2 ^ ke" using lt i by linarith
    then have "i mod 2 ^ ke \<noteq> length ls mod 2 ^ ke"
      using slot_inj_le [of i 0 "2 ^ ke" "length ls - i"] i False by auto
    then show ?thesis using * i False by (simp add: len nth_append)
  qed (use * in simp)
  have fits: "\<forall>i < Suc (length ls). align8n ((ls @ [length bs]) ! i) < S \<and> (ls @ [length bs]) ! i + 7 < 2 ^ 32"
    using * c(1) L by (simp add: less_Suc_eq nth_append len a_def)
  have data: "load_bytes (store_bytes (eq_data (es_mem s)) (q mod S) bs)
      (eq_begin S (ls @ [length bs]) i mod S) ((ls @ [length bs]) ! i) = (es_sent s @ [bs]) ! i"
    if "wbh \<le> i" "i < Suc (length ls)" for i
    using that keep [of i] new by (cases "i = length ls") (simp_all add: b nth_append len)
  have N: "Suc (length ls) - weh \<le> 2 ^ ke" using lt by linarith
  have dl: "length (store_bytes (eq_data (es_mem s)) (q mod S) bs) = S"
    using * f2 by (simp add: length_store_bytes)
  have lens: "map length (es_sent s @ [bs]) = ls @ [length bs]" "length (es_sent s @ [bs]) = Suc (length ls)"
    by (simp_all add: ls_def)
  show ?thesis
    unfolding eq_ok_def Let_def S_def [symmetric]
    using * c(3) fits data slots N dl
    by (elim conjE, intro conjI) (simp_all add: r e lens len del: map_append length_append nth_append)
qed

text \<open>Every step keeps the invariant, for some cursors.\<close>

definition eq_sys_inv :: "nat \<Rightarrow> nat \<Rightarrow> eq_sys \<Rightarrow> bool" where
  "eq_sys_inv ke kb s \<longleftrightarrow> (\<exists>weh wbh seh sbh rt st. eq_ok ke kb weh wbh seh sbh rt st s)"

lemma eq_step_inv:
  assumes "eq_step s t" and "eq_sys_inv ke kb s" and k: "ke \<le> 31" "kb \<le> 30"
  shows "eq_sys_inv ke kb t"
proof -
  from assms(2) obtain weh wbh seh sbh rt st where ok: "eq_ok ke kb weh wbh seh sbh rt st s"
    by (auto simp: eq_sys_inv_def)
  from assms(1) show ?thesis unfolding eq_sys_inv_def
  proof cases
    case w_load_elem_head then show "\<exists>weh wbh seh sbh rt st. eq_ok ke kb weh wbh seh sbh rt st t"
      using eq_ok_copies(1) [OF ok] by blast
  next
    case w_load_buf_head then show "\<exists>weh wbh seh sbh rt st. eq_ok ke kb weh wbh seh sbh rt st t"
      using eq_ok_copies(2) [OF ok] by blast
  next
    case w_write then show "\<exists>weh wbh seh sbh rt st. eq_ok ke kb weh wbh seh sbh rt st t"
      using eq_ok_write [OF ok k] by blast
  next
    case w_store_buf_tail then show "\<exists>weh wbh seh sbh rt st. eq_ok ke kb weh wbh seh sbh rt st t"
      using eq_ok_copies(3) [OF ok] by blast
  next
    case w_store_elem_tail then show "\<exists>weh wbh seh sbh rt st. eq_ok ke kb weh wbh seh sbh rt st t"
      using eq_ok_copies(4) [OF ok] by blast
  next
    case r_load_elem_tail then show "\<exists>weh wbh seh sbh rt st. eq_ok ke kb weh wbh seh sbh rt st t"
      using eq_ok_copies(5) [OF ok] by blast
  next
    case r_read then show "\<exists>weh wbh seh sbh rt st. eq_ok ke kb weh wbh seh sbh rt st t"
      using eq_ok_read [OF ok k] by blast
  next
    case r_store_buf_head then show "\<exists>weh wbh seh sbh rt st. eq_ok ke kb weh wbh seh sbh rt st t"
      using eq_ok_copies(6) [OF ok] by blast
  next
    case r_store_elem_head then show "\<exists>weh wbh seh sbh rt st. eq_ok ke kb weh wbh seh sbh rt st t"
      using eq_ok_copies(7) [OF ok] by blast
  qed
qed

lemma eq_reachable_inv:
  assumes "eq_reachable (eq_start ke kb m w r) s"
    and "ke \<le> 31" "kb \<le> 30" "length (eq_elems m) = 2 ^ ke" "length (eq_data m) = 2 ^ kb"
  shows "eq_sys_inv ke kb s"
  using assms(1)
proof induction
  case start
  then show ?case using eq_ok_start [OF assms(2-5)] unfolding eq_sys_inv_def by blast
next
  case (step s t)
  then show ?case using eq_step_inv assms(2,3) by blast
qed

section \<open>Moving an element between queues\<close>

lemma eq_move_empty:
  "elem_tail r = elem_head r \<Longrightarrow> eq_move mt w mf r = (- ENOENT, mt, w, r)"
  by (simp add: eq_move_def eq_peek_def errno_defs)

lemma eq_move_steps:
  assumes t: "eq_sys_inv ke' kb' t" "ke' \<le> 31" "kb' \<le> 30"
    and s: "eq_sys_inv ke kb s" and k: "ke \<le> 31" "kb \<le> 30"
    and ne: "elem_tail (es_rd s) \<noteq> elem_head (es_rd s)"
  defines "bs \<equiv> es_sent s ! length (es_recvd s)"
  defines "off \<equiv> fst (eq_write (es_mem t) (Some (es_wr t)) (of_nat (length bs)))"
  shows "off = - ENOSPC \<Longrightarrow>
      eq_move (es_mem t) (es_wr t) (es_mem s) (es_rd s) = (- ENOSPC, es_mem t, es_wr t, es_rd s)"
    and "off < 0 \<Longrightarrow> off \<noteq> - ENOSPC \<Longrightarrow>
      eq_move (es_mem t) (es_wr t) (es_mem s) (es_rd s) = (- ENOSYS, es_mem t, es_wr t, es_rd s)"
    and "0 \<le> off \<Longrightarrow> \<exists>t' s'. eq_step t t' \<and> eq_step s s'
      \<and> es_sent t' = es_sent t @ [bs] \<and> es_recvd s' = es_recvd s @ [bs]
      \<and> eq_move (es_mem t) (es_wr t) (es_mem s) (es_rd s) = (int (length bs), es_mem t', es_wr t', es_rd s')"
proof -
  from s obtain weh wbh seh sbh rt st where ok: "eq_ok ke kb weh wbh seh sbh rt st s"
    by (auto simp: eq_sys_inv_def)
  note rd = eq_read_ok [OF ok k ne]
  let ?R = "length (es_recvd s)"
  have len: "map length (es_sent s) ! ?R = length bs" using rd(2) by (simp add: bs_def)
  note rd = rd [unfolded len bs_def [symmetric]]
  have "(2::nat) ^ kb \<le> 2 ^ 30" using k by (intro power_increasing) simp_all
  then have L: "length bs < 2 ^ 31" using rd(4) by simp
  have "unat (elem_head (es_rd s) AND elem_mask (es_rd s)) = ?R mod 2 ^ ke"
    using ok k by (simp add: eq_ok_def Let_def unat_of_nat_and_mask)
  moreover have "eq_elems (es_mem s) ! (?R mod 2 ^ ke) = of_nat (length bs)"
    using ok rd(2) unfolding eq_ok_def Let_def by (simp add: bs_def)
  ultimately have pk: "eq_peek (es_mem s) (es_rd s) = int (length bs)"
    using ne L by (simp add: eq_peek_def sint_of_nat32)
  from t(1) obtain we wb se sb r' t' where ok': "eq_ok ke' kb' we wb se sb r' t' t"
    by (auto simp: eq_sys_inv_def)
  note wr = eq_write_view [OF t(2,3) eq_ok_view [OF ok'] rd(5), of "es_mem t"]
  let ?wr = "eq_write (es_mem t) (Some (es_wr t)) (of_nat (length bs))"
  have fail: "?wr = (off, es_mem t, Some (es_wr t))" if "off < 0"
    using that unfolding off_def wr by (simp split: if_splits)
  show "off = - ENOSPC \<Longrightarrow>
      eq_move (es_mem t) (es_wr t) (es_mem s) (es_rd s) = (- ENOSPC, es_mem t, es_wr t, es_rd s)"
    using fail by (simp add: eq_move_def pk errno_defs)
  show "off < 0 \<Longrightarrow> off \<noteq> - ENOSPC \<Longrightarrow>
      eq_move (es_mem t) (es_wr t) (es_mem s) (es_rd s) = (- ENOSYS, es_mem t, es_wr t, es_rd s)"
    using fail by (simp add: eq_move_def pk)
  assume pos: "0 \<le> off"
  then obtain m1 w1 where w1: "?wr = (off, m1, Some w1)"
    unfolding off_def wr by (auto simp: errno_defs split: if_splits)
  let ?t = "t\<lparr>es_mem := m1\<lparr>eq_data := store_bytes (eq_data m1) (nat off) bs\<rparr>, es_wr := w1,
      es_sent := es_sent t @ [bs]\<rparr>"
  let ?r = "(es_rd s)\<lparr>elem_head := of_nat (Suc ?R),
      buf_head := of_nat (eq_end (2 ^ kb) (map length (es_sent s)) (Suc ?R))\<rparr>"
  let ?s = "s\<lparr>es_rd := ?r, es_recvd := es_recvd s @ [bs]\<rparr>"
  have u: "unat (of_nat (length bs) :: u32) = length bs" using L by (simp add: unat_of_nat)
  have "eq_step t ?t" by (rule w_write [OF rd(5) w1 pos])
  moreover have "eq_step s ?s" using r_read [OF rd(3)] rd(6) u by simp
  moreover have "eq_move (es_mem t) (es_wr t) (es_mem s) (es_rd s) = (int (length bs), es_mem ?t, es_wr ?t, es_rd ?s)"
    using w1 pos L sint_of_nat32 [of "length bs"] u
    by (simp add: eq_move_def pk errno_defs rd(3) rd(6))
  ultimately show "\<exists>t' s'. eq_step t t' \<and> eq_step s s'
      \<and> es_sent t' = es_sent t @ [bs] \<and> es_recvd s' = es_recvd s @ [bs]
      \<and> eq_move (es_mem t) (es_wr t) (es_mem s) (es_rd s) = (int (length bs), es_mem t', es_wr t', es_rd s')"
    by fastforce
qed

section \<open>Batches of one element as a bounded queue\<close>

text \<open>
  A write batch and a read batch of one element each, composed from the component's
  functions. When every batch is finished before the next one starts, the queue meets the
  contract \<open>bounded_fifo\<close>.
\<close>

definition eq_put :: "u8 list \<Rightarrow> eq_sys \<Rightarrow> eq_sys option" where
  "eq_put bs s =
     (let w = eq_start_write_batch (es_mem s) (es_wr s)
      in case eq_write (es_mem s) (Some w) (of_nat (length bs)) of (off, m, w') \<Rightarrow>
           if off < 0 \<or> 2 ^ 32 \<le> length bs + 7 then None
           else Some (s\<lparr>es_wr := the w', es_sent := es_sent s @ [bs], es_mem :=
                   eq_finish_write_batch (m\<lparr>eq_data := store_bytes (eq_data m) (nat off) bs\<rparr>) (the w')\<rparr>))"

definition eq_get :: "eq_sys \<Rightarrow> (u8 list \<times> eq_sys) option" where
  "eq_get s =
     (let r = eq_start_read_batch (es_mem s) (es_rd s)
      in case eq_read (es_mem s) (Some r) (Some 0) of (off, r', len) \<Rightarrow>
           if off < 0 then None
           else (let bs = load_bytes (eq_data (es_mem s)) (nat off) (unat (the len))
                 in Some (bs, s\<lparr>es_rd := the r', es_recvd := es_recvd s @ [bs],
                               es_mem := eq_finish_read_batch (es_mem s) (the r')\<rparr>)))"

definition eq_idle :: "nat \<Rightarrow> nat \<Rightarrow> eq_sys \<Rightarrow> bool" where
  "eq_idle ke kb s \<longleftrightarrow> ke \<le> 31 \<and> kb \<le> 30 \<and>
     (\<exists>weh wbh rt. eq_ok ke kb weh wbh (length (es_recvd s)) (length (es_recvd s)) rt (length (es_sent s)) s)"

definition eq_items :: "eq_sys \<Rightarrow> u8 list list" where
  "eq_items s = drop (length (es_recvd s)) (es_sent s)"

definition eq_room :: "nat \<Rightarrow> nat \<Rightarrow> eq_sys \<Rightarrow> u8 list \<Rightarrow> bool" where
  "eq_room ke kb s bs \<longleftrightarrow>
     (let S = 2 ^ kb; a = align8n (length bs); F = eq_end S (map length (es_sent s))
      in length bs + 7 < 2 ^ 32 \<and> a < S \<and> length (eq_items s) < 2 ^ ke
       \<and> place S (F (length (es_sent s))) a + a - F (length (es_recvd s)) \<le> S)"

lemma eq_idle_start_write:
  assumes "eq_idle ke kb s"
  defines "R \<equiv> length (es_recvd s)"
  shows "\<exists>rt. eq_ok ke kb R R R R rt (length (es_sent s))
    (s\<lparr>es_wr := eq_start_write_batch (es_mem s) (es_wr s)\<rparr>)"
proof -
  obtain weh wbh rt where "eq_ok ke kb weh wbh R R rt (length (es_sent s)) s"
    using assms by (auto simp: eq_idle_def)
  from eq_ok_copies(2) [OF eq_ok_copies(1) [OF this]] show ?thesis
    by (auto simp: eq_start_write_batch_def Let_def)
qed

lemma eq_put_cases:
  assumes idle: "eq_idle ke kb s"
  shows "\<not> eq_room ke kb s bs \<Longrightarrow> eq_put bs s = None"
    and "eq_room ke kb s bs \<Longrightarrow>
      \<exists>s'. eq_put bs s = Some s' \<and> eq_idle ke kb s' \<and> eq_items s' = eq_items s @ [bs]"
proof -
  have k: "ke \<le> 31" "kb \<le> 30" using idle by (simp_all add: eq_idle_def)
  let ?s = "s\<lparr>es_wr := eq_start_write_batch (es_mem s) (es_wr s)\<rparr>"
  let ?w = "eq_start_write_batch (es_mem s) (es_wr s)"
  from eq_idle_start_write [OF idle] obtain rt where
    ok: "eq_ok ke kb (length (es_recvd s)) (length (es_recvd s)) (length (es_recvd s)) (length (es_recvd s))
      rt (length (es_sent s)) ?s" by blast
  then have R: "length (es_recvd s) \<le> length (es_sent s)" "length (es_sent s) - length (es_recvd s) \<le> 2 ^ ke"
    unfolding eq_ok_def Let_def by (elim conjE, simp)+
  note view = eq_ok_view [OF ok, simplified]
  note wr = eq_write_view [OF k view, of "length bs" "es_mem s"]
  show "eq_put bs s = None" if "\<not> eq_room ke kb s bs"
  proof (cases "length bs + 7 < 2 ^ 32")
    case True
    then show ?thesis using that R
      by (auto simp: eq_put_def wr eq_room_def eq_items_def Let_def errno_defs not_less)
  qed (simp add: eq_put_def Let_def split: prod.splits)
  assume room: "eq_room ke kb s bs"
  then have L: "length bs + 7 < 2 ^ 32" by (simp add: eq_room_def Let_def)
  have "\<exists>off m' w'. eq_write (es_mem s) (Some ?w) (of_nat (length bs)) = (off, m', Some w') \<and> 0 \<le> off"
    using room R unfolding wr [OF L] by (simp add: eq_room_def eq_items_def Let_def)
  then obtain off m' w' where w: "eq_write (es_mem s) (Some ?w) (of_nat (length bs)) = (off, m', Some w')" "0 \<le> off"
    by blast
  have "eq_ok ke kb (length (es_recvd s)) (length (es_recvd s)) (length (es_recvd s)) (length (es_recvd s))
      rt (length (es_sent s)) (?s\<lparr>es_mem := m'\<lparr>eq_data := store_bytes (eq_data m') (nat off) bs\<rparr>, es_wr := w',
       es_sent := es_sent ?s @ [bs]\<rparr>)"
    by (rule eq_ok_write [OF ok k L]) (use w in simp_all)
  from eq_ok_copies(4) [OF eq_ok_copies(3) [OF this]]
  show "\<exists>s'. eq_put bs s = Some s' \<and> eq_idle ke kb s' \<and> eq_items s' = eq_items s @ [bs]"
    using w L R k by (auto simp: eq_put_def eq_finish_write_batch_def eq_idle_def eq_items_def Let_def)
qed

lemma eq_get_cases:
  assumes idle: "eq_idle ke kb s"
  shows "eq_items s = [] \<Longrightarrow> eq_get s = None"
    and "eq_items s \<noteq> [] \<Longrightarrow>
      \<exists>s'. eq_get s = Some (hd (eq_items s), s') \<and> eq_idle ke kb s' \<and> eq_items s' = tl (eq_items s)"
proof -
  have k: "ke \<le> 31" "kb \<le> 30" using idle by (simp_all add: eq_idle_def)
  let ?R = "length (es_recvd s)" and ?r = "eq_start_read_batch (es_mem s) (es_rd s)"
  let ?s = "s\<lparr>es_rd := ?r\<rparr>"
  obtain weh wbh rt where "eq_ok ke kb weh wbh ?R ?R rt (length (es_sent s)) s"
    using idle by (auto simp: eq_idle_def)
  from eq_ok_copies(5) [OF this]
  have ok: "eq_ok ke kb weh wbh ?R ?R (length (es_sent s)) (length (es_sent s)) ?s"
    by (simp add: eq_start_read_batch_def)
  then have ht: "elem_tail ?r = of_nat (length (es_sent s))" "elem_head ?r = of_nat ?R"
      "?R \<le> length (es_sent s)" "length (es_sent s) - weh \<le> 2 ^ ke" "weh \<le> ?R"
    unfolding eq_ok_def Let_def by (elim conjE, simp)+
  have "(2::nat) ^ ke \<le> 2 ^ 31" using k by (intro power_increasing) simp_all
  then have emp: "elem_tail ?r = elem_head ?r \<longleftrightarrow> length (es_sent s) = ?R"
    unfolding ht(1,2) using ht(3-5) by (intro counter_eq_iff) auto
  show "eq_get s = None" if "eq_items s = []"
    using that ht(3) emp by (simp add: eq_get_def eq_read_def Let_def eq_items_def errno_defs)
  assume ne: "eq_items s \<noteq> []"
  then have "elem_tail (es_rd ?s) \<noteq> elem_head (es_rd ?s)" using emp by (simp add: eq_items_def)
  note rd = eq_read_ok [OF ok k this]
  let ?off = "eq_begin (2 ^ kb) (map length (es_sent s)) ?R mod 2 ^ kb" and ?bs = "es_sent s ! ?R"
  have len: "map length (es_sent s) ! ?R = length ?bs" using rd(2) by simp
  have u: "unat (of_nat (length ?bs) :: u32) = length ?bs" using rd(2,5) by (simp add: unat_of_nat)
  have ld: "load_bytes (eq_data (es_mem s)) ?off (length ?bs) = ?bs"
    using rd(6) len by simp
  have hd: "hd (eq_items s) = ?bs" "tl (eq_items s) = drop (Suc ?R) (es_sent s)"
    using rd(2) by (simp_all add: eq_items_def hd_drop_conv_nth tl_drop drop_Suc)
  let ?r' = "?r\<lparr>elem_head := of_nat (Suc ?R),
      buf_head := of_nat (eq_end (2 ^ kb) (map length (es_sent s)) (Suc ?R))\<rparr>"
  have rd': "eq_read (es_mem s) (Some ?r) (Some 0) = (int ?off, Some ?r', Some (of_nat (length ?bs)))"
    using rd(3) [of 0] len by simp
  have "eq_ok ke kb weh wbh ?R ?R (length (es_sent s)) (length (es_sent s))
      (?s\<lparr>es_rd := ?r', es_recvd := es_recvd ?s @ [load_bytes (eq_data (es_mem ?s)) (nat (int ?off))
        (unat (of_nat (length ?bs) :: u32))]\<rparr>)"
    by (rule eq_ok_read [OF ok k, of 0]) (use rd' in simp_all)
  from eq_ok_copies(7) [OF eq_ok_copies(6) [OF this]]
  show "\<exists>s'. eq_get s = Some (hd (eq_items s), s') \<and> eq_idle ke kb s' \<and> eq_items s' = tl (eq_items s)"
    unfolding hd using k by (auto simp: eq_get_def rd' u ld eq_finish_read_batch_def eq_idle_def eq_items_def Let_def)
qed

interpretation elq: bounded_fifo "eq_idle ke kb" eq_items "eq_room ke kb" eq_put eq_get for ke kb
proof (unfold_locales, goal_cases)
  case (1 s a s') then show ?case using eq_put_cases [of ke kb s a] by (cases "eq_room ke kb s a") auto
next
  case (2 s a s') then show ?case using eq_put_cases [of ke kb s a] by (cases "eq_room ke kb s a") auto
next
  case (3 s a) then show ?case using eq_put_cases [of ke kb s a] by (cases "eq_room ke kb s a") auto
next
  case (4 s a s') then show ?case using eq_get_cases [of ke kb s] by (cases "eq_items s") auto
next
  case (5 s a s') then show ?case using eq_get_cases [of ke kb s] by (cases "eq_items s") auto
next
  case (6 s) then show ?case using eq_get_cases [of ke kb s] by (cases "eq_items s") auto
qed

text \<open>The batches are sequences of steps of the concurrent system.\<close>

lemma eq_write_Some: "\<exists>w'. snd (snd (eq_write m (Some w) len)) = Some w'"
  by (simp add: eq_write_def Let_def)

lemma eq_reachable_put:
  assumes "eq_reachable s0 s" and "eq_put bs s = Some t"
  shows "eq_reachable s0 t"
proof -
  let ?s = "s\<lparr>es_wr := eq_start_write_batch (es_mem s) (es_wr s)\<rparr>"
  have r: "eq_reachable s0 ?s"
    using eq_reachable.step [OF eq_reachable.step [OF assms(1) w_load_elem_head] w_load_buf_head]
    by (simp add: eq_start_write_batch_def Let_def)
  obtain off m' w' where w: "eq_write (es_mem ?s) (Some (es_wr ?s)) (of_nat (length bs)) = (off, m', Some w')"
    using eq_write_Some by (metis prod.collapse)
  then have c: "0 \<le> off" "length bs + 7 < 2 ^ 32"
    using assms(2) by (auto simp: eq_put_def Let_def split: if_splits)
  from eq_reachable.step [OF eq_reachable.step [OF eq_reachable.step [OF r w_write [OF c(2) w c(1)]]
      w_store_buf_tail] w_store_elem_tail]
  show ?thesis using assms(2) w c by (simp add: eq_put_def Let_def eq_finish_write_batch_def)
qed

lemma eq_reachable_get:
  assumes "eq_reachable s0 s" and "eq_get s = Some (bs, t)"
  shows "eq_reachable s0 t"
proof -
  let ?s = "s\<lparr>es_rd := eq_start_read_batch (es_mem s) (es_rd s)\<rparr>"
  have r: "eq_reachable s0 ?s"
    using eq_reachable.step [OF assms(1) r_load_elem_tail] by (simp add: eq_start_read_batch_def)
  have "0 \<le> fst (eq_read (es_mem ?s) (Some (es_rd ?s)) (Some 0))"
    using assms(2) by (auto simp: eq_get_def Let_def split: if_splits prod.splits)
  then obtain off r' len where d: "eq_read (es_mem ?s) (Some (es_rd ?s)) (Some 0) = (off, Some r', Some len)" "0 \<le> off"
    by (auto simp: eq_read_def Let_def errno_defs split: if_splits)
  from eq_reachable.step [OF eq_reachable.step [OF eq_reachable.step [OF r r_read [OF d]]
      r_store_buf_head] r_store_elem_head]
  show ?thesis using assms(2) d by (auto simp: eq_get_def Let_def eq_finish_read_batch_def)
qed

text \<open>A small queue with a short history, at which the properties are evaluated.\<close>

definition eq_demo_memory :: eq_memory where
  "eq_demo_memory = \<lparr>eq_shared = \<lparr>sh_elem_head = 7, sh_buf_head = 7, sh_elem_tail = 7, sh_buf_tail = 7\<rparr>,
     eq_elems = [0, 0], eq_data = [0, 0, 0, 0, 0, 0, 0, 0, 0, 0, 0, 0, 0, 0, 0, 0]\<rparr>"

definition eq_demo_side :: element_queue where
  "eq_demo_side = \<lparr>elem_mask = 0, buf_mask = 0, elem_head = 9, buf_head = 9, elem_tail = 9, buf_tail = 9\<rparr>"

definition eq_demo0 :: eq_sys where
  "eq_demo0 = eq_start 1 4 eq_demo_memory eq_demo_side eq_demo_side"

definition eq_demo1 :: eq_sys where
  "eq_demo1 =
    \<lparr>es_mem = \<lparr>eq_shared = \<lparr>sh_elem_head = 0, sh_buf_head = 0, sh_elem_tail = 2, sh_buf_tail = 16\<rparr>,
       eq_elems = [3, 2], eq_data = [1, 2, 3, 0, 0, 0, 0, 0, 5, 6, 0, 0, 0, 0, 0, 0]\<rparr>,
     es_wr = \<lparr>elem_mask = 1, buf_mask = 15, elem_head = 0, buf_head = 0, elem_tail = 2, buf_tail = 16\<rparr>,
     es_rd = \<lparr>elem_mask = 1, buf_mask = 15, elem_head = 0, buf_head = 0, elem_tail = 0, buf_tail = 0\<rparr>,
     es_sent = [[1, 2, 3], [5, 6]], es_recvd = []\<rparr>"

definition eq_demo2 :: eq_sys where
  "eq_demo2 = eq_demo1
    \<lparr>es_rd := \<lparr>elem_mask = 1, buf_mask = 15, elem_head = 1, buf_head = 8, elem_tail = 2, buf_tail = 0\<rparr>,
     es_recvd := [[1, 2, 3]],
     es_mem := (es_mem eq_demo1)\<lparr>eq_shared := \<lparr>sh_elem_head = 1, sh_buf_head = 8, sh_elem_tail = 2, sh_buf_tail = 16\<rparr>\<rparr>\<rparr>"

lemma eq_demo_sizes: "length (eq_elems eq_demo_memory) = 2" "length (eq_data eq_demo_memory) = 16"
  by (simp_all add: eq_demo_memory_def)

lemma eq_demo2_fields:
  "es_sent eq_demo2 = [[1, 2, 3], [5, 6]]" "es_recvd eq_demo2 = [[1, 2, 3]]"
  "length (eq_data (es_mem eq_demo2)) = 16" "elem_head (es_rd eq_demo2) = 1" "elem_tail (es_rd eq_demo2) = 2"
  by (simp_all add: eq_demo2_def eq_demo1_def)

lemmas eq_evals = eq_start_def eq_init_shared_def eq_init_contig_def eq_start_write_batch_def
  eq_write_def align8_def eq_next_offset_by_len_def eq_finish_write_batch_def eq_start_read_batch_def
  eq_read_def eq_finish_read_batch_def store_bytes_def load_bytes_def Let_def

lemma eq_demo_run:
  "\<exists>s. eq_put [1, 2, 3] eq_demo0 = Some s \<and> eq_put [5, 6] s = Some eq_demo1"
  "eq_get eq_demo1 = Some ([1, 2, 3], eq_demo2)"
  by (simp_all add: eq_demo0_def eq_demo_memory_def eq_demo_side_def eq_put_def eq_get_def
      eq_demo1_def eq_demo2_def eq_evals word_le_nat_alt)

lemma eq_demo_reachable: "eq_reachable eq_demo0 eq_demo1" "eq_reachable eq_demo0 eq_demo2"
proof -
  show "eq_reachable eq_demo0 eq_demo1"
    using eq_demo_run(1) eq_reachable_put eq_reachable.start by blast
  then show "eq_reachable eq_demo0 eq_demo2" using eq_reachable_get eq_demo_run(2) by blast
qed

section \<open>Properties\<close>

text \<open>
  C1. First-in first-out delivery under concurrency. However the writer's and the reader's
  batches interleave, down to single loads and stores of the shared counters, the payloads
  the reader has taken are exactly the first payloads the writer put in, byte for byte.
\<close>

theorem eq_delivery_fifo:
  assumes "ke \<le> 31" and "kb \<le> 30" and "length (eq_elems m) = 2 ^ ke" and "length (eq_data m) = 2 ^ kb"
    and "eq_reachable (eq_start ke kb m w r) s"
  shows "es_recvd s = take (length (es_recvd s)) (es_sent s)"
proof -
  have "eq_sys_inv ke kb s" using eq_reachable_inv assms by blast
  then show ?thesis by (auto simp: eq_sys_inv_def eq_ok_def Let_def)
qed

theorem eq_delivery_fifo_witness:
  "es_recvd eq_demo2 = [[1, 2, 3]] \<and> es_recvd eq_demo2 = take (length (es_recvd eq_demo2)) (es_sent eq_demo2)"
proof -
  have "es_recvd eq_demo2 = [[1, 2, 3]]" by (simp add: eq_demo2_def)
  moreover have "es_recvd eq_demo2 = take (length (es_recvd eq_demo2)) (es_sent eq_demo2)"
    using eq_delivery_fifo [of 1 4 eq_demo_memory eq_demo_side eq_demo_side eq_demo2] eq_demo_sizes
      eq_demo_reachable(2) by (simp add: eq_demo0_def)
  ultimately show ?thesis ..
qed

text \<open>
  C2. Memory safety and integrity of reads. In every reachable state in which the reader's
  tail is ahead of its head, \<open>eq_read\<close> succeeds: it returns an offset at which the whole
  element lies inside the buffer, the length it reports is that of the oldest unread
  payload, and the bytes there are that payload.
\<close>

theorem eq_read_in_bounds:
  assumes "ke \<le> 31" and "kb \<le> 30" and "length (eq_elems m) = 2 ^ ke" and "length (eq_data m) = 2 ^ kb"
    and "eq_reachable (eq_start ke kb m w r) s" and "elem_tail (es_rd s) \<noteq> elem_head (es_rd s)"
  defines "bs \<equiv> es_sent s ! length (es_recvd s)"
  shows "length (es_recvd s) < length (es_sent s) \<and>
    (\<exists>off r'. eq_read (es_mem s) (Some (es_rd s)) (Some l) = (int off, Some r', Some (of_nat (length bs)))
      \<and> off + length bs \<le> length (eq_data (es_mem s))
      \<and> load_bytes (eq_data (es_mem s)) off (length bs) = bs)"
proof -
  obtain weh wbh seh sbh rt st where ok: "eq_ok ke kb weh wbh seh sbh rt st s"
    using eq_reachable_inv [OF assms(5,1-4)] by (auto simp: eq_sys_inv_def)
  moreover have "length (eq_data (es_mem s)) = 2 ^ kb" using ok by (simp add: eq_ok_def Let_def)
  ultimately show ?thesis
    using eq_read_ok(2,4,6) [OF ok assms(1,2,6)] eq_read_ok(3) [OF ok assms(1,2,6), of l]
    by (simp add: bs_def)
qed

theorem eq_read_in_bounds_witness:
  "es_sent eq_demo2 ! 1 = [5, 6] \<and>
   (\<exists>off r'. eq_read (es_mem eq_demo2) (Some (es_rd eq_demo2)) (Some 0) = (int off, Some r', Some 2)
      \<and> off + 2 \<le> 16 \<and> load_bytes (eq_data (es_mem eq_demo2)) off 2 = [5, 6])"
  using eq_read_in_bounds [of 1 4 eq_demo_memory eq_demo_side eq_demo_side eq_demo2 0] eq_demo_sizes
    eq_demo_reachable(2) by (simp add: eq_demo0_def eq_demo2_fields) (simp add: numeral_2_eq_2)

text \<open>
  C3. No element is lost. In a reachable state in which the reader has consumed everything
  up to the writer's own tail, it has received every payload the writer put in.
\<close>

theorem eq_drained_complete:
  assumes "ke \<le> 31" and "kb \<le> 30" and "length (eq_elems m) = 2 ^ ke" and "length (eq_data m) = 2 ^ kb"
    and "eq_reachable (eq_start ke kb m w r) s" and "elem_head (es_rd s) = elem_tail (es_wr s)"
  shows "es_recvd s = es_sent s"
proof -
  obtain weh wbh seh sbh rt st where ok: "eq_ok ke kb weh wbh seh sbh rt st s"
    using eq_reachable_inv [OF assms(5,1-4)] by (auto simp: eq_sys_inv_def)
  let ?R = "length (es_recvd s)" and ?N = "length (es_sent s)"
  have *: "weh \<le> ?R" "?R \<le> ?N" "?N - weh \<le> 2 ^ ke" "take ?R (es_sent s) = es_recvd s"
    "elem_head (es_rd s) = of_nat ?R" "elem_tail (es_wr s) = of_nat ?N"
    using ok unfolding eq_ok_def Let_def by (elim conjE, simp)+
  have "(2::nat) ^ ke \<le> 2 ^ 31" using assms(1) by (intro power_increasing) simp_all
  then have "(of_nat ?N :: u32) = of_nat ?R \<longleftrightarrow> ?N = ?R" using * by (intro counter_eq_iff) auto
  then show ?thesis using * assms(6) by auto
qed

theorem eq_drained_complete_witness:
  "\<exists>s. eq_get eq_demo2 = Some ([5, 6], s) \<and> es_recvd s = es_sent s \<and> es_sent s = [[1, 2, 3], [5, 6]]"
proof -
  have "\<exists>s. eq_get eq_demo2 = Some ([5, 6], s) \<and> elem_head (es_rd s) = elem_tail (es_wr s) \<and>
      es_sent s = [[1, 2, 3], [5, 6]]"
    by (simp add: eq_get_def eq_demo1_def eq_demo2_def eq_evals)
  then obtain s where s: "eq_get eq_demo2 = Some ([5, 6], s)" "elem_head (es_rd s) = elem_tail (es_wr s)"
    "es_sent s = [[1, 2, 3], [5, 6]]" by blast
  moreover have "es_recvd s = es_sent s"
    using eq_drained_complete [of 1 4 eq_demo_memory eq_demo_side eq_demo_side s] eq_demo_sizes
      eq_reachable_get [OF eq_demo_reachable(2) s(1)] s(2) by (simp add: eq_demo0_def)
  ultimately show ?thesis by blast
qed

text \<open>
  C4. Behaviour of \<open>eq_write\<close> on every branch and for every 32-bit length, with the counters of
  the queue read as unbounded positions. A NULL queue and an element whose padded length does
  not fit the buffer are rejected with -EINVAL; a full ring of lengths and too little room for
  the bytes are reported with -ENOSPC; otherwise the element is placed without crossing the end
  of the buffer, its length is recorded and both tails advance. The seven lengths from
  \<open>2 ^ 32 - 7\<close> on are not rejected: their padded length \<open>padded\<close> is zero, and the element is
  accepted as one of zero bytes whenever the ring of lengths has room.
\<close>

theorem eq_write_branches:
  fixes len :: u32
  assumes "ke \<le> 31" and "kb \<le> 30" and "eq_view ke kb e N h p w"
  defines "S \<equiv> 2 ^ kb" and "a \<equiv> (if unat len < 2 ^ 32 - 7 then align8n (unat len) else 0)"
  shows "eq_write m None len = (- EINVAL, m, None) \<and>
    eq_write m (Some w) len =
    (if S \<le> a then (- EINVAL, m, Some w)
     else if N - e = 2 ^ ke then (- ENOSPC, m, Some w)
     else if S < place S p a + a - h then (- ENOSPC, m, Some w)
     else (int (place S p a mod S), m\<lparr>eq_elems := (eq_elems m)[N mod 2 ^ ke := len]\<rparr>,
           Some (w\<lparr>buf_tail := of_nat (place S p a + a), elem_tail := of_nat (Suc N)\<rparr>)))"
proof -
  have "a = padded len" by (simp add: a_def padded_def)
  then show ?thesis using eq_write_padded [OF assms(1-3), of m len] by (simp add: S_def eq_write_def)
qed

theorem eq_write_branches_witness:
  "eq_write eq_demo_memory (Some \<lparr>elem_mask = 1, buf_mask = 15, elem_head = 3, buf_head = 24,
      elem_tail = 4, buf_tail = 40\<rparr>) 6 = (- ENOSPC, eq_demo_memory, Some \<lparr>elem_mask = 1, buf_mask = 15,
      elem_head = 3, buf_head = 24, elem_tail = 4, buf_tail = 40\<rparr>) \<and>
   eq_write eq_demo_memory (Some \<lparr>elem_mask = 1, buf_mask = 15, elem_head = 3, buf_head = 32,
      elem_tail = 4, buf_tail = 40\<rparr>) 6 = (8, eq_demo_memory\<lparr>eq_elems := [6, 0]\<rparr>,
      Some \<lparr>elem_mask = 1, buf_mask = 15, elem_head = 3, buf_head = 32, elem_tail = 5, buf_tail = 48\<rparr>) \<and>
   eq_write eq_demo_memory (Some \<lparr>elem_mask = 1, buf_mask = 15, elem_head = 3, buf_head = 32,
      elem_tail = 4, buf_tail = 40\<rparr>) 0xffffffff = (8, eq_demo_memory\<lparr>eq_elems := [0xffffffff, 0]\<rparr>,
      Some \<lparr>elem_mask = 1, buf_mask = 15, elem_head = 3, buf_head = 32, elem_tail = 5, buf_tail = 40\<rparr>)"
  using eq_write_branches [where ke = 1 and kb = 4 and e = 3 and N = 4 and h = 24 and p = 40 and w = "\<lparr>elem_mask = 1, buf_mask = 15, elem_head = 3, buf_head = 24,
      elem_tail = 4, buf_tail = 40\<rparr>" and m = eq_demo_memory and len = 6]
    eq_write_branches [where ke = 1 and kb = 4 and e = 3 and N = 4 and h = 32 and p = 40 and w = "\<lparr>elem_mask = 1, buf_mask = 15, elem_head = 3, buf_head = 32,
      elem_tail = 4, buf_tail = 40\<rparr>" and m = eq_demo_memory and len = 6]
    eq_write_branches [where ke = 1 and kb = 4 and e = 3 and N = 4 and h = 32 and p = 40 and w = "\<lparr>elem_mask = 1, buf_mask = 15, elem_head = 3, buf_head = 32,
      elem_tail = 4, buf_tail = 40\<rparr>" and m = eq_demo_memory and len = "0xffffffff"]
  by (simp add: eq_view_def mask_eq_decr_exp align8n_def place_def eq_demo_memory_def)

text \<open>
  C5. \<open>eq_move\<close> carries one payload from the source to the destination. With an empty
  source it returns -ENOENT; with too little room at the destination it returns -ENOSPC
  (or -ENOSYS when the element can never fit); in these cases neither queue changes.
  Otherwise it is a write step of the destination and a read step of the source with the
  same payload, and it returns the payload's length.
\<close>

theorem eq_move_carries:
  assumes "ke \<le> 31" "kb \<le> 30" "length (eq_elems m) = 2 ^ ke" "length (eq_data m) = 2 ^ kb"
    and "eq_reachable (eq_start ke kb m w r) s"
    and "ke' \<le> 31" "kb' \<le> 30" "length (eq_elems m') = 2 ^ ke'" "length (eq_data m') = 2 ^ kb'"
    and "eq_reachable (eq_start ke' kb' m' w' r') t"
  defines "bs \<equiv> es_sent s ! length (es_recvd s)"
    and "moved \<equiv> eq_move (es_mem t) (es_wr t) (es_mem s) (es_rd s)"
  defines "off \<equiv> fst (eq_write (es_mem t) (Some (es_wr t)) (of_nat (length bs)))"
  shows "if elem_tail (es_rd s) = elem_head (es_rd s) then moved = (- ENOENT, es_mem t, es_wr t, es_rd s)
    else if off = - ENOSPC then moved = (- ENOSPC, es_mem t, es_wr t, es_rd s)
    else if off < 0 then moved = (- ENOSYS, es_mem t, es_wr t, es_rd s)
    else (\<exists>t' s'. eq_step t t' \<and> eq_step s s' \<and> es_sent t' = es_sent t @ [bs] \<and> es_recvd s' = es_recvd s @ [bs]
      \<and> moved = (int (length bs), es_mem t', es_wr t', es_rd s'))"
proof -
  have inv: "eq_sys_inv ke' kb' t" "eq_sys_inv ke kb s"
    using eq_reachable_inv assms(1-10) by blast+
  note mv = eq_move_steps [OF inv(1) assms(6,7) inv(2) assms(1,2), folded bs_def, folded off_def moved_def]
  show ?thesis
    using eq_move_empty [of "es_rd s" "es_mem t" "es_wr t" "es_mem s", folded moved_def] mv by auto
qed

theorem eq_move_carries_witness:
  "\<exists>t' s'. eq_step eq_demo0 t' \<and> eq_step eq_demo2 s' \<and> es_sent t' = [[5, 6]] \<and> es_recvd s' = [[1, 2, 3], [5, 6]]
     \<and> eq_move (es_mem eq_demo0) (es_wr eq_demo0) (es_mem eq_demo2) (es_rd eq_demo2)
         = (2, es_mem t', es_wr t', es_rd s')"
proof -
  have s: "es_sent eq_demo0 = []" and
    off: "0 \<le> fst (eq_write (es_mem eq_demo0) (Some (es_wr eq_demo0)) 2)"
    by (simp_all add: eq_demo0_def eq_demo_memory_def eq_demo_side_def eq_evals word_le_nat_alt)
  show ?thesis
    using eq_move_carries [of 1 4 eq_demo_memory eq_demo_side eq_demo_side eq_demo2
        1 4 eq_demo_memory eq_demo_side eq_demo_side eq_demo0, folded eq_demo0_def]
      eq_demo_sizes eq_demo_reachable(2) eq_reachable.start [of eq_demo0] off
    by (simp add: eq_demo2_fields s errno_defs split: if_splits)
qed

text \<open>
  C6. Finished batches implement the bounded queue contract. From an idle state, whatever
  sequence of one-element write and read batches runs, the payloads delivered followed by
  those still queued are the ones queued before followed by those accepted, and the queue
  is idle again.
\<close>

theorem eq_batches_fifo:
  assumes "eq_idle ke kb s" and "fifo_run eq_put eq_get ops s = (acc, del, t)"
  shows "eq_idle ke kb t \<and> del @ eq_items t = eq_items s @ acc"
  using elq.run_fifo [OF assms] .

lemma eq_idle_start:
  assumes "ke \<le> 31" "kb \<le> 30" "length (eq_elems m) = 2 ^ ke" "length (eq_data m) = 2 ^ kb"
  shows "eq_idle ke kb (eq_start ke kb m w r)"
  using eq_ok_start [OF assms, of w r] assms(1,2)
  by (auto simp: eq_idle_def eq_start_def Let_def)

theorem eq_batches_fifo_witness:
  "\<exists>t. fifo_run eq_put eq_get [Put [1, 2, 3], Put [5, 6], Get] eq_demo0 = ([[1, 2, 3], [5, 6]], [[1, 2, 3]], t)
     \<and> eq_idle 1 4 t \<and> [[1, 2, 3]] @ eq_items t = eq_items eq_demo0 @ [[1, 2, 3], [5, 6]]"
proof -
  obtain s where "eq_put [1, 2, 3] eq_demo0 = Some s" "eq_put [5, 6] s = Some eq_demo1"
    using eq_demo_run(1) by blast
  then have run: "fifo_run eq_put eq_get [Put [1, 2, 3], Put [5, 6], Get] eq_demo0
      = ([[1, 2, 3], [5, 6]], [[1, 2, 3]], eq_demo2)"
    by (simp add: eq_demo_run(2))
  have "eq_idle 1 4 eq_demo0"
    unfolding eq_demo0_def by (rule eq_idle_start) (simp_all add: eq_demo_sizes)
  from eq_batches_fifo [OF this run] run show ?thesis by blast
qed

end
