(* ===== verification/Perf_Ring.thy ===== *)
theory Perf_Ring
  imports Prelude
begin

text \<open>
  \<^verbatim>\<open>src/util/perf_ring.h\<close>, \<^verbatim>\<open>src/util/perf_ring.c\<close> and the class \<^verbatim>\<open>PerfRing\<close> of
  \<^verbatim>\<open>src/util/perf_ring_cpp.h\<close>: the ring of perf events. An event is a
  \<^verbatim>\<open>struct perf_event_header\<close> (u32 type, u16 misc, u16 size) followed by its payload,
  padded to a multiple of eight bytes; unlike in the element queue, a payload may wrap
  around the end of the buffer. The mapped memory (\<open>pr_memory\<close>) holds the two published
  64-bit positions and the data pages; integers in it are little-endian.

  The assertions of the source are not part of the model. The second part of the theory
  composes one writer and one reader as interleaved steps, with the invariant that gives
  in-order delivery of types and payloads.
\<close>

unbundle bit_operations_syntax

section \<open>Model\<close>

record perf_ring =
  pr_buf_mask :: u32
  pr_buf_head :: u32
  pr_buf_tail :: u32

text \<open>The fields of the \<^verbatim>\<open>perf_event_mmap_page\<close> that are used, and the data pages after it.\<close>

record pr_memory =
  data_head :: u64
  data_tail :: u64
  pr_data :: "u8 list"

definition pr_init_contig ::
  "perf_ring option \<Rightarrow> pr_memory option \<Rightarrow> u32 \<Rightarrow> u64 \<Rightarrow> cint \<times> perf_ring option" where
  "pr_init_contig eq data n_pages page_size =
     (case (eq, data) of
        (Some q, Some m) \<Rightarrow>
          (let buf_len = ucast n_pages * page_size
           in if buf_len AND (buf_len - 1) \<noteq> 0 \<or> buf_len < 8 then (- EINVAL, eq)
              else (0, Some (q\<lparr>pr_buf_mask := ucast (buf_len - 1),
                     pr_buf_head := ucast (data_tail m), pr_buf_tail := ucast (data_head m)\<rparr>)))
      | _ \<Rightarrow> (- EINVAL, eq))"

definition pr_start_write_batch :: "pr_memory \<Rightarrow> perf_ring \<Rightarrow> perf_ring" where
  "pr_start_write_batch m q = q\<lparr>pr_buf_head := ucast (data_tail m)\<rparr>"

definition pr_finish_write_batch :: "pr_memory \<Rightarrow> perf_ring \<Rightarrow> pr_memory" where
  "pr_finish_write_batch m q = m\<lparr>data_head := ucast (pr_buf_tail q)\<rparr>"

definition pr_start_read_batch :: "pr_memory \<Rightarrow> perf_ring \<Rightarrow> perf_ring" where
  "pr_start_read_batch m q = q\<lparr>pr_buf_tail := ucast (data_head m)\<rparr>"

definition pr_finish_read_batch :: "pr_memory \<Rightarrow> perf_ring \<Rightarrow> pr_memory" where
  "pr_finish_read_batch m q = m\<lparr>data_tail := ucast (pr_buf_head q)\<rparr>"

text \<open>The event header at an offset of the data.\<close>

definition header_type :: "u8 list \<Rightarrow> nat \<Rightarrow> u32" where
  "header_type d off = of_nat (le_nat (load_bytes d off 4))"

definition header_size :: "u8 list \<Rightarrow> nat \<Rightarrow> u16" where
  "header_size d off = of_nat (le_nat (load_bytes d (off + 6) 2))"

definition set_header :: "u8 list \<Rightarrow> nat \<Rightarrow> u16 \<Rightarrow> u32 \<Rightarrow> u8 list" where
  "set_header d off sz type =
     (let d = store_bytes d (off + 6) (le_bytes 2 (unat sz))
      in store_bytes d off (le_bytes 4 (unat type)))"

definition pr_aligned_len :: "u16 \<Rightarrow> u32" where
  "pr_aligned_len len = ucast ((ucast len + 8 + 7 :: u64) AND NOT 7)"

text \<open>The offset just after the header, as the C \<^verbatim>\<open>int\<close> that is returned.\<close>

definition pr_payload_offset :: "u32 \<Rightarrow> u32 \<Rightarrow> cint" where
  "pr_payload_offset pos bmask = sint (ucast ((ucast pos + 8 :: u64) AND ucast bmask) :: u32)"

definition pr_write ::
  "pr_memory \<Rightarrow> perf_ring option \<Rightarrow> u16 \<Rightarrow> u32 \<Rightarrow> cint \<times> pr_memory \<times> perf_ring option" where
  "pr_write m eq len type =
     (let aligned_len = pr_aligned_len len
      in case eq of
        None \<Rightarrow> (- EINVAL, m, eq)
      | Some q \<Rightarrow>
          if aligned_len > pr_buf_mask q then (- EINVAL, m, eq)
          else if aligned_len \<ge> 65536 then (- EINVAL, m, eq)
          else
            (let bmask = pr_buf_mask q; tail = pr_buf_tail q
             in if tail + aligned_len - pr_buf_head q > bmask + 1 then (- ENOSPC, m, eq)
                else (pr_payload_offset tail bmask,
                      m\<lparr>pr_data := set_header (pr_data m) (unat (tail AND bmask)) (ucast aligned_len) type\<rparr>,
                      Some (q\<lparr>pr_buf_tail := tail + aligned_len\<rparr>))))"

definition pr_peek_size :: "pr_memory \<Rightarrow> perf_ring \<Rightarrow> cint" where
  "pr_peek_size m q =
     (if pr_buf_tail q = pr_buf_head q then - ENOENT
      else sint (ucast (ucast (header_size (pr_data m) (unat (pr_buf_head q AND pr_buf_mask q))) - 8 :: u64) :: u32))"

definition pr_peek_type :: "pr_memory \<Rightarrow> perf_ring \<Rightarrow> u32" where
  "pr_peek_type m q = header_type (pr_data m) (unat (pr_buf_head q AND pr_buf_mask q))"

definition pr_total_offset :: "perf_ring \<Rightarrow> u16 \<Rightarrow> u32" where
  "pr_total_offset q offset = ucast (ucast (pr_buf_head q) + 8 + ucast offset :: u64)"

definition pr_peek_aligned_u64 :: "pr_memory \<Rightarrow> perf_ring \<Rightarrow> u16 \<Rightarrow> u64" where
  "pr_peek_aligned_u64 m q offset =
     of_nat (le_nat (load_bytes (pr_data m) (unat (pr_total_offset q offset AND pr_buf_mask q)) 8))"

definition pr_peek_aligned_u32 :: "pr_memory \<Rightarrow> perf_ring \<Rightarrow> u16 \<Rightarrow> u32" where
  "pr_peek_aligned_u32 m q offset =
     of_nat (le_nat (load_bytes (pr_data m) (unat (pr_total_offset q offset AND pr_buf_mask q)) 4))"

definition pr_peek_aligned_u16 :: "pr_memory \<Rightarrow> perf_ring \<Rightarrow> u16 \<Rightarrow> u16" where
  "pr_peek_aligned_u16 m q offset =
     of_nat (le_nat (load_bytes (pr_data m) (unat (pr_total_offset q offset AND pr_buf_mask q)) 2))"

text \<open>The destination buffer is an argument and a result.\<close>

definition pr_peek_copy :: "pr_memory \<Rightarrow> perf_ring \<Rightarrow> u8 list \<Rightarrow> u16 \<Rightarrow> u16 \<Rightarrow> u8 list" where
  "pr_peek_copy m q buf offset len =
     (if len = 0 then buf
      else
        (let bmask = pr_buf_mask q;
             begin_head = pr_total_offset q offset;
             begin = begin_head AND bmask;
             end = (begin_head + ucast len - 1) AND bmask
         in if end < begin then
              (let len_to_ring_end = bmask + 1 - begin;
                   buf = store_bytes buf 0 (load_bytes (pr_data m) (unat begin) (unat len_to_ring_end))
               in store_bytes buf (unat len_to_ring_end) (load_bytes (pr_data m) 0 (unat (end + 1))))
            else store_bytes buf 0 (load_bytes (pr_data m) (unat begin) (unat len))))"

text \<open>The pointers of a view are offsets into the data (\<^verbatim>\<open>None\<close>: NULL).\<close>

record pr_data_view =
  first :: "u32 option"
  first_len :: u16
  second :: "u32 option"
  second_len :: u16

definition pr_peek :: "pr_memory \<Rightarrow> perf_ring \<Rightarrow> pr_data_view" where
  "pr_peek m q =
     (let result = \<lparr>first = None, first_len = 0, second = None, second_len = 0\<rparr>;
          unpadded_len = pr_peek_aligned_u32 m q 4;
          offset = 8;
          begin_head = pr_total_offset q offset;
          begin = begin_head AND pr_buf_mask q;
          end = (begin_head + unpadded_len - 1) AND pr_buf_mask q
      in if unpadded_len = 0 then result
         else if end < begin then
           (let len_to_ring_end = pr_buf_mask q + 1 - begin
            in result\<lparr>first := Some begin, first_len := ucast len_to_ring_end,
                      second := Some 0, second_len := ucast (end + 1)\<rparr>)
         else result\<lparr>first := Some begin, first_len := ucast unpadded_len\<rparr>)"

definition pr_read ::
  "pr_memory \<Rightarrow> perf_ring option \<Rightarrow> u16 option \<Rightarrow> cint \<times> perf_ring option \<times> u16 option" where
  "pr_read m eq lenp =
     (case (eq, lenp) of
        (Some q, Some _) \<Rightarrow>
          if pr_buf_tail q = pr_buf_head q then (- EAGAIN, eq, lenp)
          else
            (let bmask = pr_buf_mask q; head = pr_buf_head q;
                 sz = header_size (pr_data m) (unat (head AND bmask))
             in (pr_payload_offset head bmask,
                 Some (q\<lparr>pr_buf_head := head + ucast sz\<rparr>),
                 Some (ucast (ucast sz - 8 :: u64))))
      | _ \<Rightarrow> (- EINVAL, eq, lenp))"

text \<open>The second component is what is stored through \<^verbatim>\<open>total_size\<close>.\<close>

definition pr_bytes_remaining :: "perf_ring option \<Rightarrow> u32 option \<Rightarrow> u32 \<times> u32 option" where
  "pr_bytes_remaining eq total_size =
     (case eq of
        None \<Rightarrow> (word_of_int (- EINVAL), total_size)
      | Some q \<Rightarrow>
          (let buf_size = pr_buf_mask q + 1;
               total_size = map_option (\<lambda>_. buf_size) total_size;
               begin = pr_buf_head q AND pr_buf_mask q;
               end = pr_buf_tail q AND pr_buf_mask q
           in if end < begin then (buf_size - begin + end, total_size)
              else (end - begin, total_size)))"

subsection \<open>The class \<^verbatim>\<open>PerfRing\<close>\<close>

text \<open>The exceptions that its methods throw.\<close>

datatype pr_exn = Invalid_argument | Range_error | Runtime_error | Out_of_range | Length_error

definition PerfRing_write ::
  "pr_memory \<Rightarrow> perf_ring \<Rightarrow> u8 list \<Rightarrow> u32 \<Rightarrow> pr_exn + pr_memory \<times> perf_ring" where
  "PerfRing_write m q elem type =
     (case pr_write m (Some q) (of_nat (length elem)) type of (offset, m, q') \<Rightarrow>
        if offset = - EINVAL then Inl Invalid_argument
        else if offset = - ENOSPC then Inl Range_error
        else if offset < 0 then Inl Runtime_error
        else if length elem = 0 then Inr (m, the q')
        else
          (let end = sint (ucast ((word_of_int offset + of_nat (length elem) - 1 :: u64)
                      AND ucast (pr_buf_mask q)) :: u32)
           in if end - offset < 0 then
                (let len_to_ring_end = nat (sint (pr_buf_mask q + 1 - word_of_int offset));
                     d = store_bytes (pr_data m) (nat offset) (take len_to_ring_end elem);
                     d = store_bytes d 0 (load_bytes elem len_to_ring_end (nat (end + 1)))
                 in Inr (m\<lparr>pr_data := d\<rparr>, the q'))
              else Inr (m\<lparr>pr_data := store_bytes (pr_data m) (nat offset) elem\<rparr>, the q')))"

definition PerfRing_pop :: "pr_memory \<Rightarrow> perf_ring \<Rightarrow> perf_ring" where
  "PerfRing_pop m q = the (fst (snd (pr_read m (Some q) (Some 0))))"

definition PerfRing_read :: "pr_memory \<Rightarrow> perf_ring \<Rightarrow> pr_exn + u8 list \<times> perf_ring" where
  "PerfRing_read m q =
     (let sz = pr_peek_size m q
      in if sz = - ENOENT then Inl Out_of_range
         else if sz < 0 then Inl Length_error
         else
           (let ret = pr_peek_copy m q (replicate (nat sz) 0) 0 (word_of_int sz)
            in Inr (ret, PerfRing_pop m q)))"

text \<open>A view as a byte string; \<^verbatim>\<open>peek\<close> returns the pair.\<close>

definition view_bytes :: "u8 list \<Rightarrow> u32 option \<Rightarrow> u16 \<Rightarrow> u8 list" where
  "view_bytes d off len = (case off of None \<Rightarrow> [] | Some i \<Rightarrow> load_bytes d (unat i) (unat len))"

definition PerfRing_peek :: "pr_memory \<Rightarrow> perf_ring \<Rightarrow> u8 list \<times> u8 list" where
  "PerfRing_peek m q =
     (let view = pr_peek m q
      in (view_bytes (pr_data m) (first view) (first_len view),
          view_bytes (pr_data m) (second view) (second_len view)))"

section \<open>Counters as positions\<close>

lemma pr_aligned_len_of_nat:
  "L < 2 ^ 16 \<Longrightarrow> pr_aligned_len (of_nat L) = of_nat (align8n (L + 8))"
proof -
  assume L: "L < 2 ^ 16"
  have "(ucast (of_nat L :: u16) + 8 + 7 :: u64) = of_nat (L + 8 + 7)"
    using L by (simp add: ucast_of_nat_up)
  moreover have "(7 :: u64) = mask 3" by (simp add: mask_eq_decr_exp)
  ultimately have "(ucast (of_nat L :: u16) + 8 + 7 :: u64) AND NOT 7 = of_nat (2 ^ 3 * ((L + 8 + 7) div 2 ^ 3))"
    using of_nat_and_not_mask [of 3 "L + 8 + 7", where 'a = 64] by simp
  then show ?thesis unfolding pr_aligned_len_def by (simp add: ucast_of_nat_down align8n_def del: of_nat_mult)
qed

lemma pr_payload_offset_of_nat:
  assumes "kb \<le> 31"
  shows "pr_payload_offset (of_nat p) (mask kb) = int ((p + 8) mod 2 ^ kb)"
proof -
  have "(ucast ((ucast (of_nat p :: u32) + 8 :: u64) AND ucast (mask kb :: u32)) :: u32)
      = (of_nat (p + 8)) AND mask kb"
    using assms by (simp add: ucast_and ucast_down_add ucast_up_down)
  also have "\<dots> = of_nat ((p + 8) mod 2 ^ kb)" using assms by (intro of_nat_and_mask) simp
  finally have "pr_payload_offset (of_nat p) (mask kb) = sint (of_nat ((p + 8) mod 2 ^ kb) :: u32)"
    by (simp only: pr_payload_offset_def)
  moreover have "(p + 8) mod 2 ^ kb < 2 ^ 31"
  proof -
    have "(p + 8) mod 2 ^ kb < 2 ^ kb" by simp
    also have "(2::nat) ^ kb \<le> 2 ^ 31" using assms by (intro power_increasing) simp_all
    finally show ?thesis .
  qed
  ultimately show ?thesis by (simp add: sint_of_nat32)
qed

lemma pr_total_offset_of_nat:
  "pr_buf_head q = of_nat p \<Longrightarrow> off < 2 ^ 16 \<Longrightarrow> pr_total_offset q (of_nat off) = of_nat (p + 8 + off)"
  by (simp add: pr_total_offset_def ucast_down_add ucast_up_down ucast_of_nat_up)
lemma pow2_8_dvd: "3 \<le> kb \<Longrightarrow> 8 dvd (2 ^ kb :: nat)"
  using le_imp_power_dvd [of 3 kb "2::nat"] by simp

lemma aligned_header_fits:
  fixes p :: nat
  assumes "8 dvd p" and "3 \<le> kb"
  shows "p mod 2 ^ kb + 8 \<le> 2 ^ kb"
proof -
  have "8 dvd p mod 2 ^ kb" using assms pow2_8_dvd [of kb] by (simp add: dvd_mod)
  then obtain a where a: "p mod 2 ^ kb = 8 * a" by (auto elim: dvdE)
  obtain b where b: "(2::nat) ^ kb = 8 * b" using pow2_8_dvd [OF assms(2)] by (auto elim: dvdE)
  have "p mod 2 ^ kb < 2 ^ kb" by simp
  then show ?thesis unfolding a unfolding b by simp
qed

text \<open>What \<open>pr_write\<close> does on every branch, for a writer at position \<^term>\<open>p\<close> that knows that
  the bytes below \<^term>\<open>h\<close> are free.\<close>

definition pr_view :: "nat \<Rightarrow> nat \<Rightarrow> nat \<Rightarrow> perf_ring \<Rightarrow> bool" where
  "pr_view kb h p q \<longleftrightarrow> pr_buf_mask q = mask kb \<and> pr_buf_head q = of_nat h \<and> pr_buf_tail q = of_nat p
     \<and> h \<le> p \<and> p - h \<le> 2 ^ kb"

lemma pr_write_view:
  assumes k: "kb \<le> 31" and v: "pr_view kb h p w" and L: "L < 2 ^ 16"
  defines "S \<equiv> 2 ^ kb" and "a \<equiv> align8n (L + 8)"
  shows "pr_write m (Some w) (of_nat L) type =
    (if S \<le> a \<or> 65536 \<le> a then (- EINVAL, m, Some w)
     else if S < p + a - h then (- ENOSPC, m, Some w)
     else (int ((p + 8) mod S), m\<lparr>pr_data := set_header (pr_data m) (p mod S) (of_nat a) type\<rparr>,
           Some (w\<lparr>pr_buf_tail := of_nat (p + a)\<rparr>)))"
proof -
  note w = v [unfolded pr_view_def, folded S_def]
  have S: "0 < S" "S \<le> 2 ^ 31" using k by (simp_all add: S_def power_increasing [of kb 31 "2::nat", simplified])
  have a: "a < 2 ^ 17" using align8n_le [of "L + 8"] L by (simp add: a_def)
  have um: "unat (mask kb :: u32) = S - 1" using k by (simp add: S_def unat_mask)
  have m1: "(mask kb :: u32) + 1 = of_nat S" by (simp add: S_def mask_eq_decr_exp)
  have ua: "unat (of_nat a :: u32) = a" using a by (simp add: unat_of_nat)
  have "(of_nat a :: u32) > mask kb \<longleftrightarrow> S \<le> a" using S(1) by (auto simp: word_less_nat_alt um ua)
  moreover have "(of_nat a :: u32) \<ge> 65536 \<longleftrightarrow> 65536 \<le> a" by (simp add: word_le_nat_alt ua)
  moreover have "of_nat p + of_nat a - of_nat h > (of_nat S :: u32) \<longleftrightarrow> S < p + a - h"
  proof -
    have "unat (of_nat (p + a) - of_nat h :: u32) = p + a - h"
      using w S a by (intro unat_counter_diff) auto
    moreover have "unat (of_nat S :: u32) = S" using S(2) by (simp add: unat_of_nat)
    ultimately show ?thesis by (simp add: word_less_nat_alt)
  qed
  moreover have "unat (of_nat p AND mask kb :: u32) = p mod S"
    using k by (simp add: unat_of_nat_and_mask S_def)
  ultimately show ?thesis
    using w k by (auto simp: pr_write_def pr_aligned_len_of_nat [OF L] a_def [symmetric] Let_def m1
        pr_payload_offset_of_nat ucast_of_nat_down S_def [symmetric])
qed

section \<open>Events in the ring\<close>

definition event_len :: "u8 list \<Rightarrow> nat" where
  "event_len e = align8n (length e + 8)"

definition event_store :: "u8 list \<Rightarrow> nat \<Rightarrow> u32 \<Rightarrow> u8 list \<Rightarrow> u8 list" where
  "event_store d p type e =
     (let d = ring_store d (p + 6) (le_bytes 2 (event_len e));
          d = ring_store d p (le_bytes 4 (unat type))
      in ring_store d (p + 8) e)"

definition event_at :: "u8 list \<Rightarrow> nat \<Rightarrow> u32 \<Rightarrow> u8 list \<Rightarrow> bool" where
  "event_at d p type e \<longleftrightarrow> ring_slice d p 4 = le_bytes 4 (unat type) \<and>
     ring_slice d (p + 6) 2 = le_bytes 2 (event_len e) \<and> ring_slice d (p + 8) (length e) = e"

lemma event_len_bounds: "length e + 8 \<le> event_len e" "event_len e \<le> length e + 15" "8 dvd event_len e"
  using align8n_ge [of "length e + 8"] align8n_le [of "length e + 8"]
  by (simp_all add: event_len_def align8n_def)

lemma length_event_store [simp]: "length (event_store d p t e) = length d"
  by (simp add: event_store_def)

lemma event_store_at:
  assumes "event_len e \<le> length d"
  shows "event_at (event_store d p t e) p t e"
  using assms event_len_bounds(1) [of e]
    ring_slice_store_same [of "le_bytes 4 (unat t)" "ring_store d (p + 6) (le_bytes 2 (event_len e))" p]
    ring_slice_store_same [of "le_bytes 2 (event_len e)" d "p + 6"]
  by (simp add: event_at_def event_store_def Let_def ring_slice_store_same ring_slice_store_other)

lemma event_store_other:
  assumes "event_at d q t e" and "q + event_len e \<le> p" and "p + event_len e' \<le> q + length d"
  shows "event_at (event_store d p t' e') q t e"
  using assms event_len_bounds(1) [of e] event_len_bounds(1) [of e']
  by (simp add: event_at_def event_store_def Let_def ring_slice_store_other)

lemma set_header_ring:
  assumes "8 dvd p" and "3 \<le> kb" and "length d = 2 ^ kb" and "event_len e < 65536"
  shows "set_header d (p mod 2 ^ kb) (of_nat (event_len e)) t =
    ring_store (ring_store d (p + 6) (le_bytes 2 (event_len e))) p (le_bytes 4 (unat t))"
proof -
  have fit: "p mod length d + 8 \<le> length d" using aligned_header_fits [OF assms(1,2)] assms(3) by simp
  then have p6: "(p + 6) mod length d = p mod length d + 6" using mod_add_left_eq [of p "length d" 6] by simp
  have u: "unat (of_nat (event_len e) :: u16) = event_len e" using assms(4) by (simp add: unat_of_nat)
  have "store_bytes d (p mod length d + 6) (le_bytes 2 (event_len e)) = ring_store d (p + 6) (le_bytes 2 (event_len e))"
    unfolding p6 [symmetric] by (rule store_bytes_ring) (use fit p6 in simp)
  then show ?thesis
    using fit store_bytes_ring [of p "ring_store d (p + 6) (le_bytes 2 (event_len e))" "le_bytes 4 (unat t)"]
    by (simp add: set_header_def Let_def u assms(3) [symmetric])
qed

text \<open>The two branches of the copy loops agree on the ring: the wrap test compares the first
  and the last slot.\<close>

lemma mod_last: "0 < n \<Longrightarrow> (b mod S + n - 1) mod S = (b + n - 1) mod S" for b n S :: nat
  by (cases n) (simp_all add: mod_simps)

lemma ring_span:
  fixes b n S :: nat
  assumes "0 < n" and "n \<le> S"
  shows "(b + n - 1) mod S < b mod S \<longleftrightarrow> S < b mod S + n"
    and "S < b mod S + n \<Longrightarrow> (b + n - 1) mod S + 1 = n - (S - b mod S)"
proof -
  have lt: "b mod S < S" using assms by simp
  have e: "(b + n - 1) mod S = (b mod S + (n - 1)) mod S"
    using assms(1) mod_add_left_eq [of b S "n - 1"] by simp
  have wrap: "(b mod S + (n - 1)) mod S = b mod S + (n - 1) - S" if "S \<le> b mod S + (n - 1)"
  proof -
    have "(b mod S + (n - 1)) mod S = (b mod S + (n - 1) - S) mod S" using that by (rule le_mod_geq)
    also have "\<dots> = b mod S + (n - 1) - S" using lt assms by (intro mod_less) linarith
    finally show ?thesis .
  qed
  show "(b + n - 1) mod S < b mod S \<longleftrightarrow> S < b mod S + n"
  proof (cases "b mod S + (n - 1) < S")
    case True
    then show ?thesis unfolding e mod_less [OF True] using assms by linarith
  next
    case False
    then have "(b + n - 1) mod S = b mod S + (n - 1) - S" unfolding e by (intro wrap) simp
    then show ?thesis using lt assms False by linarith
  qed
  assume "S < b mod S + n"
  moreover from this have "(b + n - 1) mod S = b mod S + (n - 1) - S" unfolding e by (intro wrap) linarith
  ultimately show "(b + n - 1) mod S + 1 = n - (S - b mod S)" using lt by linarith
qed

lemma pr_peek_copy_ring:
  assumes k: "kb \<le> 31" and d: "length (pr_data m) = 2 ^ kb"
    and q: "pr_buf_mask q = mask kb" "pr_buf_head q = of_nat p"
    and n: "off < 2 ^ 16" "n < 2 ^ 16" "n \<le> 2 ^ kb" "n \<le> length buf"
  shows "pr_peek_copy m q buf (of_nat off) (of_nat n) = store_bytes buf 0 (ring_slice (pr_data m) (p + 8 + off) n)"
proof (cases "n = 0")
  case True
  then have "(of_nat n :: u16) = 0" by simp
  then show ?thesis unfolding pr_peek_copy_def by (simp only: True simp_thms if_True ring_slice_0 store_bytes_Nil)
next
  case False
  define S :: nat where "S = 2 ^ kb"
  define b where "b = p + 8 + off"
  have S: "0 < S" "S \<le> 2 ^ 31" using k by (simp_all add: S_def power_increasing [of kb 31 "2::nat", simplified])
  have small: "unat (of_nat x :: u32) = x" if "x \<le> S" for x using that S(2) by (simp add: unat_of_nat)
  have n0: "(of_nat n :: u16) \<noteq> 0" and u: "unat (of_nat n :: u16) = n"
    using False n(2) by (simp_all add: unat_eq_zero [symmetric] unat_of_nat)
  have tot: "pr_total_offset q (of_nat off) = of_nat b" unfolding b_def by (rule pr_total_offset_of_nat [OF q(2) n(1)])
  have bw: "of_nat b AND mask kb = (of_nat (b mod S) :: u32)" using k by (simp add: of_nat_and_mask S_def)
  have "(of_nat b + ucast (of_nat n :: u16) - 1 :: u32) = of_nat (b + n - 1)"
    using False n(2) by (simp add: ucast_of_nat_up of_nat_diff)
  then have ew: "(of_nat b + ucast (of_nat n :: u16) - 1) AND mask kb = (of_nat ((b + n - 1) mod S) :: u32)"
    using k by (simp add: of_nat_and_mask S_def)
  have mods: "b mod S < S" "(b + n - 1) mod S < S" using S(1) by simp_all
  have lt: "(of_nat ((b + n - 1) mod S) :: u32) < of_nat (b mod S) \<longleftrightarrow> S < b mod S + n"
    using ring_span(1) [of n S b] False n(3) [folded S_def]
    unfolding word_less_nat_alt small [OF less_imp_le [OF mods(1)]] small [OF less_imp_le [OF mods(2)]] by simp
  note unf = pr_peek_copy_def Let_def q(1) tot bw ew
  show ?thesis
  proof (cases "S < b mod S + n")
    case True
    have "(mask kb :: u32) + 1 - of_nat (b mod S) = of_nat (S - b mod S)"
      using mods(1) by (simp add: S_def mask_eq_decr_exp of_nat_diff)
    moreover have "S - b mod S \<le> S" by simp
    ultimately have le: "unat ((mask kb :: u32) + 1 - of_nat (b mod S)) = S - b mod S" using small by metis
    have sp: "(b + n - 1) mod S + 1 = n - (S - b mod S)"
      using ring_span(2) [of n S b] True False n(3) by (simp only: S_def)
    have "(of_nat ((b + n - 1) mod S) + 1 :: u32) = of_nat ((b + n - 1) mod S + 1)" by simp
    then have "(of_nat ((b + n - 1) mod S) + 1 :: u32) = of_nat (n - (S - b mod S))" unfolding sp .
    moreover have "n - (S - b mod S) \<le> S" using n(3) unfolding S_def by linarith
    ultimately have e1: "unat (of_nat ((b + n - 1) mod S) + 1 :: u32) = n - (S - b mod S)" using small by metis
    have rs: "ring_slice (pr_data m) b n = load_bytes (pr_data m) (b mod S) (S - b mod S)
        @ load_bytes (pr_data m) 0 (n - (S - b mod S))"
      using ring_slice_load_wrap [of "pr_data m" b n] True n(3) S(1) unfolding d S_def [symmetric] by simp
    have "length (load_bytes (pr_data m) (b mod S) (S - b mod S)) = S - b mod S"
      using mods(1) by (intro length_load_bytes) (simp add: d S_def)
    moreover have "length (load_bytes (pr_data m) 0 (n - (S - b mod S))) = n - (S - b mod S)"
      using n(3) unfolding S_def [symmetric] by (intro length_load_bytes) (use d S_def in linarith)
    ultimately have "store_bytes (store_bytes buf 0 (load_bytes (pr_data m) (b mod S) (S - b mod S))) (S - b mod S)
        (load_bytes (pr_data m) 0 (n - (S - b mod S))) = store_bytes buf 0 (ring_slice (pr_data m) b n)"
      using store_bytes_two [of "load_bytes (pr_data m) (b mod S) (S - b mod S)"
          "load_bytes (pr_data m) 0 (n - (S - b mod S))" buf] True n(4) unfolding rs by simp
    then show ?thesis
      using n0 True lt unfolding unf le e1 small [OF less_imp_le [OF mods(1)]] b_def [symmetric] by simp
  next
    case nowrap: False
    then have "ring_slice (pr_data m) b n = load_bytes (pr_data m) (b mod S) n"
      using ring_slice_load [of b "pr_data m" n] unfolding d S_def [symmetric] by simp
    then show ?thesis
      using n0 nowrap lt unfolding unf u small [OF less_imp_le [OF mods(1)]] b_def [symmetric] by simp
  qed
qed

text \<open>Writing an event through the class stores the header and the payload on the ring.\<close>

lemma PerfRing_write_view:
  assumes k: "3 \<le> kb" "kb \<le> 31" and v: "pr_view kb h p w" and al: "8 dvd p"
    and d: "length (pr_data m) = 2 ^ kb" and L: "length e < 2 ^ 16"
  shows "PerfRing_write m w e type =
    (if 2 ^ kb \<le> event_len e \<or> 65536 \<le> event_len e then Inl Invalid_argument
     else if 2 ^ kb < p + event_len e - h then Inl Range_error
     else Inr (m\<lparr>pr_data := event_store (pr_data m) p type e\<rparr>, w\<lparr>pr_buf_tail := of_nat (p + event_len e)\<rparr>))"
proof (cases "2 ^ kb \<le> event_len e \<or> 65536 \<le> event_len e \<or> 2 ^ kb < p + event_len e - h")
  case True
  then show ?thesis
    unfolding PerfRing_write_def pr_write_view [OF k(2) v L] event_len_def by (auto simp: errno_defs)
next
  case False
  define S :: nat where "S = 2 ^ kb"
  define b where "b = p + 8"
  define hd where "hd = ring_store (ring_store (pr_data m) (p + 6) (le_bytes 2 (event_len e))) p (le_bytes 4 (unat type))"
  have S: "0 < S" "S \<le> 2 ^ 31" using k by (simp_all add: S_def power_increasing [of kb 31 "2::nat", simplified])
  have el: "length e + 8 \<le> event_len e" "event_len e < S" "event_len e < 65536"
    using False event_len_bounds(1) [of e] by (simp_all add: S_def)
  have w: "pr_write m (Some w) (of_nat (length e)) type =
      (int (b mod S), m\<lparr>pr_data := hd\<rparr>, Some (w\<lparr>pr_buf_tail := of_nat (p + event_len e)\<rparr>))"
    using False set_header_ring [OF al k(1) d el(3)]
    unfolding pr_write_view [OF k(2) v L] event_len_def [symmetric] by (simp add: S_def b_def hd_def)
  have lenhd: "length hd = S" by (simp add: hd_def d S_def)
  have bS: "b mod S < S" using S(1) by simp
  have goal: "Inr (m\<lparr>pr_data := ring_store hd b e\<rparr>, w\<lparr>pr_buf_tail := of_nat (p + event_len e)\<rparr>)
      = PerfRing_write m w e type"
  proof (cases "length e = 0")
    case True
    then show ?thesis unfolding PerfRing_write_def w by (simp add: errno_defs)
  next
    case ne: False
    let ?n = "length e"
    have msk: "pr_buf_mask w = mask kb" using v by (simp add: pr_view_def)
    have "(word_of_int (int (b mod S)) + of_nat ?n - 1 :: u64) = of_nat (b mod S + ?n - 1)"
      using ne of_nat_last [of ?n "b mod S", where 'a = 64] by simp
    then have "(ucast ((word_of_int (int (b mod S)) + of_nat ?n - 1 :: u64) AND ucast (mask kb :: u32)) :: u32)
        = of_nat (b mod S + ?n - 1) AND mask kb"
      by (simp only: ucast_and ucast_up_down) (simp add: ucast_of_nat_down)
    also have "\<dots> = of_nat ((b mod S + ?n - 1) mod S)"
      using k(2) of_nat_and_mask [of kb "b mod S + ?n - 1", where 'a = 32] by (simp add: S_def)
    also have "(b mod S + ?n - 1) mod S = (b + ?n - 1) mod S"
      using ne by (intro mod_last) simp
    finally have ew: "(ucast ((word_of_int (int (b mod S)) + of_nat ?n - 1 :: u64) AND ucast (mask kb :: u32)) :: u32)
        = of_nat ((b + ?n - 1) mod S)" .
    have "(b + ?n - 1) mod S < 2 ^ 31" using mod_less_divisor [OF S(1), of "b + ?n - 1"] S(2) by linarith
    then have es: "sint (of_nat ((b + ?n - 1) mod S) :: u32) = int ((b + ?n - 1) mod S)" by (rule sint_of_nat32)
    have span: "(b + ?n - 1) mod S < b mod S \<longleftrightarrow> S < b mod S + ?n"
      using ring_span(1) [of ?n S b] ne el by simp
    show ?thesis
    proof (cases "S < b mod S + ?n")
      case True
      define j where "j = S - b mod S"
      have j: "0 < j" "j < 2 ^ 31" using True el S(2) bS by (simp_all add: j_def)
      have "(mask kb + 1 - word_of_int (int (b mod S)) :: u32) = of_nat j"
        using bS by (simp add: j_def S_def mask_eq_decr_exp of_nat_diff)
      then have ks: "nat (sint (mask kb + 1 - word_of_int (int (b mod S)) :: u32)) = j"
        using j(2) by (simp add: sint_of_nat32)
      have "(b + ?n - 1) mod S + 1 = ?n - j"
        using ring_span(2) [of ?n S b] True ne el unfolding j_def by linarith
      then have "nat (int ((b + ?n - 1) mod S) + 1) = ?n - j" by linarith
      then have rest: "load_bytes e j (nat (int ((b + ?n - 1) mod S) + 1)) = drop j e"
        by (simp add: load_bytes_def)
      have "store_bytes (store_bytes hd (b mod S) (take j e)) 0 (drop j e) = ring_store hd b e"
        using store_bytes_ring_wrap [of hd b e] True el S(1) unfolding lenhd j_def by simp
      then show ?thesis
        using ne True span unfolding PerfRing_write_def w msk prod.case Let_def ew es ks rest
        by (simp add: errno_defs)
    next
      case False
      have "store_bytes hd (b mod S) e = ring_store hd b e"
        using False store_bytes_ring [of b hd e] by (simp add: lenhd)
      then show ?thesis
        using ne False span unfolding PerfRing_write_def w msk prod.case Let_def ew es
        by (simp add: errno_defs)
    qed
  qed
  then show ?thesis
    using False unfolding event_store_def hd_def b_def by simp
qed

text \<open>Reading an event.\<close>

lemma event_at_header:
  assumes "event_at d p t e" and "8 dvd p" and "3 \<le> kb" and "length d = 2 ^ kb" and "event_len e < 65536"
  shows "header_type d (p mod 2 ^ kb) = t" and "header_size d (p mod 2 ^ kb) = of_nat (event_len e)"
proof -
  have fit: "p mod length d + 8 \<le> length d" using aligned_header_fits [OF assms(2,3)] assms(4) by simp
  then have p6: "(p + 6) mod length d = p mod length d + 6" using mod_add_left_eq [of p "length d" 6] by simp
  have "load_bytes d (p mod length d) 4 = le_bytes 4 (unat t)"
    using fit ring_slice_load [of p d 4] assms(1) by (simp add: event_at_def)
  moreover have "unat t < 2 ^ LENGTH(32)" by (rule unsigned_less)
  ultimately show "header_type d (p mod 2 ^ kb) = t"
    using assms(4) by (simp add: header_type_def le_nat_le_bytes)
  have "load_bytes d (p mod length d + 6) 2 = le_bytes 2 (event_len e)"
    using fit p6 ring_slice_load [of "p + 6" d 2] assms(1) by (simp add: event_at_def)
  then show "header_size d (p mod 2 ^ kb) = of_nat (event_len e)"
    using assms(4,5) by (simp add: header_size_def le_nat_le_bytes)
qed

lemma PerfRing_read_view:
  assumes k: "3 \<le> kb" "kb \<le> 31" and d: "length (pr_data m) = 2 ^ kb"
    and q: "pr_buf_mask q = mask kb" "pr_buf_head q = of_nat p" "pr_buf_tail q \<noteq> pr_buf_head q"
    and ev: "event_at (pr_data m) p t e" "8 dvd p" "event_len e < 65536" "event_len e < 2 ^ kb"
  shows "pr_peek_size m q = int (event_len e - 8)" and "pr_peek_type m q = t"
    and "PerfRing_read m q =
      Inr (ring_slice (pr_data m) (p + 8) (event_len e - 8), q\<lparr>pr_buf_head := of_nat (p + event_len e)\<rparr>)"
proof -
  note hdr = event_at_header [OF ev(1,2) k(1) d ev(3)]
  let ?L = "event_len e"
  have L8: "8 \<le> ?L" using event_len_bounds(1) [of e] by simp
  have idx: "unat (of_nat p AND mask kb :: u32) = p mod 2 ^ kb" using k by (simp add: unat_of_nat_and_mask)
  show "pr_peek_type m q = t" by (simp add: pr_peek_type_def q(1,2) idx hdr)
  have "(ucast (of_nat ?L :: u16) - 8 :: u64) = of_nat (?L - 8)"
    using ev(3) L8 by (simp add: ucast_of_nat_up of_nat_diff)
  then have dn: "(ucast (ucast (of_nat ?L :: u16) - 8 :: u64) :: u32) = of_nat (?L - 8)"
    by (simp add: ucast_of_nat_down del: of_nat_diff)
  have s31: "sint (of_nat (?L - 8) :: u32) = int (?L - 8)" using ev(3) by (intro sint_of_nat32) simp
  show size: "pr_peek_size m q = int (?L - 8)"
    using q(3) unfolding pr_peek_size_def q(1,2) idx hdr(2) dn s31 by simp
  have "word_of_int (int (?L - 8)) = (of_nat (?L - 8) :: u16)" by simp
  then have cp: "pr_peek_copy m q (replicate (nat (int (?L - 8))) 0) 0 (word_of_int (int (?L - 8)))
      = ring_slice (pr_data m) (p + 8) (?L - 8)"
    using pr_peek_copy_ring [OF k(2) d q(1,2), of 0 "?L - 8" "replicate (?L - 8) 0"] ev(3,4)
    by (simp add: store_bytes_def)
  have "PerfRing_pop m q = q\<lparr>pr_buf_head := of_nat (p + ?L)\<rparr>"
    using q(3) ev(3) by (simp add: PerfRing_pop_def pr_read_def q(1,2) idx hdr Let_def ucast_of_nat_up)
  then show "PerfRing_read m q =
      Inr (ring_slice (pr_data m) (p + 8) (?L - 8), q\<lparr>pr_buf_head := of_nat (p + ?L)\<rparr>)"
    unfolding PerfRing_read_def size Let_def cp by (simp add: errno_defs)
qed

section \<open>Writer and reader\<close>

record pr_sys =
  ps_mem :: pr_memory
  ps_wr :: perf_ring
  ps_rd :: perf_ring
  ps_sent :: "(u32 \<times> u8 list) list"
  ps_recvd :: "(u32 \<times> u8 list) list"

inductive pr_step :: "pr_sys \<Rightarrow> pr_sys \<Rightarrow> bool" where
  w_start: "pr_step s (s\<lparr>ps_wr := pr_start_write_batch (ps_mem s) (ps_wr s)\<rparr>)"
| w_write: "length e < 2 ^ 16 \<Longrightarrow> PerfRing_write (ps_mem s) (ps_wr s) e t = Inr (m', w') \<Longrightarrow>
    pr_step s (s\<lparr>ps_mem := m', ps_wr := w', ps_sent := ps_sent s @ [(t, e)]\<rparr>)"
| w_finish: "pr_step s (s\<lparr>ps_mem := pr_finish_write_batch (ps_mem s) (ps_wr s)\<rparr>)"
| r_start: "pr_step s (s\<lparr>ps_rd := pr_start_read_batch (ps_mem s) (ps_rd s)\<rparr>)"
| r_read: "PerfRing_read (ps_mem s) (ps_rd s) = Inr (bs, r') \<Longrightarrow>
    pr_step s (s\<lparr>ps_rd := r', ps_recvd := ps_recvd s @ [(pr_peek_type (ps_mem s) (ps_rd s), bs)]\<rparr>)"
| r_finish: "pr_step s (s\<lparr>ps_mem := pr_finish_read_batch (ps_mem s) (ps_rd s)\<rparr>)"

inductive pr_reachable :: "pr_sys \<Rightarrow> pr_sys \<Rightarrow> bool" for s0 where
  start: "pr_reachable s0 s0"
| step: "pr_reachable s0 s \<Longrightarrow> pr_step s t \<Longrightarrow> pr_reachable s0 t"

text \<open>The mapped page starts with both positions at zero.\<close>

definition pr_start :: "u32 \<Rightarrow> u64 \<Rightarrow> u8 list \<Rightarrow> perf_ring \<Rightarrow> perf_ring \<Rightarrow> pr_sys" where
  "pr_start n_pages page_size d w r =
     (let m = \<lparr>data_head = 0, data_tail = 0, pr_data = d\<rparr>
      in \<lparr>ps_mem = m, ps_wr = the (snd (pr_init_contig (Some w) (Some m) n_pages page_size)),
          ps_rd = the (snd (pr_init_contig (Some r) (Some m) n_pages page_size)),
          ps_sent = [], ps_recvd = []\<rparr>)"

text \<open>A received event carries the type that was sent and the payload, padded.\<close>

definition event_received :: "u32 \<times> u8 list \<Rightarrow> u32 \<times> u8 list \<Rightarrow> bool" where
  "event_received sent recvd \<longleftrightarrow> fst recvd = fst sent \<and> length (snd recvd) = event_len (snd sent) - 8
     \<and> take (length (snd sent)) (snd recvd) = snd sent"

definition pr_pos :: "(u32 \<times> u8 list) list \<Rightarrow> nat \<Rightarrow> nat" where
  "pr_pos es i = sum_list (map (\<lambda>x. event_len (snd x)) (take i es))"

lemma pr_pos_Suc: "i < length es \<Longrightarrow> pr_pos es (Suc i) = pr_pos es i + event_len (snd (es ! i))"
  by (simp add: pr_pos_def take_Suc_conv_app_nth)

lemma pr_pos_append [simp]: "i \<le> length es \<Longrightarrow> pr_pos (es @ xs) i = pr_pos es i"
  by (simp add: pr_pos_def)

lemma pr_pos_mono: "i \<le> j \<Longrightarrow> j \<le> length es \<Longrightarrow> pr_pos es i \<le> pr_pos es j"
proof (induction j rule: dec_induct)
  case (step j)
  then show ?case using pr_pos_Suc [of j es] by simp
qed simp

lemma pr_pos_strict: "i < j \<Longrightarrow> j \<le> length es \<Longrightarrow> pr_pos es i < pr_pos es j"
  using pr_pos_mono [of "Suc i" j es] pr_pos_Suc [of i es] event_len_bounds(1) [of "snd (es ! i)"] by simp

lemma pr_pos_aligned: "8 dvd pr_pos es i"
proof -
  have "8 dvd sum_list (map (\<lambda>x. event_len (snd x)) xs)" for xs :: "(u32 \<times> u8 list) list"
    by (induction xs) (simp_all add: event_len_bounds(3))
  then show ?thesis by (simp add: pr_pos_def)
qed

text \<open>
  The invariant, for cursors that say which event each position refers to: the writer's copy
  of the head (\<open>wh\<close>), the published head (\<open>sh\<close>), the reader's copy of the tail (\<open>rt\<close>) and the
  published tail (\<open>st\<close>).
\<close>

definition pr_ok :: "nat \<Rightarrow> nat \<Rightarrow> nat \<Rightarrow> nat \<Rightarrow> nat \<Rightarrow> pr_sys \<Rightarrow> bool" where
  "pr_ok kb wh sh rt st s \<longleftrightarrow>
     (let S = 2 ^ kb; m = ps_mem s; w = ps_wr s; r = ps_rd s; es = ps_sent s;
          N = length (ps_sent s); R = length (ps_recvd s)
      in length (pr_data m) = S \<and> pr_buf_mask w = mask kb \<and> pr_buf_mask r = mask kb
       \<and> pr_buf_head w = of_nat (pr_pos es wh) \<and> pr_buf_tail w = of_nat (pr_pos es N)
       \<and> ucast (data_tail m) = (of_nat (pr_pos es sh) :: u32) \<and> ucast (data_head m) = (of_nat (pr_pos es st) :: u32)
       \<and> pr_buf_head r = of_nat (pr_pos es R) \<and> pr_buf_tail r = of_nat (pr_pos es rt)
       \<and> wh \<le> sh \<and> sh \<le> R \<and> R \<le> rt \<and> rt \<le> st \<and> st \<le> N
       \<and> pr_pos es N - pr_pos es wh \<le> S
       \<and> (\<forall>i<N. event_len (snd (es ! i)) < S \<and> event_len (snd (es ! i)) < 65536)
       \<and> (\<forall>i. wh \<le> i \<and> i < N \<longrightarrow> event_at (pr_data m) (pr_pos es i) (fst (es ! i)) (snd (es ! i)))
       \<and> list_all2 event_received (take R es) (ps_recvd s))"

lemma pr_ok_copies:
  assumes "pr_ok kb wh sh rt st s"
  shows "pr_ok kb sh sh rt st (s\<lparr>ps_wr := pr_start_write_batch (ps_mem s) (ps_wr s)\<rparr>)"
    and "pr_ok kb wh sh rt (length (ps_sent s)) (s\<lparr>ps_mem := pr_finish_write_batch (ps_mem s) (ps_wr s)\<rparr>)"
    and "pr_ok kb wh sh st st (s\<lparr>ps_rd := pr_start_read_batch (ps_mem s) (ps_rd s)\<rparr>)"
    and "pr_ok kb wh (length (ps_recvd s)) rt st (s\<lparr>ps_mem := pr_finish_read_batch (ps_mem s) (ps_rd s)\<rparr>)"
proof -
  have "pr_pos (ps_sent s) wh \<le> pr_pos (ps_sent s) sh"
    using assms by (intro pr_pos_mono) (simp_all add: pr_ok_def Let_def)
  note * = assms [unfolded pr_ok_def Let_def] this
  show "pr_ok kb sh sh rt st (s\<lparr>ps_wr := pr_start_write_batch (ps_mem s) (ps_wr s)\<rparr>)"
    using * by (elim conjE) (simp add: pr_ok_def Let_def pr_start_write_batch_def)
  show "pr_ok kb wh sh rt (length (ps_sent s)) (s\<lparr>ps_mem := pr_finish_write_batch (ps_mem s) (ps_wr s)\<rparr>)"
    using * by (elim conjE) (simp add: pr_ok_def Let_def pr_finish_write_batch_def ucast_up_down)
  show "pr_ok kb wh sh st st (s\<lparr>ps_rd := pr_start_read_batch (ps_mem s) (ps_rd s)\<rparr>)"
    using * by (elim conjE) (simp add: pr_ok_def Let_def pr_start_read_batch_def)
  show "pr_ok kb wh (length (ps_recvd s)) rt st (s\<lparr>ps_mem := pr_finish_read_batch (ps_mem s) (ps_rd s)\<rparr>)"
    using * by (elim conjE) (simp add: pr_ok_def Let_def pr_finish_read_batch_def ucast_up_down)
qed

lemma pr_ok_view:
  assumes "pr_ok kb wh sh rt st s"
  shows "pr_view kb (pr_pos (ps_sent s) wh) (pr_pos (ps_sent s) (length (ps_sent s))) (ps_wr s)"
proof -
  have "pr_pos (ps_sent s) wh \<le> pr_pos (ps_sent s) (length (ps_sent s))"
    using assms by (intro pr_pos_mono) (simp_all add: pr_ok_def Let_def)
  then show ?thesis using assms by (simp add: pr_ok_def pr_view_def Let_def)
qed

lemma pr_ok_write:
  assumes ok: "pr_ok kb wh sh rt st s" and k: "3 \<le> kb" "kb \<le> 31" and L: "length e < 2 ^ 16"
    and wr: "PerfRing_write (ps_mem s) (ps_wr s) e t = Inr (m', w')"
  shows "pr_ok kb wh sh rt st (s\<lparr>ps_mem := m', ps_wr := w', ps_sent := ps_sent s @ [(t, e)]\<rparr>)"
proof -
  note * = ok [unfolded pr_ok_def Let_def]
  let ?es = "ps_sent s" and ?N = "length (ps_sent s)"
  let ?p = "pr_pos ?es ?N" and ?d = "pr_data (ps_mem s)"
  have d: "length ?d = 2 ^ kb" using * by simp
  note out = PerfRing_write_view [OF k pr_ok_view [OF ok] pr_pos_aligned d L, of t]
  have c: "event_len e < 2 ^ kb" "event_len e < 65536" "?p + event_len e - pr_pos ?es wh \<le> 2 ^ kb"
    using wr unfolding out by (auto split: if_splits)
  have r: "m' = (ps_mem s)\<lparr>pr_data := event_store ?d ?p t e\<rparr>"
      "w' = (ps_wr s)\<lparr>pr_buf_tail := of_nat (?p + event_len e)\<rparr>"
    using wr c unfolding out by (auto split: if_splits)
  have new: "pr_pos (?es @ [(t, e)]) (Suc ?N) = ?p + event_len e" by (subst pr_pos_Suc) simp_all
  have keep: "event_at (event_store ?d ?p t e) (pr_pos ?es i) (fst (?es ! i)) (snd (?es ! i))"
    if i: "wh \<le> i" "i < ?N" for i
  proof (rule event_store_other)
    show "event_at ?d (pr_pos ?es i) (fst (?es ! i)) (snd (?es ! i))" using * i by blast
    show "pr_pos ?es i + event_len (snd (?es ! i)) \<le> ?p"
      using pr_pos_mono [of "Suc i" ?N ?es] i(2) by (simp add: pr_pos_Suc)
    show "?p + event_len e \<le> pr_pos ?es i + length ?d"
      using c(3) pr_pos_mono [of wh i ?es] i d by simp
  qed
  have events: "event_at (event_store ?d ?p t e) (pr_pos (?es @ [(t, e)]) i) (fst ((?es @ [(t, e)]) ! i))
      (snd ((?es @ [(t, e)]) ! i))" if "wh \<le> i" "i < Suc ?N" for i
    using that keep [of i] event_store_at [of e ?d ?p t] c(1) d
    by (cases "i = ?N") (simp_all add: nth_append)
  have fits: "\<forall>i < Suc ?N. event_len (snd ((?es @ [(t, e)]) ! i)) < 2 ^ kb \<and> event_len (snd ((?es @ [(t, e)]) ! i)) < 65536"
    using * c(1,2) by (simp add: less_Suc_eq nth_append)
  show ?thesis
    unfolding pr_ok_def Let_def using * c(3) events fits
    by (elim conjE, intro conjI) (simp_all add: r new d del: nth_append)
qed

lemma pr_ok_next:
  assumes ok: "pr_ok kb wh sh rt st s" and k: "3 \<le> kb" "kb \<le> 31"
    and ne: "pr_buf_tail (ps_rd s) \<noteq> pr_buf_head (ps_rd s)"
  defines "R \<equiv> length (ps_recvd s)" and "es \<equiv> ps_sent s"
  shows "R < rt" and "R < length es"
    and "pr_peek_type (ps_mem s) (ps_rd s) = fst (es ! R)"
    and "\<exists>bs. PerfRing_read (ps_mem s) (ps_rd s) = Inr (bs, (ps_rd s)\<lparr>pr_buf_head := of_nat (pr_pos es (Suc R))\<rparr>)
      \<and> event_received (es ! R) (fst (es ! R), bs)"
proof -
  note * = ok [unfolded pr_ok_def Let_def, folded R_def es_def]
  have tl: "pr_buf_tail (ps_rd s) = of_nat (pr_pos es rt)" "pr_buf_head (ps_rd s) = of_nat (pr_pos es R)"
    and ord: "wh \<le> R" "R \<le> rt" "rt \<le> length es" using * by linarith+
  have "R \<noteq> rt" using ne by (auto simp: tl)
  then show R: "R < rt" "R < length es" using ord by linarith+
  let ?p = "pr_pos es R" and ?e = "snd (es ! R)" and ?d = "pr_data (ps_mem s)"
  have ev: "event_at ?d ?p (fst (es ! R)) ?e" "event_len ?e < 65536" "event_len ?e < 2 ^ kb"
    and q: "length ?d = 2 ^ kb" "pr_buf_mask (ps_rd s) = mask kb" "pr_buf_head (ps_rd s) = of_nat ?p"
    using * R(2) ord(1) by blast+
  note rd = PerfRing_read_view [OF k q(1-3) ne ev(1) pr_pos_aligned ev(2,3)]
  show "pr_peek_type (ps_mem s) (ps_rd s) = fst (es ! R)" by (rule rd(2))
  have "event_len ?e - 8 = length ?e + (event_len ?e - 8 - length ?e)" using event_len_bounds(1) [of ?e] by simp
  then have "take (length ?e) (ring_slice ?d (?p + 8) (event_len ?e - 8)) = ring_slice ?d (?p + 8) (length ?e)"
    using ring_slice_add [of ?d "?p + 8" "length ?e" "event_len ?e - 8 - length ?e"] by simp
  then have "event_received (es ! R) (fst (es ! R), ring_slice ?d (?p + 8) (event_len ?e - 8))"
    using ev(1) by (simp add: event_received_def event_at_def)
  then show "\<exists>bs. PerfRing_read (ps_mem s) (ps_rd s) = Inr (bs, (ps_rd s)\<lparr>pr_buf_head := of_nat (pr_pos es (Suc R))\<rparr>)
      \<and> event_received (es ! R) (fst (es ! R), bs)"
    using rd(3) R(2) by (auto simp: pr_pos_Suc)
qed

lemma pr_ok_read:
  assumes ok: "pr_ok kb wh sh rt st s" and k: "3 \<le> kb" "kb \<le> 31"
    and rd: "PerfRing_read (ps_mem s) (ps_rd s) = Inr (bs, r')"
  shows "pr_ok kb wh sh rt st
    (s\<lparr>ps_rd := r', ps_recvd := ps_recvd s @ [(pr_peek_type (ps_mem s) (ps_rd s), bs)]\<rparr>)"
proof -
  have ne: "pr_buf_tail (ps_rd s) \<noteq> pr_buf_head (ps_rd s)"
    using rd by (auto simp: PerfRing_read_def pr_peek_size_def Let_def errno_defs split: if_splits)
  note n = pr_ok_next [OF ok k ne]
  have "r' = (ps_rd s)\<lparr>pr_buf_head := of_nat (pr_pos (ps_sent s) (Suc (length (ps_recvd s))))\<rparr>"
    and ev: "event_received (ps_sent s ! length (ps_recvd s)) (pr_peek_type (ps_mem s) (ps_rd s), bs)"
    using n(3,4) rd by auto
  then show ?thesis
    using ok n(1,2) unfolding pr_ok_def Let_def
    by (elim conjE) (simp add: take_Suc_conv_app_nth list_all2_appendI)
qed

definition pr_sys_inv :: "nat \<Rightarrow> pr_sys \<Rightarrow> bool" where
  "pr_sys_inv kb s \<longleftrightarrow> (\<exists>wh sh rt st. pr_ok kb wh sh rt st s)"

lemma pr_step_inv:
  assumes "pr_step s t" and "pr_sys_inv kb s" and k: "3 \<le> kb" "kb \<le> 31"
  shows "pr_sys_inv kb t"
proof -
  obtain wh sh rt st where ok: "pr_ok kb wh sh rt st s" using assms(2) by (auto simp: pr_sys_inv_def)
  from assms(1) show ?thesis unfolding pr_sys_inv_def
  proof cases
    case w_start then show "\<exists>wh sh rt st. pr_ok kb wh sh rt st t" using pr_ok_copies(1) [OF ok] by blast
  next
    case w_write then show "\<exists>wh sh rt st. pr_ok kb wh sh rt st t" using pr_ok_write [OF ok k] by blast
  next
    case w_finish then show "\<exists>wh sh rt st. pr_ok kb wh sh rt st t" using pr_ok_copies(2) [OF ok] by blast
  next
    case r_start then show "\<exists>wh sh rt st. pr_ok kb wh sh rt st t" using pr_ok_copies(3) [OF ok] by blast
  next
    case r_read then show "\<exists>wh sh rt st. pr_ok kb wh sh rt st t" using pr_ok_read [OF ok k] by blast
  next
    case r_finish then show "\<exists>wh sh rt st. pr_ok kb wh sh rt st t" using pr_ok_copies(4) [OF ok] by blast
  qed
qed

lemma pr_init_start:
  assumes "3 \<le> kb" "kb \<le> 31" and "length d = 2 ^ kb" and "ucast n_pages * page_size = (2 ^ kb :: u64)"
  shows "pr_ok kb 0 0 0 0 (pr_start n_pages page_size d w r)"
proof -
  have "(2::nat) ^ kb < 2 ^ 64" using assms(2) by (intro power_strict_increasing) simp_all
  then have "unat (of_nat (2 ^ kb) :: u64) = 2 ^ kb" by (simp add: unat_of_nat del: of_nat_power)
  then have u: "unat (2 ^ kb :: u64) = 2 ^ kb" by simp
  have "8 \<le> (2::nat) ^ kb" using power_increasing [of 3 kb "2::nat"] assms(1) by simp
  then have ge: "\<not> (2 ^ kb :: u64) < 8" by (simp add: word_less_nat_alt u)
  have "(ucast (2 ^ kb - 1 :: u64) :: u32) = mask kb"
  proof (rule bit_word_eqI)
    fix n assume "n < LENGTH(32)"
    then show "bit (ucast (2 ^ kb - 1 :: u64) :: u32) n = bit (mask kb :: u32) n"
      using assms(2) by (simp only: mask_eq_decr_exp [symmetric] bit_unsigned_iff bit_mask_iff) auto
  qed
  then show ?thesis
    using assms(3) ge pow2_and_pred [of kb, where 'a = 64]
    by (simp add: pr_ok_def pr_start_def pr_init_contig_def Let_def assms(4) pr_pos_def)
qed

lemma pr_reachable_inv:
  assumes "pr_reachable (pr_start n_pages page_size d w r) s"
    and "3 \<le> kb" "kb \<le> 31" "length d = 2 ^ kb" "ucast n_pages * page_size = (2 ^ kb :: u64)"
  shows "pr_sys_inv kb s"
  using assms(1)
proof induction
  case start
  then show ?case using pr_init_start [OF assms(2-5)] unfolding pr_sys_inv_def by blast
next
  case (step s t)
  then show ?case using pr_step_inv assms(2,3) by blast
qed

section \<open>Properties\<close>

text \<open>A ring of 32 bytes after one event has been written and published, and then read.\<close>

definition pr_demo0 :: pr_sys where
  "pr_demo0 = pr_start 1 32 [0, 0, 0, 0, 0, 0, 0, 0, 0, 0, 0, 0, 0, 0, 0, 0,
     0, 0, 0, 0, 0, 0, 0, 0, 0, 0, 0, 0, 0, 0, 0, 0] \<lparr>pr_buf_mask = 0, pr_buf_head = 3, pr_buf_tail = 3\<rparr>
     \<lparr>pr_buf_mask = 0, pr_buf_head = 3, pr_buf_tail = 3\<rparr>"

definition pr_demo1 :: pr_sys where
  "pr_demo1 =
    \<lparr>ps_mem = \<lparr>data_head = 16, data_tail = 0, pr_data = [9, 0, 0, 0, 0, 0, 16, 0, 1, 2, 3, 0, 0, 0, 0, 0,
       0, 0, 0, 0, 0, 0, 0, 0, 0, 0, 0, 0, 0, 0, 0, 0]\<rparr>,
     ps_wr = \<lparr>pr_buf_mask = 31, pr_buf_head = 0, pr_buf_tail = 16\<rparr>,
     ps_rd = \<lparr>pr_buf_mask = 31, pr_buf_head = 0, pr_buf_tail = 16\<rparr>,
     ps_sent = [(9, [1, 2, 3])], ps_recvd = []\<rparr>"

definition pr_demo2 :: pr_sys where
  "pr_demo2 = pr_demo1\<lparr>ps_rd := \<lparr>pr_buf_mask = 31, pr_buf_head = 16, pr_buf_tail = 16\<rparr>,
     ps_recvd := [(9, [1, 2, 3, 0, 0, 0, 0, 0])]\<rparr>"

lemma pr_demo_write:
  "PerfRing_write (ps_mem pr_demo0) (ps_wr pr_demo0) [1, 2, 3] 9 =
     Inr ((ps_mem pr_demo1)\<lparr>data_head := 0\<rparr>, ps_wr pr_demo1)"
  by (simp add: PerfRing_write_def pr_write_def pr_demo0_def pr_start_def pr_init_contig_def pr_demo1_def Let_def
      pr_aligned_len_def set_header_def store_bytes_def pr_payload_offset_def errno_defs le_bytes_numeral)

lemma pr_demo_read:
  "PerfRing_read (ps_mem pr_demo1) (ps_rd pr_demo1) = Inr ([1, 2, 3, 0, 0, 0, 0, 0], ps_rd pr_demo2)"
  "pr_peek_type (ps_mem pr_demo1) (ps_rd pr_demo1) = 9"
  by (simp_all add: PerfRing_read_def pr_peek_size_def pr_peek_type_def pr_peek_copy_def PerfRing_pop_def pr_read_def
      pr_demo1_def pr_demo2_def header_size_def header_type_def load_bytes_def store_bytes_def Let_def
      pr_total_offset_def errno_defs)

lemma pr_demo_reachable: "pr_reachable pr_demo0 pr_demo1" "pr_reachable pr_demo0 pr_demo2"
proof -
  let ?s = "pr_demo0\<lparr>ps_mem := (ps_mem pr_demo1)\<lparr>data_head := 0\<rparr>, ps_wr := ps_wr pr_demo1,
      ps_sent := ps_sent pr_demo0 @ [(9, [1, 2, 3])]\<rparr>"
  have "pr_reachable pr_demo0 ?s"
    by (rule pr_reachable.step [OF pr_reachable.start w_write [OF _ pr_demo_write]]) simp
  from pr_reachable.step [OF pr_reachable.step [OF this w_finish] r_start]
  show 1: "pr_reachable pr_demo0 pr_demo1"
    by (simp add: pr_demo0_def pr_start_def pr_init_contig_def pr_demo1_def Let_def
      pr_finish_write_batch_def pr_start_read_batch_def)
  from pr_reachable.step [OF 1 r_read [OF pr_demo_read(1)]]
  show "pr_reachable pr_demo0 pr_demo2"
    by (simp add: pr_demo_read pr_demo2_def) (simp add: pr_demo1_def)
qed

text \<open>
  C9. In-order delivery through the perf ring. Under any interleaving of write batches, read
  batches, writes and reads, the events read so far correspond one to one, in order, to the
  first events written: same type, and a payload that is the written one followed by
  padding up to the aligned length, also when the payload wraps around the buffer.
\<close>

theorem pr_delivery_fifo:
  assumes "3 \<le> kb" "kb \<le> 31" and "length d = 2 ^ kb" and "ucast n_pages * page_size = (2 ^ kb :: u64)"
    and "pr_reachable (pr_start n_pages page_size d w r) s"
  shows "list_all2 event_received (take (length (ps_recvd s)) (ps_sent s)) (ps_recvd s)"
  using pr_reachable_inv [OF assms(5,1-4)] by (auto simp: pr_sys_inv_def pr_ok_def Let_def)

theorem pr_delivery_fifo_witness:
  "ps_recvd pr_demo2 = [(9, [1, 2, 3, 0, 0, 0, 0, 0])] \<and>
   list_all2 event_received (take (length (ps_recvd pr_demo2)) (ps_sent pr_demo2)) (ps_recvd pr_demo2)"
proof -
  have "ps_recvd pr_demo2 = [(9, [1, 2, 3, 0, 0, 0, 0, 0])]" by (simp add: pr_demo2_def)
  moreover have "list_all2 event_received (take (length (ps_recvd pr_demo2)) (ps_sent pr_demo2)) (ps_recvd pr_demo2)"
    by (rule pr_delivery_fifo [OF _ _ _ _ pr_demo_reachable(2) [unfolded pr_demo0_def], of 5]) simp_all
  ultimately show ?thesis ..
qed

text \<open>
  C10. A visible event can always be read. In every reachable state in which the reader's tail
  differs from its head, an event is outstanding, \<open>peek_type\<close> gives its type, and \<open>read\<close>
  returns its payload without an exception and advances the head by its aligned length.
\<close>

theorem pr_read_next:
  assumes "3 \<le> kb" "kb \<le> 31" and "length d = 2 ^ kb" and "ucast n_pages * page_size = (2 ^ kb :: u64)"
    and "pr_reachable (pr_start n_pages page_size d w r) s"
    and "pr_buf_tail (ps_rd s) \<noteq> pr_buf_head (ps_rd s)"
  defines "ev \<equiv> ps_sent s ! length (ps_recvd s)"
  shows "length (ps_recvd s) < length (ps_sent s) \<and> pr_peek_type (ps_mem s) (ps_rd s) = fst ev
    \<and> (\<exists>bs r'. PerfRing_read (ps_mem s) (ps_rd s) = Inr (bs, r') \<and> event_received ev (fst ev, bs)
        \<and> pr_buf_head r' = pr_buf_head (ps_rd s) + of_nat (event_len (snd ev)))"
proof -
  obtain wh sh rt st where ok: "pr_ok kb wh sh rt st s"
    using pr_reachable_inv [OF assms(5,1-4)] by (auto simp: pr_sys_inv_def)
  have "pr_buf_head (ps_rd s) = of_nat (pr_pos (ps_sent s) (length (ps_recvd s)))"
    using ok by (simp add: pr_ok_def Let_def)
  then show ?thesis
    using pr_ok_next [OF ok assms(1,2,6)] by (auto simp: ev_def pr_pos_Suc)
qed

theorem pr_read_next_witness:
  "pr_peek_type (ps_mem pr_demo1) (ps_rd pr_demo1) = 9
    \<and> (\<exists>bs r'. PerfRing_read (ps_mem pr_demo1) (ps_rd pr_demo1) = Inr (bs, r')
        \<and> event_received (9, [1, 2, 3]) (9, bs) \<and> pr_buf_head r' = pr_buf_head (ps_rd pr_demo1) + 16)"
proof -
  have f: "ps_sent pr_demo1 = [(9, [1, 2, 3])]" "ps_recvd pr_demo1 = []"
    "pr_buf_tail (ps_rd pr_demo1) \<noteq> pr_buf_head (ps_rd pr_demo1)"
    by (simp_all add: pr_demo1_def)
  show ?thesis
    using pr_read_next [OF _ _ _ _ pr_demo_reachable(1) [unfolded pr_demo0_def] f(3), of 5]
    by (simp add: f(1,2) event_len_def align8n_def)
qed

text \<open>
  C11. Behaviour of \<open>PerfRing::write\<close> on every branch. With the counters read as unbounded
  positions, an event whose aligned length does not fit the buffer or 16 bits throws
  invalid_argument, one that would overwrite unread bytes throws range_error, and any other
  is stored (size, type and payload, wrapping around if needed) while the tail advances by
  the aligned length.
\<close>

theorem PerfRing_write_branches:
  assumes "3 \<le> kb" "kb \<le> 31" and "pr_view kb h p w" and "8 dvd p"
    and "length (pr_data m) = 2 ^ kb" and "length e < 2 ^ 16"
  shows "PerfRing_write m w e type =
    (if 2 ^ kb \<le> event_len e \<or> 65536 \<le> event_len e then Inl Invalid_argument
     else if 2 ^ kb < p + event_len e - h then Inl Range_error
     else Inr (m\<lparr>pr_data := event_store (pr_data m) p type e\<rparr>, w\<lparr>pr_buf_tail := of_nat (p + event_len e)\<rparr>))"
  by (rule PerfRing_write_view [OF assms])

theorem PerfRing_write_branches_witness:
  "PerfRing_write (ps_mem pr_demo1) (ps_wr pr_demo1) (replicate 9 5) 1 = Inl Range_error \<and>
   PerfRing_write (ps_mem pr_demo1) (ps_wr pr_demo1) (replicate 17 5) 1 = Inl Invalid_argument \<and>
   PerfRing_write (ps_mem pr_demo1) (ps_wr pr_demo1) [5, 6] 1 =
     Inr ((ps_mem pr_demo1)\<lparr>pr_data := event_store (pr_data (ps_mem pr_demo1)) 16 1 [5, 6]\<rparr>,
          (ps_wr pr_demo1)\<lparr>pr_buf_tail := 32\<rparr>)"
proof -
  have v: "pr_view 5 0 16 (ps_wr pr_demo1)" "length (pr_data (ps_mem pr_demo1)) = 2 ^ 5"
    by (simp_all add: pr_view_def pr_demo1_def mask_eq_decr_exp)
  show ?thesis
    using PerfRing_write_branches [OF _ _ v(1) _ v(2), of "replicate 9 5" 1]
      PerfRing_write_branches [OF _ _ v(1) _ v(2), of "replicate 17 5" 1]
      PerfRing_write_branches [OF _ _ v(1) _ v(2), of "[5, 6]" 1]
    by (simp add: event_len_def align8n_def)
qed

lemma pr_peek_ring:
  assumes k: "kb \<le> 31" and d: "length (pr_data m) = 2 ^ kb"
    and q: "pr_buf_mask q = mask kb" "pr_buf_head q = of_nat p"
    and u: "pr_peek_aligned_u32 m q 4 = of_nat n" "n < 2 ^ 16" "n \<le> 2 ^ kb"
  shows "fst (PerfRing_peek m q) @ snd (PerfRing_peek m q) = ring_slice (pr_data m) (p + 16) n"
proof (cases "n = 0")
  case True
  then have "pr_peek_aligned_u32 m q 4 = 0" using u(1) by simp
  then show ?thesis using True by (simp add: PerfRing_peek_def pr_peek_def Let_def view_bytes_def)
next
  case False
  define S :: nat where "S = 2 ^ kb"
  define b where "b = p + 16"
  have S: "0 < S" "S \<le> 2 ^ 31" using k by (simp_all add: S_def power_increasing [of kb 31 "2::nat", simplified])
  have small: "unat (of_nat x :: u32) = x" if "x \<le> S" for x using that S(2) by (simp add: unat_of_nat)
  have nS: "n \<le> S" using u(3) by (simp add: S_def)
  have n0: "(of_nat n :: u32) \<noteq> 0" using False nS small [of n] by (metis unat_0)
  have tot: "pr_total_offset q 8 = of_nat b"
    using pr_total_offset_of_nat [OF q(2), of 8] by (simp add: b_def)
  have bw: "of_nat b AND mask kb = (of_nat (b mod S) :: u32)" using k by (simp add: of_nat_and_mask S_def)
  have ew: "(of_nat b + of_nat n - 1) AND mask kb = (of_nat ((b + n - 1) mod S) :: u32)"
    using k False of_nat_last [of n b, where 'a = 32] of_nat_and_mask [of kb "b + n - 1", where 'a = 32]
    by (simp add: S_def)
  have mods: "b mod S < S" "(b + n - 1) mod S < S" using S(1) by simp_all
  have lt: "(of_nat ((b + n - 1) mod S) :: u32) < of_nat (b mod S) \<longleftrightarrow> S < b mod S + n"
    using ring_span(1) [of n S b] False nS
    unfolding word_less_nat_alt small [OF less_imp_le [OF mods(1)]] small [OF less_imp_le [OF mods(2)]] by simp
  note unf = PerfRing_peek_def pr_peek_def Let_def u(1) q(1) tot bw ew
  have c16: "unat (ucast (of_nat x :: u32) :: u16) = x" if "x < 2 ^ 16" for x
    using that by (simp add: ucast_of_nat_down unat_of_nat)
  show ?thesis
  proof (cases "S < b mod S + n")
    case True
    have sp: "(b + n - 1) mod S + 1 = n - (S - b mod S)"
      using ring_span(2) [of n S b] True False nS by simp
    have l1: "(mask kb :: u32) + 1 - of_nat (b mod S) = of_nat (S - b mod S)"
      using mods(1) by (simp add: S_def mask_eq_decr_exp of_nat_diff)
    have "(of_nat ((b + n - 1) mod S) + 1 :: u32) = of_nat ((b + n - 1) mod S + 1)" by simp
    then have l2: "(of_nat ((b + n - 1) mod S) + 1 :: u32) = of_nat (n - (S - b mod S))" unfolding sp .
    have "unat (ucast (of_nat (S - b mod S) :: u32) :: u16) = S - b mod S"
      "unat (ucast (of_nat (n - (S - b mod S)) :: u32) :: u16) = n - (S - b mod S)"
      using True u(2) by (intro c16, linarith)+
    then have "fst (PerfRing_peek m q) @ snd (PerfRing_peek m q) =
        load_bytes (pr_data m) (b mod S) (S - b mod S) @ load_bytes (pr_data m) 0 (n - (S - b mod S))"
      using n0 True lt mods(1) unfolding unf l1 l2 by (simp add: view_bytes_def small)
    also have "\<dots> = ring_slice (pr_data m) b n"
      using ring_slice_load_wrap [of "pr_data m" b n] True nS S(1) unfolding d S_def [symmetric] by simp
    finally show ?thesis by (simp add: b_def)
  next
    case nowrap: False
    then have "ring_slice (pr_data m) b n = load_bytes (pr_data m) (b mod S) n"
      using ring_slice_load [of b "pr_data m" n] unfolding d S_def [symmetric] by simp
    then show ?thesis
      using n0 nowrap lt mods(1) c16 [OF u(2)] unfolding unf b_def [symmetric] by (simp add: view_bytes_def small)
  qed
qed

text \<open>
  C12. The two views that \<open>PerfRing::peek\<close> returns, put one after the other, are the bytes that
  \<open>peek_copy\<close> copies for the same stretch: the unpadded payload after the length header,
  whether or not it wraps around the end of the buffer.
\<close>

theorem pr_peek_views:
  assumes "kb \<le> 31" and "length (pr_data m) = 2 ^ kb"
    and "pr_buf_mask q = mask kb" and "pr_buf_head q = of_nat p"
    and "pr_peek_aligned_u32 m q 4 = of_nat n" and "n < 2 ^ 16" and "n \<le> 2 ^ kb"
  shows "fst (PerfRing_peek m q) @ snd (PerfRing_peek m q) = pr_peek_copy m q (replicate n 0) 8 (of_nat n)"
  using pr_peek_ring [OF assms] pr_peek_copy_ring [OF assms(1-4), of 8 n "replicate n 0"] assms(6,7)
  by (simp add: store_bytes_def add.commute)

definition pr_demo_wrapped :: "pr_memory \<times> perf_ring" where
  "pr_demo_wrapped = (\<lparr>data_head = 24, data_tail = 8, pr_data = [4, 5, 0, 0, 0, 0, 0, 0,
     9, 0, 0, 0, 0, 0, 32, 0, 16, 0, 0, 0, 10, 0, 0, 0, 20, 21, 22, 23, 24, 25, 26, 27]\<rparr>,
     \<lparr>pr_buf_mask = 31, pr_buf_head = 8, pr_buf_tail = 40\<rparr>)"

theorem pr_peek_views_witness:
  "fst (PerfRing_peek (fst pr_demo_wrapped) (snd pr_demo_wrapped)) = [20, 21, 22, 23, 24, 25, 26, 27] \<and>
   snd (PerfRing_peek (fst pr_demo_wrapped) (snd pr_demo_wrapped)) = [4, 5] \<and>
   fst (PerfRing_peek (fst pr_demo_wrapped) (snd pr_demo_wrapped)) @ snd (PerfRing_peek (fst pr_demo_wrapped) (snd pr_demo_wrapped))
     = pr_peek_copy (fst pr_demo_wrapped) (snd pr_demo_wrapped) (replicate 10 0) 8 10"
proof -
  have "pr_peek_aligned_u32 (fst pr_demo_wrapped) (snd pr_demo_wrapped) 4 = of_nat 10"
    "length (pr_data (fst pr_demo_wrapped)) = 2 ^ 5" "pr_buf_mask (snd pr_demo_wrapped) = mask 5"
    "pr_buf_head (snd pr_demo_wrapped) = of_nat 8"
    by (simp_all add: pr_demo_wrapped_def pr_peek_aligned_u32_def pr_total_offset_def load_bytes_def mask_eq_decr_exp)
  then show ?thesis
    using pr_peek_views [of 5 "fst pr_demo_wrapped" "snd pr_demo_wrapped" 8 10]
    by (simp add: pr_demo_wrapped_def PerfRing_peek_def pr_peek_def view_bytes_def pr_peek_aligned_u32_def
        pr_total_offset_def load_bytes_def Let_def)
qed

text \<open>
  C13. \<open>pr_bytes_remaining\<close> counts the unread bytes, except that it reports none for a ring that
  is completely full, which \<open>pr_write\<close> allows.
\<close>

theorem pr_bytes_remaining_count:
  assumes "kb \<le> 31" and "pr_view kb h p q"
  shows "unat (fst (pr_bytes_remaining (Some q) tsize)) = (if p - h = 2 ^ kb then 0 else p - h)"
proof -
  define S :: nat where "S = 2 ^ kb"
  have S: "0 < S" "S \<le> 2 ^ 31" using assms(1) by (simp_all add: S_def power_increasing [of kb 31 "2::nat", simplified])
  have v: "pr_buf_mask q = mask kb" "pr_buf_head q = of_nat h" "pr_buf_tail q = of_nat p" "h \<le> p" "p - h \<le> S"
    using assms(2) by (simp_all add: pr_view_def S_def)
  have am: "of_nat x AND mask kb = (of_nat (x mod S) :: u32)" for x
    using assms(1) by (simp add: of_nat_and_mask S_def)
  have small: "unat (of_nat x :: u32) = x" if "x \<le> S" for x using that S(2) by (simp add: unat_of_nat)
  have mods: "x mod S < S" for x using S(1) by simp
  have lt: "(of_nat (p mod S) :: u32) < of_nat (h mod S) \<longleftrightarrow> p mod S < h mod S"
    unfolding word_less_nat_alt by (simp add: small less_imp_le mods)
  have m1: "(mask kb :: u32) + 1 = of_nat S" by (simp add: S_def mask_eq_decr_exp)
  have p: "p = h + (p - h)" using v(4) by simp
  have pm: "p mod S = (h mod S + (p - h)) mod S" using p mod_add_left_eq [of h S "p - h"] by simp
  show ?thesis
  proof (cases "p mod S < h mod S")
    case True
    have w: "S \<le> h mod S + (p - h)" using True pm by (metis le_add1 mod_less not_le)
    then have "p mod S = h mod S + (p - h) - S"
      using pm le_mod_geq [of S "h mod S + (p - h)"] mods [of h] v(5) by simp
    then have "S - h mod S + p mod S = p - h" "p - h \<noteq> S" using w True mods [of h] by linarith+
    moreover have "of_nat S - of_nat (h mod S) + of_nat (p mod S) = (of_nat (S - h mod S + p mod S) :: u32)"
      using mods [of h] by (simp add: of_nat_diff less_imp_le)
    ultimately show ?thesis
      using True lt v small [of "p - h"] unfolding pr_bytes_remaining_def
      by (simp add: Let_def am m1 S_def [symmetric])
  next
    case False
    have d: "(of_nat (p mod S) - of_nat (h mod S) :: u32) = of_nat (p mod S - h mod S)" using False by simp
    have "p mod S - h mod S = (if p - h = S then 0 else p - h)"
    proof (cases "h mod S + (p - h) < S")
      case True
      then show ?thesis using pm by simp
    next
      case ge: False
      then have "p mod S = (h mod S + (p - h) - S) mod S" using pm le_mod_geq [of S "h mod S + (p - h)"] by simp
      also have "\<dots> = h mod S + (p - h) - S" using mods [of h] v(5) by (intro mod_less) linarith
      finally show ?thesis using False ge v(5) by auto
    qed
    then show ?thesis
      using False lt v small [of "p mod S - h mod S"] mods [of p] unfolding pr_bytes_remaining_def
      by (simp add: Let_def am d S_def [symmetric])
  qed
qed

theorem pr_bytes_remaining_count_witness:
  "unat (fst (pr_bytes_remaining (Some \<lparr>pr_buf_mask = 31, pr_buf_head = 24, pr_buf_tail = 40\<rparr>) None)) = 16 \<and>
   unat (fst (pr_bytes_remaining (Some \<lparr>pr_buf_mask = 31, pr_buf_head = 8, pr_buf_tail = 40\<rparr>) None)) = 0"
  using pr_bytes_remaining_count [of 5 24 40 "\<lparr>pr_buf_mask = 31, pr_buf_head = 24, pr_buf_tail = 40\<rparr>" None]
    pr_bytes_remaining_count [of 5 8 40 "\<lparr>pr_buf_mask = 31, pr_buf_head = 8, pr_buf_tail = 40\<rparr>" None]
  by (simp add: pr_view_def mask_eq_decr_exp)

end
