(* ===== verification/Lookup3.thy ===== *)
theory Lookup3
  imports Prelude
begin

text \<open>
  \<^verbatim>\<open>src/util/lookup3.c\<close>: Bob Jenkins' 32-bit hash functions. The key is read from a byte
  memory at an address, so that the three ways in which \<open>hashlittle\<close> reads it (32-bit, 16-bit
  and byte-wise, chosen by the alignment of the address) are the code's own. The model is
  that of a little-endian machine (\<^verbatim>\<open>HASH_LITTLE_ENDIAN\<close> is 1 and \<^verbatim>\<open>HASH_BIG_ENDIAN\<close> is 0) without
  \<^verbatim>\<open>VALGRIND\<close>. The self-test routines at the end of the file are not modelled.

  The reference definition \<open>lookup3_spec\<close> works on the list of key bytes and pads the last
  block with zeros. The functions are proved equal to it, which gives the statements of the
  comments in the source: alignment does not matter, \<open>hashlittle2\<close> and \<open>hashword2\<close>, whose code is a
  second copy and is modelled as such, agree with the one-result versions, \<open>hashword\<close> is \<open>hashlittle\<close> on words, and \<open>mix\<close> is reversible.
\<close>

unbundle bit_operations_syntax

section \<open>Model\<close>

type_synonym byte_memory = "nat \<Rightarrow> u8"
type_synonym hash_state = "u32 \<times> u32 \<times> u32"

definition rot :: "u32 \<Rightarrow> nat \<Rightarrow> u32" where
  "rot x k = push_bit k x OR drop_bit (32 - k) x"

definition mix :: "hash_state \<Rightarrow> hash_state" where
  "mix = (\<lambda>(a, b, c).
     let a = a - c; a = a XOR rot c 4; c = c + b;
         b = b - a; b = b XOR rot a 6; a = a + c;
         c = c - b; c = c XOR rot b 8; b = b + a;
         a = a - c; a = a XOR rot c 16; c = c + b;
         b = b - a; b = b XOR rot a 19; a = a + c;
         c = c - b; c = c XOR rot b 4; b = b + a
     in (a, b, c))"

definition final :: "hash_state \<Rightarrow> hash_state" where
  "final = (\<lambda>(a, b, c).
     let c = c XOR b; c = c - rot b 14;
         a = a XOR c; a = a - rot c 11;
         b = b XOR a; b = b - rot a 25;
         c = c XOR b; c = c - rot b 16;
         a = a XOR c; a = a - rot c 4;
         b = b XOR a; b = b - rot a 14;
         c = c XOR b; c = c - rot b 24
     in (a, b, c))"

subsection \<open>Arrays of 32-bit words\<close>

text \<open>The loop over all but the last three words, and the switch on the rest.\<close>

fun hashword_loop :: "u32 list \<Rightarrow> hash_state \<Rightarrow> u32 list \<times> hash_state" where
  "hashword_loop k (a, b, c) =
     (if length k > 3 then hashword_loop (drop 3 k) (mix (a + k ! 0, b + k ! 1, c + k ! 2))
      else (k, a, b, c))"

definition hashword_tail :: "u32 list \<Rightarrow> hash_state \<Rightarrow> hash_state" where
  "hashword_tail k = (\<lambda>(a, b, c).
     let c = (if length k = 3 then c + k ! 2 else c);
         b = (if length k = 3 \<or> length k = 2 then b + k ! 1 else b)
     in if length k = 3 \<or> length k = 2 \<or> length k = 1 then final (a + k ! 0, b, c) else (a, b, c))"

definition lookup3_hashword :: "u32 list \<Rightarrow> u32 \<Rightarrow> u32" where
  "lookup3_hashword k initval =
     (let s = 0xdeadbeef + push_bit 2 (of_nat (length k)) + initval;
          (k', abc) = hashword_loop k (s, s, s);
          (a, b, c) = hashword_tail k' abc
      in c)"

text \<open>
  \<^verbatim>\<open>hashword2\<close> has its own copy of the loop and of the switch.  The two seeds \<^verbatim>\<open>*pc\<close>, \<^verbatim>\<open>*pb\<close> are
  arguments, their new values the result.
\<close>

fun hashword2_loop :: "u32 list \<Rightarrow> u32 \<Rightarrow> u32 \<Rightarrow> u32 \<Rightarrow> u32 list \<times> u32 \<times> u32 \<times> u32" where
  "hashword2_loop k a b c =
     (if length k > 3
      then (let a = a + k ! 0; b = b + k ! 1; c = c + k ! 2; (a, b, c) = mix (a, b, c)
            in hashword2_loop (drop 3 k) a b c)
      else (k, a, b, c))"

definition hashword2_switch :: "u32 list \<Rightarrow> u32 \<Rightarrow> u32 \<Rightarrow> u32 \<Rightarrow> u32 \<times> u32" where
  "hashword2_switch k a b c =
     (let n = length k;
          c = (if n = 3 then c + k ! 2 else c);
          b = (if n \<in> {2, 3} then b + k ! 1 else b);
          a = (if n \<in> {1, 2, 3} then a + k ! 0 else a);
          (a, b, c) = (if n \<in> {1, 2, 3} then final (a, b, c) else (a, b, c))
      in (c, b))"

definition lookup3_hashword2 :: "u32 list \<Rightarrow> u32 \<Rightarrow> u32 \<Rightarrow> u32 \<times> u32" where
  "lookup3_hashword2 k pc pb =
     (let a = 0xdeadbeef + ucast (push_bit 2 (of_nat (length k) :: u64)) + pc; b = a; c = a; c = c + pb;
          (k, a, b, c) = hashword2_loop k a b c
      in hashword2_switch k a b c)"

subsection \<open>Byte strings, low byte first\<close>

text \<open>Aligned reads of the little-endian machine.\<close>

definition rd16 :: "byte_memory \<Rightarrow> nat \<Rightarrow> u16" where
  "rd16 mem p = of_nat (le_nat [mem p, mem (p + 1)])"

definition rd32 :: "byte_memory \<Rightarrow> nat \<Rightarrow> u32" where
  "rd32 mem p = of_nat (le_nat [mem p, mem (p + 1), mem (p + 2), mem (p + 3)])"

text \<open>One block of twelve bytes, in the three ways of reading it.\<close>

definition block32 :: "byte_memory \<Rightarrow> nat \<Rightarrow> hash_state \<Rightarrow> hash_state" where
  "block32 mem k = (\<lambda>(a, b, c). (a + rd32 mem k, b + rd32 mem (k + 4), c + rd32 mem (k + 8)))"

definition pair16 :: "byte_memory \<Rightarrow> nat \<Rightarrow> u32" where
  "pair16 mem k = ucast (rd16 mem k) + push_bit 16 (ucast (rd16 mem (k + 2)))"

definition block16 :: "byte_memory \<Rightarrow> nat \<Rightarrow> hash_state \<Rightarrow> hash_state" where
  "block16 mem k = (\<lambda>(a, b, c). (a + pair16 mem k, b + pair16 mem (k + 4), c + pair16 mem (k + 8)))"

definition byte_at :: "byte_memory \<Rightarrow> nat \<Rightarrow> nat \<Rightarrow> u32" where
  "byte_at mem p s = push_bit s (ucast (mem p))"

definition block8 :: "byte_memory \<Rightarrow> nat \<Rightarrow> hash_state \<Rightarrow> hash_state" where
  "block8 mem k = (\<lambda>(a, b, c).
     (a + byte_at mem k 0 + byte_at mem (k + 1) 8 + byte_at mem (k + 2) 16 + byte_at mem (k + 3) 24,
      b + byte_at mem (k + 4) 0 + byte_at mem (k + 5) 8 + byte_at mem (k + 6) 16 + byte_at mem (k + 7) 24,
      c + byte_at mem (k + 8) 0 + byte_at mem (k + 9) 8 + byte_at mem (k + 10) 16 + byte_at mem (k + 11) 24))"

text \<open>The loop over all but the last block; the result has the address and length that are left.\<close>

fun hashlittle_loop ::
  "(byte_memory \<Rightarrow> nat \<Rightarrow> hash_state \<Rightarrow> hash_state) \<Rightarrow> byte_memory \<Rightarrow> nat \<Rightarrow> nat \<Rightarrow> hash_state
    \<Rightarrow> nat \<times> nat \<times> hash_state" where
  "hashlittle_loop block mem k len abc =
     (if len > 12 then hashlittle_loop block mem (k + 12) (len - 12) (mix (block mem k abc))
      else (k, len, abc))"

text \<open>The switches on the length of the last block.\<close>

definition tail32 :: "byte_memory \<Rightarrow> nat \<Rightarrow> nat \<Rightarrow> hash_state \<Rightarrow> hash_state" where
  "tail32 mem k len = (\<lambda>(a, b, c).
     let k0 = rd32 mem k; k1 = rd32 mem (k + 4); k2 = rd32 mem (k + 8)
     in if len = 12 then (a + k0, b + k1, c + k2)
        else if len = 11 then (a + k0, b + k1, c + (k2 AND 0xffffff))
        else if len = 10 then (a + k0, b + k1, c + (k2 AND 0xffff))
        else if len = 9 then (a + k0, b + k1, c + (k2 AND 0xff))
        else if len = 8 then (a + k0, b + k1, c)
        else if len = 7 then (a + k0, b + (k1 AND 0xffffff), c)
        else if len = 6 then (a + k0, b + (k1 AND 0xffff), c)
        else if len = 5 then (a + k0, b + (k1 AND 0xff), c)
        else if len = 4 then (a + k0, b, c)
        else if len = 3 then (a + (k0 AND 0xffffff), b, c)
        else if len = 2 then (a + (k0 AND 0xffff), b, c)
        else if len = 1 then (a + (k0 AND 0xff), b, c)
        else (a, b, c))"

definition tail16 :: "byte_memory \<Rightarrow> nat \<Rightarrow> nat \<Rightarrow> hash_state \<Rightarrow> hash_state" where
  "tail16 mem k len = (\<lambda>(a, b, c).
     if len = 12 then (a + pair16 mem k, b + pair16 mem (k + 4), c + pair16 mem (k + 8))
     else if len = 11 \<or> len = 10 then
       (let c = (if len = 11 then c + byte_at mem (k + 10) 16 else c)
        in (a + pair16 mem k, b + pair16 mem (k + 4), c + ucast (rd16 mem (k + 8))))
     else if len = 9 \<or> len = 8 then
       (let c = (if len = 9 then c + byte_at mem (k + 8) 0 else c)
        in (a + pair16 mem k, b + pair16 mem (k + 4), c))
     else if len = 7 \<or> len = 6 then
       (let b = (if len = 7 then b + byte_at mem (k + 6) 16 else b)
        in (a + pair16 mem k, b + ucast (rd16 mem (k + 4)), c))
     else if len = 5 \<or> len = 4 then
       (let b = (if len = 5 then b + byte_at mem (k + 4) 0 else b) in (a + pair16 mem k, b, c))
     else if len = 3 \<or> len = 2 then
       (let a = (if len = 3 then a + byte_at mem (k + 2) 16 else a) in (a + ucast (rd16 mem k), b, c))
     else if len = 1 then (a + byte_at mem k 0, b, c)
     else (a, b, c))"

definition tail8 :: "byte_memory \<Rightarrow> nat \<Rightarrow> nat \<Rightarrow> hash_state \<Rightarrow> hash_state" where
  "tail8 mem k len = (\<lambda>(a, b, c).
     let c = (if len \<ge> 12 then c + byte_at mem (k + 11) 24 else c);
         c = (if len \<ge> 11 then c + byte_at mem (k + 10) 16 else c);
         c = (if len \<ge> 10 then c + byte_at mem (k + 9) 8 else c);
         c = (if len \<ge> 9 then c + byte_at mem (k + 8) 0 else c);
         b = (if len \<ge> 8 then b + byte_at mem (k + 7) 24 else b);
         b = (if len \<ge> 7 then b + byte_at mem (k + 6) 16 else b);
         b = (if len \<ge> 6 then b + byte_at mem (k + 5) 8 else b);
         b = (if len \<ge> 5 then b + byte_at mem (k + 4) 0 else b);
         a = (if len \<ge> 4 then a + byte_at mem (k + 3) 24 else a);
         a = (if len \<ge> 3 then a + byte_at mem (k + 2) 16 else a);
         a = (if len \<ge> 2 then a + byte_at mem (k + 1) 8 else a);
         a = (if len \<ge> 1 then a + byte_at mem k 0 else a)
     in (a, b, c))"

text \<open>The body of \<open>hashlittle\<close>, from the initial state on.\<close>

definition hashlittle_body :: "byte_memory \<Rightarrow> nat \<Rightarrow> nat \<Rightarrow> hash_state \<Rightarrow> hash_state" where
  "hashlittle_body mem key len abc =
     (if key mod 4 = 0 then
        (let (k, len, abc) = hashlittle_loop block32 mem key len abc
         in if len = 0 then abc else final (tail32 mem k len abc))
      else if key mod 2 = 0 then
        (let (k, len, abc) = hashlittle_loop block16 mem key len abc
         in if len = 0 then abc else final (tail16 mem k len abc))
      else
        (let (k, len, abc) = hashlittle_loop block8 mem key len abc
         in if len = 0 then abc else final (tail8 mem k len abc)))"

definition lookup3_hashlittle :: "byte_memory \<Rightarrow> nat \<Rightarrow> nat \<Rightarrow> u32 \<Rightarrow> u32" where
  "lookup3_hashlittle mem key len initval =
     (let s = 0xdeadbeef + of_nat len + initval;
          (a, b, c) = hashlittle_body mem key len (s, s, s)
      in c)"

text \<open>
  \<^verbatim>\<open>hashlittle2\<close> is a second copy of the same code with two seeds and two results: three loops
  and three switches of its own, statement by statement.  A fall-through case of a switch adds to
  the words that the longer cases have already changed.
\<close>

fun hashlittle2_loop32 :: "byte_memory \<Rightarrow> nat \<Rightarrow> nat \<Rightarrow> u32 \<Rightarrow> u32 \<Rightarrow> u32 \<Rightarrow> nat \<times> nat \<times> u32 \<times> u32 \<times> u32" where
  "hashlittle2_loop32 mem k len a b c =
     (if len > 12
      then (let a = a + rd32 mem k; b = b + rd32 mem (k + 4); c = c + rd32 mem (k + 8); (a, b, c) = mix (a, b, c)
            in hashlittle2_loop32 mem (k + 12) (len - 12) a b c)
      else (k, len, a, b, c))"

definition hashlittle2_switch32 :: "byte_memory \<Rightarrow> nat \<Rightarrow> nat \<Rightarrow> u32 \<Rightarrow> u32 \<Rightarrow> u32 \<Rightarrow> u32 \<times> u32 \<times> u32" where
  "hashlittle2_switch32 mem k len a b c =
     (if len = 12 then (let c = c + rd32 mem (k + 8); b = b + rd32 mem (k + 4); a = a + rd32 mem k in (a, b, c))
      else if len = 11 then
        (let c = c + (rd32 mem (k + 8) AND 0xffffff); b = b + rd32 mem (k + 4); a = a + rd32 mem k in (a, b, c))
      else if len = 10 then
        (let c = c + (rd32 mem (k + 8) AND 0xffff); b = b + rd32 mem (k + 4); a = a + rd32 mem k in (a, b, c))
      else if len = 9 then
        (let c = c + (rd32 mem (k + 8) AND 0xff); b = b + rd32 mem (k + 4); a = a + rd32 mem k in (a, b, c))
      else if len = 8 then (let b = b + rd32 mem (k + 4); a = a + rd32 mem k in (a, b, c))
      else if len = 7 then (let b = b + (rd32 mem (k + 4) AND 0xffffff); a = a + rd32 mem k in (a, b, c))
      else if len = 6 then (let b = b + (rd32 mem (k + 4) AND 0xffff); a = a + rd32 mem k in (a, b, c))
      else if len = 5 then (let b = b + (rd32 mem (k + 4) AND 0xff); a = a + rd32 mem k in (a, b, c))
      else if len = 4 then (let a = a + rd32 mem k in (a, b, c))
      else if len = 3 then (let a = a + (rd32 mem k AND 0xffffff) in (a, b, c))
      else if len = 2 then (let a = a + (rd32 mem k AND 0xffff) in (a, b, c))
      else if len = 1 then (let a = a + (rd32 mem k AND 0xff) in (a, b, c))
      else (a, b, c))"

fun hashlittle2_loop16 :: "byte_memory \<Rightarrow> nat \<Rightarrow> nat \<Rightarrow> u32 \<Rightarrow> u32 \<Rightarrow> u32 \<Rightarrow> nat \<times> nat \<times> u32 \<times> u32 \<times> u32" where
  "hashlittle2_loop16 mem k len a b c =
     (if len > 12
      then (let a = a + (ucast (rd16 mem k) + push_bit 16 (ucast (rd16 mem (k + 2))));
                b = b + (ucast (rd16 mem (k + 4)) + push_bit 16 (ucast (rd16 mem (k + 6))));
                c = c + (ucast (rd16 mem (k + 8)) + push_bit 16 (ucast (rd16 mem (k + 10))));
                (a, b, c) = mix (a, b, c)
            in hashlittle2_loop16 mem (k + 12) (len - 12) a b c)
      else (k, len, a, b, c))"

definition hashlittle2_switch16 :: "byte_memory \<Rightarrow> nat \<Rightarrow> nat \<Rightarrow> u32 \<Rightarrow> u32 \<Rightarrow> u32 \<Rightarrow> u32 \<times> u32 \<times> u32" where
  "hashlittle2_switch16 mem k len a b c =
     (let k01 = ucast (rd16 mem k) + push_bit 16 (ucast (rd16 mem (k + 2)));
          k23 = ucast (rd16 mem (k + 4)) + push_bit 16 (ucast (rd16 mem (k + 6)));
          k45 = ucast (rd16 mem (k + 8)) + push_bit 16 (ucast (rd16 mem (k + 10)))
      in if len = 12 then (let c = c + k45; b = b + k23; a = a + k01 in (a, b, c))
         else if len \<in> {10, 11} then
           (let c = (if len = 11 then c + push_bit 16 (ucast (mem (k + 10))) else c);
                c = c + ucast (rd16 mem (k + 8)); b = b + k23; a = a + k01 in (a, b, c))
         else if len \<in> {8, 9} then
           (let c = (if len = 9 then c + ucast (mem (k + 8)) else c); b = b + k23; a = a + k01 in (a, b, c))
         else if len \<in> {6, 7} then
           (let b = (if len = 7 then b + push_bit 16 (ucast (mem (k + 6))) else b);
                b = b + ucast (rd16 mem (k + 4)); a = a + k01 in (a, b, c))
         else if len \<in> {4, 5} then
           (let b = (if len = 5 then b + ucast (mem (k + 4)) else b); a = a + k01 in (a, b, c))
         else if len \<in> {2, 3} then
           (let a = (if len = 3 then a + push_bit 16 (ucast (mem (k + 2))) else a); a = a + ucast (rd16 mem k) in (a, b, c))
         else if len = 1 then (let a = a + ucast (mem k) in (a, b, c))
         else (a, b, c))"

fun hashlittle2_loop8 :: "byte_memory \<Rightarrow> nat \<Rightarrow> nat \<Rightarrow> u32 \<Rightarrow> u32 \<Rightarrow> u32 \<Rightarrow> nat \<times> nat \<times> u32 \<times> u32 \<times> u32" where
  "hashlittle2_loop8 mem k len a b c =
     (if len > 12
      then (let a = a + ucast (mem k); a = a + push_bit 8 (ucast (mem (k + 1)));
                a = a + push_bit 16 (ucast (mem (k + 2))); a = a + push_bit 24 (ucast (mem (k + 3)));
                b = b + ucast (mem (k + 4)); b = b + push_bit 8 (ucast (mem (k + 5)));
                b = b + push_bit 16 (ucast (mem (k + 6))); b = b + push_bit 24 (ucast (mem (k + 7)));
                c = c + ucast (mem (k + 8)); c = c + push_bit 8 (ucast (mem (k + 9)));
                c = c + push_bit 16 (ucast (mem (k + 10))); c = c + push_bit 24 (ucast (mem (k + 11)));
                (a, b, c) = mix (a, b, c)
            in hashlittle2_loop8 mem (k + 12) (len - 12) a b c)
      else (k, len, a, b, c))"

definition hashlittle2_switch8 :: "byte_memory \<Rightarrow> nat \<Rightarrow> nat \<Rightarrow> u32 \<Rightarrow> u32 \<Rightarrow> u32 \<Rightarrow> u32 \<times> u32 \<times> u32" where
  "hashlittle2_switch8 mem k len a b c =
     (let c = (if len \<ge> 12 then c + push_bit 24 (ucast (mem (k + 11))) else c);
          c = (if len \<ge> 11 then c + push_bit 16 (ucast (mem (k + 10))) else c);
          c = (if len \<ge> 10 then c + push_bit 8 (ucast (mem (k + 9))) else c);
          c = (if len \<ge> 9 then c + ucast (mem (k + 8)) else c);
          b = (if len \<ge> 8 then b + push_bit 24 (ucast (mem (k + 7))) else b);
          b = (if len \<ge> 7 then b + push_bit 16 (ucast (mem (k + 6))) else b);
          b = (if len \<ge> 6 then b + push_bit 8 (ucast (mem (k + 5))) else b);
          b = (if len \<ge> 5 then b + ucast (mem (k + 4)) else b);
          a = (if len \<ge> 4 then a + push_bit 24 (ucast (mem (k + 3))) else a);
          a = (if len \<ge> 3 then a + push_bit 16 (ucast (mem (k + 2))) else a);
          a = (if len \<ge> 2 then a + push_bit 8 (ucast (mem (k + 1))) else a);
          a = (if len \<ge> 1 then a + ucast (mem k) else a)
      in (a, b, c))"

definition lookup3_hashlittle2 :: "byte_memory \<Rightarrow> nat \<Rightarrow> nat \<Rightarrow> u32 \<Rightarrow> u32 \<Rightarrow> u32 \<times> u32" where
  "lookup3_hashlittle2 mem key len pc pb =
     (let a = 0xdeadbeef + of_nat len + pc; b = a; c = a; c = c + pb
      in if key mod 4 = 0 then
           (let (k, len, a, b, c) = hashlittle2_loop32 mem key len a b c
            in if len = 0 then (c, b)
               else (let (a, b, c) = hashlittle2_switch32 mem k len a b c; (a, b, c) = final (a, b, c) in (c, b)))
         else if key mod 2 = 0 then
           (let (k, len, a, b, c) = hashlittle2_loop16 mem key len a b c
            in if len = 0 then (c, b)
               else (let (a, b, c) = hashlittle2_switch16 mem k len a b c; (a, b, c) = final (a, b, c) in (c, b)))
         else
           (let (k, len, a, b, c) = hashlittle2_loop8 mem key len a b c
            in if len = 0 then (c, b)
               else (let (a, b, c) = hashlittle2_switch8 mem k len a b c; (a, b, c) = final (a, b, c) in (c, b))))"

subsection \<open>Byte strings, high byte first\<close>

definition block8_big :: "byte_memory \<Rightarrow> nat \<Rightarrow> hash_state \<Rightarrow> hash_state" where
  "block8_big mem k = (\<lambda>(a, b, c).
     (a + byte_at mem k 24 + byte_at mem (k + 1) 16 + byte_at mem (k + 2) 8 + byte_at mem (k + 3) 0,
      b + byte_at mem (k + 4) 24 + byte_at mem (k + 5) 16 + byte_at mem (k + 6) 8 + byte_at mem (k + 7) 0,
      c + byte_at mem (k + 8) 24 + byte_at mem (k + 9) 16 + byte_at mem (k + 10) 8 + byte_at mem (k + 11) 0))"

definition tail8_big :: "byte_memory \<Rightarrow> nat \<Rightarrow> nat \<Rightarrow> hash_state \<Rightarrow> hash_state" where
  "tail8_big mem k len = (\<lambda>(a, b, c).
     let c = (if len \<ge> 12 then c + byte_at mem (k + 11) 0 else c);
         c = (if len \<ge> 11 then c + byte_at mem (k + 10) 8 else c);
         c = (if len \<ge> 10 then c + byte_at mem (k + 9) 16 else c);
         c = (if len \<ge> 9 then c + byte_at mem (k + 8) 24 else c);
         b = (if len \<ge> 8 then b + byte_at mem (k + 7) 0 else b);
         b = (if len \<ge> 7 then b + byte_at mem (k + 6) 8 else b);
         b = (if len \<ge> 6 then b + byte_at mem (k + 5) 16 else b);
         b = (if len \<ge> 5 then b + byte_at mem (k + 4) 24 else b);
         a = (if len \<ge> 4 then a + byte_at mem (k + 3) 0 else a);
         a = (if len \<ge> 3 then a + byte_at mem (k + 2) 8 else a);
         a = (if len \<ge> 2 then a + byte_at mem (k + 1) 16 else a);
         a = (if len \<ge> 1 then a + byte_at mem k 24 else a)
     in (a, b, c))"

definition lookup3_hashbig :: "byte_memory \<Rightarrow> nat \<Rightarrow> nat \<Rightarrow> u32 \<Rightarrow> u32" where
  "lookup3_hashbig mem key len initval =
     (let s = 0xdeadbeef + of_nat len + initval;
          (k, len, abc) = hashlittle_loop block8_big mem key len (s, s, s);
          (a, b, c) = (if len = 0 then abc else final (tail8_big mem k len abc))
      in c)"

declare hashword_loop.simps [simp del] hashlittle_loop.simps [simp del] hashword2_loop.simps [simp del]
  hashlittle2_loop32.simps [simp del] hashlittle2_loop16.simps [simp del] hashlittle2_loop8.simps [simp del]

section \<open>Reference definition\<close>

text \<open>The \<^term>\<open>i\<close>-th 32-bit word of a byte string, with bytes past the end read as zero.\<close>

definition word_at :: "u8 list \<Rightarrow> nat \<Rightarrow> u32" where
  "word_at bs i = of_nat (le_nat (take 4 (drop (4 * i) bs)))"

definition word_at_big :: "u8 list \<Rightarrow> nat \<Rightarrow> u32" where
  "word_at_big bs i = of_nat (le_nat (rev (take 4 (drop (4 * i) bs @ [0, 0, 0, 0]))))"

definition add_block :: "(u8 list \<Rightarrow> nat \<Rightarrow> u32) \<Rightarrow> u8 list \<Rightarrow> hash_state \<Rightarrow> hash_state" where
  "add_block word bs = (\<lambda>(a, b, c). (a + word bs 0, b + word bs 1, c + word bs 2))"

fun lookup3_spec :: "(u8 list \<Rightarrow> nat \<Rightarrow> u32) \<Rightarrow> u8 list \<Rightarrow> hash_state \<Rightarrow> hash_state" where
  "lookup3_spec word bs abc =
     (if length bs > 12 then lookup3_spec word (drop 12 bs) (mix (add_block word bs abc))
      else if bs = [] then abc
      else final (add_block word bs abc))"

declare lookup3_spec.simps [simp del]

definition key_bytes :: "byte_memory \<Rightarrow> nat \<Rightarrow> nat \<Rightarrow> u8 list" where
  "key_bytes mem p len = map (\<lambda>i. mem (p + i)) [0..<len]"

lemma length_key_bytes [simp]: "length (key_bytes mem p len) = len"
  by (simp add: key_bytes_def)

lemma drop_key_bytes: "drop n (key_bytes mem p len) = key_bytes mem (p + n) (len - n)"
  by (rule nth_equalityI) (simp_all add: key_bytes_def less_diff_conv ac_simps)

lemma take_key_bytes: "n \<le> len \<Longrightarrow> take n (key_bytes mem p len) = key_bytes mem p n"
  by (rule nth_equalityI) (simp_all add: key_bytes_def)

subsection \<open>Reads as numbers\<close>

lemma byte_at_of_nat: "byte_at mem p s = of_nat (2 ^ s * unat (mem p))"
  by (simp add: byte_at_def push_bit_eq_mult mult.commute)

declare add_2_eq_Suc [simp del] add_2_eq_Suc' [simp del]

lemma rd16_of_nat: "(ucast (rd16 mem p) :: u32) = of_nat (le_nat [mem p, mem (p + 1)])"
  using le_nat_less [of "[mem p, mem (p + 1)]"] unfolding rd16_def by (intro ucast_of_nat_up) simp

lemma pair16_rd32: "pair16 mem p = rd32 mem p"
  unfolding pair16_def rd32_def rd16_of_nat
  by (simp add: push_bit_eq_mult algebra_simps numeral_2_eq_2 [symmetric])

lemma rd32_and_mask:
  assumes "k \<le> 32"
  shows "rd32 mem p AND mask k = of_nat (le_nat [mem p, mem (p + 1), mem (p + 2), mem (p + 3)] mod 2 ^ k)"
  unfolding rd32_def using assms by (intro of_nat_and_mask) simp

lemma rd32_masks:
  "rd32 mem p AND 0xffffff = of_nat (le_nat [mem p, mem (p + 1), mem (p + 2)])"
  "rd32 mem p AND 0xffff = of_nat (le_nat [mem p, mem (p + 1)])"
  "rd32 mem p AND 0xff = of_nat (le_nat [mem p])"
proof -
  have m: "(0xffffff :: u32) = mask 24" "(0xffff :: u32) = mask 16" "(0xff :: u32) = mask 8"
    by (simp_all add: mask_eq_decr_exp)
  have le24: "(24::nat) \<le> 32" and le16: "(16::nat) \<le> 32" and le8: "(8::nat) \<le> 32" by simp_all
  have split: "le_nat [x0, x1, x2, x3] = le_nat [x0, x1, x2] + 2 ^ 24 * unat x3"
    "le_nat [x0, x1, x2, x3] = le_nat [x0, x1] + 2 ^ 16 * (unat x2 + 256 * unat x3)"
    "le_nat [x0, x1, x2, x3] = le_nat [x0] + 2 ^ 8 * (unat x1 + 256 * (unat x2 + 256 * unat x3))" for x0 x1 x2 x3
    by simp_all
  have lt: "le_nat [x0, x1, x2] < 2 ^ 24" "le_nat [x0, x1] < 2 ^ 16" "le_nat [x0] < 2 ^ 8" for x0 x1 x2
    using le_nat_less [of "[x0, x1, x2]"] le_nat_less [of "[x0, x1]"] le_nat_less [of "[x0]"] by simp_all
  show "rd32 mem p AND 0xffffff = of_nat (le_nat [mem p, mem (p + 1), mem (p + 2)])"
    unfolding m rd32_and_mask [of 24, OF le24] split(1) by (simp only: mod_mult_self2 mod_less [OF lt(1)])
  show "rd32 mem p AND 0xffff = of_nat (le_nat [mem p, mem (p + 1)])"
    unfolding m rd32_and_mask [of 16, OF le16] split(2) by (simp only: mod_mult_self2 mod_less [OF lt(2)])
  show "rd32 mem p AND 0xff = of_nat (le_nat [mem p])"
    unfolding m rd32_and_mask [of 8, OF le8] split(3) by (simp only: mod_mult_self2 mod_less [OF lt(3)])
qed

text \<open>The words of a block that lies in memory.\<close>

lemma word_at_key:
  "word_at (key_bytes mem p len) i = of_nat (le_nat (key_bytes mem (p + 4 * i) (min 4 (len - 4 * i))))"
  unfolding word_at_def drop_key_bytes
  by (cases "4 \<le> len - 4 * i") (simp_all add: take_key_bytes min_def)

lemma key_bytes_0 [simp]: "key_bytes mem p 0 = []"
  by (simp add: key_bytes_def)

lemma key_bytes_Suc: "key_bytes mem p (Suc n) = mem p # key_bytes mem (p + 1) n"
  by (simp add: key_bytes_def upt_conv_Cons flip: map_Suc_upt del: upt_Suc)

lemma key_bytes_numeral:
  "key_bytes mem p (numeral n) = mem p # key_bytes mem (p + 1) (pred_numeral n)"
  using key_bytes_Suc [of mem p "pred_numeral n"] by (simp only: numeral_eq_Suc [symmetric])

lemma key_bytes_small [simp]:
  "key_bytes mem p (Suc 0) = [mem p]" "key_bytes mem p 2 = [mem p, mem (p + 1)]"
  "key_bytes mem p 3 = [mem p, mem (p + 1), mem (p + 2)]"
  "key_bytes mem p 4 = [mem p, mem (p + 1), mem (p + 2), mem (p + 3)]"
  by (simp_all add: key_bytes_numeral key_bytes_Suc) (simp_all add: numeral_2_eq_2 numeral_3_eq_3)

lemma le_words:
  "of_nat (le_nat [x]) = (ucast x :: u32)"
  "of_nat (le_nat [x, y]) = (ucast x + 256 * ucast y :: u32)"
  "of_nat (le_nat [x, y, z]) = (ucast x + 256 * ucast y + 65536 * ucast z :: u32)"
  "of_nat (le_nat [x, y, z, w]) = (ucast x + 256 * ucast y + 65536 * ucast z + 16777216 * ucast w :: u32)"
  by simp_all

lemma bytes_at:
  "byte_at mem p 0 = ucast (mem p)" "byte_at mem p 8 = 256 * ucast (mem p)"
  "byte_at mem p 16 = 65536 * ucast (mem p)" "byte_at mem p 24 = 16777216 * ucast (mem p)"
  by (simp_all add: byte_at_def push_bit_eq_mult mult.commute)

lemma word_at_full: "4 * i + 4 \<le> len \<Longrightarrow> word_at (key_bytes mem p len) i = rd32 mem (p + 4 * i)"
  using min_absorb1 [of 4 "len - 4 * i"] by (simp add: word_at_key rd32_def le_diff_conv2)

lemma blocks_spec:
  assumes "12 \<le> len"
  shows "block32 mem p abc = add_block word_at (key_bytes mem p len) abc"
    and "block16 mem p abc = add_block word_at (key_bytes mem p len) abc"
    and "block8 mem p abc = add_block word_at (key_bytes mem p len) abc"
proof -
  obtain a b c where abc: "abc = (a, b, c)" by (cases abc)
  have w: "add_block word_at (key_bytes mem p len) abc = (a + rd32 mem p, b + rd32 mem (p + 4), c + rd32 mem (p + 8))"
    using assms by (simp add: abc add_block_def word_at_full)
  show "block32 mem p abc = add_block word_at (key_bytes mem p len) abc" unfolding w by (simp add: abc block32_def)
  show "block16 mem p abc = add_block word_at (key_bytes mem p len) abc"
    unfolding w by (simp add: abc block16_def pair16_rd32)
  show "block8 mem p abc = add_block word_at (key_bytes mem p len) abc"
    unfolding w rd32_def le_words by (simp add: abc block8_def bytes_at ac_simps)
qed

lemma tails_spec:
  assumes "0 < len" and "len \<le> 12"
  shows "tail32 mem p len abc = add_block word_at (key_bytes mem p len) abc"
    and "tail16 mem p len abc = add_block word_at (key_bytes mem p len) abc"
    and "tail8 mem p len abc = add_block word_at (key_bytes mem p len) abc"
proof -
  obtain a b c where abc: "abc = (a, b, c)" by (cases abc)
  consider "len = 1" | "len = 2" | "len = 3" | "len = 4" | "len = 5" | "len = 6" | "len = 7" | "len = 8"
    | "len = 9" | "len = 10" | "len = 11" | "len = 12" using assms by (auto simp: le_Suc_eq numeral_eq_Suc)
  then have "tail32 mem p len abc = add_block word_at (key_bytes mem p len) abc \<and>
      tail16 mem p len abc = add_block word_at (key_bytes mem p len) abc \<and>
      tail8 mem p len abc = add_block word_at (key_bytes mem p len) abc"
    unfolding add_block_def word_at_key
    by cases (simp_all add: abc tail32_def [unfolded Let_def rd32_masks] tail16_def tail8_def Let_def pair16_rd32 rd16_of_nat rd32_def bytes_at ac_simps)
  then show "tail32 mem p len abc = add_block word_at (key_bytes mem p len) abc"
    "tail16 mem p len abc = add_block word_at (key_bytes mem p len) abc"
    "tail8 mem p len abc = add_block word_at (key_bytes mem p len) abc" by simp_all
qed

text \<open>The loop and the switch together are the reference definition, for each way of reading.\<close>

lemma hashlittle_loop_spec:
  assumes block: "\<And>p len abc. 12 \<le> len \<Longrightarrow> block mem p abc = add_block word (key_bytes mem p len) abc"
    and tail: "\<And>p len abc. 0 < len \<Longrightarrow> len \<le> 12 \<Longrightarrow> tail mem p len abc = add_block word (key_bytes mem p len) abc"
  shows "(case hashlittle_loop block mem p len abc of (k, l, abc') \<Rightarrow> if l = 0 then abc' else final (tail mem k l abc'))
    = lookup3_spec word (key_bytes mem p len) abc"
proof (induction len arbitrary: p abc rule: less_induct)
  case (less len)
  show ?case
  proof (cases "12 < len")
    case True
    then show ?thesis
      using less.IH [of "len - 12" "p + 12" "mix (block mem p abc)"] block [of len p abc]
      by (simp add: hashlittle_loop.simps [of block mem p] lookup3_spec.simps [of word "key_bytes mem p len"]
          drop_key_bytes)
  next
    case False
    moreover have "key_bytes mem p len = [] \<longleftrightarrow> len = 0" by (simp add: key_bytes_def)
    ultimately show ?thesis
      using tail [of len p abc]
      by (simp add: hashlittle_loop.simps [of block mem p] lookup3_spec.simps [of word "key_bytes mem p len"])
  qed
qed

lemma hashlittle_body_spec:
  "hashlittle_body mem key len abc = lookup3_spec word_at (key_bytes mem key len) abc"
  using hashlittle_loop_spec [of block32 mem word_at tail32 key len abc]
    hashlittle_loop_spec [of block16 mem word_at tail16 key len abc]
    hashlittle_loop_spec [of block8 mem word_at tail8 key len abc]
  by (simp add: hashlittle_body_def blocks_spec tails_spec)

lemma block_big_spec:
  assumes "12 \<le> len"
  shows "block8_big mem p abc = add_block word_at_big (key_bytes mem p len) abc"
proof -
  have w: "word_at_big (key_bytes mem p len) i =
      of_nat (le_nat [mem (p + 4 * i + 3), mem (p + 4 * i + 2), mem (p + 4 * i + 1), mem (p + 4 * i)])"
    if "4 * i + 4 \<le> len" for i
    using that take_key_bytes [of 4 "len - 4 * i" mem "p + 4 * i"]
    by (simp add: word_at_big_def drop_key_bytes le_diff_conv2)
  show ?thesis
    using assms w [of 0] w [of 1] w [of 2]
    by (cases abc) (simp add: block8_big_def add_block_def bytes_at ac_simps)
qed

lemma tail_big_spec:
  assumes "0 < len" and "len \<le> 12"
  shows "tail8_big mem p len abc = add_block word_at_big (key_bytes mem p len) abc"
proof -
  obtain a b c where abc: "abc = (a, b, c)" by (cases abc)
  consider "len = 1" | "len = 2" | "len = 3" | "len = 4" | "len = 5" | "len = 6" | "len = 7" | "len = 8"
    | "len = 9" | "len = 10" | "len = 11" | "len = 12" using assms by (auto simp: le_Suc_eq numeral_eq_Suc)
  then show ?thesis
    unfolding add_block_def word_at_big_def drop_key_bytes
    by cases (simp_all add: abc tail8_big_def Let_def take_key_bytes bytes_at ac_simps)
qed

text \<open>Words as their bytes.\<close>

definition words_bytes :: "u32 list \<Rightarrow> u8 list" where
  "words_bytes ks = concat (map (\<lambda>w. le_bytes 4 (unat w)) ks)"

lemma length_words_bytes [simp]: "length (words_bytes ks) = 4 * length ks"
  by (induction ks) (simp_all add: words_bytes_def)

lemma words_bytes_Cons: "words_bytes (w # ks) = le_bytes 4 (unat w) @ words_bytes ks"
  by (simp add: words_bytes_def)

lemma drop_words_bytes: "drop (4 * n) (words_bytes ks) = words_bytes (drop n ks)"
proof (induction n arbitrary: ks)
  case (Suc n)
  then show ?case by (cases ks) (simp_all add: words_bytes_Cons words_bytes_def)
qed simp

lemma word_at_words: "i < length ks \<Longrightarrow> word_at (words_bytes ks) i = ks ! i"
proof -
  assume i: "i < length ks"
  then have "drop (4 * i) (words_bytes ks) = le_bytes 4 (unat (ks ! i)) @ words_bytes (drop (Suc i) ks)"
    by (simp add: drop_words_bytes Cons_nth_drop_Suc [symmetric] words_bytes_Cons)
  moreover have "unat (ks ! i) < 2 ^ LENGTH(32)" by (rule unsigned_less)
  ultimately show ?thesis by (simp add: word_at_def le_nat_le_bytes)
qed

lemma word_at_past: "length ks \<le> i \<Longrightarrow> word_at (words_bytes ks) i = 0"
  by (simp add: word_at_def)

lemma hashword_spec:
  "(case hashword_loop k abc of (k', abc') \<Rightarrow> hashword_tail k' abc') = lookup3_spec word_at (words_bytes k) abc"
proof (induction k abc rule: hashword_loop.induct)
  case (1 k a b c)
  show ?case
  proof (cases "3 < length k")
    case True
    then have "drop 12 (words_bytes k) = words_bytes (drop 3 k)" using drop_words_bytes [of 3 k] by simp
    moreover have "word_at (words_bytes k) 0 = k ! 0" "word_at (words_bytes k) 1 = k ! 1"
      "word_at (words_bytes k) 2 = k ! 2" by (rule word_at_words, use True in linarith)+
    ultimately show ?thesis using True 1
      by (simp add: hashword_loop.simps [of k] lookup3_spec.simps [of word_at "words_bytes k"] add_block_def)
  next
    case False
    then consider "k = []" | "length k = 1" | "length k = 2" | "length k = 3"
      by (auto simp: not_less le_Suc_eq numeral_2_eq_2 numeral_3_eq_3)
    then show ?thesis
    proof cases
      case 1
      then show ?thesis
        by (simp add: hashword_loop.simps hashword_tail_def lookup3_spec.simps words_bytes_def)
    qed (auto simp: hashword_loop.simps hashword_tail_def lookup3_spec.simps [of word_at "words_bytes k"]
        add_block_def word_at_words word_at_past simp flip: length_0_conv)
  qed
qed

subsection \<open>The functions with two results\<close>

text \<open>The second copies of the switches add the same words of the last block, and the second copies of
  the loops mix the same blocks.\<close>

lemma switches2_spec:
  assumes "0 < len" and "len \<le> 12"
  shows "hashlittle2_switch32 mem p len a b c = add_block word_at (key_bytes mem p len) (a, b, c)"
    and "hashlittle2_switch16 mem p len a b c = add_block word_at (key_bytes mem p len) (a, b, c)"
    and "hashlittle2_switch8 mem p len a b c = add_block word_at (key_bytes mem p len) (a, b, c)"
proof -
  note t = tails_spec [OF assms, of mem p "(a, b, c)"]
  show "hashlittle2_switch32 mem p len a b c = add_block word_at (key_bytes mem p len) (a, b, c)"
    unfolding t(1) [symmetric] by (simp add: hashlittle2_switch32_def tail32_def Let_def)
  show "hashlittle2_switch16 mem p len a b c = add_block word_at (key_bytes mem p len) (a, b, c)"
    unfolding t(2) [symmetric] using assms
    by (simp add: hashlittle2_switch16_def tail16_def Let_def pair16_def byte_at_def add.assoc)
  show "hashlittle2_switch8 mem p len a b c = add_block word_at (key_bytes mem p len) (a, b, c)"
    unfolding t(3) [symmetric] by (simp add: hashlittle2_switch8_def tail8_def Let_def byte_at_def)
qed

lemma blocks_apply:
  "block32 mem k (a, b, c) = (a + rd32 mem k, b + rd32 mem (k + 4), c + rd32 mem (k + 8))"
  "block16 mem k (a, b, c) = (a + (ucast (rd16 mem k) + push_bit 16 (ucast (rd16 mem (k + 2)))),
     b + (ucast (rd16 mem (k + 4)) + push_bit 16 (ucast (rd16 mem (k + 6)))),
     c + (ucast (rd16 mem (k + 8)) + push_bit 16 (ucast (rd16 mem (k + 10)))))"
  "block8 mem k (a, b, c) =
    (a + ucast (mem k) + push_bit 8 (ucast (mem (k + 1))) + push_bit 16 (ucast (mem (k + 2))) + push_bit 24 (ucast (mem (k + 3))),
     b + ucast (mem (k + 4)) + push_bit 8 (ucast (mem (k + 5))) + push_bit 16 (ucast (mem (k + 6))) + push_bit 24 (ucast (mem (k + 7))),
     c + ucast (mem (k + 8)) + push_bit 8 (ucast (mem (k + 9))) + push_bit 16 (ucast (mem (k + 10))) + push_bit 24 (ucast (mem (k + 11))))"
  by (simp_all add: block32_def block16_def block8_def pair16_def byte_at_def add.assoc)

lemma loop2_32: "hashlittle2_loop32 mem p len a b c = hashlittle_loop block32 mem p len (a, b, c)"
  by (induction mem p len a b c rule: hashlittle2_loop32.induct)
    (subst hashlittle2_loop32.simps, subst hashlittle_loop.simps, auto simp: blocks_apply Let_def split: prod.split)

lemma loop2_16: "hashlittle2_loop16 mem p len a b c = hashlittle_loop block16 mem p len (a, b, c)"
  by (induction mem p len a b c rule: hashlittle2_loop16.induct)
    (subst hashlittle2_loop16.simps, subst hashlittle_loop.simps,
      auto simp: blocks_apply Let_def split: prod.split)

lemma loop2_8: "hashlittle2_loop8 mem p len a b c = hashlittle_loop block8 mem p len (a, b, c)"
  by (induction mem p len a b c rule: hashlittle2_loop8.induct)
    (subst hashlittle2_loop8.simps, subst hashlittle_loop.simps,
      auto simp: blocks_apply Let_def split: prod.split)

definition both :: "hash_state \<Rightarrow> u32 \<times> u32" where
  "both = (\<lambda>(a, b, c). (c, b))"

lemma branch2_spec:
  assumes "\<And>p len abc. 12 \<le> len \<Longrightarrow> block mem p abc = add_block word_at (key_bytes mem p len) abc"
    and "\<And>p len a b c. 0 < len \<Longrightarrow> len \<le> 12 \<Longrightarrow> switch mem p len a b c = add_block word_at (key_bytes mem p len) (a, b, c)"
  shows "(let (k, l, a, b, c) = hashlittle_loop block mem p len abc
     in if l = 0 then (c, b)
        else (let (a, b, c) = switch mem k l a b c; (a, b, c) = final (a, b, c) in (c, b)))
    = both (lookup3_spec word_at (key_bytes mem p len) abc)"
proof -
  have "(case hashlittle_loop block mem p len abc of
      (k, l, abc') \<Rightarrow> if l = 0 then abc' else final ((\<lambda>m q n (a, b, c). switch m q n a b c) mem k l abc'))
    = lookup3_spec word_at (key_bytes mem p len) abc"
    by (rule hashlittle_loop_spec) (auto simp: assms)
  then show ?thesis by (auto simp: both_def Let_def split: prod.splits if_splits)
qed

lemma hashlittle2_spec:
  "lookup3_hashlittle2 mem key len pc pb =
    (let s = 0xdeadbeef + of_nat len + pc in both (lookup3_spec word_at (key_bytes mem key len) (s, s, s + pb)))"
proof -
  let ?s = "0xdeadbeef + of_nat len + pc"
  note b = branch2_spec [where mem = mem and p = key and len = len and abc = "(?s, ?s, ?s + pb)"]
  show ?thesis
    using b [of block32 hashlittle2_switch32, OF blocks_spec(1) switches2_spec(1)]
      b [of block16 hashlittle2_switch16, OF blocks_spec(2) switches2_spec(2)]
      b [of block8 hashlittle2_switch8, OF blocks_spec(3) switches2_spec(3)]
    unfolding lookup3_hashlittle2_def loop2_32 loop2_16 loop2_8 by (simp only: Let_def if_cancel split: if_split)
qed

lemma hashword2_loop_spec: "hashword2_loop k a b c = hashword_loop k (a, b, c)"
  by (induction k a b c rule: hashword2_loop.induct)
    (subst hashword2_loop.simps, subst hashword_loop.simps, auto simp: Let_def split: prod.split)

lemma hashword2_spec:
  "lookup3_hashword2 k pc pb =
    (let s = 0xdeadbeef + of_nat (4 * length k) + pc in both (lookup3_spec word_at (words_bytes k) (s, s, s + pb)))"
proof -
  have n: "(ucast (push_bit 2 (of_nat (length k) :: u64)) :: u32) = of_nat (4 * length k)"
    using ucast_of_nat_down [of "4 * length k", where 'a = 64 and 'b = 32] by (simp add: push_bit_eq_mult mult.commute)
  have sw: "hashword2_switch k' a b c = both (hashword_tail k' (a, b, c))" for k' a b c
    by (auto simp: hashword2_switch_def hashword_tail_def both_def Let_def split: prod.split)
  show ?thesis unfolding lookup3_hashword2_def n Let_def hashword2_loop_spec sw hashword_spec [symmetric]
    by (simp split: prod.split)
qed

subsection \<open>Reversing the mix\<close>

text \<open>The mix is six rounds of the same shape, with the roles of the words rotating.\<close>

definition mix_round :: "nat \<Rightarrow> hash_state \<Rightarrow> hash_state" where
  "mix_round k = (\<lambda>(x, y, z). (y, z + y, (x - z) XOR rot z k))"

definition unmix_round :: "nat \<Rightarrow> hash_state \<Rightarrow> hash_state" where
  "unmix_round k = (\<lambda>(u, v, w). ((w XOR rot (v - u) k) + (v - u), u, v - u))"

definition unmix :: "hash_state \<Rightarrow> hash_state" where
  "unmix abc = unmix_round 4 (unmix_round 6 (unmix_round 8 (unmix_round 16 (unmix_round 19 (unmix_round 4 abc)))))"

lemma mix_rounds:
  "mix abc = mix_round 4 (mix_round 19 (mix_round 16 (mix_round 8 (mix_round 6 (mix_round 4 abc)))))"
  by (cases abc) (simp only: mix_def mix_round_def Let_def prod.case)

lemma xor_cancel: "(x XOR y) XOR y = (x :: u32)"
  by (simp add: xor.assoc)

lemma unmix_mix_round: "unmix_round k (mix_round k abc) = abc"
  by (cases abc) (simp add: mix_round_def unmix_round_def xor_cancel)

lemma mix_unmix_round: "mix_round k (unmix_round k abc) = abc"
  by (cases abc) (simp add: mix_round_def unmix_round_def xor_cancel)

section \<open>Properties\<close>

text \<open>
  C14. \<open>hashlittle\<close> computes the reference hash of the key's bytes whatever the alignment of the
  key: the 32-bit, the 16-bit and the byte-wise branch agree, and the bytes that the masked
  reads touch beyond the end of the key do not influence the result.
\<close>

theorem hashlittle_reference:
  "lookup3_hashlittle mem key len initval =
    (let s = 0xdeadbeef + of_nat len + initval
     in snd (snd (lookup3_spec word_at (key_bytes mem key len) (s, s, s))))"
  by (simp add: lookup3_hashlittle_def hashlittle_body_spec Let_def split: prod.split)

text \<open>
  C15. \<open>hashbig\<close> computes the same reference hash with the bytes of each word taken high byte first.
\<close>

theorem hashbig_reference:
  "lookup3_hashbig mem key len initval =
    (let s = 0xdeadbeef + of_nat len + initval
     in snd (snd (lookup3_spec word_at_big (key_bytes mem key len) (s, s, s))))"
proof -
  define s :: u32 where "s = 0xdeadbeef + of_nat len + initval"
  obtain k l abc where L: "hashlittle_loop block8_big mem key len (s, s, s) = (k, l, abc)"
    by (cases "hashlittle_loop block8_big mem key len (s, s, s)")
  have "(case hashlittle_loop block8_big mem key len (s, s, s) of
      (k, l, abc) \<Rightarrow> if l = 0 then abc else final (tail8_big mem k l abc)) =
      lookup3_spec word_at_big (key_bytes mem key len) (s, s, s)"
    by (rule hashlittle_loop_spec) (simp_all add: block_big_spec tail_big_spec)
  then have "(if l = 0 then abc else final (tail8_big mem k l abc)) =
      lookup3_spec word_at_big (key_bytes mem key len) (s, s, s)"
    by (simp only: L prod.case)
  then show ?thesis
    unfolding lookup3_hashbig_def Let_def s_def [symmetric] L prod.case by (simp add: split_beta)
qed

text \<open>
  C16. The functions with two seeds and two results, which have their own copies of the loops and
  switches, compute the reference hash too: for all seeds, \<open>hashlittle2\<close> at any alignment and
  \<open>hashword2\<close> return the last and the middle word of the reference state that starts with the second
  seed added to its last word. With a zero second seed their primary result is therefore that of
  \<open>hashlittle\<close> and of \<open>hashword\<close>, as their comments say.
\<close>

theorem hash2_reference:
  "lookup3_hashlittle2 mem key len pc pb =
    (let s = 0xdeadbeef + of_nat len + pc;
         (a, b, c) = lookup3_spec word_at (key_bytes mem key len) (s, s, s + pb) in (c, b)) \<and>
   lookup3_hashword2 k pc pb =
    (let s = 0xdeadbeef + of_nat (4 * length k) + pc;
         (a, b, c) = lookup3_spec word_at (words_bytes k) (s, s, s + pb) in (c, b)) \<and>
   fst (lookup3_hashlittle2 mem key len pc 0) = lookup3_hashlittle mem key len pc \<and>
   fst (lookup3_hashword2 k pc 0) = lookup3_hashword k pc"
proof -
  have w: "lookup3_hashword k pc = (let s = 0xdeadbeef + of_nat (4 * length k) + pc
      in snd (snd (lookup3_spec word_at (words_bytes k) (s, s, s))))"
    unfolding lookup3_hashword_def Let_def hashword_spec [symmetric]
    by (simp add: push_bit_eq_mult mult.commute split: prod.split)
  show ?thesis unfolding hashlittle2_spec hashword2_spec w lookup3_hashlittle_def hashlittle_body_spec
    by (simp add: both_def Let_def split: prod.split)
qed

text \<open>
  C17. \<open>hashword\<close> is \<open>hashlittle\<close> on arrays of 32-bit words: at any address that holds the
  little-endian bytes of the words, \<open>hashlittle\<close> with four times the length gives the same value.
\<close>

theorem hashword_is_hashlittle:
  assumes "key_bytes mem key (4 * length k) = words_bytes k"
  shows "lookup3_hashlittle mem key (4 * length k) initval = lookup3_hashword k initval"
proof -
  define s where "s = 0xdeadbeef + push_bit 2 (of_nat (length k)) + initval"
  have "push_bit 2 (of_nat (length k)) = (of_nat (4 * length k) :: u32)"
    by (simp add: push_bit_eq_mult mult.commute)
  then have s: "0xdeadbeef + of_nat (4 * length k) + initval = s" by (simp add: s_def)
  obtain k' abc where l: "hashword_loop k (s, s, s) = (k', abc)" by (cases "hashword_loop k (s, s, s)")
  then have "hashword_tail k' abc = lookup3_spec word_at (words_bytes k) (s, s, s)"
    using hashword_spec [of k "(s, s, s)"] by simp
  then show ?thesis
    unfolding lookup3_hashlittle_def lookup3_hashword_def hashlittle_body_spec assms s s_def [symmetric] Let_def l
    by simp
qed

theorem hashword_is_hashlittle_witness:
  "lookup3_hashlittle (\<lambda>p. if p = 7 then 0x44 else if p = 8 then 0x33 else if p = 9 then 0x22 else 0x11) 7 4 5
    = lookup3_hashword [0x11223344] 5"
proof -
  have "key_bytes (\<lambda>p. if p = 7 then 0x44 else if p = 8 then 0x33 else if p = 9 then 0x22 else 0x11) 7
      (4 * length [0x11223344 :: u32]) = words_bytes [0x11223344]"
    by (simp add: words_bytes_def le_bytes_numeral)
  from hashword_is_hashlittle [OF this, of 5] show ?thesis by simp
qed

text \<open>
  C18. \<open>mix\<close> is reversible: it has a two-sided inverse, so that mixing loses no information
  about the three words.
\<close>

theorem mix_reversible: "unmix (mix abc) = abc \<and> mix (unmix abc) = abc"
  by (simp add: mix_rounds unmix_def unmix_mix_round mix_unmix_round)

end
