(* ===== verification/Bpf_Env.thy ===== *)
theory Bpf_Env
  imports Prelude "HOL-Library.State_Monad"
begin

text \<open>
  The environment every BPF program of \<^verbatim>\<open>src/collector/kernel/bpf_src\<close> runs in: the definitions
  of \<^verbatim>\<open>tcp-processor/bpf_types.h\<close> (identifiers, saved probe arguments, time stamps, the throttled
  error log, IPv4-mapped addresses) and the codes of \<^verbatim>\<open>render_bpf.h\<close>.

  A BPF program is a computation in the state monad over the record \<^verbatim>\<open>bpf\<close> (extended by each
  component with its tables).  What the kernel supplies is the record \<^verbatim>\<open>env\<close>, an argument of every
  program: the results of the helpers, the memory \<^verbatim>\<open>bpf_probe_read\<close> reads, the return codes of the
  map operations and the values substituted into the program text at load time.  The generated
  \<^verbatim>\<open>perf_submit_agent_internal__*\<close> functions append a \<^verbatim>\<open>bpf_event\<close> carrying their arguments.
\<close>

section \<open>Codes of render_bpf.h\<close>

datatype (plugins only: code) BPF_LOG_CODE =
  BPF_LOG_UNKNOWN | BPF_LOG_TABLE_FULL | BPF_LOG_TABLE_BAD_INSERT | BPF_LOG_TABLE_BAD_REMOVE
| BPF_LOG_TABLE_MISSING_KEY | BPF_LOG_LIFETIME_HACK | BPF_LOG_TABLE_DUPLICATE_INSERT
| BPF_LOG_UNEXPECTED_TYPE | BPF_LOG_DATA_TRUNCATED | BPF_LOG_INVALID_POINTER
| BPF_LOG_UNSUPPORTED_IO | BPF_LOG_MISSING_ARGUMENTS | BPF_LOG_UNREACHABLE | BPF_LOG_THROTTLED
| BPF_LOG_UNEXPECTED_VALUE | BPF_LOG_INVALID_PID_TGID | BPF_LOG_EXISTING_HACK
| BPF_LOG_BPF_CALL_FAILED

datatype BPF_TABLE_ID =
  BPF_TABLE_TGID_INFO | BPF_TABLE_SEEN_INODES | BPF_TABLE_TCP_OPEN_SOCKETS
| BPF_TABLE_TCP_OPENREQ_CHILD_HASH | BPF_TABLE_UDP_OPEN_SOCKETS | BPF_TABLE_UDP_GET_PORT_HASH
| BPF_TABLE_SEEN_CONNTRACKS | BPF_TABLE_TCP_CONNECTIONS | BPF_TABLE_DEAD_GROUP_TASKS
| BPF_TABLE_PID_INFO

fun table_id :: "BPF_TABLE_ID \<Rightarrow> u64" where
  "table_id BPF_TABLE_TGID_INFO = 0"
| "table_id BPF_TABLE_SEEN_INODES = 1"
| "table_id BPF_TABLE_TCP_OPEN_SOCKETS = 2"
| "table_id BPF_TABLE_TCP_OPENREQ_CHILD_HASH = 3"
| "table_id BPF_TABLE_UDP_OPEN_SOCKETS = 4"
| "table_id BPF_TABLE_UDP_GET_PORT_HASH = 5"
| "table_id BPF_TABLE_SEEN_CONNTRACKS = 6"
| "table_id BPF_TABLE_TCP_CONNECTIONS = 7"
| "table_id BPF_TABLE_DEAD_GROUP_TASKS = 8"
| "table_id BPF_TABLE_PID_INFO = 9"

definition BPF_MAX_CPUS :: int where "BPF_MAX_CPUS = 1024"
definition BPF_LOG_THROTTLE_MAX_PER_PERIOD :: u32 where "BPF_LOG_THROTTLE_MAX_PER_PERIOD = 20"
definition BPF_LOG_THROTTLE_PERIOD_LENGTH_MS :: u32 where "BPF_LOG_THROTTLE_PERIOD_LENGTH_MS = 1000"

section \<open>Addresses\<close>

text \<open>A \<^verbatim>\<open>struct in6_addr\<close> as its four 32-bit words in memory order.\<close>

datatype in6_addr = In6 (s6_0: u32) (s6_1: u32) (s6_2: u32) (s6_3: u32)

definition make_ipv6_address :: "u32 \<Rightarrow> in6_addr" where
  "make_ipv6_address addr = In6 0 0 0xffff0000 addr"

section \<open>What the kernel supplies\<close>

text \<open>
  A field of a kernel object is named by its C path, the structure first
  (\<^verbatim>\<open>''tcp_sock.bytes_received''\<close>).
\<close>

type_synonym kfield = string

text \<open>
  The tables for which an operation can fail: those with a \<^verbatim>\<open>BPF_TABLE_ID\<close> of their own, and the
  tables of saved arguments, of TCP control blocks and of the HTTP processor, without one.
\<close>

datatype bpf_table = Tbl BPF_TABLE_ID | Tbl_args string | Tbl_tcp_control

record env =
  linux_version :: nat
  ktime :: "nat \<Rightarrow> u64"
  boot_time_adjustment :: u64
  filter_ns :: u64
  flow_cgroup_subsys :: nat
  report_debug_events :: bool
  enable_tcp_data_stream :: bool
  filelineid :: "nat \<Rightarrow> u64"
  tuple_hash_size :: u64
  cgroup_self :: "u64 \<Rightarrow> u64"
  iovec_size :: u64
  iter_iovec_kvec :: u64
  max_tail_calls :: nat
  percpu_buffer :: bool
  smp_processor_id :: u32
  current_pid_tgid :: u64
  current_comm :: "u8 list"
  regs_rc :: u64
  kread :: "kfield \<Rightarrow> u64 \<Rightarrow> int \<times> u64"
  kread6 :: "kfield \<Rightarrow> u64 \<Rightarrow> int \<times> in6_addr"
  kread_comm :: "u64 \<Rightarrow> int \<times> u8 list"
  kmem :: "u64 \<Rightarrow> nat \<Rightarrow> int \<times> u8 list"
  insert_rc :: "bpf_table \<Rightarrow> u64 \<Rightarrow> bool \<Rightarrow> int"
  delete_rc :: "bpf_table \<Rightarrow> u64 \<Rightarrow> bool \<Rightarrow> int"

text \<open>
  \<^verbatim>\<open>ktime e n\<close> is what the \<^verbatim>\<open>n\<close>-th call of \<^verbatim>\<open>bpf_ktime_get_ns\<close> returns.  \<^verbatim>\<open>kread e f p\<close> is the
  return code of \<^verbatim>\<open>bpf_probe_read\<close> on the field \<^verbatim>\<open>f\<close> of the object at \<^verbatim>\<open>p\<close> and the value read;
  \<^verbatim>\<open>kread6\<close>, \<^verbatim>\<open>kread_comm\<close> and \<^verbatim>\<open>kmem\<close> are the same for IPv6 addresses, command names and raw
  bytes.  \<^verbatim>\<open>insert_rc e t k present\<close> and \<^verbatim>\<open>delete_rc e t k present\<close> are the return codes of the map
  operations, given whether the key is in the table.
\<close>

definition KERNEL_VERSION :: "nat \<Rightarrow> nat \<Rightarrow> nat \<Rightarrow> nat" where
  "KERNEL_VERSION a b c = a * 65536 + b * 256 + c"

text \<open>
  A failed read leaves zero in the destination: the helper clears it, and every destination of the
  programs is zero before the call.  A direct dereference is a read whose code is dropped.
\<close>

definition probe_read :: "env \<Rightarrow> kfield \<Rightarrow> u64 \<Rightarrow> int \<times> u64" where
  "probe_read e f p = (let (rc, v) = kread e f p in if rc = 0 then (0, v) else (rc, 0))"

definition kget :: "env \<Rightarrow> kfield \<Rightarrow> u64 \<Rightarrow> 'a::len word" where
  "kget e f p = ucast (snd (probe_read e f p))"

definition kget6 :: "env \<Rightarrow> kfield \<Rightarrow> u64 \<Rightarrow> in6_addr" where
  "kget6 e f p = (let (rc, a) = kread6 e f p in if rc = 0 then a else In6 0 0 0 0)"

definition probe_mem :: "env \<Rightarrow> u64 \<Rightarrow> nat \<Rightarrow> u8 list" where
  "probe_mem e p n = (let (rc, bs) = kmem e p n in if rc = 0 then bs else replicate n 0)"

text \<open>Documented behaviour of the map operations, the hypotheses of the theorems that need it.\<close>

definition noexist_ok :: "env \<Rightarrow> bool" where
  "noexist_ok e \<longleftrightarrow> (\<forall>t k. insert_rc e t k True = - EEXIST)"

definition delete_ok :: "env \<Rightarrow> bool" where
  "delete_ok e \<longleftrightarrow> (\<forall>t k. delete_rc e t k True = 0 \<and> delete_rc e t k False = - ENOENT)"

section \<open>Messages to user space\<close>

datatype (plugins only: code) bpf_event =
  Ev_bpf_log u64 u64 BPF_LOG_CODE u64 u64 u64
| Ev_pid_exit u64 u32 u32 u32
| Ev_pid_close u64 u32 "u8 list"
| Ev_pid_set_comm u64 u32 u64
| Ev_pid_info u64 u32 "u8 list" u64 u32
| Ev_rtt_estimator u64 u32 u32 u64 u8 u64 u32 u32 u32 u32 u64 u32 u32
| Ev_close_sock_info u64 u64
| Ev_set_state_ipv6 u64 in6_addr in6_addr u16 u16 u64 u32
| Ev_set_state_ipv4 u64 u32 u32 u16 u16 u64 u32
| Ev_reset_tcp_counters u64 u64 u64 u32 u32 u64 u64
| Ev_new_sock_created u64 u32 u64
| Ev_report_debug_event u64 u64 u64
| Ev_udp_new_socket u64 u32 u64 in6_addr u16
| Ev_udp_stats u64 u64 in6_addr u32 u32 u8 u16 u8 in6_addr u16 u32
| Ev_udp_destroy_socket u64 u64
| Ev_tcp_reset u64 u64 u8
| Ev_tcp_syn_timeout u64 u64
| Ev_dns_packet u64 u64 "u8 list" u16 u8
| Ev_kill_css u64 u64 u64 u64
| Ev_css_populate_dir u64 u64 u64 u64
| Ev_existing_cgroup_probe u64 u64 u64 u64
| Ev_cgroup_attach_task u64 u64 u32 "u8 list"
| Ev_nf_nat_cleanup_conntrack u64 u64 u32 u16 u32 u16 u8
| Ev_nf_conntrack_alter_reply u64 u64 u32 u16 u32 u16 u8 u32 u16 u32 u16 u8
| Ev_existing_conntrack_tuple u64 u64 u32 u16 u32 u16 u8 u8
| Ev_http_response u64 u64 u32 u16 u64 u8
| Ev_tcp_data u64 u64 u32 u64 u64 u8 u8

section \<open>The state shared by all programs\<close>

record log_globals =
  period_start_ms :: u32
  log_count :: u32

record bpf =
  ktime_reads :: nat
  bpf_log_globals :: "int \<rightharpoonup> log_globals"
  events :: "bpf_event list"

type_synonym ('s, 'a) prog = "('s bpf_scheme, 'a) state"

definition gets :: "('s \<Rightarrow> 'a) \<Rightarrow> ('s, 'a) state" where
  "gets f = State (\<lambda>s. (f s, s))"

definition modify :: "('s \<Rightarrow> 's) \<Rightarrow> ('s, unit) state" where
  "modify f = State (\<lambda>s. ((), f s))"

definition skip :: "('s, unit) state" where
  "skip = State_Monad.return ()"

lemma run_gets [simp]: "run_state (gets f) s = (f s, s)"
  by (simp add: gets_def)

lemma run_modify [simp]: "run_state (modify f) s = ((), f s)"
  by (simp add: modify_def)

lemma run_skip [simp]: "run_state skip s = ((), s)"
  by (simp add: skip_def)

definition perf_submit :: "bpf_event \<Rightarrow> ('s, unit) prog" where
  "perf_submit ev = modify (\<lambda>s. s\<lparr>events := events s @ [ev]\<rparr>)"

definition get_timestamp :: "env \<Rightarrow> ('s, u64) prog" where
  "get_timestamp e = State (\<lambda>s. (ktime e (ktime_reads s) + boot_time_adjustment e,
     s\<lparr>ktime_reads := ktime_reads s + 1\<rparr>))"

definition bpf_log :: "env \<Rightarrow> nat \<Rightarrow> BPF_LOG_CODE \<Rightarrow> u64 \<Rightarrow> u64 \<Rightarrow> u64 \<Rightarrow> ('s, unit) prog" where
  "bpf_log e line code arg0 arg1 arg2 = do {
     now \<leftarrow> get_timestamp e;
     let now_ms = (ucast (now div 1000000) :: u32);
     let cpu = sint (smp_processor_id e);
     if cpu < 0 \<or> cpu \<ge> BPF_MAX_CPUS then skip else do {
       lookup \<leftarrow> gets (\<lambda>s. bpf_log_globals s cpu);
       case lookup of None \<Rightarrow> skip
       | Some globals0 \<Rightarrow> do {
           let globals1 = (if now_ms \<ge> period_start_ms globals0 + BPF_LOG_THROTTLE_PERIOD_LENGTH_MS
             then globals0\<lparr>period_start_ms := now_ms, log_count := 0\<rparr> else globals0);
           let globals = globals1\<lparr>log_count := log_count globals1 + 1\<rparr>;
           modify (\<lambda>s. s\<lparr>bpf_log_globals := (bpf_log_globals s)(cpu \<mapsto> globals)\<rparr>);
           if log_count globals = BPF_LOG_THROTTLE_MAX_PER_PERIOD + 1 then
             perf_submit (Ev_bpf_log now (filelineid e line) BPF_LOG_THROTTLED (word_of_int cpu) 0 0)
           else if log_count globals \<le> BPF_LOG_THROTTLE_MAX_PER_PERIOD then
             perf_submit (Ev_bpf_log now (filelineid e line) code arg0 arg1 arg2)
           else skip
         }
     }
   }"

definition abs_val :: "int \<Rightarrow> u64" where
  "abs_val val = word_of_int (if val < 0 then - val else val)"

text \<open>
  A read whose failure is logged and ends the program with the result \<open>d\<close>, the pattern of most checked
  reads.
\<close>

definition checked_read ::
    "env \<Rightarrow> nat \<Rightarrow> kfield \<Rightarrow> u64 \<Rightarrow> 'a \<Rightarrow> (u64 \<Rightarrow> ('s, 'a) prog) \<Rightarrow> ('s, 'a) prog" where
  "checked_read e line f p d k = (let (rc, v) = probe_read e f p in
     if rc \<noteq> 0 then do {
       bpf_log e line BPF_LOG_BPF_CALL_FAILED (abs_val rc) 0 0;
       State_Monad.return d
     } else k v)"

section \<open>Process identifiers\<close>

definition TGID_FROM_PID_TGID :: "u64 \<Rightarrow> u32" where
  "TGID_FROM_PID_TGID x = ucast (drop_bit 32 x)"

definition PID_FROM_PID_TGID :: "u64 \<Rightarrow> u32" where
  "PID_FROM_PID_TGID x = ucast x"

definition GET_PID_TGID :: "env \<Rightarrow> nat \<Rightarrow> ('s, u64 \<times> u32 \<times> u64) prog" where
  "GET_PID_TGID e line = (let pid_tgid = current_pid_tgid e;
     tgid = TGID_FROM_PID_TGID pid_tgid; pid = PID_FROM_PID_TGID pid_tgid in do {
       (if tgid = 0 \<or> pid = 0 then bpf_log e line BPF_LOG_INVALID_PID_TGID pid_tgid 0 0 else skip);
       State_Monad.return (pid_tgid, tgid, ucast (smp_processor_id e))
     })"

section \<open>Map operations\<close>

text \<open>
  \<^verbatim>\<open>insert\<close> stores the value exactly when it returns zero; after a \<^verbatim>\<open>delete\<close> the key is absent
  whatever the code.  This assumes that a deletion fails only because the key was not (or no longer) there;
  a kernel that refuses to delete a key that is present, and keeps it, is not represented.
\<close>

definition map_insert :: "env \<Rightarrow> bpf_table \<Rightarrow> u64 \<Rightarrow> 'k \<Rightarrow> 'v \<Rightarrow> ('k \<rightharpoonup> 'v) \<Rightarrow> int \<times> ('k \<rightharpoonup> 'v)" where
  "map_insert e t kc k v m = (let rc = insert_rc e t kc (m k \<noteq> None) in
     if rc = 0 then (0, m(k \<mapsto> v)) else (rc, m))"

definition map_delete :: "env \<Rightarrow> bpf_table \<Rightarrow> u64 \<Rightarrow> 'k \<Rightarrow> ('k \<rightharpoonup> 'v) \<Rightarrow> int \<times> ('k \<rightharpoonup> 'v)" where
  "map_delete e t kc k m = (delete_rc e t kc (m k \<noteq> None), m(k := None))"

text \<open>The return codes of a full table, as every caller of \<^verbatim>\<open>insert\<close> groups them.\<close>

definition table_full :: "int \<Rightarrow> bool" where
  "table_full rc \<longleftrightarrow> rc = - E2BIG \<or> rc = - ENOMEM \<or> rc = - EINVAL"

text \<open>
  The arguments a probe saves for its return probe, in a table keyed by \<^verbatim>\<open>pid_tgid\<close>; whatever code
  the insertion returns, the macro only prints it when debugging is on.
\<close>

definition SAVE_ARGS :: "env \<Rightarrow> string \<Rightarrow> u64 \<Rightarrow> 'v \<Rightarrow> (u64 \<rightharpoonup> 'v) \<Rightarrow> (u64 \<rightharpoonup> 'v)" where
  [simp]: "SAVE_ARGS e func pid_tgid saved_args table =
     snd (map_insert e (Tbl_args func) pid_tgid pid_tgid saved_args table)"

definition GET_ARGS :: "u64 \<Rightarrow> (u64 \<rightharpoonup> 'v) \<Rightarrow> 'v option" where
  [simp]: "GET_ARGS pid_tgid table = table pid_tgid"

definition DELETE_ARGS :: "u64 \<Rightarrow> (u64 \<rightharpoonup> 'v) \<Rightarrow> (u64 \<rightharpoonup> 'v)" where
  [simp]: "DELETE_ARGS pid_tgid table = table(pid_tgid := None)"



section \<open>Running programs\<close>

lemma run_perf_submit [simp]:
  "run_state (perf_submit ev) s = ((), s\<lparr>events := events s @ [ev]\<rparr>)"
  by (simp add: perf_submit_def)

lemma run_get_timestamp [simp]:
  "run_state (get_timestamp e) s =
     (ktime e (ktime_reads s) + boot_time_adjustment e, s\<lparr>ktime_reads := ktime_reads s + 1\<rparr>)"
  by (simp add: get_timestamp_def)

text \<open>
  A relation between the state before and after a program that is reflexive and transitive is
  checked on a program piece by piece.
\<close>

locale frame_rel =
  fixes R :: "'s \<Rightarrow> 's \<Rightarrow> bool"
  assumes frame_refl: "R s s"
    and frame_trans: "R s t \<Longrightarrow> R t u \<Longrightarrow> R s u"
begin

lemma io_skip: "state_io_rel R skip"
  by (simp add: state_io_rel_def frame_refl)

lemma io_return: "state_io_rel R (State_Monad.return a)"
  by (simp add: state_io_rel_def frame_refl)

lemma io_gets: "state_io_rel R (gets f)"
  by (simp add: state_io_rel_def frame_refl)

lemma io_modify: "(\<And>s. R s (f s)) \<Longrightarrow> state_io_rel R (modify f)"
  by (simp add: state_io_rel_def)

lemma io_bind:
  assumes "state_io_rel R m" and "\<And>a. state_io_rel R (f a)"
  shows "state_io_rel R (m \<bind> f)"
  unfolding state_io_rel_def
proof (rule allI)
  fix s
  obtain a t where m: "run_state m s = (a, t)" by (cases "run_state m s")
  with assms(1) have "R s t" by (auto simp: state_io_rel_def dest: spec [of _ s])
  moreover from assms(2) [of a] have "R t (snd (run_state (f a) t))"
    by (simp add: state_io_rel_def)
  ultimately show "R s (snd (run_state (m \<bind> f) s))" using m frame_trans by simp
qed

lemma io_if: "(b \<Longrightarrow> state_io_rel R m) \<Longrightarrow> (\<not> b \<Longrightarrow> state_io_rel R n) \<Longrightarrow> state_io_rel R (if b then m else n)"
  by simp

lemma io_option:
  "(x = None \<Longrightarrow> state_io_rel R m) \<Longrightarrow> (\<And>a. x = Some a \<Longrightarrow> state_io_rel R (f a)) \<Longrightarrow>
    state_io_rel R (case x of None \<Rightarrow> m | Some a \<Rightarrow> f a)"
  by (cases x) simp_all

lemma io_prod: "(\<And>a b. x = (a, b) \<Longrightarrow> state_io_rel R (f a b)) \<Longrightarrow> state_io_rel R (case x of (a, b) \<Rightarrow> f a b)"
  by (cases x) simp

lemma io_let: "state_io_rel R (f x) \<Longrightarrow> state_io_rel R (Let x f)"
  by simp

lemmas io_rules = io_skip io_return io_gets io_bind io_if io_option io_prod io_let

end

section \<open>Logging leaves the tables alone\<close>

fun is_log :: "bpf_event \<Rightarrow> bool" where
  "is_log (Ev_bpf_log now file_line code arg0 arg1 arg2) = True"
| "is_log _ = False"

definition log_frame :: "'s bpf_scheme \<Rightarrow> 's bpf_scheme \<Rightarrow> bool" where
  "log_frame s s' \<longleftrightarrow> (\<exists>n g evs. s' = s\<lparr>ktime_reads := n, bpf_log_globals := g, events := events s @ evs\<rparr> \<and>
     list_all is_log evs)"

lemma log_frameI:
  "list_all is_log evs \<Longrightarrow> log_frame s (s\<lparr>ktime_reads := n, bpf_log_globals := g, events := events s @ evs\<rparr>)"
  unfolding log_frame_def by blast

lemma log_frameE:
  assumes "log_frame s s'"
  obtains n g evs where "s' = s\<lparr>ktime_reads := n, bpf_log_globals := g, events := events s @ evs\<rparr>"
    and "list_all is_log evs"
  using assms unfolding log_frame_def by blast

lemma log_frame_refl: "log_frame s s"
  using log_frameI [where evs = "[]" and s = s and n = "ktime_reads s" and g = "bpf_log_globals s"] by simp

lemma log_frame_trans:
  assumes "log_frame s t" and "log_frame t u"
  shows "log_frame s u"
proof -
  obtain n g evs where t: "t = s\<lparr>ktime_reads := n, bpf_log_globals := g, events := events s @ evs\<rparr>"
    "list_all is_log evs" using assms(1) by (rule log_frameE)
  obtain n' g' evs' where u: "u = t\<lparr>ktime_reads := n', bpf_log_globals := g', events := events t @ evs'\<rparr>"
    "list_all is_log evs'" using assms(2) by (rule log_frameE)
  show ?thesis using log_frameI [where evs = "evs @ evs'" and s = s and n = n' and g = g'] t u by simp
qed

interpretation lf: frame_rel log_frame
  by unfold_locales (rule log_frame_refl, rule log_frame_trans)

lemma log_frame_ktime [simp]: "log_frame s (s\<lparr>ktime_reads := n\<rparr>)"
  using log_frameI [where evs = "[]" and s = s and n = n and g = "bpf_log_globals s"] by simp

lemma log_frame_globals [simp]: "log_frame s (s\<lparr>bpf_log_globals := g\<rparr>)"
  using log_frameI [where evs = "[]" and s = s and n = "ktime_reads s" and g = g] by simp

lemma log_frame_log [simp]: "log_frame s (s\<lparr>events := events s @ [Ev_bpf_log now fl code a0 a1 a2]\<rparr>)"
  using log_frameI [where evs = "[Ev_bpf_log now fl code a0 a1 a2]" and s = s and n = "ktime_reads s"
    and g = "bpf_log_globals s"] by simp

lemma bpf_log_frame: "state_io_rel log_frame (bpf_log e line code a0 a1 a2)"
proof -
  have ts: "state_io_rel log_frame (get_timestamp e)"
    by (simp add: state_io_rel_def)
  have ps: "state_io_rel log_frame (perf_submit (Ev_bpf_log now fl code a0 a1 a2))" for now fl code a0 a1 a2
    by (simp add: state_io_rel_def)
  have gl: "state_io_rel log_frame (modify (\<lambda>s. s\<lparr>bpf_log_globals := f s\<rparr>))" for f
    by (simp add: state_io_rel_def)
  show ?thesis unfolding bpf_log_def by (intro lf.io_rules ts ps gl)
qed

lemma run_bpf_log:
  obtains s' where "run_state (bpf_log e line code a0 a1 a2) s = ((), s')" "log_frame s s'"
  using bpf_log_frame [of e line code a0 a1 a2]
  by (cases "run_state (bpf_log e line code a0 a1 a2) s") (auto simp: state_io_rel_def dest: spec [of _ s])

lemma run_GET_PID_TGID:
  obtains s' where "run_state (GET_PID_TGID e line) s =
      ((current_pid_tgid e, TGID_FROM_PID_TGID (current_pid_tgid e), ucast (smp_processor_id e)), s')"
    and "log_frame s s'"
proof -
  obtain s' where "run_state (bpf_log e line BPF_LOG_INVALID_PID_TGID (current_pid_tgid e) 0 0) s = ((), s')"
    "log_frame s s'" by (rule run_bpf_log)
  then show ?thesis using that log_frame_refl [of s]
    by (cases "TGID_FROM_PID_TGID (current_pid_tgid e) = 0 \<or> PID_FROM_PID_TGID (current_pid_tgid e) = 0")
      (simp_all add: GET_PID_TGID_def Let_def)
qed

section \<open>The throttled error log\<close>

text \<open>
  A call of \<^verbatim>\<open>bpf_log\<close> as data, the sequence of calls a CPU makes, and the message the \<open>k\<close>-th call
  of a period is answered with, where \<open>k\<close> counts from zero.
\<close>

type_synonym log_call = "nat \<times> BPF_LOG_CODE \<times> u64 \<times> u64 \<times> u64"

primrec bpf_logs :: "env \<Rightarrow> log_call list \<Rightarrow> ('s, unit) prog" where
  "bpf_logs e [] = skip"
| "bpf_logs e (c # cs) = (case c of (line, code, a0, a1, a2) \<Rightarrow>
     do { bpf_log e line code a0 a1 a2; bpf_logs e cs })"

definition log_time :: "env \<Rightarrow> nat \<Rightarrow> u64" where
  "log_time e n = ktime e n + boot_time_adjustment e"

definition log_ms :: "env \<Rightarrow> nat \<Rightarrow> u32" where
  "log_ms e n = ucast (log_time e n div 1000000)"

definition log_answer :: "env \<Rightarrow> nat \<Rightarrow> nat \<Rightarrow> log_call \<Rightarrow> bpf_event list" where
  "log_answer e n k c = (case c of (line, code, a0, a1, a2) \<Rightarrow>
     if k < 20 then [Ev_bpf_log (log_time e n) (filelineid e line) code a0 a1 a2]
     else if k = 20 then [Ev_bpf_log (log_time e n) (filelineid e line) BPF_LOG_THROTTLED
       (word_of_int (sint (smp_processor_id e))) 0 0]
     else [])"

primrec log_answers :: "env \<Rightarrow> nat \<Rightarrow> nat \<Rightarrow> log_call list \<Rightarrow> bpf_event list" where
  "log_answers e n k [] = []"
| "log_answers e n k (c # cs) = log_answer e n k c @ log_answers e (Suc n) (Suc k) cs"

abbreviation log_cpu :: "env \<Rightarrow> int" where
  "log_cpu e \<equiv> sint (smp_processor_id e)"

lemma of_nat_Suc_le_20:
  "k < 2 ^ 32 - 1 \<Longrightarrow> ((of_nat k + 1 :: u32) = 21 \<longleftrightarrow> k = 20) \<and> ((of_nat k + 1 :: u32) \<le> 20 \<longleftrightarrow> k < 20)"
proof -
  assume k: "k < 2 ^ 32 - 1"
  have "(of_nat k + 1 :: u32) = of_nat (Suc k)" by simp
  with k have u: "unat (of_nat k + 1 :: u32) = Suc k"
    by (simp only: unat_of_nat) simp
  then show ?thesis by (auto simp: word_unat_eq_iff word_le_nat_alt)
qed

lemma bpf_log_in_period:
  assumes cpu: "0 \<le> log_cpu e" "log_cpu e < BPF_MAX_CPUS"
    and g: "bpf_log_globals s (log_cpu e) = Some \<lparr>period_start_ms = st, log_count = of_nat k\<rparr>"
    and k: "k < 2 ^ 32 - 1"
    and ms: "log_ms e (ktime_reads s) < st + BPF_LOG_THROTTLE_PERIOD_LENGTH_MS"
  shows "run_state (bpf_log e line code a0 a1 a2) s = ((), s\<lparr>
      ktime_reads := Suc (ktime_reads s),
      bpf_log_globals := (bpf_log_globals s)(log_cpu e \<mapsto>
        \<lparr>period_start_ms = st, log_count = of_nat (Suc k)\<rparr>),
      events := events s @ log_answer e (ktime_reads s) k (line, code, a0, a1, a2)\<rparr>)"
  using assms of_nat_Suc_le_20 [OF k] leD
  by (auto simp: bpf_log_def log_answer_def log_time_def log_ms_def Let_def add.commute
      BPF_LOG_THROTTLE_MAX_PER_PERIOD_def not_le)

lemma bpf_log_new_period:
  assumes "0 \<le> log_cpu e" "log_cpu e < BPF_MAX_CPUS"
    and "bpf_log_globals s (log_cpu e) = Some g"
    and "log_ms e (ktime_reads s) \<ge> period_start_ms g + BPF_LOG_THROTTLE_PERIOD_LENGTH_MS"
  shows "run_state (bpf_log e line code a0 a1 a2) s = ((), s\<lparr>
      ktime_reads := Suc (ktime_reads s),
      bpf_log_globals := (bpf_log_globals s)(log_cpu e \<mapsto>
        g\<lparr>period_start_ms := log_ms e (ktime_reads s), log_count := 1\<rparr>),
      events := events s @ log_answer e (ktime_reads s) 0 (line, code, a0, a1, a2)\<rparr>)"
  using assms
  by (simp add: bpf_log_def log_answer_def log_time_def log_ms_def Let_def
      BPF_LOG_THROTTLE_MAX_PER_PERIOD_def)

lemma bpf_logs_in_period:
  assumes "0 \<le> log_cpu e" "log_cpu e < BPF_MAX_CPUS"
    and "bpf_log_globals s (log_cpu e) = Some \<lparr>period_start_ms = st, log_count = of_nat k\<rparr>"
    and "k + length cs < 2 ^ 32"
    and "\<forall>i < length cs. log_ms e (ktime_reads s + i) < st + BPF_LOG_THROTTLE_PERIOD_LENGTH_MS"
  shows "events (snd (run_state (bpf_logs e cs) s)) = events s @ log_answers e (ktime_reads s) k cs"
  using assms
proof (induction cs arbitrary: s k)
  case Nil
  then show ?case by simp
next
  case (Cons c cs)
  obtain line code a0 a1 a2 where c: "c = (line, code, a0, a1, a2)" by (cases c)
  let ?s = "s\<lparr>ktime_reads := Suc (ktime_reads s),
      bpf_log_globals := (bpf_log_globals s)(log_cpu e \<mapsto>
        \<lparr>period_start_ms = st, log_count = of_nat (Suc k)\<rparr>),
      events := events s @ log_answer e (ktime_reads s) k c\<rparr>"
  have ms: "log_ms e (ktime_reads s + i) < st + BPF_LOG_THROTTLE_PERIOD_LENGTH_MS"
    if "i < Suc (length cs)" for i using Cons.prems(5) that by simp
  have step: "run_state (bpf_log e line code a0 a1 a2) s = ((), ?s)"
    unfolding c using Cons.prems(1-4) ms [of 0] by (intro bpf_log_in_period) simp_all
  have "\<forall>i < length cs. log_ms e (ktime_reads ?s + i) < st + BPF_LOG_THROTTLE_PERIOD_LENGTH_MS"
    using ms [of "Suc i" for i] by simp
  with Cons.prems(1,2,4) have "events (snd (run_state (bpf_logs e cs) ?s)) =
      events ?s @ log_answers e (ktime_reads ?s) (Suc k) cs"
    by (intro Cons.IH) simp_all
  with step show ?case by (simp add: c)
qed

lemma log_answers_throttled: "20 < k \<Longrightarrow> log_answers e n k cs = []"
  by (induction cs arbitrary: n k) (auto simp: log_answer_def)

lemma length_log_answers: "length (log_answers e n k cs) = min (length cs) (21 - k)"
proof (induction cs arbitrary: n k)
  case (Cons c cs)
  then show ?case
    by (cases c) (auto simp: log_answer_def log_answers_throttled)
qed simp

text \<open>
  C25. A CPU that logs in bursts is throttled as documented: the first call of a new period is
  submitted whatever the count was, and of the calls that follow within the same period (their
  32-bit millisecond clock below the period's end) the first twenty of the period are submitted
  with their own code and arguments, the twenty-first becomes one \<^verbatim>\<open>BPF_LOG_THROTTLED\<close> naming the
  CPU, and the rest vanish, so a period never yields more than twenty-one messages.
\<close>

theorem bpf_log_throttle:
  assumes cpu: "0 \<le> log_cpu e" "log_cpu e < BPF_MAX_CPUS"
    and g: "bpf_log_globals s (log_cpu e) = Some g"
    and new: "log_ms e (ktime_reads s) \<ge> period_start_ms g + BPF_LOG_THROTTLE_PERIOD_LENGTH_MS"
    and len: "length cs < 2 ^ 32 - 1"
    and same: "\<forall>i < length cs. log_ms e (ktime_reads s + 1 + i) <
      log_ms e (ktime_reads s) + BPF_LOG_THROTTLE_PERIOD_LENGTH_MS"
  shows "events (snd (run_state (bpf_logs e (c # cs)) s)) =
      events s @ log_answers e (ktime_reads s) 0 (c # cs) \<and>
    length (events (snd (run_state (bpf_logs e (c # cs)) s))) \<le> length (events s) + 21"
proof -
  obtain line code a0 a1 a2 where c: "c = (line, code, a0, a1, a2)" by (cases c)
  let ?s = "s\<lparr>ktime_reads := Suc (ktime_reads s),
      bpf_log_globals := (bpf_log_globals s)(log_cpu e \<mapsto>
        g\<lparr>period_start_ms := log_ms e (ktime_reads s), log_count := 1\<rparr>),
      events := events s @ log_answer e (ktime_reads s) 0 c\<rparr>"
  have step: "run_state (bpf_log e line code a0 a1 a2) s = ((), ?s)"
    unfolding c by (rule bpf_log_new_period [OF cpu g new])
  have "events (snd (run_state (bpf_logs e cs) ?s)) = events ?s @ log_answers e (ktime_reads ?s) 1 cs"
    using cpu len same
    by (intro bpf_logs_in_period [where st = "log_ms e (ktime_reads s)"]) (simp_all add: log_globals.defs)
  with step have *: "events (snd (run_state (bpf_logs e (c # cs)) s)) =
      events s @ log_answers e (ktime_reads s) 0 (c # cs)" by (simp add: c)
  show ?thesis unfolding * length_append length_log_answers by simp
qed

text \<open>
  An environment to run programs on: a 5.4 kernel whose clock stands still, whose memory reads as
  zero and whose map operations succeed whenever they may.
\<close>

definition env0 :: env where
  "env0 = \<lparr>linux_version = KERNEL_VERSION 5 4 0, ktime = (\<lambda>n. 5000000000),
     boot_time_adjustment = 0, filter_ns = 10000000, flow_cgroup_subsys = 4,
     report_debug_events = False, enable_tcp_data_stream = False, filelineid = of_nat,
     tuple_hash_size = 56, cgroup_self = id, iovec_size = 16, iter_iovec_kvec = 6, max_tail_calls = 32,
     percpu_buffer = True, smp_processor_id = 3,
     current_pid_tgid = 0x6400000065, current_comm = [], regs_rc = 0,
     kread = (\<lambda>f p. (0, 0)), kread6 = (\<lambda>f p. (0, In6 0 0 0 0)), kread_comm = (\<lambda>p. (0, [])),
     kmem = (\<lambda>p n. (0, replicate n 0)),
     insert_rc = (\<lambda>t k present. if present then - EEXIST else 0),
     delete_rc = (\<lambda>t k present. if present then 0 else - ENOENT)\<rparr>"

definition log_globals0 :: "int \<rightharpoonup> log_globals" where
  "log_globals0 cpu = (if 0 \<le> cpu \<and> cpu < BPF_MAX_CPUS
     then Some \<lparr>period_start_ms = 0, log_count = 0\<rparr> else None)"

lemma env0_ok [simp]: "noexist_ok env0" "delete_ok env0"
  by (simp_all add: noexist_ok_def delete_ok_def env0_def)

theorem bpf_log_throttle_witness:
  "let s = \<lparr>ktime_reads = 0, bpf_log_globals = log_globals0, events = []\<rparr>;
       cs = replicate 30 (1, BPF_LOG_UNREACHABLE, 0, 0, 0)
   in length (events (snd (run_state (bpf_logs env0 ((1, BPF_LOG_UNREACHABLE, 0, 0, 0) # cs)) s))) \<le> 21"
proof -
  have ms: "log_ms env0 n = 5000" for n by (simp add: log_ms_def log_time_def env0_def)
  have cpu: "log_cpu env0 = 3" by (simp add: env0_def)
  show ?thesis unfolding Let_def
    by (rule bpf_log_throttle [where g = "\<lparr>period_start_ms = 0, log_count = 0\<rparr>", THEN conjunct2, THEN order_trans])
      (simp_all add: ms cpu log_globals0_def BPF_MAX_CPUS_def BPF_LOG_THROTTLE_PERIOD_LENGTH_MS_def)
qed

text \<open>
  The period test is on a 32-bit millisecond clock that wraps every 49.7 days: if a burst ends
  shortly before the wrap, a message long after it still falls into the old period and is dropped.
\<close>

lemma bpf_log_stuck_after_wrap:
  assumes "0 \<le> log_cpu e" "log_cpu e < BPF_MAX_CPUS"
    and "bpf_log_globals s (log_cpu e) = Some \<lparr>period_start_ms = 0xfffff000, log_count = 21\<rparr>"
    and "log_time e (ktime_reads s) div 1000000 = 0x100000000 + d" and "d < 0xfffff000"
  shows "events (snd (run_state (bpf_log e line code a0 a1 a2) s)) = events s"
proof -
  have "log_ms e (ktime_reads s) = ucast d"
    unfolding log_ms_def assms(4) by (simp add: ucast_down_add)
  moreover have "ucast d < (0xfffff000 :: u32)"
    using assms(5) by (simp add: word_less_nat_alt unsigned_ucast_eq unsigned_take_bit_eq
      take_bit_nat_eq_self)
  ultimately have "log_ms e (ktime_reads s) < 0xfffff000 + BPF_LOG_THROTTLE_PERIOD_LENGTH_MS"
    by (simp add: BPF_LOG_THROTTLE_PERIOD_LENGTH_MS_def word_less_nat_alt)
  then show ?thesis
    using bpf_log_in_period [of e s "0xfffff000" 21 line code a0 a1 a2] assms(1-3)
    by (simp add: log_answer_def)
qed

end
