(* ===== verification/Tcp_Socket.thy ===== *)
theory Tcp_Socket
  imports Bpf_Env
begin

text \<open>
  TCP connection tracking of the TCP processor: \<^verbatim>\<open>tcp-processor/tcp_processor.h\<close>,
  \<^verbatim>\<open>bpf_tcp_socket.h\<close> and \<^verbatim>\<open>bpf_inet_csk_accept.h\<close>.  A pointer to an entry of
  \<^verbatim>\<open>_tcp_connections\<close> or \<^verbatim>\<open>_tcp_control\<close> is the entry's key; a store through it updates the table.
\<close>

section \<open>Data\<close>

datatype STREAM_TYPE = ST_SEND | ST_RECV

fun stream_no :: "STREAM_TYPE \<Rightarrow> u8" where
  "stream_no ST_SEND = 0"
| "stream_no ST_RECV = 1"

definition TCP_PROTOCOL_COUNT :: u16 where "TCP_PROTOCOL_COUNT = 1"
definition TCPPROTO_UNKNOWN :: u32 where "TCPPROTO_UNKNOWN = 0"
definition TCPPROTO_HTTP :: u32 where "TCPPROTO_HTTP = 1"

definition TCP_PROTOCOL_BIT :: "u32 \<Rightarrow> u32" where
  "TCP_PROTOCOL_BIT x = push_bit (unat x - 1) 1"

definition TCP_PROTOCOL_MASK :: u32 where
  "TCP_PROTOCOL_MASK = push_bit (unat TCP_PROTOCOL_COUNT) 1 - 1"

record tcp_control_stream_t =
  enable :: u64
  start :: u64

type_synonym tcp_control_value_t = "STREAM_TYPE \<Rightarrow> tcp_control_stream_t"

record tcp_stream_info_t =
  protocol_count :: u16
  total :: u64

record http_protocol_state_data_t =
  request_timestamp :: u64
  http_unused :: u64

record tcp_protocol_state_t =
  protocol :: u32
  candidates :: u32
  protocol_data :: http_protocol_state_data_t

record tcp_connection_t =
  conn_sk :: u64
  parent_sk :: u64
  upid :: u32
  streams :: "STREAM_TYPE \<Rightarrow> tcp_stream_info_t"
  protocol_state :: tcp_protocol_state_t

text \<open>The saved arguments of the probes of the TCP processor.\<close>

record accept_args =
  accept_sk :: u64
  accept_flags :: u32
  accept_err :: u64

record recvmsg_args =
  recv_sk :: u64
  recv_msg :: u64
  recv_len :: u64
  recv_nonblock :: u32
  recv_flags :: u32
  recv_iov_base :: u64
  recv_iov_len :: u64
  recv_written :: int
  recv_depth :: nat

record sendmsg_args =
  send_sk :: u64
  send_msg :: u64
  send_size :: u64
  iov :: u64
  iov_ptr :: u64
  iov_len :: u64
  iov_offset :: u64
  nr_segs :: u64
  written :: int
  depth :: nat

record tcpp = bpf +
  tcp_connections :: "u64 \<rightharpoonup> tcp_connection_t"
  tcp_control :: "u64 \<rightharpoonup> tcp_control_value_t"
  inet_csk_accept_active :: "u64 \<rightharpoonup> accept_args"
  tcp_recvmsg_active :: "u64 \<rightharpoonup> recvmsg_args"
  tcp_sendmsg_active :: "u64 \<rightharpoonup> sendmsg_args"
  data_channel :: "(u64 \<times> u8 list) list"

type_synonym 'a tprog = "(tcpp, 'a) state"

section \<open>Connection lifecycle\<close>

text \<open>\<^verbatim>\<open>lookup_or_init\<close>: the entry, or a new one; no entry only if the insertion fails.\<close>

definition lookup_or_init :: "env \<Rightarrow> u64 \<Rightarrow> tcp_connection_t \<Rightarrow> bool tprog" where
  "lookup_or_init e sk zero = do {
     m \<leftarrow> gets tcp_connections;
     if m sk \<noteq> None then State_Monad.return True else do {
       let (rc, m') = map_insert e (Tbl BPF_TABLE_TCP_CONNECTIONS) sk sk zero m;
       modify (\<lambda>s. s\<lparr>tcp_connections := m'\<rparr>);
       State_Monad.return (rc = 0)
     }
   }"

definition lookup_tcp_connection :: "u64 \<Rightarrow> tcp_connection_t option tprog" where
  "lookup_tcp_connection sk = gets (\<lambda>s. tcp_connections s sk)"

definition zero_connection :: "u64 \<Rightarrow> u32 \<Rightarrow> tcp_connection_t" where
  "zero_connection sk tgid = \<lparr>conn_sk = sk, parent_sk = 0, upid = tgid,
     streams = (\<lambda>st. \<lparr>protocol_count = TCP_PROTOCOL_COUNT, total = 0\<rparr>),
     protocol_state = \<lparr>protocol = TCPPROTO_UNKNOWN, candidates = TCP_PROTOCOL_MASK,
       protocol_data = \<lparr>request_timestamp = 0, http_unused = 0\<rparr>\<rparr>\<rparr>"

definition enabled_control :: tcp_control_value_t where
  "enabled_control st = \<lparr>enable = 1, start = 0\<rparr>"

definition create_tcp_connection :: "env \<Rightarrow> u64 \<Rightarrow> bool tprog" where
  "create_tcp_connection e sk = do {
     pconn \<leftarrow> gets (\<lambda>s. tcp_connections s sk);
     (if pconn \<noteq> None then modify (\<lambda>s. s\<lparr>tcp_connections := (tcp_connections s)(sk := None)\<rparr>) else skip);
     (pid_tgid, tgid, cpu) \<leftarrow> GET_PID_TGID e 10106;
     created \<leftarrow> lookup_or_init e sk (zero_connection sk tgid);
     modify (\<lambda>s. s\<lparr>tcp_control := snd (map_insert e Tbl_tcp_control sk sk enabled_control (tcp_control s))\<rparr>);
     State_Monad.return created
   }"

definition get_tcp_control :: "tcp_connection_t \<Rightarrow> tcp_control_value_t option tprog" where
  "get_tcp_control pconn = gets (\<lambda>s. tcp_control s (conn_sk pconn))"

text \<open>A store through a pointer into a table.\<close>

definition map_upd :: "'k \<Rightarrow> ('v \<Rightarrow> 'v) \<Rightarrow> ('k \<rightharpoonup> 'v) \<Rightarrow> ('k \<rightharpoonup> 'v)" where
  "map_upd k f m = (case m k of None \<Rightarrow> m | Some v \<Rightarrow> m(k \<mapsto> f v))"

definition upd_connection :: "u64 \<Rightarrow> (tcp_connection_t \<Rightarrow> tcp_connection_t) \<Rightarrow> unit tprog" where
  "upd_connection sk f = modify (\<lambda>s. s\<lparr>tcp_connections := map_upd sk f (tcp_connections s)\<rparr>)"

definition enable_stream :: "STREAM_TYPE \<Rightarrow> int \<Rightarrow> tcp_control_value_t \<Rightarrow> tcp_control_value_t" where
  "enable_stream st dir pctrl = (if dir \<noteq> 0 then
     pctrl(st := (pctrl st)\<lparr>enable := (if dir < 0 then 0 else 1)\<rparr>) else pctrl)"

definition enable_tcp_connection :: "u64 \<Rightarrow> int \<Rightarrow> int \<Rightarrow> unit tprog" where
  "enable_tcp_connection key recv send = modify (\<lambda>s. s\<lparr>tcp_control :=
     map_upd key (\<lambda>pctrl. enable_stream ST_RECV recv (enable_stream ST_SEND send pctrl)) (tcp_control s)\<rparr>)"

definition delete_tcp_connection :: "env \<Rightarrow> tcp_connection_t \<Rightarrow> u64 \<Rightarrow> unit tprog" where
  "delete_tcp_connection e pconn sk = do {
     modify (\<lambda>s. s\<lparr>tcp_control := snd (map_delete e Tbl_tcp_control (conn_sk pconn) (conn_sk pconn) (tcp_control s))\<rparr>);
     m \<leftarrow> gets tcp_connections;
     let (rc, m') = map_delete e (Tbl BPF_TABLE_TCP_CONNECTIONS) sk sk m;
     modify (\<lambda>s. s\<lparr>tcp_connections := m'\<rparr>);
     if rc \<noteq> 0
     then bpf_log e 10167 BPF_LOG_TABLE_BAD_REMOVE (table_id BPF_TABLE_TCP_CONNECTIONS) sk 0
     else skip
   }"

text \<open>
  A stream handler is called with the keys of the connection and of its control block, the
  direction, the address of the data and its length.
\<close>

type_synonym stream_handler = "u64 \<Rightarrow> u64 \<Rightarrow> STREAM_TYPE \<Rightarrow> u64 \<Rightarrow> u64 \<Rightarrow> unit tprog"

definition upd_total :: "STREAM_TYPE \<Rightarrow> (u64 \<Rightarrow> u64) \<Rightarrow> tcp_connection_t \<Rightarrow> tcp_connection_t" where
  "upd_total st f c = c\<lparr>streams := (streams c)(st := (streams c st)\<lparr>total := f (total (streams c st))\<rparr>)\<rparr>"

definition write_to_tcp_stream ::
    "env \<Rightarrow> u64 \<Rightarrow> STREAM_TYPE \<Rightarrow> u64 \<Rightarrow> u64 \<Rightarrow> stream_handler \<Rightarrow> unit tprog" where
  "write_to_tcp_stream e sk st src_data src_bytes tcp_stream_handler = do {
     lookup \<leftarrow> lookup_tcp_connection sk;
     case lookup of None \<Rightarrow> skip
     | Some pconn \<Rightarrow> do {
         ctrl \<leftarrow> get_tcp_control pconn;
         case ctrl of None \<Rightarrow> bpf_log e 10183 BPF_LOG_UNREACHABLE 0 0 0
         | Some pctrl \<Rightarrow> (
             let start = start (pctrl st); total0 = total (streams pconn st) in
             if total0 + src_bytes \<le> start then upd_connection sk (upd_total st (\<lambda>t. t + src_bytes))
             else (let trim_len = (if total0 < start then start - total0 else 0);
                       data_len = src_bytes - trim_len; data = src_data + trim_len in do {
               (if total0 < start then upd_connection sk (upd_total st (\<lambda>_. start)) else skip);
               tcp_stream_handler sk (conn_sk pconn) st data data_len;
               upd_connection sk (upd_total st (\<lambda>t. t + data_len))
             }))
       }
   }"

section \<open>Probes\<close>

definition handle_kprobe__tcp_init_sock :: "env \<Rightarrow> u64 \<Rightarrow> unit tprog" where
  "handle_kprobe__tcp_init_sock e sk = do {
     pconn \<leftarrow> create_tcp_connection e sk;
     if \<not> pconn then do {
       (pid_tgid, tgid, cpu) \<leftarrow> GET_PID_TGID e 10229;
       bpf_log e 10231 BPF_LOG_TABLE_BAD_INSERT (table_id BPF_TABLE_TCP_CONNECTIONS) (ucast tgid) sk
     } else skip
   }"

definition handle_kprobe__security_sk_free :: "env \<Rightarrow> u64 \<Rightarrow> unit tprog" where
  "handle_kprobe__security_sk_free e sk = do {
     lookup \<leftarrow> lookup_tcp_connection sk;
     case lookup of None \<Rightarrow> skip
     | Some pconn \<Rightarrow> delete_tcp_connection e pconn sk
   }"

definition handle_kprobe__inet_csk_accept :: "env \<Rightarrow> u64 \<Rightarrow> u32 \<Rightarrow> u64 \<Rightarrow> unit tprog" where
  "handle_kprobe__inet_csk_accept e sk flags err = do {
     (pid_tgid, tgid, cpu) \<leftarrow> GET_PID_TGID e 20034;
     psk_info \<leftarrow> lookup_tcp_connection sk;
     have_parent \<leftarrow> (if psk_info \<noteq> None then State_Monad.return True else create_tcp_connection e sk);
     if \<not> have_parent
     then bpf_log e 20045 BPF_LOG_TABLE_BAD_INSERT (table_id BPF_TABLE_TCP_CONNECTIONS) (ucast tgid) sk
     else modify (\<lambda>s. s\<lparr>inet_csk_accept_active := SAVE_ARGS e ''inet_csk_accept''
       pid_tgid \<lparr>accept_sk = sk, accept_flags = flags, accept_err = err\<rparr>
       (inet_csk_accept_active s)\<rparr>)
   }"

definition delete_accept_args :: "u64 \<Rightarrow> unit tprog" where
  "delete_accept_args pid_tgid = modify (\<lambda>s. s\<lparr>inet_csk_accept_active :=
     DELETE_ARGS pid_tgid (inet_csk_accept_active s)\<rparr>)"

definition handle_kretprobe__inet_csk_accept :: "env \<Rightarrow> unit tprog" where
  "handle_kretprobe__inet_csk_accept e = do {
     (pid_tgid, tgid, cpu) \<leftarrow> GET_PID_TGID e 20066;
     let newsk = regs_rc e;
     if newsk = 0 then delete_accept_args pid_tgid
     else do {
       lookup \<leftarrow> gets (\<lambda>s. GET_ARGS pid_tgid (inet_csk_accept_active s));
       case lookup of None \<Rightarrow> skip
       | Some args \<Rightarrow> do {
           pconn \<leftarrow> create_tcp_connection e newsk;
           if \<not> pconn then do {
             bpf_log e 20095 BPF_LOG_TABLE_BAD_INSERT (table_id BPF_TABLE_TCP_CONNECTIONS) (ucast tgid) newsk;
             delete_accept_args pid_tgid
           } else do {
             upd_connection newsk (\<lambda>c. c\<lparr>parent_sk := accept_sk args\<rparr>);
             delete_accept_args pid_tgid
           }
         }
     }
   }"

end
