(* ===== verification/Data_Channel.thy ===== *)
theory Data_Channel
  imports Tcp_Socket
begin

text \<open>
  How TCP payload reaches user space: \<^verbatim>\<open>tcp-processor/bpf_memory.h\<close>, \<^verbatim>\<open>bpf_data_channel.h\<close> and
  \<^verbatim>\<open>bpf_tcp_events.h\<close>.  A payload is cut into messages of at most 256 bytes by the binary digits of
  its length; the theorems show that nothing is lost, repeated or reordered.
\<close>

section \<open>Memory\<close>

definition bytes :: "string \<Rightarrow> u8 list" where
  "bytes s = map of_char s"

definition string_starts_with :: "env \<Rightarrow> u64 \<Rightarrow> u64 \<Rightarrow> string \<Rightarrow> bool" where
  "string_starts_with e s1 s1_len s2 = (
     if s1_len < of_nat (length s2) then False
     else probe_mem e s1 (length s2) = bytes s2)"

definition char_to_number :: "u8 \<Rightarrow> int" where
  "char_to_number x = (if sint x < 48 \<or> sint x > 57 then - 1 else sint x - 48)"

section \<open>Data channel\<close>

definition DATA_CHANNEL_CHUNK_MAX :: u32 where "DATA_CHANNEL_CHUNK_MAX = 16383"

text \<open>Read \<open>n\<close> bytes at \<open>inp\<close>, submit them behind a header with their length, advance.\<close>

definition copy_chunk :: "env \<Rightarrow> nat \<Rightarrow> u64 \<Rightarrow> u64 tprog" where
  "copy_chunk e n inp = do {
     modify (\<lambda>s. s\<lparr>data_channel := data_channel s @ [(of_nat n, probe_mem e inp n)]\<rparr>);
     State_Monad.return (inp + of_nat n)
   }"

definition COPY_BIT :: "env \<Rightarrow> u32 \<Rightarrow> nat \<Rightarrow> u64 \<Rightarrow> u64 tprog" where
  "COPY_BIT e len B inp = (if len AND of_nat B \<noteq> 0 then copy_chunk e B inp else State_Monad.return inp)"

primrec copy_chunks_256 :: "env \<Rightarrow> nat \<Rightarrow> u64 \<Rightarrow> u64 tprog" where
  "copy_chunks_256 e 0 inp = State_Monad.return inp"
| "copy_chunks_256 e (Suc k) inp = do { inp' \<leftarrow> copy_chunk e 256 inp; copy_chunks_256 e k inp' }"

definition COPY_BIT_256 :: "env \<Rightarrow> u32 \<Rightarrow> u64 \<Rightarrow> u64 tprog" where
  "COPY_BIT_256 e len inp = (if len AND 256 \<noteq> 0 then copy_chunks_256 e 1 inp else State_Monad.return inp)"

definition COPY_BIT_512 :: "env \<Rightarrow> u32 \<Rightarrow> u64 \<Rightarrow> u64 tprog" where
  "COPY_BIT_512 e len inp = (if len AND 512 \<noteq> 0 then copy_chunks_256 e 2 inp else State_Monad.return inp)"

definition COPY_BIT_1024 :: "env \<Rightarrow> u32 \<Rightarrow> u64 \<Rightarrow> u64 tprog" where
  "COPY_BIT_1024 e len inp = (if len AND 1024 \<noteq> 0 then copy_chunks_256 e 4 inp else State_Monad.return inp)"

definition COPY_BIT_2048 :: "env \<Rightarrow> u32 \<Rightarrow> u64 \<Rightarrow> u64 tprog" where
  "COPY_BIT_2048 e len inp = (if len AND 2048 \<noteq> 0 then copy_chunks_256 e 8 inp else State_Monad.return inp)"

definition COPY_BIT_4096 :: "env \<Rightarrow> u32 \<Rightarrow> u64 \<Rightarrow> u64 tprog" where
  "COPY_BIT_4096 e len inp = (if len AND 4096 \<noteq> 0 then copy_chunks_256 e 16 inp else State_Monad.return inp)"

definition COPY_BIT_8192 :: "env \<Rightarrow> u32 \<Rightarrow> u64 \<Rightarrow> u64 tprog" where
  "COPY_BIT_8192 e len inp = (if len AND 8192 \<noteq> 0 then copy_chunks_256 e 32 inp else State_Monad.return inp)"

definition COPY_LAST_BITS :: "env \<Rightarrow> u32 \<Rightarrow> u64 \<Rightarrow> unit tprog" where
  "COPY_LAST_BITS e len inp = (let last_bits = len AND 3 in
     if last_bits = 1 then do { _ \<leftarrow> copy_chunk e 1 inp; skip }
     else if last_bits = 2 then do { _ \<leftarrow> copy_chunk e 2 inp; skip }
     else if last_bits = 3 then do { _ \<leftarrow> copy_chunk e 3 inp; skip }
     else skip)"

definition data_channel_submit :: "env \<Rightarrow> u64 \<Rightarrow> u64 \<Rightarrow> u64 tprog" where
  "data_channel_submit e data data_len = (
     let len0 = (ucast data_len :: u32);
         len = (if len0 > DATA_CHANNEL_CHUNK_MAX then DATA_CHANNEL_CHUNK_MAX else len0) in do {
       p1 \<leftarrow> COPY_BIT_8192 e len data;
       p2 \<leftarrow> COPY_BIT_4096 e len p1;
       p3 \<leftarrow> COPY_BIT_2048 e len p2;
       p4 \<leftarrow> COPY_BIT_1024 e len p3;
       p5 \<leftarrow> COPY_BIT_512 e len p4;
       p6 \<leftarrow> COPY_BIT_256 e len p5;
       p7 \<leftarrow> COPY_BIT e len 128 p6;
       p8 \<leftarrow> COPY_BIT e len 64 p7;
       p9 \<leftarrow> COPY_BIT e len 32 p8;
       p10 \<leftarrow> COPY_BIT e len 16 p9;
       p11 \<leftarrow> COPY_BIT e len 8 p10;
       p12 \<leftarrow> COPY_BIT e len 4 p11;
       COPY_LAST_BITS e len p12;
       State_Monad.return (ucast len)
     })"

section \<open>TCP events\<close>

datatype CLIENT_SERVER_TYPE = SC_CLIENT | SC_SERVER

fun client_server_no :: "CLIENT_SERVER_TYPE \<Rightarrow> u8" where
  "client_server_no SC_CLIENT = 0"
| "client_server_no SC_SERVER = 1"

definition tcp_events_submit_http_response ::
    "env \<Rightarrow> u64 \<Rightarrow> u16 \<Rightarrow> u64 \<Rightarrow> CLIENT_SERVER_TYPE \<Rightarrow> unit tprog" where
  "tcp_events_submit_http_response e sk code latency dir = do {
     (pid_tgid, tgid, cpu) \<leftarrow> GET_PID_TGID e 30055;
     now \<leftarrow> get_timestamp e;
     perf_submit (Ev_http_response now sk tgid code latency (client_server_no dir))
   }"

definition tcp_events_submit_tcp_data ::
    "env \<Rightarrow> u64 \<Rightarrow> STREAM_TYPE \<Rightarrow> CLIENT_SERVER_TYPE \<Rightarrow> u64 \<Rightarrow> u64 \<Rightarrow> unit tprog" where
  "tcp_events_submit_tcp_data e sk st is_server data data_len = do {
     actual_len \<leftarrow> data_channel_submit e data data_len;
     now \<leftarrow> get_timestamp e;
     (pid_tgid, tgid, cpu) \<leftarrow> GET_PID_TGID e 30095;
     lookup \<leftarrow> lookup_tcp_connection sk;
     case lookup of None \<Rightarrow> skip
     | Some pconn \<Rightarrow> perf_submit (Ev_tcp_data now (conn_sk pconn) tgid actual_len
         (total (streams pconn st)) (stream_no st) (client_server_no is_server))
   }"

section \<open>The messages carry the payload\<close>

text \<open>
  \<open>holds e p M\<close>: reads inside the buffer at \<open>p\<close> succeed and yield the bytes \<open>M\<close>.  \<open>carry ms bs\<close>:
  the messages \<open>ms\<close> carry the bytes \<open>bs\<close> in order, each with its length in the header.
\<close>

definition holds :: "env \<Rightarrow> u64 \<Rightarrow> u8 list \<Rightarrow> bool" where
  "holds e p M \<longleftrightarrow> (\<forall>i k. 0 < k \<and> i + k \<le> length M \<longrightarrow> kmem e (p + of_nat i) k = (0, take k (drop i M)))"

definition carry :: "(u64 \<times> u8 list) list \<Rightarrow> u8 list \<Rightarrow> bool" where
  "carry ms bs \<longleftrightarrow> concat (map snd ms) = bs \<and>
     (\<forall>m \<in> set ms. fst m = of_nat (length (snd m)) \<and> 0 < length (snd m) \<and> length (snd m) \<le> 256)"

text \<open>\<open>copies p M f a b\<close>: started at offset \<open>a\<close>, \<open>f\<close> submits exactly the bytes from \<open>a\<close> to \<open>b\<close>.\<close>

definition copies :: "u64 \<Rightarrow> u8 list \<Rightarrow> (u64 \<Rightarrow> u64 tprog) \<Rightarrow> nat \<Rightarrow> nat \<Rightarrow> bool" where
  "copies p M f a b \<longleftrightarrow> a \<le> b \<and> (\<forall>s. \<exists>ms. carry ms (take (b - a) (drop a M)) \<and>
     run_state (f (p + of_nat a)) s = (p + of_nat b, s\<lparr>data_channel := data_channel s @ ms\<rparr>))"

lemma carry_Nil [simp]: "carry [] []"
  by (simp add: carry_def)

lemma carry_append: "carry ms bs \<Longrightarrow> carry ms' bs' \<Longrightarrow> carry (ms @ ms') (bs @ bs')"
  by (auto simp: carry_def)

lemma probe_mem_holds:
  "holds e p M \<Longrightarrow> 0 < k \<Longrightarrow> i + k \<le> length M \<Longrightarrow> probe_mem e (p + of_nat i) k = take k (drop i M)"
  by (simp add: holds_def probe_mem_def)

lemma copies_return: "copies p M State_Monad.return a a"
  by (auto simp: copies_def intro!: exI [of _ "[]"])

lemma copies_bind:
  assumes "copies p M f a b" and "copies p M g b c"
  shows "copies p M (\<lambda>x. f x \<bind> g) a c"
  unfolding copies_def
proof (intro conjI allI)
  show "a \<le> c" using assms by (simp add: copies_def)
  fix s
  obtain ms where ms: "carry ms (take (b - a) (drop a M))"
    "run_state (f (p + of_nat a)) s = (p + of_nat b, s\<lparr>data_channel := data_channel s @ ms\<rparr>)"
    using assms(1) unfolding copies_def by blast
  obtain ms' where ms': "carry ms' (take (c - b) (drop b M))"
    "run_state (g (p + of_nat b)) (s\<lparr>data_channel := data_channel s @ ms\<rparr>) =
      (p + of_nat c, s\<lparr>data_channel := (data_channel s @ ms) @ ms'\<rparr>)"
    using assms(2) [unfolded copies_def, THEN conjunct2, THEN spec [of _ "s\<lparr>data_channel := data_channel s @ ms\<rparr>"]]
    by auto
  have "take (c - a) (drop a M) = take (b - a) (drop a M) @ take (c - b) (drop b M)"
    using assms take_add [of "b - a" "c - b" "drop a M"] by (simp add: copies_def)
  with carry_append [OF ms(1) ms'(1)] ms(2) ms'(2)
  show "\<exists>ms. carry ms (take (c - a) (drop a M)) \<and>
    run_state (f (p + of_nat a) \<bind> g) s = (p + of_nat c, s\<lparr>data_channel := data_channel s @ ms\<rparr>)"
    by (intro exI [of _ "ms @ ms'"]) simp
qed

lemma copies_chunk:
  assumes "holds e p M" "a + n \<le> length M" "0 < n" "n \<le> 256"
  shows "copies p M (copy_chunk e n) a (a + n)"
  using assms probe_mem_holds [OF assms(1,3,2)]
  by (auto simp: copies_def copy_chunk_def carry_def algebra_simps
      intro!: exI [of _ "[(of_nat n, take n (drop a M))]"])

lemma copies_chunks_256:
  assumes "holds e p M" "a + 256 * k \<le> length M"
  shows "copies p M (copy_chunks_256 e k) a (a + 256 * k)"
  using assms(2)
proof (induction k arbitrary: a)
  case 0
  then show ?case using copies_return by (simp add: copy_chunks_256.simps [abs_def])
next
  case (Suc k)
  have "copies p M (copy_chunk e 256) a (a + 256)"
    using Suc.prems assms(1) by (intro copies_chunk) simp_all
  moreover have "copies p M (copy_chunks_256 e k) (a + 256) (a + 256 + 256 * k)"
    using Suc.prems by (intro Suc.IH) simp
  ultimately show ?case using copies_bind by (fastforce simp: algebra_simps)
qed

text \<open>The digits of the length from the top: after digit \<open>j\<close> the rounded part is copied.\<close>

lemma digit_step:
  "n div 2 ^ j * 2 ^ j = n div 2 ^ Suc j * 2 ^ Suc j + (if odd (n div 2 ^ j) then 2 ^ j else 0)" for n :: nat
proof -
  have "n div 2 ^ Suc j = n div 2 ^ j div 2" by (simp only: power_Suc2 div_mult2_eq)
  then have "n div 2 ^ j = 2 * (n div 2 ^ Suc j) + n div 2 ^ j mod 2" by simp
  then show ?thesis by (cases "even (n div 2 ^ j)") (auto simp: odd_iff_mod_2_eq_one algebra_simps)
qed

lemma and_digit:
  assumes "j < 32" "n < 2 ^ 32"
  shows "(of_nat n :: u32) AND 2 ^ j \<noteq> 0 \<longleftrightarrow> odd (n div 2 ^ j)"
proof -
  have "(of_nat n :: u32) AND 2 ^ j \<noteq> 0 \<longleftrightarrow> bit (of_nat n :: u32) j"
    using assms(1) by (simp add: and_exp_eq_0_iff_not_bit)
  also have "\<dots> \<longleftrightarrow> bit n j" using assms(1) by (simp add: bit_of_nat_iff)
  finally show ?thesis by (simp add: bit_iff_odd)
qed

lemma copies_digit:
  assumes "j < 32" "n < 2 ^ 32"
    and "odd (n div 2 ^ j) \<Longrightarrow>
      copies p M f (n div 2 ^ Suc j * 2 ^ Suc j) (n div 2 ^ Suc j * 2 ^ Suc j + 2 ^ j)"
  shows "copies p M (\<lambda>x. if (of_nat n :: u32) AND 2 ^ j \<noteq> 0 then f x else State_Monad.return x)
    (n div 2 ^ Suc j * 2 ^ Suc j) (n div 2 ^ j * 2 ^ j)"
  using assms(3) copies_return unfolding and_digit [OF assms(1,2)] digit_step [of n j]
  by (cases "odd (n div 2 ^ j)") auto

lemma digit_room: "odd (n div 2 ^ j) \<Longrightarrow> n div 2 ^ Suc j * 2 ^ Suc j + 2 ^ j \<le> n" for n :: nat
  using digit_step [of n j] div_times_less_eq_dividend [of n "2 ^ j"] by simp

lemma copies_small_digit:
  assumes "holds e p M" "length M = n" "n < 2 ^ 32" "j \<le> 8"
  shows "copies p M (COPY_BIT e (of_nat n) (2 ^ j)) (n div 2 ^ Suc j * 2 ^ Suc j) (n div 2 ^ j * 2 ^ j)"
proof -
  have "(2 :: nat) ^ j \<le> 2 ^ 8" using assms(4) by (intro power_increasing) simp_all
  then have "copies p M (copy_chunk e (2 ^ j)) a (a + 2 ^ j)" if "a + 2 ^ j \<le> n" for a
    using that assms by (intro copies_chunk) simp_all
  then show ?thesis
    using copies_digit [of j n p M "copy_chunk e (2 ^ j)"] assms digit_room
    by (simp add: COPY_BIT_def [abs_def])
qed

lemma copies_big_digit:
  assumes "holds e p M" "length M = n" "n < 2 ^ 32" "j < 32" "256 * k = 2 ^ j"
  shows "copies p M (\<lambda>x. if (of_nat n :: u32) AND 2 ^ j \<noteq> 0 then copy_chunks_256 e k x else State_Monad.return x)
    (n div 2 ^ Suc j * 2 ^ Suc j) (n div 2 ^ j * 2 ^ j)"
  using assms copies_chunks_256 [OF assms(1), of _ k] digit_room [of n j]
  by (intro copies_digit) simp_all

lemma copies_last:
  assumes "holds e p M" "length M = n" "n < 2 ^ 32"
  shows "copies p M (\<lambda>x. COPY_LAST_BITS e (of_nat n) x \<bind> (\<lambda>_. State_Monad.return (p + of_nat n))) (n div 4 * 4) n"
proof -
  have "unat ((of_nat n :: u32) AND 3) = n mod 4"
    using unat_of_nat_and_mask [of 2 n, where 'a = 32] by (simp add: mask_eq_exp_minus_1)
  then have last: "(of_nat n :: u32) AND 3 = of_nat (n mod 4)"
    by (simp add: word_unat_eq_iff unat_of_nat)
  have c: "copies p M (copy_chunk e k) (n div 4 * 4) n" if "n mod 4 = k" "0 < k" for k
  proof -
    have "n div 4 * 4 + k = n" "k < 4" using that by auto
    then show ?thesis using copies_chunk [OF assms(1), of "n div 4 * 4" k] assms(2) that(2) by simp
  qed
  have r: "copies p M State_Monad.return (n div 4 * 4) n" if "n mod 4 = 0"
  proof -
    have "n div 4 * 4 = n" using that by auto
    then show ?thesis using copies_return by simp
  qed
  have wrap: "copies p M (\<lambda>x. f x \<bind> (\<lambda>_. State_Monad.return (p + of_nat n))) a n"
    if "copies p M f a n" for f a
    by (rule copies_bind [OF that]) (auto simp: copies_def intro!: exI [of _ "[]"])
  consider "n mod 4 = 0" | "n mod 4 = 1" | "n mod 4 = 2" | "n mod 4 = 3" by arith
  then show ?thesis
  proof cases
    case 1
    with wrap [OF r] show ?thesis by (simp add: COPY_LAST_BITS_def last skip_def)
  qed (use wrap [OF c] in \<open>simp add: COPY_LAST_BITS_def last skip_def\<close>)+
qed

lemma copies_payload:
  assumes "holds e p M" "length M = n" "n < 16384"
  shows "copies p M (\<lambda>x. COPY_BIT_8192 e (of_nat n) x \<bind> COPY_BIT_4096 e (of_nat n) \<bind>
    COPY_BIT_2048 e (of_nat n) \<bind> COPY_BIT_1024 e (of_nat n) \<bind> COPY_BIT_512 e (of_nat n) \<bind>
    COPY_BIT_256 e (of_nat n) \<bind> COPY_BIT e (of_nat n) 128 \<bind> COPY_BIT e (of_nat n) 64 \<bind>
    COPY_BIT e (of_nat n) 32 \<bind> COPY_BIT e (of_nat n) 16 \<bind> COPY_BIT e (of_nat n) 8 \<bind>
    COPY_BIT e (of_nat n) 4 \<bind>
    (\<lambda>x. COPY_LAST_BITS e (of_nat n) x \<bind> (\<lambda>_. State_Monad.return (p + of_nat n)))) 0 n"
proof -
  have n: "n < 2 ^ 32" using assms(3) by simp
  note b = copies_big_digit [OF assms(1,2) n] and s = copies_small_digit [OF assms(1,2) n]
  have 13: "copies p M (COPY_BIT_8192 e (of_nat n)) 0 (n div 8192 * 8192)"
    using b [of 13 32] assms(3) by (simp add: COPY_BIT_8192_def [abs_def])
  have 12: "copies p M (COPY_BIT_4096 e (of_nat n)) (n div 8192 * 8192) (n div 4096 * 4096)"
    using b [of 12 16] by (simp add: COPY_BIT_4096_def [abs_def])
  have 11: "copies p M (COPY_BIT_2048 e (of_nat n)) (n div 4096 * 4096) (n div 2048 * 2048)"
    using b [of 11 8] by (simp add: COPY_BIT_2048_def [abs_def])
  have 10: "copies p M (COPY_BIT_1024 e (of_nat n)) (n div 2048 * 2048) (n div 1024 * 1024)"
    using b [of 10 4] by (simp add: COPY_BIT_1024_def [abs_def])
  have 9: "copies p M (COPY_BIT_512 e (of_nat n)) (n div 1024 * 1024) (n div 512 * 512)"
    using b [of 9 2] by (simp add: COPY_BIT_512_def [abs_def])
  have 8: "copies p M (COPY_BIT_256 e (of_nat n)) (n div 512 * 512) (n div 256 * 256)"
    using b [of 8 1] by (simp add: COPY_BIT_256_def [abs_def])
  have 7: "copies p M (COPY_BIT e (of_nat n) 128) (n div 256 * 256) (n div 128 * 128)"
    using s [of 7] by simp
  have 6: "copies p M (COPY_BIT e (of_nat n) 64) (n div 128 * 128) (n div 64 * 64)"
    using s [of 6] by simp
  have 5: "copies p M (COPY_BIT e (of_nat n) 32) (n div 64 * 64) (n div 32 * 32)"
    using s [of 5] by simp
  have 4: "copies p M (COPY_BIT e (of_nat n) 16) (n div 32 * 32) (n div 16 * 16)"
    using s [of 4] by simp
  have 3: "copies p M (COPY_BIT e (of_nat n) 8) (n div 16 * 16) (n div 8 * 8)"
    using s [of 3] by simp
  have 2: "copies p M (COPY_BIT e (of_nat n) 4) (n div 8 * 8) (n div 4 * 4)"
    using s [of 2] by simp
  show ?thesis
    by (rule copies_bind [OF copies_bind [OF copies_bind [OF copies_bind [OF copies_bind [OF
      copies_bind [OF copies_bind [OF copies_bind [OF copies_bind [OF copies_bind [OF copies_bind [OF
      copies_bind [OF 13 12] 11] 10] 9] 8] 7] 6] 5] 4] 3] 2] copies_last [OF assms(1,2) n]])
qed

lemma data_channel_submit_carries:
  assumes "holds e data M"
    and "length M = min (unat (ucast data_len :: u32)) 16383"
  shows "\<exists>ms. carry ms M \<and> run_state (data_channel_submit e data data_len) s =
    (of_nat (length M), s\<lparr>data_channel := data_channel s @ ms\<rparr>)"
proof -
  let ?len0 = "ucast data_len :: u32"
  let ?n = "length M"
  have len: "(if ?len0 > DATA_CHANNEL_CHUNK_MAX then DATA_CHANNEL_CHUNK_MAX else ?len0) = of_nat ?n"
    unfolding assms(2) by (auto simp: DATA_CHANNEL_CHUNK_MAX_def word_less_nat_alt min_def)
  have n: "?n < 16384" using assms(2) by simp
  then have up: "(ucast (of_nat ?n :: u32) :: u64) = of_nat ?n" by (intro ucast_of_nat_up) simp
  obtain ms where ms: "carry ms (take (?n - 0) (drop 0 M))" and
    run: "run_state ((\<lambda>x. COPY_BIT_8192 e (of_nat ?n) x \<bind> COPY_BIT_4096 e (of_nat ?n) \<bind>
      COPY_BIT_2048 e (of_nat ?n) \<bind> COPY_BIT_1024 e (of_nat ?n) \<bind> COPY_BIT_512 e (of_nat ?n) \<bind>
      COPY_BIT_256 e (of_nat ?n) \<bind> COPY_BIT e (of_nat ?n) 128 \<bind> COPY_BIT e (of_nat ?n) 64 \<bind>
      COPY_BIT e (of_nat ?n) 32 \<bind> COPY_BIT e (of_nat ?n) 16 \<bind> COPY_BIT e (of_nat ?n) 8 \<bind>
      COPY_BIT e (of_nat ?n) 4 \<bind>
      (\<lambda>x. COPY_LAST_BITS e (of_nat ?n) x \<bind> (\<lambda>_. State_Monad.return (data + of_nat ?n)))) (data + of_nat 0)) s =
      (data + of_nat ?n, s\<lparr>data_channel := data_channel s @ ms\<rparr>)"
    using copies_payload [OF assms(1) refl n] unfolding copies_def by blast
  show ?thesis
    using ms run
    by (intro exI [of _ ms]) (simp add: data_channel_submit_def Let_def len up split: prod.splits)
qed

lemma run_tcp_data:
  assumes "holds e data M"
    and "length M = min (unat (ucast data_len :: u32)) 16383"
    and "tcp_connections s sk = Some c"
  shows "\<exists>n g ms evs now. carry ms M \<and> list_all is_log evs \<and>
    run_state (tcp_events_submit_tcp_data e sk st is_server data data_len) s = ((), s\<lparr>
      ktime_reads := n, bpf_log_globals := g,
      events := events s @ evs @ [Ev_tcp_data now (conn_sk c)
        (TGID_FROM_PID_TGID (current_pid_tgid e)) (of_nat (length M)) (total (streams c st))
        (stream_no st) (client_server_no is_server)],
      data_channel := data_channel s @ ms\<rparr>)"
proof -
  obtain ms where ms: "carry ms M" "run_state (data_channel_submit e data data_len) s =
      (of_nat (length M), s\<lparr>data_channel := data_channel s @ ms\<rparr>)"
    using data_channel_submit_carries [OF assms(1,2)] by blast
  let ?s1 = "s\<lparr>data_channel := data_channel s @ ms, ktime_reads := ktime_reads s + 1\<rparr>"
  obtain s2 where s2: "run_state (GET_PID_TGID e 30095) ?s1 =
      ((current_pid_tgid e, TGID_FROM_PID_TGID (current_pid_tgid e), ucast (smp_processor_id e)), s2)"
    "log_frame ?s1 s2" by (rule run_GET_PID_TGID)
  obtain n g evs where "s2 = ?s1\<lparr>ktime_reads := n, bpf_log_globals := g, events := events ?s1 @ evs\<rparr>"
    "list_all is_log evs" using s2(2) by (rule log_frameE)
  with ms s2(1) assms(3) show ?thesis
    by (intro exI [of _ n] exI [of _ g] exI [of _ ms] exI [of _ evs]
      exI [of _ "ktime e (ktime_reads s) + boot_time_adjustment e"])
      (simp add: tcp_events_submit_tcp_data_def lookup_tcp_connection_def)
qed

text \<open>
  C21. The TCP data channel loses nothing: for a payload in readable memory,
  \<^verbatim>\<open>tcp_events_submit_tcp_data\<close> submits messages of 1 to 256 bytes, each with its length in its
  header, whose concatenation is the payload (cut to its first 16383 bytes if it is longer), and then
  announces on the event ring exactly that many bytes, at the stream's current offset, for the
  connection's socket and direction.
\<close>

theorem tcp_data_announced:
  assumes "holds e data M"
    and "length M = min (unat (ucast data_len :: u32)) 16383"
    and "tcp_connections s sk = Some c"
  shows "\<exists>ms evs now. let s' = snd (run_state (tcp_events_submit_tcp_data e sk st is_server data data_len) s) in
    carry ms M \<and> data_channel s' = data_channel s @ ms \<and> list_all is_log evs \<and>
    events s' = events s @ evs @ [Ev_tcp_data now (conn_sk c)
      (TGID_FROM_PID_TGID (current_pid_tgid e)) (of_nat (length M)) (total (streams c st))
      (stream_no st) (client_server_no is_server)]"
  using run_tcp_data [OF assms, of st is_server] by (auto simp: Let_def)

theorem tcp_data_announced_witness:
  "\<exists>ms evs now. let e = env0\<lparr>kmem := \<lambda>p n. (0, replicate n 7)\<rparr>; c = zero_connection 5 100;
     s = \<lparr>ktime_reads = 0, bpf_log_globals = log_globals0, events = [], tcp_connections = [5 \<mapsto> c],
       tcp_control = Map.empty, inet_csk_accept_active = Map.empty, tcp_recvmsg_active = Map.empty,
       tcp_sendmsg_active = Map.empty, data_channel = []\<rparr>;
     s' = snd (run_state (tcp_events_submit_tcp_data e 5 ST_SEND SC_CLIENT 4096 300) s) in
    carry ms (replicate 300 7) \<and> data_channel s' = ms \<and> list_all is_log evs \<and>
    events s' = evs @ [Ev_tcp_data now 5 100 300 0 0 0]"
proof -
  let ?e = "env0\<lparr>kmem := \<lambda>p n. (0, replicate n 7)\<rparr>"
  have "holds ?e 4096 (replicate 300 7)" by (auto simp: holds_def min_def)
  moreover have "current_pid_tgid ?e = 0x6400000065" by (simp add: env0_def)
  ultimately show ?thesis
    using tcp_data_announced [of ?e 4096 "replicate 300 7" 300
      "\<lparr>ktime_reads = 0, bpf_log_globals = log_globals0, events = [], tcp_connections = [5 \<mapsto> zero_connection 5 100],
       tcp_control = Map.empty, inet_csk_accept_active = Map.empty, tcp_recvmsg_active = Map.empty,
       tcp_sendmsg_active = Map.empty, data_channel = []\<rparr>" 5 "zero_connection 5 100" ST_SEND SC_CLIENT]
    by (simp add: Let_def zero_connection_def TGID_FROM_PID_TGID_def del: replicate.simps)
qed

end
