(* ===== verification/Http_Protocol.thy ===== *)
theory Http_Protocol
  imports Data_Channel "HOL-Library.Sublist"
begin

text \<open>
  HTTP detection and processing, and the dispatch of stream data to it:
  \<^verbatim>\<open>tcp-processor/bpf_http_protocol.h\<close>, \<^verbatim>\<open>bpf_tcp_processor.c\<close> and the stream handlers of
  \<^verbatim>\<open>bpf_tcp_send_recv.h\<close>.
\<close>

section \<open>HTTP\<close>

datatype TCP_PROTOCOL_DETECT_RESULT = TPD_FAILED | TPD_UNKNOWN | TPD_SUCCESS

definition starts :: "env \<Rightarrow> u64 \<Rightarrow> u64 \<Rightarrow> u64 \<Rightarrow> string \<Rightarrow> TCP_PROTOCOL_DETECT_RESULT" where
  "starts e data data_len k s =
     (if string_starts_with e (data + k) (data_len - k) s then TPD_SUCCESS else TPD_FAILED)"

definition http_detect :: "env \<Rightarrow> u64 \<Rightarrow> u64 \<Rightarrow> TCP_PROTOCOL_DETECT_RESULT" where
  "http_detect e data data_len = (
     if data_len \<ge> 3 then
       let c = probe_mem e data 1 in
       if c = bytes ''G'' then starts e data data_len 1 ''ET''
       else if c = bytes ''H'' then
         (if data_len \<ge> 4 then starts e data data_len 1 ''EAD'' else TPD_UNKNOWN)
       else if c = bytes ''D'' then
         (if data_len \<ge> 6 then starts e data data_len 1 ''ELETE'' else TPD_UNKNOWN)
       else if c = bytes ''C'' then
         (if data_len \<ge> 7 then starts e data data_len 1 ''ONNECT'' else TPD_UNKNOWN)
       else if c = bytes ''O'' then
         (if data_len \<ge> 7 then starts e data data_len 1 ''PTIONS'' else TPD_UNKNOWN)
       else if c = bytes ''T'' then
         (if data_len \<ge> 5 then starts e data data_len 1 ''RACE'' else TPD_UNKNOWN)
       else if c = bytes ''P'' then
         (let d = probe_mem e (data + 1) 1 in
          if d = bytes ''U'' then starts e data data_len 2 ''T''
          else if d = bytes ''O'' then starts e data data_len 2 ''ST''
          else if d = bytes ''A'' then
            (if data_len \<ge> 5 then starts e data data_len 2 ''TCH'' else TPD_UNKNOWN)
          else TPD_FAILED)
       else TPD_FAILED
     else TPD_UNKNOWN)"

definition http_toggle :: "u64 \<Rightarrow> STREAM_TYPE \<Rightarrow> unit tprog" where
  "http_toggle key st = (if st = ST_RECV then enable_tcp_connection key (- 1) 1
     else enable_tcp_connection key 1 (- 1))"

definition http_process_request :: "env \<Rightarrow> u64 \<Rightarrow> u64 \<Rightarrow> STREAM_TYPE \<Rightarrow> unit tprog" where
  "http_process_request e sk key st = do {
     now \<leftarrow> get_timestamp e;
     upd_connection sk (\<lambda>c. c\<lparr>protocol_state := (protocol_state c)\<lparr>protocol_data :=
       (protocol_data (protocol_state c))\<lparr>request_timestamp := now\<rparr>\<rparr>\<rparr>);
     http_toggle key st
   }"

text \<open>The status line at \<open>data\<close>, if it has the form \<^verbatim>\<open>HTTP/x.y ddd\<close>: the response code.\<close>

definition http_response_code :: "env \<Rightarrow> u64 \<Rightarrow> u64 \<Rightarrow> u16 option" where
  "http_response_code e data data_len = (
     if data_len < 12 then None
     else let localdata = probe_mem e data 12 in
       if take 5 localdata \<noteq> bytes ''HTTP/'' \<or> localdata ! 6 \<noteq> 0x2e \<or> localdata ! 8 \<noteq> 0x20 then None
       else let http_version_major = char_to_number (localdata ! 5);
                http_version_minor = char_to_number (localdata ! 7) in
       if http_version_major = - 1 \<or> http_version_minor = - 1 then None
       else let http_code_2 = char_to_number (localdata ! 9);
                http_code_1 = char_to_number (localdata ! 10);
                http_code_0 = char_to_number (localdata ! 11) in
       if http_code_2 = - 1 \<or> http_code_1 = - 1 \<or> http_code_0 = - 1 then None
       else Some (word_of_int (http_code_2 * 100 + http_code_1 * 10 + http_code_0)))"

definition http_process_response ::
    "env \<Rightarrow> u64 \<Rightarrow> u64 \<Rightarrow> STREAM_TYPE \<Rightarrow> u64 \<Rightarrow> u64 \<Rightarrow> unit tprog" where
  "http_process_response e sk key st data data_len = do {
     (case http_response_code e data data_len of None \<Rightarrow> skip
      | Some code \<Rightarrow> do {
          now \<leftarrow> get_timestamp e;
          lookup \<leftarrow> lookup_tcp_connection sk;
          case lookup of None \<Rightarrow> skip
          | Some pconn \<Rightarrow> tcp_events_submit_http_response e (conn_sk pconn) code
              (now - request_timestamp (protocol_data (protocol_state pconn)))
              (if st = ST_SEND then SC_SERVER else SC_CLIENT)
        });
     http_toggle key st
   }"

section \<open>Dispatch\<close>

definition upd_protocol :: "u64 \<Rightarrow> (tcp_protocol_state_t \<Rightarrow> tcp_protocol_state_t) \<Rightarrow> unit tprog" where
  "upd_protocol sk f = upd_connection sk (\<lambda>c. c\<lparr>protocol_state := f (protocol_state c)\<rparr>)"

definition detect_protocol :: "env \<Rightarrow> u64 \<Rightarrow> tcp_protocol_state_t \<Rightarrow> u64 \<Rightarrow> u64 \<Rightarrow> tcp_protocol_state_t" where
  "detect_protocol e sk state data data_len = (
     if candidates state AND TCP_PROTOCOL_BIT TCPPROTO_HTTP \<noteq> 0 then
       (case http_detect e data data_len of
          TPD_FAILED \<Rightarrow> state\<lparr>candidates := candidates state AND NOT (TCP_PROTOCOL_BIT TCPPROTO_HTTP)\<rparr>
        | TPD_SUCCESS \<Rightarrow> state\<lparr>protocol := TCPPROTO_HTTP\<rparr>
        | TPD_UNKNOWN \<Rightarrow> state)
     else state)"

definition tcp_client_handler :: "env \<Rightarrow> stream_handler" where
  "tcp_client_handler e sk key st data data_len = (
     if enable_tcp_data_stream e then tcp_events_submit_tcp_data e sk st SC_CLIENT data data_len
     else do {
       lookup \<leftarrow> lookup_tcp_connection sk;
       case lookup of None \<Rightarrow> skip
       | Some pconn \<Rightarrow> (
           let state0 = protocol_state pconn;
               detecting = (protocol state0 = TCPPROTO_UNKNOWN);
               state = (if detecting then detect_protocol e sk state0 data data_len else state0) in do {
             upd_protocol sk (\<lambda>_. state);
             if detecting \<and> candidates state = 0 then enable_tcp_connection key (- 1) (- 1)
             else if protocol state = TCPPROTO_UNKNOWN then skip
             else if protocol state = TCPPROTO_HTTP then http_process_request e sk key st
             else bpf_log e 40128 BPF_LOG_UNREACHABLE 0 0 0
           })
     })"

definition tcp_server_handler :: "env \<Rightarrow> stream_handler" where
  "tcp_server_handler e sk key st data data_len = (
     if enable_tcp_data_stream e then tcp_events_submit_tcp_data e sk st SC_SERVER data data_len
     else do {
       lookup \<leftarrow> lookup_tcp_connection sk;
       case lookup of None \<Rightarrow> skip
       | Some pconn \<Rightarrow> (
           let state = protocol_state pconn in
           if protocol state = TCPPROTO_UNKNOWN then skip
           else if protocol state = TCPPROTO_HTTP then http_process_response e sk key st data data_len
           else bpf_log e 40166 BPF_LOG_UNREACHABLE 0 0 0)
     })"

definition is_accepted :: "u64 \<Rightarrow> bool tprog" where
  "is_accepted sk = gets (\<lambda>s. case tcp_connections s sk of None \<Rightarrow> False | Some c \<Rightarrow> parent_sk c \<noteq> 0)"

definition tcp_send_stream_handler :: "env \<Rightarrow> stream_handler" where
  "tcp_send_stream_handler e sk key st data data_len = do {
     accepted \<leftarrow> is_accepted sk;
     if accepted then tcp_server_handler e sk key st data data_len
     else tcp_client_handler e sk key st data data_len
   }"

definition tcp_recv_stream_handler :: "env \<Rightarrow> stream_handler" where
  "tcp_recv_stream_handler e sk key st data data_len = do {
     accepted \<leftarrow> is_accepted sk;
     if accepted then tcp_client_handler e sk key st data data_len
     else tcp_server_handler e sk key st data data_len
   }"

section \<open>Detection recognises the request methods\<close>

definition http_methods :: "string list" where
  "http_methods = [''GET'', ''HEAD'', ''DELETE'', ''CONNECT'', ''OPTIONS'', ''TRACE'', ''PUT'', ''POST'', ''PATCH'']"

text \<open>Too little data to tell: fewer bytes than the only method the first letters leave open.\<close>

definition undecided :: "u8 list \<Rightarrow> bool" where
  "undecided M \<longleftrightarrow> length M < 3 \<or> take 1 M = bytes ''H'' \<and> length M < 4 \<or>
     take 1 M = bytes ''D'' \<and> length M < 6 \<or> take 1 M = bytes ''C'' \<and> length M < 7 \<or>
     take 1 M = bytes ''O'' \<and> length M < 7 \<or> take 1 M = bytes ''T'' \<and> length M < 5 \<or>
     take 2 M = bytes ''PA'' \<and> length M < 5"

definition detect_bytes :: "u8 list \<Rightarrow> TCP_PROTOCOL_DETECT_RESULT" where
  "detect_bytes M = (if \<exists>v \<in> set http_methods. prefix (bytes v) M then TPD_SUCCESS
     else if undecided M then TPD_UNKNOWN else TPD_FAILED)"

lemma length_bytes [simp]: "length (bytes s) = length s"
  by (simp add: bytes_def)

lemma prefix_take: "prefix xs ys \<longleftrightarrow> take (length xs) ys = xs"
  by (metis append_eq_conv_conj append_take_drop_id prefixI prefixE)

lemma starts_bytes:
  assumes "holds e data M" "length M < 2 ^ 64" "k \<le> length M" "length s < 2 ^ 64" "s \<noteq> []"
  shows "starts e data (of_nat (length M)) (of_nat k) s =
    (if prefix (bytes s) (drop k M) then TPD_SUCCESS else TPD_FAILED)"
proof -
  have sub: "(of_nat (length M) - of_nat k :: u64) = of_nat (length M - k)"
    using assms(3) by (simp add: of_nat_diff)
  have less: "(of_nat (length M - k) :: u64) < of_nat (length s) \<longleftrightarrow> length M - k < length s"
    using assms(2,4) by (simp add: word_less_nat_alt unat_of_nat)
  have "prefix (bytes s) (drop k M) \<longleftrightarrow> length s \<le> length M - k \<and> probe_mem e (data + of_nat k) (length s) = bytes s"
    using probe_mem_holds [OF assms(1), of "length s" k] assms(5) prefix_length_le [of "bytes s" "drop k M"] assms(3)
    by (auto simp: prefix_take)
  then show ?thesis unfolding starts_def string_starts_with_def sub less by auto
qed

lemma prefix_drop:
  "prefix (u # us) (drop k M) \<longleftrightarrow> k < length M \<and> M ! k = u \<and> prefix us (drop (k + 1) M)"
  by (cases "k < length M") (auto simp flip: Cons_nth_drop_Suc)

lemma prefix_nth: "prefix (u # us) M \<longleftrightarrow> M \<noteq> [] \<and> M ! 0 = u \<and> prefix us (drop 1 M)"
  using prefix_drop [of u us 0 M] by simp

lemma http_detect_bytes:
  assumes "holds e data M" "length M < 2 ^ 64"
  shows "http_detect e data (of_nat (length M)) = detect_bytes M"
proof (cases "length M < 3")
  case True
  then have "of_nat (length M) < (3 :: u64)" by (simp add: word_less_nat_alt unat_of_nat)
  moreover have "\<not> prefix (bytes v) M" if "v \<in> set http_methods" for v
    using that True prefix_length_le [of "bytes v" M] by (auto simp: http_methods_def)
  ultimately show ?thesis using True
    by (auto simp: http_detect_def detect_bytes_def undecided_def not_le)
next
  case False
  have ge: "(of_nat (length M) :: u64) \<ge> 3" "(of_nat (length M) :: u64) \<ge> 4 \<longleftrightarrow> length M \<ge> 4"
    "(of_nat (length M) :: u64) \<ge> 5 \<longleftrightarrow> length M \<ge> 5" "(of_nat (length M) :: u64) \<ge> 6 \<longleftrightarrow> length M \<ge> 6"
    "(of_nat (length M) :: u64) \<ge> 7 \<longleftrightarrow> length M \<ge> 7"
    using assms(2) False by (simp_all add: word_le_nat_alt unat_of_nat)
  have mem: "probe_mem e data 1 = take 1 M" "probe_mem e (data + 1) 1 = take 1 (drop 1 M)"
    using False probe_mem_holds [OF assms(1), of 1 0] probe_mem_holds [OF assms(1), of 1 1] by simp_all
  have st: "starts e data (of_nat (length M)) 1 s = (if prefix (bytes s) (drop 1 M) then TPD_SUCCESS else TPD_FAILED)"
    "starts e data (of_nat (length M)) 2 s = (if prefix (bytes s) (drop 2 M) then TPD_SUCCESS else TPD_FAILED)"
    if "length s < 2 ^ 64" "s \<noteq> []" for s
    using starts_bytes [OF assms, of 1 s] starts_bytes [OF assms, of 2 s] False that by simp_all
  have t: "take 1 M = [x] \<longleftrightarrow> M ! 0 = x" "take 1 (drop 1 M) = [x] \<longleftrightarrow> M ! 1 = x"
    "take 2 M = [x, y] \<longleftrightarrow> M ! 0 = x \<and> M ! 1 = y" for x y
  proof -
    obtain a b c M' where "M = a # b # c # M'"
      using False by (auto simp: not_less Suc_le_length_iff numeral_3_eq_3)
    then show "take 1 M = [x] \<longleftrightarrow> M ! 0 = x" "take 1 (drop 1 M) = [x] \<longleftrightarrow> M ! 1 = x"
      "take 2 M = [x, y] \<longleftrightarrow> M ! 0 = x \<and> M ! 1 = y" by auto
  qed
  have "M \<noteq> []" using False by auto
  note defs = http_detect_def detect_bytes_def undecided_def http_methods_def mem Let_def st ge
    prefix_drop prefix_nth [of _ _ M] bytes_def
  consider "M ! 0 = 0x47" | "M ! 0 = 0x48" | "M ! 0 = 0x44" | "M ! 0 = 0x43" | "M ! 0 = 0x4f"
    | "M ! 0 = 0x54" | "M ! 0 = 0x50" | "M ! 0 \<notin> {0x47, 0x48, 0x44, 0x43, 0x4f, 0x54, 0x50}" by blast
  then show ?thesis
    using False \<open>M \<noteq> []\<close> by cases (simp_all add: defs t del: One_nat_def)
qed

lemma proper_prefix_undecided:
  "\<forall>v \<in> set http_methods. \<forall>k \<in> set [3..<length v]. undecided (take k (bytes v)) \<or> take k (bytes v) = bytes ''POS''"
  by code_simp

lemma detect_failed_final:
  assumes "detect_bytes M = TPD_FAILED" "M \<noteq> bytes ''POS''" "v \<in> set http_methods"
  shows "\<not> prefix (bytes v) (M @ X)"
proof
  assume pv: "prefix (bytes v) (M @ X)"
  have u: "\<not> undecided M" "\<not> prefix (bytes v) M"
    using assms(1,3) by (auto simp: detect_bytes_def split: if_splits)
  then have "length M < length v" "M = take (length M) (bytes v)"
    using pv prefix_same_cases [OF pv, of M] prefix_length_le [of M "bytes v"]
    by (auto simp: prefix_take) (metis le_antisym length_bytes not_le_imp_less take_all)
  moreover have "3 \<le> length M" using u(1) by (simp add: undecided_def)
  ultimately show False
    using proper_prefix_undecided assms(2,3) u(1) by force
qed

text \<open>
  C23. \<^verbatim>\<open>http_detect\<close> on a buffer holding the bytes \<open>M\<close>: it succeeds exactly when \<open>M\<close> begins with one
  of the nine HTTP methods, answers unknown exactly when too few bytes have arrived for the only method
  the first letters leave open, and fails otherwise.  A failure is final for good reason (no
  continuation of \<open>M\<close> could begin with a method) except for the three bytes \<^verbatim>\<open>POS\<close>, which it rejects.
\<close>

theorem http_detect_reference:
  assumes "holds e data M" "length M < 2 ^ 64"
  shows "http_detect e data (of_nat (length M)) = detect_bytes M \<and>
    (http_detect e data (of_nat (length M)) = TPD_FAILED \<and> M \<noteq> bytes ''POS'' \<longrightarrow>
      (\<forall>v \<in> set http_methods. \<forall>X. \<not> prefix (bytes v) (M @ X))) \<and>
    (M = bytes ''POS'' \<longrightarrow> http_detect e data (of_nat (length M)) = TPD_FAILED)"
proof -
  have "detect_bytes (bytes ''POS'') = TPD_FAILED" by code_simp
  then show ?thesis
    unfolding http_detect_bytes [OF assms] using detect_failed_final by blast
qed

theorem http_detect_reference_witness:
  "let e = env0\<lparr>kmem := \<lambda>p n. (0, take n (drop (unat (p - 4096)) (bytes ''PUT /'')))\<rparr>
   in http_detect e 4096 5 = TPD_SUCCESS"
proof -
  let ?e = "env0\<lparr>kmem := \<lambda>p n. (0, take n (drop (unat (p - 4096)) (bytes ''PUT /'')))\<rparr>"
  have u: "unat (of_nat i :: u64) = i" if "i < 6" for i using that by (simp add: unat_of_nat)
  have "holds ?e 4096 (bytes ''PUT /'')"
    using u by (simp add: holds_def)
  moreover have "detect_bytes (bytes ''PUT /'') = TPD_SUCCESS" by code_simp
  ultimately show ?thesis
    using http_detect_reference [of ?e 4096 "bytes ''PUT /''"] by (simp add: Let_def)
qed

section \<open>Responses\<close>

definition is_digit :: "u8 \<Rightarrow> bool" where
  "is_digit x \<longleftrightarrow> 48 \<le> x \<and> x \<le> 57"

definition digit :: "u8 \<Rightarrow> nat" where
  "digit x = unat x - 48"

text \<open>A status line \<^verbatim>\<open>HTTP/x.y ddd\<close> with the code it carries.\<close>

definition status_line :: "u8 list \<Rightarrow> nat \<Rightarrow> bool" where
  "status_line M code \<longleftrightarrow> 12 \<le> length M \<and> take 5 M = bytes ''HTTP/'' \<and> is_digit (M ! 5) \<and> M ! 6 = 0x2e \<and>
     is_digit (M ! 7) \<and> M ! 8 = 0x20 \<and> is_digit (M ! 9) \<and> is_digit (M ! 10) \<and> is_digit (M ! 11) \<and>
     code = 100 * digit (M ! 9) + 10 * digit (M ! 10) + digit (M ! 11)"

lemma sint_u8: "sint (x :: u8) = (if uint x < 128 then uint x else uint x - 256)"
proof -
  have "sint x = (uint x + 128) mod 256 - 128"
    by (simp add: sint_uint signed_take_bit_eq_take_bit_shift take_bit_eq_mod)
  moreover have "0 \<le> uint x" "uint x < 256" using unsigned_less [of x, where 'a = int] by simp_all
  moreover have "(uint x + 128) mod 256 = (uint x + 128 - 256) mod 256" by (rule minus_mod_self2 [symmetric])
  ultimately show ?thesis by (cases "uint x < 128") simp_all
qed

lemma char_to_number_digit:
  "char_to_number x = (if is_digit x then int (digit x) else - 1)"
proof -
  have "uint x < 256" "unat x = nat (uint x)" using unsigned_less [of x, where 'a = int] by simp_all
  then show ?thesis
    by (auto simp: char_to_number_def sint_u8 is_digit_def digit_def word_le_nat_alt simp del: nat_uint_eq)
qed

lemma http_response_code_status:
  assumes "holds e data M" "length M < 2 ^ 64"
  shows "http_response_code e data (of_nat (length M)) = Some code \<longleftrightarrow>
    (\<exists>n. status_line M n \<and> code = of_nat n)"
proof (cases "length M < 12")
  case True
  then have "of_nat (length M) < (12 :: u64)" by (simp add: word_less_nat_alt unat_of_nat)
  with True show ?thesis by (simp add: http_response_code_def status_line_def)
next
  case False
  then have "\<not> of_nat (length M) < (12 :: u64)"
    using assms(2) by (simp add: word_less_nat_alt unat_of_nat)
  moreover have "probe_mem e data 12 = take 12 M"
    using False probe_mem_holds [OF assms(1), of 12 0] by simp
  ultimately show ?thesis using False
    by (auto simp: http_response_code_def status_line_def Let_def char_to_number_digit split: if_splits)
qed

section \<open>A request and its response\<close>

fun flip :: "STREAM_TYPE \<Rightarrow> STREAM_TYPE" where
  "flip ST_SEND = ST_RECV"
| "flip ST_RECV = ST_SEND"

definition only_enabled :: "STREAM_TYPE \<Rightarrow> tcp_control_value_t \<Rightarrow> bool" where
  "only_enabled st ctrl \<longleftrightarrow> enable (ctrl st) = 1 \<and> enable (ctrl (flip st)) = 0"

definition toggled :: "STREAM_TYPE \<Rightarrow> tcp_control_value_t \<Rightarrow> tcp_control_value_t" where
  "toggled st ctrl = (if st = ST_RECV then enable_stream ST_RECV (- 1) (enable_stream ST_SEND 1 ctrl)
     else enable_stream ST_RECV 1 (enable_stream ST_SEND (- 1) ctrl))"

definition http_request :: "env \<Rightarrow> tcp_connection_t \<Rightarrow> u64 \<Rightarrow> u64 \<Rightarrow> bool" where
  "http_request e c data n \<longleftrightarrow> protocol (protocol_state c) = TCPPROTO_HTTP \<or>
     protocol (protocol_state c) = TCPPROTO_UNKNOWN \<and>
     candidates (protocol_state c) AND TCP_PROTOCOL_BIT TCPPROTO_HTTP \<noteq> 0 \<and>
     http_detect e data n = TPD_SUCCESS"

definition requested :: "u64 \<Rightarrow> tcp_connection_t \<Rightarrow> tcp_connection_t" where
  "requested now c = c\<lparr>protocol_state := (protocol_state c)\<lparr>protocol := TCPPROTO_HTTP,
     protocol_data := (protocol_data (protocol_state c))\<lparr>request_timestamp := now\<rparr>\<rparr>\<rparr>"

lemma only_enabled_toggled: "only_enabled (flip st) (toggled st ctrl)"
  by (cases st) (simp_all add: only_enabled_def toggled_def enable_stream_def)

lemma run_upd_connection [simp]:
  "run_state (upd_connection sk f) s = ((), s\<lparr>tcp_connections := map_upd sk f (tcp_connections s)\<rparr>)"
  by (simp add: upd_connection_def)

lemma run_http_toggle [simp]:
  "run_state (http_toggle key st) s = ((), s\<lparr>tcp_control := map_upd key (toggled st) (tcp_control s)\<rparr>)"
  by (cases st) (simp_all add: http_toggle_def enable_tcp_connection_def toggled_def [abs_def])

lemma map_upd_Some [simp]: "m k = Some v \<Longrightarrow> map_upd k f m = m(k \<mapsto> f v)"
  by (simp add: map_upd_def)

lemma protocol_codes [simp]: "TCPPROTO_HTTP \<noteq> TCPPROTO_UNKNOWN" "TCPPROTO_UNKNOWN \<noteq> TCPPROTO_HTTP"
  by (simp_all add: TCPPROTO_HTTP_def TCPPROTO_UNKNOWN_def)

lemma protocol_same: "protocol p = x \<Longrightarrow> p\<lparr>protocol := x, protocol_data := d\<rparr> = p\<lparr>protocol_data := d\<rparr>"
  by (cases p) simp

lemma client_request:
  assumes "\<not> enable_tcp_data_stream e" "tcp_connections s sk = Some c" "tcp_control s key = Some ctrl"
    and "http_request e c data n"
  shows "run_state (tcp_client_handler e sk key st data n) s = ((), s\<lparr>
    ktime_reads := Suc (ktime_reads s),
    tcp_connections := (tcp_connections s)(sk \<mapsto> requested (log_time e (ktime_reads s)) c),
    tcp_control := (tcp_control s)(key \<mapsto> toggled st ctrl)\<rparr>)"
proof -
  have "detect_protocol e sk (protocol_state c) data n = (protocol_state c)\<lparr>protocol := TCPPROTO_HTTP\<rparr>
      \<and> candidates (protocol_state c) \<noteq> 0"
    if "protocol (protocol_state c) = TCPPROTO_UNKNOWN"
    using that assms(4) by (auto simp: http_request_def detect_protocol_def)
  then show ?thesis using assms
    by (cases "protocol (protocol_state c) = TCPPROTO_UNKNOWN")
      (auto simp: http_request_def tcp_client_handler_def lookup_tcp_connection_def upd_protocol_def
        http_process_request_def requested_def log_time_def Let_def protocol_same)
qed

lemma server_response:
  assumes "\<not> enable_tcp_data_stream e" "tcp_connections s sk = Some c" "tcp_control s key = Some ctrl"
    and "protocol (protocol_state c) = TCPPROTO_HTTP"
    and "http_response_code e data n = Some code"
  shows "\<exists>evs now. let s' = snd (run_state (tcp_server_handler e sk key st data n) s) in
    list_all is_log evs \<and> tcp_control s' key = Some (toggled st ctrl) \<and>
    events s' = events s @ evs @ [Ev_http_response now (conn_sk c)
      (TGID_FROM_PID_TGID (current_pid_tgid e)) code
      (log_time e (ktime_reads s) - request_timestamp (protocol_data (protocol_state c)))
      (client_server_no (if st = ST_SEND then SC_SERVER else SC_CLIENT))]"
proof -
  let ?s1 = "s\<lparr>ktime_reads := Suc (ktime_reads s)\<rparr>"
  obtain s2 where s2: "run_state (GET_PID_TGID e 30055) ?s1 =
      ((current_pid_tgid e, TGID_FROM_PID_TGID (current_pid_tgid e), ucast (smp_processor_id e)), s2)"
    "log_frame ?s1 s2" by (rule run_GET_PID_TGID)
  obtain n g evs where "s2 = ?s1\<lparr>ktime_reads := n, bpf_log_globals := g, events := events ?s1 @ evs\<rparr>"
    "list_all is_log evs" using s2(2) by (rule log_frameE)
  with s2(1) assms show ?thesis
    by (auto simp: tcp_server_handler_def lookup_tcp_connection_def http_process_response_def
        tcp_events_submit_http_response_def log_time_def Let_def intro!: exI [of _ evs])
qed

text \<open>
  C22. An HTTP exchange is timed and reported once: when data that begins a request (or any data on a
  connection already known to be HTTP) is followed, in the other direction, by a well-formed status
  line, exactly one \<^verbatim>\<open>http_response\<close> is submitted (log messages apart) with the code of the status
  line, the connection's socket, and as latency the time between the two; after the request only the
  response's direction is watched, and after the response only the request's.
\<close>

theorem http_exchange:
  assumes "\<not> enable_tcp_data_stream e" "\<not> enable_tcp_data_stream e'"
    and "tcp_connections s sk = Some c" "tcp_control s (conn_sk c) = Some ctrl"
    and "http_request e c data n"
    and "holds e' data' M" "length M < 2 ^ 64" "status_line M code"
    and "s1 = snd (run_state (tcp_client_handler e sk (conn_sk c) st data n) s)"
    and "s2 = snd (run_state (tcp_server_handler e' sk (conn_sk c) (flip st) data' (of_nat (length M))) s1)"
  shows "(\<exists>ctrl1. tcp_control s1 (conn_sk c) = Some ctrl1 \<and> only_enabled (flip st) ctrl1) \<and>
    (\<exists>ctrl2. tcp_control s2 (conn_sk c) = Some ctrl2 \<and> only_enabled st ctrl2) \<and>
    (\<exists>evs now. list_all is_log evs \<and> events s2 = events s @ evs @ [Ev_http_response now (conn_sk c)
      (TGID_FROM_PID_TGID (current_pid_tgid e')) (of_nat code)
      (log_time e' (Suc (ktime_reads s)) - log_time e (ktime_reads s))
      (client_server_no (if st = ST_RECV then SC_SERVER else SC_CLIENT))])"
proof -
  let ?c = "requested (log_time e (ktime_reads s)) c"
  have s1: "s1 = s\<lparr>ktime_reads := Suc (ktime_reads s), tcp_connections := (tcp_connections s)(sk \<mapsto> ?c),
      tcp_control := (tcp_control s)(conn_sk c \<mapsto> toggled st ctrl)\<rparr>"
    unfolding assms(9) client_request [OF assms(1,3,4,5)] by simp
  have code: "http_response_code e' data' (of_nat (length M)) = Some (of_nat code)"
    using http_response_code_status [OF assms(6,7)] assms(8) by blast
  have "flip (flip st) = st" by (cases st) simp_all
  moreover have "(flip st = ST_SEND) = (st = ST_RECV)" by (cases st) simp_all
  ultimately show ?thesis
    using server_response [OF assms(2), of s1 sk ?c "conn_sk c" "toggled st ctrl" data' "of_nat (length M)"
      "of_nat code" "flip st"] code only_enabled_toggled [of st ctrl]
      only_enabled_toggled [of "flip st" "toggled st ctrl"]
    by (auto simp: s1 assms(10) requested_def Let_def)
qed

theorem http_exchange_witness:
  "let e = env0\<lparr>kmem := \<lambda>p n. (0, take n (drop (unat (p - 4096)) (bytes ''HTTP/1.1 200'')))\<rparr>;
       c = zero_connection 5 100;
       s = \<lparr>ktime_reads = 0, bpf_log_globals = log_globals0, events = [],
         tcp_connections = [5 \<mapsto> c\<lparr>protocol_state := (protocol_state c)\<lparr>protocol := TCPPROTO_HTTP\<rparr>\<rparr>],
         tcp_control = [5 \<mapsto> enabled_control], inet_csk_accept_active = Map.empty,
         tcp_recvmsg_active = Map.empty, tcp_sendmsg_active = Map.empty, data_channel = []\<rparr>;
       s1 = snd (run_state (tcp_client_handler env0 5 5 ST_SEND 4096 1) s);
       s2 = snd (run_state (tcp_server_handler e 5 5 ST_RECV 4096 12) s1)
   in \<exists>evs now. list_all is_log evs \<and> events s2 = evs @ [Ev_http_response now 5 100 200 0 0]"
proof -
  let ?e = "env0\<lparr>kmem := \<lambda>p n. (0, take n (drop (unat (p - 4096)) (bytes ''HTTP/1.1 200'')))\<rparr>"
  let ?c = "(zero_connection 5 100)\<lparr>protocol_state := (protocol_state (zero_connection 5 100))\<lparr>protocol := TCPPROTO_HTTP\<rparr>\<rparr>"
  let ?s = "\<lparr>ktime_reads = 0, bpf_log_globals = log_globals0, events = [], tcp_connections = [5 \<mapsto> ?c],
    tcp_control = [5 \<mapsto> enabled_control], inet_csk_accept_active = Map.empty,
    tcp_recvmsg_active = Map.empty, tcp_sendmsg_active = Map.empty, data_channel = []\<rparr>"
  have "unat (of_nat i :: u64) = i" if "i < 13" for i using that by (simp add: unat_of_nat)
  then have h: "holds ?e 4096 (bytes ''HTTP/1.1 200'')" by (simp add: holds_def)
  have st: "status_line (bytes ''HTTP/1.1 200'') 200" by code_simp
  have pt: "current_pid_tgid ?e = 0x6400000065" "log_time ?e n = 5000000000" "log_time env0 n = 5000000000" for n
    by (simp_all add: env0_def log_time_def)
  have off: "\<not> enable_tcp_data_stream env0" "\<not> enable_tcp_data_stream ?e" by (simp_all add: env0_def)
  show ?thesis
    using http_exchange [OF off, of ?s 5 ?c enabled_control 4096 1 4096 "bytes ''HTTP/1.1 200''" 200 _ ST_SEND, OF _ _ _ h _ st refl refl]
    by (simp add: Let_def zero_connection_def http_request_def pt TGID_FROM_PID_TGID_def)
qed

end
