(* ===== verification/Tcp_Send_Recv.thy ===== *)
theory Tcp_Send_Recv
  imports Http_Protocol
begin

text \<open>
  The probes on \<^verbatim>\<open>tcp_sendmsg\<close> and \<^verbatim>\<open>tcp_recvmsg\<close> of \<^verbatim>\<open>tcp-processor/bpf_tcp_send_recv.h\<close>, which
  feed the streams in chunks by tail calls.
\<close>

section \<open>Send and receive\<close>

text \<open>
  The common part of both probes: a socket is watched if its connection and control block exist,
  the direction is enabled and, unless the data stream is compiled in (\<^verbatim>\<open>ENABLE_TCP_DATA_STREAM\<close>),
  a protocol is still interested.
\<close>

definition watched :: "env \<Rightarrow> u64 \<Rightarrow> STREAM_TYPE \<Rightarrow> bool tprog" where
  "watched e sk st = do {
     lookup \<leftarrow> lookup_tcp_connection sk;
     case lookup of None \<Rightarrow> State_Monad.return False
     | Some pconn \<Rightarrow> do {
         ctrl \<leftarrow> get_tcp_control pconn;
         case ctrl of None \<Rightarrow> State_Monad.return False
         | Some pctrl \<Rightarrow>
             if \<not> enable_tcp_data_stream e \<and> candidates (protocol_state pconn) = 0 then State_Monad.return False
             else if \<not> enable_tcp_data_stream e \<and> protocol_count (streams pconn st) = 0 then State_Monad.return False
             else if enable (pctrl st) = 0 then State_Monad.return False
             else State_Monad.return True
       }
   }"

text \<open>The type of the message's iterator, 32 bits wide before Linux 5.14 and 8 bits from then on.\<close>

definition iter_type :: "env \<Rightarrow> u64 \<Rightarrow> u64" where
  "iter_type e msg = (if linux_version e < KERNEL_VERSION 5 14 0
     then ucast (kget e ''msghdr.msg_iter.type'' msg :: u32)
     else ucast (kget e ''msghdr.msg_iter.iter_type'' msg :: u8))"

definition unsupported_io :: "env \<Rightarrow> u64 \<Rightarrow> bool" where
  "unsupported_io e msg \<longleftrightarrow> linux_version e \<ge> KERNEL_VERSION 3 19 0 \<and>
     iter_type e msg > 1 \<and> iter_type e msg AND iter_iovec_kvec e = 0"

definition handle_kprobe__tcp_sendmsg :: "env \<Rightarrow> u64 \<Rightarrow> u64 \<Rightarrow> u64 \<Rightarrow> unit tprog" where
  "handle_kprobe__tcp_sendmsg e sk msg sz = do {
     (pid_tgid, tgid, cpu) \<leftarrow> GET_PID_TGID e 50115;
     w \<leftarrow> watched e sk ST_SEND;
     if \<not> w then skip
     else if unsupported_io e msg then bpf_log e 50180 BPF_LOG_UNSUPPORTED_IO 0 sk (iter_type e msg)
     else (
       let old = linux_version e < KERNEL_VERSION 3 19 0;
           iov = (if old then kget e ''msghdr.msg_iov'' msg else kget e ''msghdr.msg_iter.iov'' msg);
           nr_segs = (if old then kget e ''msghdr.msg_iovlen'' msg else kget e ''msghdr.msg_iter.nr_segs'' msg);
           iov_offset = (if old then 0 else kget e ''msghdr.msg_iter.iov_offset'' msg) in
       modify (\<lambda>s. s\<lparr>tcp_sendmsg_active := SAVE_ARGS e ''tcp_sendmsg'' pid_tgid
         \<lparr>send_sk = sk, send_msg = msg, send_size = sz, iov = iov, iov_ptr = 0, iov_len = 0,
           iov_offset = iov_offset, nr_segs = nr_segs, written = 0, depth = 1\<rparr> (tcp_sendmsg_active s)\<rparr>))
   }"

text \<open>
  A tail call runs the program again from the start; the kernel refuses it after
  \<^verbatim>\<open>max_tail_calls\<close> calls, and the program that asked for it then just returns.
\<close>

primrec tail_loop :: "bool tprog \<Rightarrow> nat \<Rightarrow> unit tprog" where
  "tail_loop step 0 = do { again \<leftarrow> step; skip }"
| "tail_loop step (Suc n) = do { again \<leftarrow> step; if again then tail_loop step n else skip }"

definition TCP_TAIL_CALL_MAX_DEPTH :: nat where "TCP_TAIL_CALL_MAX_DEPTH = 8"

definition copied_count :: "env \<Rightarrow> int" where
  "copied_count e = sint (ucast (regs_rc e) :: u32)"

definition delete_sendmsg_args :: "u64 \<Rightarrow> unit tprog" where
  "delete_sendmsg_args pid_tgid = modify (\<lambda>s. s\<lparr>tcp_sendmsg_active :=
     DELETE_ARGS pid_tgid (tcp_sendmsg_active s)\<rparr>)"

text \<open>Load the next segment once the current one is used up; nothing if there is none.\<close>

definition next_iovec :: "env \<Rightarrow> sendmsg_args \<Rightarrow> sendmsg_args option" where
  "next_iovec e args = (
     if iov_len args \<noteq> 0 then Some args
     else if nr_segs args > 0 then Some (args\<lparr>
       iov_ptr := kget e ''iovec.iov_base'' (iov args) + iov_offset args,
       iov_len := kget e ''iovec.iov_len'' (iov args),
       iov := iov args + iovec_size e,
       nr_segs := nr_segs args - 1,
       iov_offset := 0\<rparr>)
     else None)"

definition send_to_copy :: "env \<Rightarrow> sendmsg_args \<Rightarrow> int" where
  "send_to_copy e args = (
     let remaining = copied_count e - written args;
         to_copy = (if remaining > 16383 then 16383 else remaining) in
     if word_of_int to_copy > iov_len args then sint (ucast (iov_len args) :: u32) else to_copy)"

definition continue_tcp_sendmsg_once :: "env \<Rightarrow> bool tprog" where
  "continue_tcp_sendmsg_once e = do {
     (pid_tgid, tgid, cpu) \<leftarrow> GET_PID_TGID e 50233;
     saved \<leftarrow> gets (\<lambda>s. GET_ARGS pid_tgid (tcp_sendmsg_active s));
     case saved of None \<Rightarrow> State_Monad.return False
     | Some args0 \<Rightarrow>
         if copied_count e \<le> 0 then do { delete_sendmsg_args pid_tgid; State_Monad.return False }
         else do {
           lookup \<leftarrow> lookup_tcp_connection (send_sk args0);
           if lookup = None then do { delete_sendmsg_args pid_tgid; State_Monad.return False }
           else case next_iovec e args0 of
             None \<Rightarrow> do { delete_sendmsg_args pid_tgid; State_Monad.return False }
           | Some args \<Rightarrow> (
               let remaining = copied_count e - written args; to_copy = send_to_copy e args in do {
                 write_to_tcp_stream e (send_sk args) ST_SEND (iov_ptr args) (word_of_int to_copy)
                   (tcp_send_stream_handler e);
                 (if to_copy = remaining \<or> depth args = TCP_TAIL_CALL_MAX_DEPTH
                  then do { delete_sendmsg_args pid_tgid; State_Monad.return False }
                  else do {
                    modify (\<lambda>s. s\<lparr>tcp_sendmsg_active := (tcp_sendmsg_active s)(pid_tgid \<mapsto>
                      args\<lparr>written := written args + to_copy,
                        iov_ptr := iov_ptr args + word_of_int to_copy,
                        iov_len := iov_len args - word_of_int to_copy,
                        depth := depth args + 1\<rparr>)\<rparr>);
                    State_Monad.return True
                  })
               })
         }
   }"

definition handle_kretprobe__tcp_sendmsg :: "env \<Rightarrow> unit tprog" where
  "handle_kretprobe__tcp_sendmsg e = 
     (if max_tail_calls e = 0 then skip else tail_loop (continue_tcp_sendmsg_once e) (max_tail_calls e - 1))"

definition handle_kprobe__tcp_recvmsg :: "env \<Rightarrow> u64 \<Rightarrow> u64 \<Rightarrow> u64 \<Rightarrow> u32 \<Rightarrow> u32 \<Rightarrow> unit tprog" where
  "handle_kprobe__tcp_recvmsg e sk msg len nonblock flags = do {
     (pid_tgid, tgid, cpu) \<leftarrow> GET_PID_TGID e 50328;
     w \<leftarrow> watched e sk ST_RECV;
     if \<not> w then skip
     else if unsupported_io e msg then bpf_log e 50389 BPF_LOG_UNSUPPORTED_IO 1 sk (iter_type e msg)
     else (
       let iov = (if linux_version e < KERNEL_VERSION 3 19 0 then kget e ''msghdr.msg_iov'' msg
         else kget e ''msghdr.msg_iter.iov'' msg) in
       modify (\<lambda>s. s\<lparr>tcp_recvmsg_active := SAVE_ARGS e ''tcp_recvmsg'' pid_tgid
         \<lparr>recv_sk = sk, recv_msg = msg, recv_len = len, recv_nonblock = nonblock, recv_flags = flags,
           recv_iov_base = kget e ''iovec.iov_base'' iov, recv_iov_len = kget e ''iovec.iov_len'' iov,
           recv_written = 0, recv_depth = 1\<rparr> (tcp_recvmsg_active s)\<rparr>))
   }"

definition delete_recvmsg_args :: "u64 \<Rightarrow> unit tprog" where
  "delete_recvmsg_args pid_tgid = modify (\<lambda>s. s\<lparr>tcp_recvmsg_active :=
     DELETE_ARGS pid_tgid (tcp_recvmsg_active s)\<rparr>)"

definition recv_to_copy :: "int \<Rightarrow> int" where
  "recv_to_copy remaining = (if remaining > 16383 then 16383 else remaining)"

definition continue_tcp_recvmsg_once :: "env \<Rightarrow> bool tprog" where
  "continue_tcp_recvmsg_once e = do {
     (pid_tgid, tgid, cpu) \<leftarrow> GET_PID_TGID e 50443;
     saved \<leftarrow> gets (\<lambda>s. GET_ARGS pid_tgid (tcp_recvmsg_active s));
     case saved of None \<Rightarrow> State_Monad.return False
     | Some args \<Rightarrow>
         if copied_count e \<le> 0 then do { delete_recvmsg_args pid_tgid; State_Monad.return False }
         else do {
           lookup \<leftarrow> lookup_tcp_connection (recv_sk args);
           if lookup = None then do { delete_recvmsg_args pid_tgid; State_Monad.return False }
           else (
             let data = recv_iov_base args + word_of_int (recv_written args);
                 remaining = copied_count e - recv_written args;
                 to_copy = recv_to_copy remaining in do {
               write_to_tcp_stream e (recv_sk args) ST_RECV data (word_of_int to_copy)
                 (tcp_recv_stream_handler e);
               (if to_copy = remaining \<or> recv_depth args = TCP_TAIL_CALL_MAX_DEPTH
                then do { delete_recvmsg_args pid_tgid; State_Monad.return False }
                else do {
                  modify (\<lambda>s. s\<lparr>tcp_recvmsg_active := (tcp_recvmsg_active s)(pid_tgid \<mapsto>
                    args\<lparr>recv_written := recv_written args + to_copy, recv_depth := recv_depth args + 1\<rparr>)\<rparr>);
                  State_Monad.return True
                })
             })
         }
   }"

definition handle_kretprobe__tcp_recvmsg :: "env \<Rightarrow> unit tprog" where
  "handle_kretprobe__tcp_recvmsg e = 
     (if max_tail_calls e = 0 then skip else tail_loop (continue_tcp_recvmsg_once e) (max_tail_calls e - 1))"

section \<open>Writing to a watched stream\<close>

lemma holds_sub:
  assumes "holds e p M" "w + k \<le> length M"
  shows "holds e (p + of_nat w) (take k (drop w M))"
  unfolding holds_def
proof (intro allI impI)
  fix i j assume "0 < j \<and> i + j \<le> length (take k (drop w M))"
  then have ij: "0 < j" "i + j \<le> k" using assms(2) by auto
  then have "kmem e (p + of_nat (w + i)) j = (0, take j (drop (w + i) M))"
    using assms(2) by (intro assms(1) [unfolded holds_def, rule_format]) simp
  with ij show "kmem e (p + of_nat w + of_nat i) j = (0, take j (drop i (take k (drop w M))))"
    by (simp add: ac_simps drop_take min_absorb1)
qed

lemma stream_handler_data:
  assumes "enable_tcp_data_stream e" "h = tcp_send_stream_handler e \<or> h = tcp_recv_stream_handler e"
  obtains is_server where
    "run_state (h sk key st data n) s = run_state (tcp_events_submit_tcp_data e sk st is_server data n) s"
  using assms that
  by (cases "case tcp_connections s sk of None \<Rightarrow> False | Some c \<Rightarrow> parent_sk c \<noteq> 0")
    (auto simp: tcp_send_stream_handler_def tcp_recv_stream_handler_def tcp_client_handler_def
      tcp_server_handler_def is_accepted_def)

text \<open>
  In data-stream mode a write of bytes that lie beyond the window's start reaches the data channel
  whole and advances the stream's total by its length.
\<close>

lemma write_stream_data:
  assumes "enable_tcp_data_stream e" "h = tcp_send_stream_handler e \<or> h = tcp_recv_stream_handler e"
    and "tcp_connections s sk = Some c" "tcp_control s (conn_sk c) = Some ctrl"
    and "unat (start (ctrl st)) \<le> unat (total (streams c st))"
    and "unat (total (streams c st)) + length B < 2 ^ 64" "length B \<le> 16383"
    and "holds e p B"
  shows "\<exists>n g ms evs. carry ms B \<and>
    run_state (write_to_tcp_stream e sk st p (of_nat (length B)) h) s = ((), s\<lparr>
      ktime_reads := n, bpf_log_globals := g, events := events s @ evs,
      tcp_connections := (tcp_connections s)(sk \<mapsto> upd_total st (\<lambda>t. t + of_nat (length B)) c),
      data_channel := data_channel s @ ms\<rparr>)"
proof -
  let ?n = "length B"
  have n: "unat (of_nat ?n :: u64) = ?n" using assms(7) by (simp add: unat_of_nat)
  have sum: "unat (total (streams c st) + of_nat ?n) = unat (total (streams c st)) + ?n"
    using assms(6) by (simp add: unat_word_ariths n)
  have lt: "\<not> total (streams c st) < start (ctrl st)" using assms(5) by (simp add: word_less_nat_alt)
  show ?thesis
  proof (cases "total (streams c st) + of_nat ?n \<le> start (ctrl st)")
    case True
    with sum assms(5) have "length B = 0" unfolding word_le_nat_alt by linarith
    then have "B = []" by simp
    with True assms(3,4) show ?thesis
      by (intro exI [of _ "ktime_reads s"] exI [of _ "bpf_log_globals s"] exI [of _ "[]"])
        (simp add: write_to_tcp_stream_def lookup_tcp_connection_def get_tcp_control_def Let_def)
  next
    case False
    have len: "length B = min (unat (ucast (of_nat ?n :: u64) :: u32)) 16383"
      using assms(7) by (simp add: ucast_of_nat_down unat_of_nat)
    obtain is_server where h: "run_state (h sk (conn_sk c) st p (of_nat ?n)) s =
        run_state (tcp_events_submit_tcp_data e sk st is_server p (of_nat ?n)) s"
      by (rule stream_handler_data [OF assms(1,2)])
    obtain n g ms evs where "carry ms B" "run_state (tcp_events_submit_tcp_data e sk st is_server p (of_nat ?n)) s =
        ((), s\<lparr>ktime_reads := n, bpf_log_globals := g, events := events s @ evs, data_channel := data_channel s @ ms\<rparr>)"
      using run_tcp_data [OF assms(8) len assms(3), of st is_server] by blast
    with h False lt assms(3,4) show ?thesis
      by (intro exI [of _ n] exI [of _ g] exI [of _ ms] exI [of _ evs])
        (simp add: write_to_tcp_stream_def lookup_tcp_connection_def get_tcp_control_def Let_def)
  qed
qed

section \<open>Receiving\<close>

abbreviation recv_total :: "tcp_connection_t \<Rightarrow> nat" where
  "recv_total c \<equiv> unat (total (streams c ST_RECV))"

text \<open>
  The state of the receive loop after \<open>w\<close> of the bytes \<open>M\<close>, before its \<open>d\<close>-th pass, started from a
  data channel \<open>D\<close> and a stream total \<open>T\<close>.
\<close>

definition receiving ::
    "env \<Rightarrow> recvmsg_args \<Rightarrow> u8 list \<Rightarrow> (u64 \<times> u8 list) list \<Rightarrow> nat \<Rightarrow> nat \<Rightarrow> nat \<Rightarrow> tcpp \<Rightarrow> bool" where
  "receiving e args M D T w d s \<longleftrightarrow>
     tcp_recvmsg_active s (current_pid_tgid e) = Some (args\<lparr>recv_written := int w, recv_depth := d\<rparr>) \<and>
     (\<exists>c ctrl ms. tcp_connections s (recv_sk args) = Some c \<and> tcp_control s (conn_sk c) = Some ctrl \<and>
       unat (start (ctrl ST_RECV)) \<le> T \<and> recv_total c = T + w \<and>
       data_channel s = D @ ms \<and> carry ms (take w M))"

definition received ::
    "env \<Rightarrow> recvmsg_args \<Rightarrow> u8 list \<Rightarrow> (u64 \<times> u8 list) list \<Rightarrow> nat \<Rightarrow> nat \<Rightarrow> tcpp \<Rightarrow> bool" where
  "received e args M D T w s \<longleftrightarrow> tcp_recvmsg_active s (current_pid_tgid e) = None \<and>
     (\<exists>c ms. tcp_connections s (recv_sk args) = Some c \<and> recv_total c = T + w \<and>
       data_channel s = D @ ms \<and> carry ms (take w M))"

lemma recv_pass:
  assumes "receiving e args M D T w d s" and e: "enable_tcp_data_stream e"
    and M: "holds e (recv_iov_base args) M" "copied_count e = int (length M)" "w < length M"
      "T + length M < 2 ^ 64"
    and w': "w' = w + min 16383 (length M - w)"
  shows "\<exists>s'. run_state (continue_tcp_recvmsg_once e) s = (w' < length M \<and> d \<noteq> 8, s') \<and>
    (if w' < length M \<and> d \<noteq> 8 then receiving e args M D T w' (Suc d) s' else received e args M D T w' s')"
proof -
  let ?pt = "current_pid_tgid e"
  define k where "k = min 16383 (length M - w)"
  have k: "0 < k" "k \<le> 16383" "w + k \<le> length M" "w' = w + k" using M(3) by (auto simp: k_def w')
  let ?B = "take k (drop w M)"
  obtain c ctrl ms where c: "tcp_recvmsg_active s ?pt = Some (args\<lparr>recv_written := int w, recv_depth := d\<rparr>)"
    "tcp_connections s (recv_sk args) = Some c" "tcp_control s (conn_sk c) = Some ctrl"
    "unat (start (ctrl ST_RECV)) \<le> T" "recv_total c = T + w" "data_channel s = D @ ms" "carry ms (take w M)"
    using assms(1) unfolding receiving_def by blast
  obtain s1 where s1: "run_state (GET_PID_TGID e 50443) s =
      ((?pt, TGID_FROM_PID_TGID ?pt, ucast (smp_processor_id e)), s1)" "log_frame s s1" by (rule run_GET_PID_TGID)
  obtain n1 g1 evs1 where s1': "s1 = s\<lparr>ktime_reads := n1, bpf_log_globals := g1, events := events s @ evs1\<rparr>"
    using s1(2) by (rule log_frameE)
  have B: "length ?B = k" using k by simp
  have hB: "holds e (recv_iov_base args + of_nat w) ?B" by (rule holds_sub [OF M(1) k(3)])
  have prem: "tcp_connections s1 (recv_sk args) = Some c" "tcp_control s1 (conn_sk c) = Some ctrl"
    "unat (start (ctrl ST_RECV)) \<le> recv_total c" "recv_total c + length ?B < 2 ^ 64"
    "length ?B \<le> 16383" using c k M(4) by (simp_all add: s1' B)
  obtain n g ms' evs where ws: "carry ms' ?B"
    "run_state (write_to_tcp_stream e (recv_sk args) ST_RECV (recv_iov_base args + of_nat w) (of_nat k)
      (tcp_recv_stream_handler e)) s1 = ((), s1\<lparr>ktime_reads := n, bpf_log_globals := g, events := events s1 @ evs,
        tcp_connections := (tcp_connections s1)(recv_sk args \<mapsto> upd_total ST_RECV (\<lambda>t. t + of_nat k) c),
        data_channel := data_channel s1 @ ms'\<rparr>)"
    using write_stream_data [OF e disjI2 [OF refl] prem hB] unfolding B by blast
  have cat: "carry (ms @ ms') (take w' M)"
    using carry_append [OF c(7) ws(1)] by (simp add: k(4) take_add)
  have tot: "recv_total (upd_total ST_RECV (\<lambda>t. t + of_nat k) c) = T + w'"
    "conn_sk (upd_total ST_RECV (\<lambda>t. t + of_nat k) c) = conn_sk c"
    using prem(4) c(5) k by (simp_all add: upd_total_def unat_word_ariths B unat_of_nat)
  have copied: "\<not> copied_count e \<le> 0" "recv_to_copy (copied_count e - int w) = int k"
    "int k = copied_count e - int w \<longleftrightarrow> \<not> w' < length M" "int w + int k = int w'"
    using M(2,3) k by (auto simp: recv_to_copy_def k_def)
  note facts = c s1(1) ws(2) copied cat tot
  show ?thesis
  proof (cases "w' < length M \<and> d \<noteq> 8")
    case True
    with facts show ?thesis
      by (simp add: continue_tcp_recvmsg_once_def lookup_tcp_connection_def Let_def s1' receiving_def
          TCP_TAIL_CALL_MAX_DEPTH_def)
  next
    case False
    with facts show ?thesis
      by (auto simp: continue_tcp_recvmsg_once_def lookup_tcp_connection_def Let_def s1' received_def
          TCP_TAIL_CALL_MAX_DEPTH_def delete_recvmsg_args_def)
  qed
qed

lemma recv_loop:
  assumes "enable_tcp_data_stream e" "holds e (recv_iov_base args) M" "copied_count e = int (length M)"
    and "T + length M < 2 ^ 64"
    and "receiving e args M D T w d s" "w < length M" "d \<le> 8" "8 \<le> d + n"
  shows "\<exists>s'. run_state (tail_loop (continue_tcp_recvmsg_once e) n) s = ((), s') \<and>
    received e args M D T (min (length M) (w + (9 - d) * 16383)) s'"
  using assms(5-8)
proof (induction n arbitrary: w d s)
  case 0
  then have d: "d = 8" by simp
  obtain s' where s': "run_state (continue_tcp_recvmsg_once e) s = (False, s')"
    "received e args M D T (w + min 16383 (length M - w)) s'"
    using recv_pass [OF 0(1) assms(1-3) 0(2) assms(4) refl] d by auto
  moreover have "w + min 16383 (length M - w) = min (length M) (w + 16383)" using 0(2) by auto
  ultimately show ?case by (simp add: d)
next
  case (Suc n)
  let ?w = "w + min 16383 (length M - w)"
  obtain s' where s': "run_state (continue_tcp_recvmsg_once e) s = (?w < length M \<and> d \<noteq> 8, s')"
    "if ?w < length M \<and> d \<noteq> 8 then receiving e args M D T ?w (Suc d) s' else received e args M D T ?w s'"
    using recv_pass [OF Suc.prems(1) assms(1-3) Suc.prems(2) assms(4) refl] by blast
  show ?case
  proof (cases "?w < length M \<and> d \<noteq> 8")
    case True
    then have w: "?w = w + 16383" by auto
    obtain s'' where s'': "run_state (tail_loop (continue_tcp_recvmsg_once e) n) s' = ((), s'')"
      "received e args M D T (min (length M) (?w + (9 - Suc d) * 16383)) s''"
      using Suc.IH [of ?w "Suc d" s'] s'(2) True Suc.prems(3,4) by auto
    have "?w + (9 - Suc d) * 16383 = w + (9 - d) * 16383"
      using True Suc.prems(3) unfolding w by (simp add: algebra_simps)
    with s''(2) have "received e args M D T (min (length M) (w + (9 - d) * 16383)) s''" by (simp only:)
    with s''(1) s'(1) True show ?thesis by simp
  next
    case False
    have "d \<le> 8" using Suc.prems by simp
    then have "16383 \<le> (9 - d) * 16383" by simp
    then have "?w = min (length M) (w + (9 - d) * 16383)"
      using False Suc.prems(2) by (cases "d = 8") auto
    with s'(2) False have "received e args M D T (min (length M) (w + (9 - d) * 16383)) s'" by (simp only: if_False)
    with s'(1) False show ?thesis by simp
  qed
qed

text \<open>
  Where the kernel puts what it has received: the bytes \<open>R\<close> fill the segments of the message one
  after the other, each a base address and a length.
\<close>

primrec scattered :: "env \<Rightarrow> (u64 \<times> nat) list \<Rightarrow> u8 list \<Rightarrow> bool" where
  "scattered e [] R = (R = [])"
| "scattered e (sg # sgs) R = (holds e (fst sg) (take (snd sg) R) \<and> scattered e sgs (drop (snd sg) R))"

lemma holds_prefix:
  assumes "holds e p M" "holds e p N" "length N \<le> length M"
  shows "N = take (length N) M"
proof (cases "N = []")
  case False
  then show ?thesis
    using assms(1) [unfolded holds_def, rule_format, of "length N" 0]
      assms(2) [unfolded holds_def, rule_format, of "length N" 0] assms(3) by simp
qed simp

text \<open>
  C19. What the probes on \<^verbatim>\<open>tcp_recvmsg\<close> ship of the bytes \<open>R\<close> that the process receives into the
  segments of its message. When the call returns, the chain of tail calls ends, the data channel has
  been extended by messages that carry a string \<open>N\<close> with as many bytes as were received (8 * 16383 at
  most), the stream's total has advanced by as many, and the saved arguments are gone. \<open>N\<close> is read from
  the base of the first segment on, whose length the code saves but does not use: it agrees with the
  received bytes on the first segment, and is all of what was received (up to the 8 * 16383 bytes) when
  that fits the first segment. Beyond it \<open>N\<close> is what lies in memory behind the first segment, here \<open>M\<close>.
\<close>

theorem recvmsg_delivers:
  assumes "enable_tcp_data_stream e" "8 \<le> max_tail_calls e"
    and "tcp_recvmsg_active s (current_pid_tgid e) = Some args" "recv_written args = 0" "recv_depth args = 1"
    and "tcp_connections s (recv_sk args) = Some c" "tcp_control s (conn_sk c) = Some ctrl"
    and "unat (start (ctrl ST_RECV)) \<le> recv_total c"
    and "scattered e ((recv_iov_base args, unat (recv_iov_len args)) # sgs) R" "copied_count e = int (length R)" "R \<noteq> []"
    and "holds e (recv_iov_base args) M" "length M = length R"
    and "recv_total c + length R < 2 ^ 64"
  defines "n \<equiv> unat (recv_iov_len args)"
  shows "\<exists>s' c' ms N. run_state (handle_kretprobe__tcp_recvmsg e) s = ((), s') \<and>
    data_channel s' = data_channel s @ ms \<and> carry ms N \<and> N = take (8 * 16383) M \<and>
    take n N = take n (take (8 * 16383) R) \<and> (length R \<le> n \<longrightarrow> N = take (8 * 16383) R) \<and>
    tcp_connections s' (recv_sk args) = Some c' \<and>
    recv_total c' = recv_total c + min (length R) (8 * 16383) \<and>
    tcp_recvmsg_active s' (current_pid_tgid e) = None"
proof -
  have args: "args\<lparr>recv_written := int 0, recv_depth := 1\<rparr> = args"
    using assms(4,5) by (cases args) simp
  have "receiving e args M (data_channel s) (recv_total c) 0 1 s"
    unfolding receiving_def args using assms(3,6-8) by simp
  then obtain s' where s': "run_state (tail_loop (continue_tcp_recvmsg_once e) (max_tail_calls e - 1)) s = ((), s')"
    "received e args M (data_channel s) (recv_total c) (min (length R) (8 * 16383)) s'"
    using recv_loop [OF assms(1,12), of "recv_total c" "data_channel s" 0 1 s "max_tail_calls e - 1"] assms(2,10,11,13,14)
    by (auto simp: assms(13) simp flip: length_greater_0_conv)
  have "holds e (recv_iov_base args) (take n R)" using assms(9) by (simp add: n_def)
  from holds_prefix [OF assms(12) this] have first: "take n R = take n M" using assms(13) by (simp add: min_def split: if_splits)
  have "take n (take k L) = take k (take n L)" for k and L :: "u8 list" by (simp add: min.commute)
  with first have pre: "take n (take k M) = take n (take k R)" for k by metis
  have all: "length R \<le> n \<longrightarrow> M = R" using first assms(13) by (metis take_all)
  have cut: "take (min (length R) k) M = take k M" for k using assms(13) by (simp add: min_def)
  obtain c' ms where "tcp_recvmsg_active s' (current_pid_tgid e) = None" "tcp_connections s' (recv_sk args) = Some c'"
    "recv_total c' = recv_total c + min (length R) (8 * 16383)" "data_channel s' = data_channel s @ ms"
    "carry ms (take (8 * 16383) M)" using s'(2) unfolding received_def cut by blast
  moreover have "run_state (handle_kretprobe__tcp_recvmsg e) s = ((), s')"
    using assms(2) s'(1) by (simp add: handle_kretprobe__tcp_recvmsg_def)
  ultimately show ?thesis using pre all by blast
qed

text \<open>
  Two receives: 40000 bytes into one segment, and the bytes 1 and 2 into two segments of one byte each,
  of which the second is not shipped, but the byte 9 that lies behind the first.
\<close>

definition recv_demo :: "recvmsg_args \<Rightarrow> tcpp" where
  "recv_demo args = \<lparr>ktime_reads = 0, bpf_log_globals = log_globals0, events = [],
     tcp_connections = [5 \<mapsto> zero_connection 5 100], tcp_control = [5 \<mapsto> enabled_control],
     inet_csk_accept_active = Map.empty, tcp_recvmsg_active = [0x6400000065 \<mapsto> args],
     tcp_sendmsg_active = Map.empty, data_channel = []\<rparr>"

definition recv_demo_args :: "u64 \<Rightarrow> recvmsg_args" where
  "recv_demo_args n = \<lparr>recv_sk = 5, recv_msg = 0, recv_len = n, recv_nonblock = 0, recv_flags = 0,
     recv_iov_base = 4096, recv_iov_len = n, recv_written = 0, recv_depth = 1\<rparr>"

definition recv_demo_env :: "(u64 \<Rightarrow> u8) \<Rightarrow> u64 \<Rightarrow> env" where
  "recv_demo_env byte rc = env0\<lparr>kmem := \<lambda>p n. (0, map (\<lambda>i. byte (p + of_nat i)) [0..<n]),
     enable_tcp_data_stream := True, regs_rc := rc\<rparr>"

lemma recv_demo_holds: "holds (recv_demo_env byte rc) p (map (\<lambda>i. byte (p + of_nat i)) [0..<n])"
  by (auto simp: holds_def recv_demo_env_def drop_map take_map add.assoc intro!: nth_equalityI)

lemma recv_demo_sel [simp]:
  "enable_tcp_data_stream (recv_demo_env byte rc)" "8 \<le> max_tail_calls (recv_demo_env byte rc)"
  "current_pid_tgid (recv_demo_env byte rc) = 0x6400000065"
  "copied_count (recv_demo_env byte rc) = sint (ucast rc :: u32)"
  by (simp_all add: recv_demo_env_def env0_def copied_count_def)

theorem recvmsg_delivers_witness:
  "(\<exists>s' ms. run_state (handle_kretprobe__tcp_recvmsg (recv_demo_env (\<lambda>p. 7) 40000)) (recv_demo (recv_demo_args 50000)) = ((), s') \<and>
      data_channel s' = ms \<and> carry ms (replicate 40000 7)) \<and>
   (let byte = (\<lambda>p. if p = 4096 then 1 else if p = 8192 then 2 else 9)
    in scattered (recv_demo_env byte 2) [(4096, 1), (8192, 1)] [1, 2] \<and>
      (\<exists>s' ms. run_state (handle_kretprobe__tcp_recvmsg (recv_demo_env byte 2)) (recv_demo (recv_demo_args 1)) = ((), s') \<and>
        data_channel s' = ms \<and> carry ms [1, 9]))"
proof -
  let ?byte = "\<lambda>p. if p = 4096 then 1 else if p = 8192 then 2 else 9 :: u8"
  note sel = recv_demo_def recv_demo_args_def zero_connection_def enabled_control_def
  have h: "holds (recv_demo_env (\<lambda>p. 7) 40000) 4096 (replicate 40000 7)"
    using recv_demo_holds [of "\<lambda>p. 7" 40000 4096 40000] by (simp add: map_replicate_const)
  have h2: "holds (recv_demo_env ?byte 2) 4096 [1, 9]" "holds (recv_demo_env ?byte 2) 4096 [1]" "holds (recv_demo_env ?byte 2) 8192 [2]"
    using recv_demo_holds [of ?byte 2 4096 2] recv_demo_holds [of ?byte 2 4096 1] recv_demo_holds [of ?byte 2 8192 1]
    by (simp_all add: upt_rec)
  have one: "\<exists>s' ms. run_state (handle_kretprobe__tcp_recvmsg (recv_demo_env (\<lambda>p. 7) 40000)) (recv_demo (recv_demo_args 50000)) = ((), s') \<and>
      data_channel s' = ms \<and> carry ms (replicate 40000 7)"
    using recvmsg_delivers [of "recv_demo_env (\<lambda>p. 7) 40000" "recv_demo (recv_demo_args 50000)" "recv_demo_args 50000"
      "zero_connection 5 100" enabled_control "[]" "replicate 40000 7" "replicate 40000 7"] h
    by (simp add: sel) blast
  have two: "scattered (recv_demo_env ?byte 2) [(4096, 1), (8192, 1)] [1, 2]" using h2 by simp
  moreover have "\<exists>s' ms. run_state (handle_kretprobe__tcp_recvmsg (recv_demo_env ?byte 2)) (recv_demo (recv_demo_args 1)) = ((), s') \<and>
      data_channel s' = ms \<and> carry ms [1, 9]"
    using recvmsg_delivers [of "recv_demo_env ?byte 2" "recv_demo (recv_demo_args 1)" "recv_demo_args 1"
      "zero_connection 5 100" enabled_control "[(8192, 1)]" "[1, 2]" "[1, 9]"] h2
    by (simp add: sel) blast
  ultimately show ?thesis using one unfolding Let_def by blast
qed

section \<open>Sending\<close>

abbreviation send_total :: "tcp_connection_t \<Rightarrow> nat" where
  "send_total c \<equiv> unat (total (streams c ST_SEND))"

text \<open>The array of segments at \<open>p\<close>: its entries and the bytes they point to.\<close>

primrec iovecs :: "env \<Rightarrow> u64 \<Rightarrow> (u64 \<times> u8 list) list \<Rightarrow> bool" where
  "iovecs e p [] = True"
| "iovecs e p (sg # sgs) = (kread e ''iovec.iov_base'' p = (0, fst sg) \<and>
     kread e ''iovec.iov_len'' p = (0, of_nat (length (snd sg))) \<and> length (snd sg) < 2 ^ 64 \<and>
     holds e (fst sg) (snd sg) \<and> iovecs e (p + iovec_size e) sgs)"

text \<open>
  What \<open>d\<close> passes copy of the current segment's rest \<open>b\<close> and the further segments \<open>bs\<close>, when \<open>r\<close>
  bytes are still to be copied.
\<close>

primrec send_plan :: "nat \<Rightarrow> nat \<Rightarrow> u8 list \<Rightarrow> u8 list list \<Rightarrow> u8 list" where
  "send_plan 0 r b bs = []"
| "send_plan (Suc d) r b bs = (case (if b = [] then bs else b # bs) of [] \<Rightarrow> []
     | c # cs \<Rightarrow> (let k = min 16383 (min r (length c)) in
         take k c @ (if k = r then [] else send_plan d (r - k) (drop k c) cs)))"

definition sending ::
    "env \<Rightarrow> u64 \<Rightarrow> (u64 \<times> u8 list) list \<Rightarrow> nat \<Rightarrow> u8 list \<Rightarrow> u8 list \<Rightarrow> (u64 \<times> u8 list) list \<Rightarrow> nat \<Rightarrow> tcpp \<Rightarrow> bool" where
  "sending e sk D T out b segs d s \<longleftrightarrow>
     (\<exists>args. tcp_sendmsg_active s (current_pid_tgid e) = Some args \<and> send_sk args = sk \<and>
       iov_len args = of_nat (length b) \<and> length b < 2 ^ 64 \<and> iov_offset args = 0 \<and>
       nr_segs args = of_nat (length segs) \<and> length segs < 2 ^ 64 \<and>
       written args = int (length out) \<and> depth args = d \<and>
       iovecs e (iov args) segs \<and> holds e (iov_ptr args) b) \<and>
     (\<exists>c ctrl ms. tcp_connections s sk = Some c \<and> tcp_control s (conn_sk c) = Some ctrl \<and>
       unat (start (ctrl ST_SEND)) \<le> T \<and> send_total c = T + length out \<and>
       data_channel s = D @ ms \<and> carry ms out)"

definition sent :: "env \<Rightarrow> u64 \<Rightarrow> (u64 \<times> u8 list) list \<Rightarrow> nat \<Rightarrow> u8 list \<Rightarrow> tcpp \<Rightarrow> bool" where
  "sent e sk D T out s \<longleftrightarrow> tcp_sendmsg_active s (current_pid_tgid e) = None \<and>
     (\<exists>c ms. tcp_connections s sk = Some c \<and> send_total c = T + length out \<and>
       data_channel s = D @ ms \<and> carry ms out)"

text \<open>Loading the next segment when the current one is used up.\<close>

lemma sending_next:
  assumes "tcp_sendmsg_active s (current_pid_tgid e) = Some args" "iov_len args = of_nat (length b)" "length b < 2 ^ 64"
    "iov_offset args = 0" "nr_segs args = of_nat (length segs)" "length segs < 2 ^ 64"
    "iovecs e (iov args) segs" "holds e (iov_ptr args) b"
  shows "(b = [] \<and> segs = [] \<and> next_iovec e args = None) \<or>
    (\<exists>b' segs' args'. (if b = [] then map snd segs else b # map snd segs) = b' # map snd segs' \<and>
      next_iovec e args = Some args' \<and> iov_len args' = of_nat (length b') \<and> length b' < 2 ^ 64 \<and>
      iov_offset args' = 0 \<and> nr_segs args' = of_nat (length segs') \<and> length segs' < 2 ^ 64 \<and>
      send_sk args' = send_sk args \<and> written args' = written args \<and> depth args' = depth args \<and>
      iovecs e (iov args') segs' \<and> holds e (iov_ptr args') b')"
proof (cases b)
  case (Cons x b')
  have "unat (iov_len args) = length b" using assms(2,3) by (simp add: unat_of_nat)
  with Cons have "iov_len args \<noteq> 0" by auto
  with Cons assms show ?thesis by (auto simp: next_iovec_def)
next
  case Nil
  then have z: "iov_len args = 0" using assms(2) by simp
  show ?thesis
  proof (cases segs)
    case Nil
    with z \<open>b = []\<close> assms(5) show ?thesis by (simp add: next_iovec_def)
  next
    case (Cons sg segs')
    have "unat (nr_segs args) = Suc (length segs')" using assms(5,6) Cons by (simp only: unat_of_nat) simp
    then have nr: "nr_segs args > 0" by (simp add: word_less_nat_alt)
    have "nr_segs args - 1 = of_nat (length segs')" using assms(5) Cons by simp
    with nr Cons z \<open>b = []\<close> assms show ?thesis
      by (intro disjI2 exI [of _ "snd sg"] exI [of _ segs']) (simp add: next_iovec_def kget_def probe_read_def)
  qed
qed

lemma send_to_copy_nat:
  assumes "copied_count e = int N" "written args = int w" "w < N" "iov_len args = of_nat (length b)" "length b < 2 ^ 64"
  shows "send_to_copy e args = int (min 16383 (min (N - w) (length b)))"
proof -
  let ?m = "min 16383 (N - w)"
  have m: "(if copied_count e - written args > 16383 then 16383 else copied_count e - written args) = int ?m"
    using assms by auto
  have "unat (of_nat ?m :: u64) = ?m" "unat (of_nat (length b) :: u64) = length b"
    using assms(5) by (simp_all add: unat_of_nat)
  then have less: "(of_nat (length b) :: u64) < of_nat ?m \<longleftrightarrow> length b < ?m" by (simp add: word_less_nat_alt)
  have sb: "sint (ucast (of_nat (length b) :: u64) :: u32) = int (length b)" if "length b < ?m"
    using that by (simp add: ucast_of_nat_down sint_of_nat32)
  show ?thesis
    unfolding send_to_copy_def Let_def m assms(4) of_int_of_nat_eq less using sb
    by (cases "length b < ?m") auto
qed

lemma send_pass:
  assumes "sending e sk D T out b segs d s" and e: "enable_tcp_data_stream e"
    and N: "copied_count e = int N" "length out < N" "T + N < 2 ^ 64"
  shows "(b = [] \<and> segs = [] \<and> (\<exists>s'. run_state (continue_tcp_sendmsg_once e) s = (False, s') \<and> sent e sk D T out s')) \<or>
    (\<exists>b' segs' k s'. (if b = [] then map snd segs else b # map snd segs) = b' # map snd segs' \<and>
      k = min 16383 (min (N - length out) (length b')) \<and>
      run_state (continue_tcp_sendmsg_once e) s = (k \<noteq> N - length out \<and> d \<noteq> 8, s') \<and>
      (if k \<noteq> N - length out \<and> d \<noteq> 8 then sending e sk D T (out @ take k b') (drop k b') segs' (Suc d) s'
       else sent e sk D T (out @ take k b') s'))"
proof -
  let ?pt = "current_pid_tgid e"
  obtain args where a: "tcp_sendmsg_active s ?pt = Some args" "send_sk args = sk" "iov_len args = of_nat (length b)"
    "length b < 2 ^ 64" "iov_offset args = 0" "nr_segs args = of_nat (length segs)" "length segs < 2 ^ 64"
    "written args = int (length out)" "depth args = d" "iovecs e (iov args) segs" "holds e (iov_ptr args) b"
    using assms(1) unfolding sending_def by blast
  obtain c ctrl ms where c: "tcp_connections s sk = Some c" "tcp_control s (conn_sk c) = Some ctrl"
    "unat (start (ctrl ST_SEND)) \<le> T" "send_total c = T + length out" "data_channel s = D @ ms" "carry ms out"
    using assms(1) unfolding sending_def by blast
  obtain s1 where s1: "run_state (GET_PID_TGID e 50233) s =
      ((?pt, TGID_FROM_PID_TGID ?pt, ucast (smp_processor_id e)), s1)" "log_frame s s1" by (rule run_GET_PID_TGID)
  obtain n1 g1 evs1 where s1': "s1 = s\<lparr>ktime_reads := n1, bpf_log_globals := g1, events := events s @ evs1\<rparr>"
    using s1(2) by (rule log_frameE)
  have pos: "\<not> copied_count e \<le> 0" using N(1,2) by simp
  note once = continue_tcp_sendmsg_once_def lookup_tcp_connection_def delete_sendmsg_args_def Let_def
    TCP_TAIL_CALL_MAX_DEPTH_def
  from sending_next [OF a(1,3-7,10,11)] show ?thesis
  proof (elim disjE exE conjE)
    assume "b = []" "segs = []" "next_iovec e args = None"
    with a(1,2) c s1(1) pos show ?thesis by (auto simp: once s1' sent_def)
  next
    fix b' segs' args'
    assume b': "(if b = [] then map snd segs else b # map snd segs) = b' # map snd segs'"
      "next_iovec e args = Some args'" "iov_len args' = of_nat (length b')" "length b' < 2 ^ 64" "iov_offset args' = 0"
      "nr_segs args' = of_nat (length segs')" "length segs' < 2 ^ 64" "send_sk args' = send_sk args"
      "written args' = written args" "depth args' = depth args" "iovecs e (iov args') segs'" "holds e (iov_ptr args') b'"
    define k where "k = min 16383 (min (N - length out) (length b'))"
    have k: "k \<le> 16383" "length out + k \<le> N" "k \<le> length b'" using N(2) by (auto simp: k_def)
    let ?B = "take k b'"
    have B: "length ?B = k" using k by simp
    have hB: "holds e (iov_ptr args') ?B" using holds_sub [OF b'(12), of 0 k] k(3) by simp
    have hR: "holds e (iov_ptr args' + of_nat k) (drop k b')"
      using holds_sub [OF b'(12), of k "length b' - k"] k(3) by simp
    have prem: "tcp_connections s1 sk = Some c" "tcp_control s1 (conn_sk c) = Some ctrl"
      "unat (start (ctrl ST_SEND)) \<le> send_total c" "send_total c + length ?B < 2 ^ 64" "length ?B \<le> 16383"
      using c k N(3) by (simp_all add: s1' B)
    obtain n g ms' evs where ws: "carry ms' ?B"
      "run_state (write_to_tcp_stream e sk ST_SEND (iov_ptr args') (of_nat k) (tcp_send_stream_handler e)) s1 =
        ((), s1\<lparr>ktime_reads := n, bpf_log_globals := g, events := events s1 @ evs,
          tcp_connections := (tcp_connections s1)(sk \<mapsto> upd_total ST_SEND (\<lambda>t. t + of_nat k) c),
          data_channel := data_channel s1 @ ms'\<rparr>)"
      using write_stream_data [OF e disjI1 [OF refl] prem hB] unfolding B by blast
    have cat: "carry (ms @ ms') (out @ ?B)" by (rule carry_append [OF c(6) ws(1)])
    have tot: "send_total (upd_total ST_SEND (\<lambda>t. t + of_nat k) c) = T + length (out @ ?B)"
      "conn_sk (upd_total ST_SEND (\<lambda>t. t + of_nat k) c) = conn_sk c"
      using prem(4) c(4) k by (simp_all add: upd_total_def unat_word_ariths B unat_of_nat)
    have copy: "send_to_copy e args' = int k"
      using send_to_copy_nat [OF N(1) _ N(2) b'(3,4)] b'(9) a(8) by (simp add: k_def)
    have eq: "int k = copied_count e - written args' \<longleftrightarrow> k = N - length out"
      using N(1,2) b'(9) a(8) by auto
    have len: "of_nat (length b') - of_nat k = (of_nat (length (drop k b')) :: u64)"
      using k(3) by (simp add: of_nat_diff)
    have "length (drop k b') < 2 ^ 64" using b'(4) by simp
    note facts = a(1,2,8,9) c(1-3,5) s1(1) ws(2) pos b'(2-11) cat tot copy eq len this hR
    have "\<exists>s'. run_state (continue_tcp_sendmsg_once e) s = (k \<noteq> N - length out \<and> d \<noteq> 8, s') \<and>
      (if k \<noteq> N - length out \<and> d \<noteq> 8 then sending e sk D T (out @ ?B) (drop k b') segs' (Suc d) s'
       else sent e sk D T (out @ ?B) s')"
    proof (cases "k \<noteq> N - length out \<and> d \<noteq> 8")
      case True
      with facts k(3) show ?thesis by (simp add: once s1' sending_def min_absorb2)
    next
      case False
      with facts show ?thesis by (auto simp: once s1' sent_def)
    qed
    with b'(1) k_def show ?thesis by blast
  qed
qed

lemma send_loop:
  assumes "enable_tcp_data_stream e" "copied_count e = int N" "T + N < 2 ^ 64"
    and "sending e sk D T out b segs d s" "length out < N" "d \<le> 8" "8 \<le> d + n"
  shows "\<exists>s'. run_state (tail_loop (continue_tcp_sendmsg_once e) n) s = ((), s') \<and>
    sent e sk D T (out @ send_plan (9 - d) (N - length out) b (map snd segs)) s'"
  using assms(4-7)
proof (induction n arbitrary: out b segs d s)
  case 0
  then have d: "d = 8" by simp
  from send_pass [OF 0(1) assms(1,2) 0(2) assms(3)] show ?case by (auto simp: d Let_def)
next
  case (Suc n)
  have d: "9 - d = Suc (8 - d)" using Suc.prems(3) by simp
  from send_pass [OF Suc.prems(1) assms(1,2) Suc.prems(2) assms(3)] show ?case
  proof (elim disjE exE conjE)
    fix b' segs' k s'
    assume b': "(if b = [] then map snd segs else b # map snd segs) = b' # map snd segs'"
      and k: "k = min 16383 (min (N - length out) (length b'))"
      and run: "run_state (continue_tcp_sendmsg_once e) s = (k \<noteq> N - length out \<and> d \<noteq> 8, s')"
      and s': "if k \<noteq> N - length out \<and> d \<noteq> 8 then sending e sk D T (out @ take k b') (drop k b') segs' (Suc d) s'
        else sent e sk D T (out @ take k b') s'"
    have plan: "send_plan (9 - d) (N - length out) b (map snd segs) = take k b' @
        (if k = N - length out then [] else send_plan (8 - d) (N - length out - k) (drop k b') (map snd segs'))"
      unfolding d send_plan.simps b' by (simp add: Let_def k)
    show ?case
    proof (cases "k \<noteq> N - length out \<and> d \<noteq> 8")
      case True
      have out: "length (out @ take k b') = length out + k" "length out + k < N" "9 - Suc d = 8 - d"
        using True k Suc.prems(2) by (auto simp: min_def split: if_splits)
      obtain s'' where "run_state (tail_loop (continue_tcp_sendmsg_once e) n) s' = ((), s'')"
        "sent e sk D T ((out @ take k b') @ send_plan (8 - d) (N - (length out + k)) (drop k b') (map snd segs')) s''"
        using Suc.IH [of "out @ take k b'" "drop k b'" segs' "Suc d" s'] True s' Suc.prems(3,4) out(2) unfolding out(1,3) by auto
      with run True show ?thesis by (auto simp: plan)
    next
      case False
      then have "send_plan (9 - d) (N - length out) b (map snd segs) = take k b'"
        unfolding plan using Suc.prems(3) by (cases "d = 8") auto
      with run False s' show ?thesis by auto
    qed
  qed (auto simp: d)
qed

text \<open>The plan is a prefix of what was sent, and all of it if eight passes are enough.\<close>

lemma send_plan_prefix: "prefix (send_plan d r b bs) (take r (b @ concat bs))"
proof (induction d arbitrary: r b bs)
  case (Suc d)
  show ?case
  proof (cases "if b = [] then bs else b # bs")
    case Nil
    then show ?thesis by simp
  next
    case (Cons c cs)
    define k where "k = min 16383 (min r (length c))"
    have k: "k \<le> r" "k \<le> length c" by (auto simp: k_def)
    have all: "b @ concat bs = c @ concat cs" using Cons by (auto split: if_splits)
    have "take r (c @ concat cs) = take k c @ take (r - k) (drop k c @ concat cs)"
      using k take_add [of k "r - k" "c @ concat cs"] by simp
    then show ?thesis
      using Suc [of "r - k" "drop k c" cs] Cons unfolding all by (auto simp: Let_def k_def [symmetric])
  qed
qed simp

definition passes :: "u8 list \<Rightarrow> nat" where
  "passes b = (if b = [] then 1 else (length b + 16382) div 16383)"

lemma passes_pos: "1 \<le> passes b"
proof -
  have "16383 \<le> length b + 16382" if "b \<noteq> []" using that by (cases b) simp_all
  then show ?thesis using div_le_mono [of 16383 "length b + 16382" 16383] by (auto simp: passes_def)
qed

lemma passes_step: "passes b = Suc (if drop (min 16383 (length b)) b = [] then 0 else passes (drop (min 16383 (length b)) b))"
proof (cases "16383 < length b")
  case True
  then have "b \<noteq> []" by auto
  moreover have "(length b + 16382) div 16383 = Suc ((length b - 16383 + 16382) div 16383)"
    using True by (simp add: le_div_geq)
  ultimately show ?thesis using True by (simp add: passes_def)
next
  case False
  then have "(length b + 16382) div 16383 = 1" if "b \<noteq> []"
    using that by (intro div_eqI [of _ _ _ "length b - 1"]) (cases b; simp)+
  with False show ?thesis by (simp add: passes_def)
qed

lemma send_plan_all:
  assumes "(if b = [] then 0 else passes b) + sum_list (map passes bs) \<le> d" "r \<le> length b + length (concat bs)" "0 < r"
  shows "send_plan d r b bs = take r (b @ concat bs)"
  using assms
proof (induction d arbitrary: r b bs)
  case 0
  then show ?case using passes_pos [of b] passes_pos [of "hd bs"] by (cases bs) (auto split: if_splits)
next
  case (Suc d)
  obtain c cs where cs: "(if b = [] then bs else b # bs) = c # cs"
    using Suc.prems by (cases "if b = [] then bs else b # bs") (auto split: if_splits)
  define k where "k = min 16383 (min r (length c))"
  have all: "b @ concat bs = c @ concat cs" using cs by (auto split: if_splits)
  have pc: "passes c + sum_list (map passes cs) \<le> Suc d" "r \<le> length c + length (concat cs)"
    using Suc.prems(1,2) cs by (auto split: if_splits)
  have "take r (c @ concat cs) = take k c @ take (r - k) (drop k c @ concat cs)"
    using take_add [of k "r - k" "c @ concat cs"] by (simp add: k_def)
  moreover have "send_plan d (r - k) (drop k c) cs = take (r - k) (drop k c @ concat cs)" if "k \<noteq> r"
  proof (rule Suc.IH)
    have "k = min 16383 (length c)" using that by (auto simp: k_def)
    then show "(if drop k c = [] then 0 else passes (drop k c)) + sum_list (map passes cs) \<le> d"
      using pc(1) passes_step [of c] by (simp only: add_Suc Suc_le_mono)
  qed (use that pc(2) in \<open>auto simp: k_def\<close>)
  ultimately show ?case unfolding all by (simp add: cs Let_def k_def [symmetric])
qed

text \<open>
  C20. What a process sends on a watched connection reaches user space: when \<^verbatim>\<open>tcp_sendmsg\<close> returns
  having accepted \<open>N\<close> bytes of a message made of the segments \<open>segs\<close> (and no offset into the first),
  the chain of tail calls ends with the saved arguments gone, and the data channel has been extended by
  messages that carry, in order, a prefix of those \<open>N\<close> bytes by which the stream's total advances; it is
  all of them whenever eight passes of at most 16383 bytes within a segment suffice.
\<close>

theorem sendmsg_delivers:
  assumes "enable_tcp_data_stream e" "8 \<le> max_tail_calls e"
    and "tcp_sendmsg_active s (current_pid_tgid e) = Some args"
      "iov_len args = 0" "iov_offset args = 0" "written args = 0" "depth args = 1"
    and "iovecs e (iov args) segs" "nr_segs args = of_nat (length segs)" "length segs < 2 ^ 64"
    and "tcp_connections s (send_sk args) = Some c" "tcp_control s (conn_sk c) = Some ctrl"
      "unat (start (ctrl ST_SEND)) \<le> send_total c"
    and "copied_count e = int N" "0 < N" "N \<le> length (concat (map snd segs))" "send_total c + N < 2 ^ 64"
  shows "\<exists>s' c' ms out. run_state (handle_kretprobe__tcp_sendmsg e) s = ((), s') \<and>
    tcp_sendmsg_active s' (current_pid_tgid e) = None \<and>
    data_channel s' = data_channel s @ ms \<and> carry ms out \<and>
    tcp_connections s' (send_sk args) = Some c' \<and> send_total c' = send_total c + length out \<and>
    prefix out (take N (concat (map snd segs))) \<and>
    (sum_list (map (passes \<circ> snd) segs) \<le> 8 \<longrightarrow> out = take N (concat (map snd segs)))"
proof -
  let ?out = "send_plan 8 N [] (map snd segs)"
  have "sending e (send_sk args) (data_channel s) (send_total c) [] [] segs 1 s"
    unfolding sending_def using assms(3-13) by (simp add: holds_def)
  then obtain s' where "run_state (tail_loop (continue_tcp_sendmsg_once e) (max_tail_calls e - 1)) s = ((), s')"
    "sent e (send_sk args) (data_channel s) (send_total c) ?out s'"
    using send_loop [OF assms(1,14,17), of "send_sk args" "data_channel s" "[]" "[]" segs 1 s "max_tail_calls e - 1"]
      assms(2,15) by auto
  moreover have "prefix ?out (take N (concat (map snd segs)))"
    using send_plan_prefix [of 8 N "[]" "map snd segs"] by simp
  moreover have "?out = take N (concat (map snd segs))" if "sum_list (map (passes \<circ> snd) segs) \<le> 8"
    using send_plan_all [of "[]" "map snd segs" 8 N] that assms(15,16) by simp
  ultimately show ?thesis using assms(2)
    by (auto simp: handle_kretprobe__tcp_sendmsg_def sent_def)
qed

theorem sendmsg_delivers_witness:
  "let e = env0\<lparr>kmem := \<lambda>p n. (0, replicate n 7), enable_tcp_data_stream := True, regs_rc := 50,
         kread := \<lambda>f p. (0, if f = ''iovec.iov_base'' then p else 30)\<rparr>;
       args = \<lparr>send_sk = 5, send_msg = 0, send_size = 60, iov = 4096, iov_ptr = 0, iov_len = 0,
         iov_offset = 0, nr_segs = 2, written = 0, depth = 1\<rparr>;
       s = \<lparr>ktime_reads = 0, bpf_log_globals = log_globals0, events = [],
         tcp_connections = [5 \<mapsto> zero_connection 5 100], tcp_control = [5 \<mapsto> enabled_control],
         inet_csk_accept_active = Map.empty, tcp_recvmsg_active = Map.empty,
         tcp_sendmsg_active = [0x6400000065 \<mapsto> args], data_channel = []\<rparr>
   in \<exists>s' ms. run_state (handle_kretprobe__tcp_sendmsg e) s = ((), s') \<and>
     data_channel s' = ms \<and> carry ms (replicate 50 7)"
proof -
  let ?e = "env0\<lparr>kmem := \<lambda>p n. (0, replicate n 7), enable_tcp_data_stream := True, regs_rc := 50,
    kread := \<lambda>f p. (0, if f = ''iovec.iov_base'' then p else 30)\<rparr>"
  let ?args = "\<lparr>send_sk = 5, send_msg = 0, send_size = 60, iov = 4096, iov_ptr = 0, iov_len = 0,
    iov_offset = 0, nr_segs = 2, written = 0, depth = 1\<rparr>"
  let ?s = "\<lparr>ktime_reads = 0, bpf_log_globals = log_globals0, events = [],
    tcp_connections = [5 \<mapsto> zero_connection 5 100], tcp_control = [5 \<mapsto> enabled_control],
    inet_csk_accept_active = Map.empty, tcp_recvmsg_active = Map.empty,
    tcp_sendmsg_active = [0x6400000065 \<mapsto> ?args], data_channel = []\<rparr>"
  let ?segs = "[(4096, replicate 30 7), (4112, replicate 30 7)]"
  have e: "enable_tcp_data_stream ?e" "8 \<le> max_tail_calls ?e" "current_pid_tgid ?e = 0x6400000065"
    by (simp_all add: env0_def)
  have "holds ?e p (replicate 30 7)" for p by (auto simp: holds_def min_def)
  then have segs: "iovecs ?e 4096 ?segs" by (simp add: env0_def)
  have c: "copied_count ?e = int 50" by (simp add: copied_count_def)
  have p: "sum_list (map (passes \<circ> snd) ?segs) \<le> 8" by (simp add: passes_def)
  have m: "take 50 (concat (map snd ?segs)) = replicate 50 7" by (simp add: numeral_eq_Suc)
  show ?thesis
    using sendmsg_delivers [OF e(1,2), of ?s ?args ?segs "zero_connection 5 100" enabled_control 50]
      segs c p unfolding m
    by (simp add: e(3) zero_connection_def enabled_control_def Let_def) blast
qed

text \<open>
  With an offset into the first segment, the pass starts at the offset but still copies up to the
  segment's full length, so it reads as many bytes beyond the segment's end as the offset is long.
\<close>

lemma next_iovec_overrun:
  assumes "iov_len args = 0" "nr_segs args > 0" "next_iovec e args = Some args'"
  shows "iov_ptr args' + iov_len args' =
    kget e ''iovec.iov_base'' (iov args) + kget e ''iovec.iov_len'' (iov args) + iov_offset args"
  using assms by (auto simp: next_iovec_def)

end
