(* ===== verification/Tcp_Probes.thy ===== *)
theory Tcp_Probes
  imports Tcp_Send_Recv
begin

text \<open>
  The TCP processor as a whole: its probes in any order, as the kernel fires them, and the invariant
  of its tables.
\<close>

section \<open>Probes\<close>

datatype tcp_probe =
  P_tcp_init_sock u64
| P_security_sk_free u64
| P_inet_csk_accept u64 u32 u64
| P_inet_csk_accept_ret
| P_tcp_sendmsg u64 u64 u64
| P_tcp_sendmsg_ret
| P_tcp_recvmsg u64 u64 u64 u32 u32
| P_tcp_recvmsg_ret

fun tcp_probe_prog :: "env \<Rightarrow> tcp_probe \<Rightarrow> unit tprog" where
  "tcp_probe_prog e (P_tcp_init_sock sk) = handle_kprobe__tcp_init_sock e sk"
| "tcp_probe_prog e (P_security_sk_free sk) = handle_kprobe__security_sk_free e sk"
| "tcp_probe_prog e (P_inet_csk_accept sk flags err) = handle_kprobe__inet_csk_accept e sk flags err"
| "tcp_probe_prog e P_inet_csk_accept_ret = handle_kretprobe__inet_csk_accept e"
| "tcp_probe_prog e (P_tcp_sendmsg sk msg sz) = handle_kprobe__tcp_sendmsg e sk msg sz"
| "tcp_probe_prog e P_tcp_sendmsg_ret = handle_kretprobe__tcp_sendmsg e"
| "tcp_probe_prog e (P_tcp_recvmsg sk msg len nonblock flags) = handle_kprobe__tcp_recvmsg e sk msg len nonblock flags"
| "tcp_probe_prog e P_tcp_recvmsg_ret = handle_kretprobe__tcp_recvmsg e"

text \<open>Each firing has an environment of its own.\<close>

inductive tcp_reachable :: "tcpp \<Rightarrow> tcpp \<Rightarrow> bool" for s0 where
  tcp_start: "tcp_reachable s0 s0"
| tcp_fire: "tcp_reachable s0 s \<Longrightarrow> run_state (tcp_probe_prog e p) s = ((), s') \<Longrightarrow> tcp_reachable s0 s'"

definition tcpp0 :: tcpp where
  "tcpp0 = \<lparr>ktime_reads = 0, bpf_log_globals = log_globals0, events = [], tcp_connections = Map.empty,
     tcp_control = Map.empty, inet_csk_accept_active = Map.empty, tcp_recvmsg_active = Map.empty,
     tcp_sendmsg_active = Map.empty, data_channel = []\<rparr>"

section \<open>Invariant\<close>

definition conn_ok :: "u64 \<Rightarrow> tcp_connection_t \<Rightarrow> bool" where
  "conn_ok sk c \<longleftrightarrow> conn_sk c = sk \<and> (\<forall>st. protocol_count (streams c st) = TCP_PROTOCOL_COUNT) \<and>
     (protocol (protocol_state c) = TCPPROTO_UNKNOWN \<and> candidates (protocol_state c) \<in> {0, TCP_PROTOCOL_MASK} \<or>
      protocol (protocol_state c) = TCPPROTO_HTTP \<and> candidates (protocol_state c) = TCP_PROTOCOL_MASK)"

definition control_ok :: "tcp_connection_t \<Rightarrow> tcp_control_value_t \<Rightarrow> bool" where
  "control_ok c ctrl \<longleftrightarrow> (protocol (protocol_state c) = TCPPROTO_HTTP \<longrightarrow> (\<exists>st. only_enabled st ctrl))"

definition tables_ok :: "(u64 \<rightharpoonup> tcp_connection_t) \<Rightarrow> (u64 \<rightharpoonup> tcp_control_value_t) \<Rightarrow> bool" where
  "tables_ok conns ctrls \<longleftrightarrow> (\<forall>sk c. conns sk = Some c \<longrightarrow>
     conn_ok sk c \<and> (\<forall>ctrl. ctrls sk = Some ctrl \<longrightarrow> control_ok c ctrl))"

definition tcp_inv :: "tcpp \<Rightarrow> bool" where
  "tcp_inv s \<longleftrightarrow> tables_ok (tcp_connections s) (tcp_control s)"

definition keeps_inv :: "tcpp \<Rightarrow> tcpp \<Rightarrow> bool" where
  "keeps_inv s s' \<longleftrightarrow> (tcp_inv s \<longrightarrow> tcp_inv s')"

interpretation ti: frame_rel keeps_inv
  by unfold_locales (auto simp: keeps_inv_def)

lemma tables_okD: "tables_ok m n \<Longrightarrow> m sk = Some c \<Longrightarrow> conn_ok sk c"
  "tables_ok m n \<Longrightarrow> m sk = Some c \<Longrightarrow> n sk = Some ctrl \<Longrightarrow> control_ok c ctrl"
  by (auto simp: tables_ok_def)

lemma tables_ok_delete:
  "tables_ok m n \<Longrightarrow> tables_ok (m(sk := None)) n" "tables_ok m n \<Longrightarrow> tables_ok m (n(sk := None))"
  by (auto simp: tables_ok_def)

lemma tables_ok_update:
  assumes "tables_ok m n" "conn_ok sk c" "\<And>ctrl. n sk = Some ctrl \<Longrightarrow> control_ok c ctrl"
  shows "tables_ok (m(sk \<mapsto> c)) n"
  using assms by (auto simp: tables_ok_def)

lemma tables_ok_map_upd:
  assumes "tables_ok m n"
    and "\<And>c. conn_ok sk c \<Longrightarrow> conn_ok sk (f c) \<and> protocol (protocol_state (f c)) = protocol (protocol_state c)"
  shows "tables_ok (map_upd sk f m) n"
  using assms by (auto simp: map_upd_def tables_ok_def control_ok_def split: option.splits)

lemma keeps_log_frame: "log_frame s s' \<Longrightarrow> keeps_inv s s'"
  by (auto simp: keeps_inv_def tcp_inv_def elim!: log_frameE)

lemma io_keeps_log: "state_io_rel log_frame m \<Longrightarrow> state_io_rel keeps_inv m"
  by (auto simp: state_io_rel_def intro: keeps_log_frame)

lemma io_GET_PID_TGID: "state_io_rel log_frame (GET_PID_TGID e line)"
  unfolding GET_PID_TGID_def Let_def by (intro lf.io_rules bpf_log_frame)

text \<open>Programs that leave both tables alone.\<close>

lemma io_keeps_same:
  assumes "\<And>s. tcp_connections (snd (run_state m s)) = tcp_connections s \<and> tcp_control (snd (run_state m s)) = tcp_control s"
  shows "state_io_rel keeps_inv m"
  using assms by (simp add: state_io_rel_def keeps_inv_def tcp_inv_def)

named_theorems keeps_io \<open>programs that keep the invariant of the tables\<close>

lemmas [keeps_io] = bpf_log_frame [THEN io_keeps_log] io_GET_PID_TGID [THEN io_keeps_log]

lemma io_timestamp [keeps_io]: "state_io_rel keeps_inv (get_timestamp e)"
  by (rule io_keeps_same) simp

lemma io_submit [keeps_io]: "state_io_rel keeps_inv (perf_submit ev)"
  by (rule io_keeps_same) simp

lemma io_lookup [keeps_io]: "state_io_rel keeps_inv (lookup_tcp_connection sk)"
  by (rule io_keeps_same) (simp add: lookup_tcp_connection_def)

lemma io_control [keeps_io]: "state_io_rel keeps_inv (get_tcp_control c)"
  by (rule io_keeps_same) (simp add: get_tcp_control_def)

lemma io_accepted [keeps_io]: "state_io_rel keeps_inv (is_accepted sk)"
  by (rule io_keeps_same) (simp add: is_accepted_def)

lemma io_chunk [keeps_io]: "state_io_rel keeps_inv (copy_chunk e n p)"
  by (rule io_keeps_same) (simp add: copy_chunk_def)

lemma io_chunks [keeps_io]: "state_io_rel keeps_inv (copy_chunks_256 e k p)"
proof (induction k arbitrary: p)
  case (Suc k)
  show ?case unfolding copy_chunks_256.simps by (intro ti.io_rules keeps_io Suc)
qed (simp add: ti.io_return)

lemma io_data_channel [keeps_io]: "state_io_rel keeps_inv (data_channel_submit e p n)"
  unfolding data_channel_submit_def COPY_BIT_8192_def COPY_BIT_4096_def COPY_BIT_2048_def COPY_BIT_1024_def
    COPY_BIT_512_def COPY_BIT_256_def COPY_BIT_def COPY_LAST_BITS_def
  by (intro ti.io_rules keeps_io)

lemma io_tcp_data [keeps_io]: "state_io_rel keeps_inv (tcp_events_submit_tcp_data e sk st sv p n)"
  unfolding tcp_events_submit_tcp_data_def by (intro ti.io_rules keeps_io)

lemma io_http_response_event [keeps_io]: "state_io_rel keeps_inv (tcp_events_submit_http_response e sk code lat dir)"
  unfolding tcp_events_submit_http_response_def by (intro ti.io_rules keeps_io)

lemma io_upd [keeps_io]:
  assumes "\<And>c. conn_ok sk c \<Longrightarrow> conn_ok sk (f c) \<and> protocol (protocol_state (f c)) = protocol (protocol_state c)"
  shows "state_io_rel keeps_inv (upd_connection sk f)"
  using tables_ok_map_upd assms by (simp add: state_io_rel_def keeps_inv_def tcp_inv_def)

lemma io_toggle [keeps_io]: "state_io_rel keeps_inv (http_toggle key st)"
  using only_enabled_toggled
  by (auto simp: state_io_rel_def keeps_inv_def tcp_inv_def tables_ok_def control_ok_def map_upd_def
      split: option.splits)

text \<open>The control block of a connection that is not (yet) HTTP is free.\<close>

lemma keeps_enable:
  assumes "tcp_connections s key = Some c" "protocol (protocol_state c) = TCPPROTO_UNKNOWN" "tcp_inv s"
  shows "tcp_inv (snd (run_state (enable_tcp_connection key r n) s))"
  using assms
  by (auto simp: enable_tcp_connection_def tcp_inv_def tables_ok_def control_ok_def map_upd_def
      split: option.splits)

lemma io_server [keeps_io]: "state_io_rel keeps_inv (tcp_server_handler e sk key st p n)"
  unfolding tcp_server_handler_def http_process_response_def by (intro ti.io_rules keeps_io)

lemma detect_ok:
  assumes "conn_ok sk c" "protocol (protocol_state c) = TCPPROTO_UNKNOWN"
    "state = detect_protocol e sk (protocol_state c) p n"
  shows "conn_ok sk (c\<lparr>protocol_state := state\<rparr>) \<and>
    (protocol state = TCPPROTO_HTTP \<longrightarrow> candidates (protocol_state c) AND TCP_PROTOCOL_BIT TCPPROTO_HTTP \<noteq> 0 \<and>
      http_detect e p n = TPD_SUCCESS)"
  using assms
  by (auto simp: conn_ok_def detect_protocol_def TCP_PROTOCOL_BIT_def TCP_PROTOCOL_MASK_def TCP_PROTOCOL_COUNT_def
      TCPPROTO_HTTP_def TCPPROTO_UNKNOWN_def split: TCP_PROTOCOL_DETECT_RESULT.splits if_splits)

lemma toggled_one: "\<exists>st'. only_enabled st' (toggled st ctrl)"
  using only_enabled_toggled by blast

lemma tables_ok_toggled:
  "tables_ok m n \<Longrightarrow> conn_ok sk c \<Longrightarrow> tables_ok (m(sk \<mapsto> c)) (map_upd sk (toggled st) n)"
  using toggled_one
  by (auto simp: tables_ok_def control_ok_def map_upd_def split: option.splits)

lemma conn_ok_request_time [simp]:
  "conn_ok sk (c\<lparr>protocol_state := p\<lparr>protocol_data := d\<rparr>\<rparr>) \<longleftrightarrow> conn_ok sk (c\<lparr>protocol_state := p\<rparr>)"
  by (simp add: conn_ok_def)

lemma conn_ok_same_protocol [simp]: "conn_ok sk (c\<lparr>protocol_state := protocol_state c\<rparr>) \<longleftrightarrow> conn_ok sk c"
  by simp

lemma inv_client:
  assumes "\<not> enable_tcp_data_stream e" "tcp_inv s" "tcp_connections s sk = Some c"
  shows "tcp_inv (snd (run_state (tcp_client_handler e sk sk st p n) s))"
proof -
  let ?state = "if protocol (protocol_state c) = TCPPROTO_UNKNOWN
    then detect_protocol e sk (protocol_state c) p n else protocol_state c"
  have c: "conn_ok sk c" using assms(2,3) by (auto simp: tcp_inv_def dest: tables_okD)
  then have st: "conn_ok sk (c\<lparr>protocol_state := ?state\<rparr>)" using detect_ok [OF c _ refl] by simp
  note run = tcp_client_handler_def lookup_tcp_connection_def upd_protocol_def http_process_request_def Let_def
  have ok: "tables_ok (tcp_connections s) (tcp_control s)" using assms(2) by (simp add: tcp_inv_def)
  consider "protocol ?state = TCPPROTO_HTTP" | "protocol ?state = TCPPROTO_UNKNOWN"
    using st by (auto simp: conn_ok_def)
  then show ?thesis
  proof cases
    case 1
    then have "candidates ?state \<noteq> 0 \<or> protocol (protocol_state c) \<noteq> TCPPROTO_UNKNOWN"
      using st by (auto simp: conn_ok_def TCP_PROTOCOL_MASK_def TCP_PROTOCOL_COUNT_def)
    with 1 assms(1,3) ok st show ?thesis
      by (auto simp: run tcp_inv_def intro!: tables_ok_toggled split: if_splits)
  next
    case 2
    then have u: "protocol (protocol_state c) = TCPPROTO_UNKNOWN" by (auto split: if_splits)
    have ok': "tables_ok ((tcp_connections s)(sk \<mapsto> c\<lparr>protocol_state := ?state\<rparr>)) (tcp_control s)"
      using 2 st ok by (intro tables_ok_update) (simp_all add: control_ok_def)
    have "tcp_inv (snd (run_state (enable_tcp_connection sk (- 1) (- 1))
        (s\<lparr>tcp_connections := (tcp_connections s)(sk \<mapsto> c\<lparr>protocol_state := ?state\<rparr>)\<rparr>)))"
      using 2 ok' by (intro keeps_enable [where c = "c\<lparr>protocol_state := ?state\<rparr>"]) (simp_all add: tcp_inv_def)
    with 2 u ok' assms(1,3) show ?thesis by (auto simp: run tcp_inv_def)
  qed
qed

lemma io_client [keeps_io]: "state_io_rel keeps_inv (tcp_client_handler e sk sk st p n)"
proof (cases "enable_tcp_data_stream e")
  case True
  then show ?thesis unfolding tcp_client_handler_def by (simp add: keeps_io)
next
  case False
  have "tcp_inv (snd (run_state (tcp_client_handler e sk sk st p n) s))" if "tcp_inv s" for s
  proof (cases "tcp_connections s sk")
    case None
    with False that show ?thesis by (simp add: tcp_client_handler_def lookup_tcp_connection_def)
  qed (use inv_client [OF False that] in blast)
  then show ?thesis by (simp add: state_io_rel_def keeps_inv_def)
qed

lemma io_stream_handlers [keeps_io]:
  "state_io_rel keeps_inv (tcp_send_stream_handler e sk sk st p n)"
  "state_io_rel keeps_inv (tcp_recv_stream_handler e sk sk st p n)"
  unfolding tcp_send_stream_handler_def tcp_recv_stream_handler_def by (intro ti.io_rules keeps_io)+

lemma io_upd_total [keeps_io]: "state_io_rel keeps_inv (upd_connection sk (upd_total st f))"
  by (rule io_upd) (auto simp: conn_ok_def upd_total_def)

lemma io_write [keeps_io]:
  assumes h: "\<And>p n. state_io_rel keeps_inv (h sk sk st p n)"
  shows "state_io_rel keeps_inv (write_to_tcp_stream e sk st p n h)"
  unfolding state_io_rel_def
proof
  fix s
  show "keeps_inv s (snd (run_state (write_to_tcp_stream e sk st p n h) s))"
  proof (cases "tcp_inv s")
    case True
    define body where "body c ctrl = (let start = start (ctrl st); total0 = total (streams c st) in
             if total0 + n \<le> start then upd_connection sk (upd_total st (\<lambda>t. t + n))
             else (let trim_len = (if total0 < start then start - total0 else 0);
                       data_len = n - trim_len; data = p + trim_len in do {
               (if total0 < start then upd_connection sk (upd_total st (\<lambda>_. start)) else skip);
               h sk (conn_sk c) st data data_len;
               upd_connection sk (upd_total st (\<lambda>t. t + data_len))
             }))" for c :: tcp_connection_t and ctrl :: tcp_control_value_t
    have "state_io_rel keeps_inv (body c ctrl)" if "conn_sk c = sk" for c ctrl
      unfolding body_def that by (intro ti.io_rules keeps_io h)
    then have body: "keeps_inv s (snd (run_state (body c ctrl) s))" if "conn_sk c = sk" for c ctrl
      using that by (simp add: state_io_rel_def)
    have log: "keeps_inv s (snd (run_state (bpf_log e 10183 BPF_LOG_UNREACHABLE 0 0 0) s))"
      using bpf_log_frame [THEN io_keeps_log] by (simp add: state_io_rel_def)
    show ?thesis
    proof (cases "tcp_connections s sk")
      case None
      then show ?thesis by (simp add: write_to_tcp_stream_def lookup_tcp_connection_def ti.frame_refl)
    next
      case (Some c)
      then have "conn_sk c = sk" using True by (auto simp: tcp_inv_def conn_ok_def dest: tables_okD)
      moreover have "run_state (write_to_tcp_stream e sk st p n h) s = run_state (body c ctrl) s"
        if "tcp_control s (conn_sk c) = Some ctrl" for ctrl
        using that Some by (simp add: write_to_tcp_stream_def lookup_tcp_connection_def get_tcp_control_def body_def)
      ultimately show ?thesis using Some log body
        by (cases "tcp_control s (conn_sk c)")
          (simp_all add: write_to_tcp_stream_def lookup_tcp_connection_def get_tcp_control_def)
    qed
  qed (simp add: keeps_inv_def)
qed

text \<open>Creation: whatever the tables held for the socket, the new connection starts undecided.\<close>

lemma io_create [keeps_io]: "state_io_rel keeps_inv (create_tcp_connection e sk)"
  unfolding state_io_rel_def keeps_inv_def
proof (intro allI impI)
  fix s assume inv: "tcp_inv s"
  let ?s0 = "s\<lparr>tcp_connections := (tcp_connections s)(sk := None)\<rparr>"
  let ?tgid = "TGID_FROM_PID_TGID (current_pid_tgid e)"
  obtain s1 where s1: "run_state (GET_PID_TGID e 10106) ?s0 =
      ((current_pid_tgid e, ?tgid, ucast (smp_processor_id e)), s1)" "log_frame ?s0 s1" by (rule run_GET_PID_TGID)
  have s0: "snd (run_state (if tcp_connections s sk \<noteq> None then
      modify (\<lambda>s. s\<lparr>tcp_connections := (tcp_connections s)(sk := None)\<rparr>) else skip) s) = ?s0"
    by (cases "tcp_connections s sk") (simp_all add: fun_upd_idem)
  have zero: "conn_ok sk (zero_connection sk ?tgid)" "protocol (protocol_state (zero_connection sk ?tgid)) = TCPPROTO_UNKNOWN"
    by (simp_all add: conn_ok_def zero_connection_def)
  have "tables_ok ((tcp_connections s)(sk := None)) n'" if "\<forall>k. k \<noteq> sk \<longrightarrow> n' k = tcp_control s k" for n'
    using inv that by (auto simp: tcp_inv_def tables_ok_def)
  moreover have "tables_ok ((tcp_connections s)(sk \<mapsto> zero_connection sk ?tgid)) n'" if "\<forall>k. k \<noteq> sk \<longrightarrow> n' k = tcp_control s k" for n'
    using inv that zero by (auto simp: tcp_inv_def tables_ok_def control_ok_def)
  ultimately show "tcp_inv (snd (run_state (create_tcp_connection e sk) s))"
    using s1 s0
    by (cases "tcp_connections s sk")
      (auto simp: create_tcp_connection_def lookup_or_init_def map_insert_def tcp_inv_def Let_def fun_upd_idem
        elim!: log_frameE)
qed

lemma io_drop_control [keeps_io]:
  "state_io_rel keeps_inv (modify (\<lambda>s. s\<lparr>tcp_control := snd (map_delete e t kc k (tcp_control s))\<rparr>))"
  by (auto simp: state_io_rel_def keeps_inv_def tcp_inv_def map_delete_def tables_ok_delete)

lemma io_delete [keeps_io]: "state_io_rel keeps_inv (delete_tcp_connection e c sk)"
  unfolding state_io_rel_def keeps_inv_def
proof (intro allI impI)
  fix s assume "tcp_inv s"
  then have ok: "tables_ok ((tcp_connections s)(sk := None)) ((tcp_control s)(conn_sk c := None))"
    by (simp add: tcp_inv_def tables_ok_delete)
  have log: "tcp_inv (snd (run_state (bpf_log e 10167 BPF_LOG_TABLE_BAD_REMOVE a b d) t))" if "tcp_inv t" for t a b d
    using that bpf_log_frame [THEN io_keeps_log] by (auto simp: state_io_rel_def keeps_inv_def)
  show "tcp_inv (snd (run_state (delete_tcp_connection e c sk) s))"
    using ok log by (auto simp: delete_tcp_connection_def map_delete_def Let_def tcp_inv_def)
qed

lemma io_args [keeps_io]:
  "state_io_rel keeps_inv (modify (\<lambda>s. s\<lparr>inet_csk_accept_active := f1 s\<rparr>))"
  "state_io_rel keeps_inv (modify (\<lambda>s. s\<lparr>tcp_recvmsg_active := f2 s\<rparr>))"
  "state_io_rel keeps_inv (modify (\<lambda>s. s\<lparr>tcp_sendmsg_active := f3 s\<rparr>))"
  by (simp_all add: state_io_rel_def keeps_inv_def tcp_inv_def)

lemma io_watched [keeps_io]: "state_io_rel keeps_inv (watched e sk st)"
  unfolding watched_def by (intro ti.io_rules keeps_io)

lemma io_tail_loop [keeps_io]: "state_io_rel keeps_inv step \<Longrightarrow> state_io_rel keeps_inv (tail_loop step n)"
proof (induction n)
  case 0
  then show ?case unfolding tail_loop.simps by (intro ti.io_rules keeps_io)
next
  case (Suc n)
  then show ?case unfolding tail_loop.simps by (intro ti.io_rules keeps_io)
qed

lemma io_probe: "state_io_rel keeps_inv (tcp_probe_prog e p)"
proof (cases p)
  case (P_inet_csk_accept_ret)
  show ?thesis
    unfolding P_inet_csk_accept_ret tcp_probe_prog.simps handle_kretprobe__inet_csk_accept_def delete_accept_args_def
    by (intro ti.io_rules keeps_io) (simp add: conn_ok_def)
next
  case (P_tcp_sendmsg_ret)
  then show ?thesis
    unfolding P_tcp_sendmsg_ret tcp_probe_prog.simps handle_kretprobe__tcp_sendmsg_def continue_tcp_sendmsg_once_def
      delete_sendmsg_args_def
    by (intro ti.io_rules keeps_io)
next
  case (P_tcp_recvmsg_ret)
  then show ?thesis
    unfolding P_tcp_recvmsg_ret tcp_probe_prog.simps handle_kretprobe__tcp_recvmsg_def continue_tcp_recvmsg_once_def
      delete_recvmsg_args_def
    by (intro ti.io_rules keeps_io)
qed (simp only: tcp_probe_prog.simps handle_kprobe__tcp_init_sock_def handle_kprobe__security_sk_free_def
    handle_kprobe__inet_csk_accept_def handle_kprobe__tcp_sendmsg_def handle_kprobe__tcp_recvmsg_def,
    intro ti.io_rules keeps_io)+

text \<open>
  C24. In every state the TCP processor can reach, whatever probes fire in whatever order and however the
  kernel's helpers answer: every tracked connection is keyed by its own socket, both its directions
  still count the one known protocol, its protocol is undecided or HTTP and HTTP is never recorded for a
  connection whose candidates were exhausted (so the dispatch never meets an unknown protocol), and an
  HTTP connection has exactly one direction enabled.
\<close>

theorem tcp_tables_invariant:
  assumes "tcp_reachable tcpp0 s"
  shows "\<forall>sk c. tcp_connections s sk = Some c \<longrightarrow> conn_ok sk c \<and>
    (\<forall>ctrl. tcp_control s sk = Some ctrl \<longrightarrow> control_ok c ctrl)"
proof -
  have "tcp_inv s" using assms
  proof induction
    case tcp_start
    show ?case by (simp add: tcp_inv_def tables_ok_def tcpp0_def)
  next
    case (tcp_fire s e p s')
    then show ?case using io_probe [of e p] by (auto simp: state_io_rel_def keeps_inv_def dest: spec [of _ s])
  qed
  then show ?thesis by (simp add: tcp_inv_def tables_ok_def)
qed

theorem tcp_tables_invariant_witness:
  "let s = snd (run_state (handle_kprobe__tcp_init_sock env0 5) tcpp0)
   in tcp_connections s 5 = Some (zero_connection 5 100) \<and> conn_ok 5 (zero_connection 5 100)"
proof -
  let ?s = "snd (run_state (handle_kprobe__tcp_init_sock env0 5) tcpp0)"
  have "run_state (tcp_probe_prog env0 (P_tcp_init_sock 5)) tcpp0 = ((), ?s)"
    by (cases "run_state (handle_kprobe__tcp_init_sock env0 5) tcpp0") simp
  then have "tcp_reachable tcpp0 ?s" by (rule tcp_fire [OF tcp_start])
  moreover have "tcp_connections ?s 5 = Some (zero_connection 5 100)"
    by (simp add: handle_kprobe__tcp_init_sock_def create_tcp_connection_def GET_PID_TGID_def lookup_or_init_def
        map_insert_def tcpp0_def env0_def TGID_FROM_PID_TGID_def PID_FROM_PID_TGID_def Let_def)
  ultimately show ?thesis using tcp_tables_invariant [of ?s] by (simp add: Let_def)
qed

text \<open>
  When a socket address is reused without its destruction having been seen, the connection is replaced
  but the control block is not: the new connection inherits the old one's enabled directions.
\<close>

lemma create_keeps_stale_control:
  assumes "noexist_ok e" "tcp_control s sk = Some ctrl"
  shows "tcp_control (snd (run_state (create_tcp_connection e sk) s)) sk = Some ctrl"
proof -
  let ?s0 = "s\<lparr>tcp_connections := (tcp_connections s)(sk := None)\<rparr>"
  obtain s1 where "run_state (GET_PID_TGID e 10106) ?s0 = ((current_pid_tgid e,
      TGID_FROM_PID_TGID (current_pid_tgid e), ucast (smp_processor_id e)), s1)" "log_frame ?s0 s1"
    by (rule run_GET_PID_TGID)
  then show ?thesis using assms
    by (cases "tcp_connections s sk")
      (auto simp: create_tcp_connection_def lookup_or_init_def map_insert_def noexist_ok_def Let_def fun_upd_idem
        errno_defs elim!: log_frameE)
qed

end
