(* ===== verification/Lifecycle_Spec.thy ===== *)
theory Lifecycle_Spec
  imports Bpf_Env
begin

text \<open>
  What the probes promise user space about the objects they follow: an object is announced before
  anything else is said about it, is not announced again while it is open, and is closed once.  The
  tracker is the abstract machine of that contract; the locale says when a program's effect on its
  tables and on the messages is a run of the tracker.
\<close>

section \<open>The tracker\<close>

datatype (plugins only: code) 'k life = Opened 'k | Used 'k | Closed 'k

fun life_key :: "'k life \<Rightarrow> 'k" where
  "life_key (Opened k) = k"
| "life_key (Used k) = k"
| "life_key (Closed k) = k"

fun track :: "('k \<Rightarrow> bool) \<Rightarrow> 'k life list \<Rightarrow> ('k \<Rightarrow> bool) option" where
  "track S [] = Some S"
| "track S (Opened k # xs) = (if S k then None else track (S(k := True)) xs)"
| "track S (Used k # xs) = (if S k then track S xs else None)"
| "track S (Closed k # xs) = (if S k then track (S(k := False)) xs else None)"

text \<open>The same for a single object that is or is not open.\<close>

fun well_told :: "bool \<Rightarrow> 'k life list \<Rightarrow> bool \<Rightarrow> bool" where
  "well_told b [] b' = (b = b')"
| "well_told b (Opened k # xs) b' = (\<not> b \<and> well_told True xs b')"
| "well_told b (Used k # xs) b' = (b \<and> well_told b xs b')"
| "well_told b (Closed k # xs) b' = (b \<and> well_told False xs b')"

lemma track_append: "track S (xs @ ys) = Option.bind (track S xs) (\<lambda>T. track T ys)"
  by (induction S xs rule: track.induct) (simp_all add: fun_upd_def)

lemma track_well_told:
  "track S xs = Some T \<Longrightarrow> well_told (S k) (filter (\<lambda>x. life_key x = k) xs) (T k)"
  by (induction S xs rule: track.induct) (auto split: if_splits)

section \<open>Programs that only send messages\<close>

text \<open>Like \<^verbatim>\<open>log_frame\<close>, for messages of any given kind.\<close>

definition ev_frame :: "(bpf_event \<Rightarrow> bool) \<Rightarrow> 's bpf_scheme \<Rightarrow> 's bpf_scheme \<Rightarrow> bool" where
  "ev_frame P s s' \<longleftrightarrow> (\<exists>n g evs. s' = s\<lparr>ktime_reads := n, bpf_log_globals := g, events := events s @ evs\<rparr> \<and>
     list_all P evs)"

lemma ev_frameI:
  "list_all P evs \<Longrightarrow> ev_frame P s (s\<lparr>ktime_reads := n, bpf_log_globals := g, events := events s @ evs\<rparr>)"
  unfolding ev_frame_def by blast

lemma ev_frameE:
  assumes "ev_frame P s s'"
  obtains n g evs where "s' = s\<lparr>ktime_reads := n, bpf_log_globals := g, events := events s @ evs\<rparr>"
    and "list_all P evs"
  using assms unfolding ev_frame_def by blast

lemma ev_frame_refl: "ev_frame P s s"
  using ev_frameI [where evs = "[]" and s = s and n = "ktime_reads s" and g = "bpf_log_globals s"] by simp

lemma ev_frame_trans:
  assumes "ev_frame P s t" and "ev_frame P t u"
  shows "ev_frame P s u"
proof -
  obtain n g evs where t: "t = s\<lparr>ktime_reads := n, bpf_log_globals := g, events := events s @ evs\<rparr>"
    "list_all P evs" using assms(1) by (rule ev_frameE)
  obtain n' g' evs' where u: "u = t\<lparr>ktime_reads := n', bpf_log_globals := g', events := events t @ evs'\<rparr>"
    "list_all P evs'" using assms(2) by (rule ev_frameE)
  show ?thesis using ev_frameI [where evs = "evs @ evs'" and s = s and n = n' and g = g'] t u by simp
qed

interpretation ef: frame_rel "ev_frame P" for P
  by unfold_locales (rule ev_frame_refl, erule ev_frame_trans)

lemma ev_frame_event: "P ev \<Longrightarrow> ev_frame P s (s\<lparr>events := events s @ [ev]\<rparr>)"
  using ev_frameI [where P = P and evs = "[ev]" and s = s and n = "ktime_reads s" and g = "bpf_log_globals s"] by simp

lemma ev_frame_ktime: "ev_frame P s (s\<lparr>ktime_reads := n\<rparr>)"
  using ev_frameI [where P = P and evs = "[]" and s = s and n = n and g = "bpf_log_globals s"] by simp

lemma ev_frame_logs:
  assumes "\<And>ev. is_log ev \<Longrightarrow> P ev" and "log_frame s s'"
  shows "ev_frame P s s'"
proof -
  obtain n g evs where *: "s' = s\<lparr>ktime_reads := n, bpf_log_globals := g, events := events s @ evs\<rparr>"
    "list_all is_log evs" using assms(2) by (rule log_frameE)
  have "list_all P evs" using *(2) assms(1) by (auto simp: list_all_iff)
  then show ?thesis unfolding *(1) by (rule ev_frameI)
qed

lemma ef_perf_submit: "P ev \<Longrightarrow> state_io_rel (ev_frame P) (perf_submit ev)"
  by (simp add: state_io_rel_def ev_frame_event)

lemma ef_get_timestamp: "state_io_rel (ev_frame P) (get_timestamp e)"
  by (simp add: state_io_rel_def ev_frame_ktime)

lemma ef_bpf_log:
  "(\<And>ev. is_log ev \<Longrightarrow> P ev) \<Longrightarrow> state_io_rel (ev_frame P) (bpf_log e line code a0 a1 a2)"
  unfolding state_io_rel_def by (intro allI ev_frame_logs bpf_log_frame [unfolded state_io_rel_def, rule_format])

lemma ef_checked_read:
  "(\<And>ev. is_log ev \<Longrightarrow> P ev) \<Longrightarrow> (\<And>v. state_io_rel (ev_frame P) (k v)) \<Longrightarrow>
    state_io_rel (ev_frame P) (checked_read e line f p d k)"
  unfolding checked_read_def by (intro ef.io_rules ef_bpf_log)

section \<open>Programs that run the tracker\<close>

definition tracks :: "(bpf_event \<Rightarrow> 'k life option) \<Rightarrow> ('s bpf_scheme \<Rightarrow> 'k \<Rightarrow> bool) \<Rightarrow>
    's bpf_scheme \<Rightarrow> 's bpf_scheme \<Rightarrow> bool" where
  "tracks proj live s s' \<longleftrightarrow> (\<exists>evs. events s' = events s @ evs \<and>
     track (live s) (List.map_filter proj evs) = Some (live s'))"

definition speaks_of :: "(bpf_event \<Rightarrow> 'k life option) \<Rightarrow> 'k \<Rightarrow> bpf_event \<Rightarrow> bool" where
  "speaks_of proj k ev \<longleftrightarrow> proj ev = None \<or> proj ev = Some (Used k)"

lemma tracksI:
  "events s' = events s @ evs \<Longrightarrow> track (live s) (List.map_filter proj evs) = Some (live s') \<Longrightarrow> tracks proj live s s'"
  unfolding tracks_def by blast

lemma tracksE:
  assumes "tracks proj live s s'"
  obtains evs where "events s' = events s @ evs" "track (live s) (List.map_filter proj evs) = Some (live s')"
  using assms unfolding tracks_def by blast

lemma tracks_trans:
  assumes "tracks proj live s t" and "tracks proj live t u"
  shows "tracks proj live s u"
proof -
  obtain xs where xs: "events t = events s @ xs" "track (live s) (List.map_filter proj xs) = Some (live t)"
    using assms(1) by (rule tracksE)
  obtain ys where ys: "events u = events t @ ys" "track (live t) (List.map_filter proj ys) = Some (live u)"
    using assms(2) by (rule tracksE)
  show ?thesis by (rule tracksI [of _ _ "xs @ ys"]) (simp_all add: xs ys map_filter_append track_append)
qed

text \<open>
  The interface of a component with such tables: which messages speak of which object, and which
  objects its tables hold open, where neither logging nor the clock matters.
\<close>

locale life_tracker =
  fixes proj :: "bpf_event \<Rightarrow> 'k life option"
    and live :: "'s bpf_scheme \<Rightarrow> 'k \<Rightarrow> bool"
  assumes proj_log: "is_log ev \<Longrightarrow> proj ev = None"
    and live_events [simp]: "live (s\<lparr>events := evs\<rparr>) = live s"
    and live_ktime [simp]: "live (s\<lparr>ktime_reads := n\<rparr>) = live s"
    and live_globals [simp]: "live (s\<lparr>bpf_log_globals := g\<rparr>) = live s"
begin

lemma tracks_refl: "tracks proj live s s"
  by (rule tracksI [of _ _ "[]"]) (simp_all add: List.map_filter_def)

lemma proj_logs: "list_all is_log evs \<Longrightarrow> List.map_filter proj evs = []"
  by (induction evs) (simp_all add: List.map_filter_def proj_log)

lemma tracks_log_frame:
  assumes "log_frame s s'"
  shows "tracks proj live s s'"
proof -
  obtain n g evs where "s' = s\<lparr>ktime_reads := n, bpf_log_globals := g, events := events s @ evs\<rparr>"
    "list_all is_log evs" using assms by (rule log_frameE)
  then show ?thesis by (intro tracksI [of _ _ evs]) (simp_all add: proj_logs)
qed

end

sublocale life_tracker \<subseteq> frame_rel "tracks proj live"
  by unfold_locales (rule tracks_refl, erule tracks_trans)

context life_tracker
begin

lemma io_log: "state_io_rel log_frame m \<Longrightarrow> state_io_rel (tracks proj live) m"
  by (simp add: state_io_rel_def tracks_log_frame)

lemmas io_bpf_log = io_log [OF bpf_log_frame]

lemma io_get_timestamp: "state_io_rel (tracks proj live) (get_timestamp e)"
  by (rule io_log) (simp add: state_io_rel_def)

lemma io_pid_tgid: "state_io_rel (tracks proj live) (GET_PID_TGID e line)"
  unfolding GET_PID_TGID_def by (intro io_rules io_bpf_log)

lemma io_checked_read:
  "(\<And>v. state_io_rel (tracks proj live) (k v)) \<Longrightarrow> state_io_rel (tracks proj live) (checked_read e line f p d k)"
  unfolding checked_read_def by (intro io_rules io_bpf_log)

lemma io_perf_submit_other: "proj ev = None \<Longrightarrow> state_io_rel (tracks proj live) (perf_submit ev)"
  unfolding state_io_rel_def by (auto intro: tracksI [of _ _ "[ev]"] simp: List.map_filter_def)

text \<open>
  Messages about an object the tables hold, and its closing and opening messages, sent by programs that
  have already changed the tables.
\<close>

lemma log_speaks_of: "is_log ev \<Longrightarrow> speaks_of proj k ev"
  by (simp add: speaks_of_def proj_log)

lemma track_used:
  "S k \<Longrightarrow> list_all (speaks_of proj k) evs \<Longrightarrow> track S (List.map_filter proj (evs @ xs)) = track S (List.map_filter proj xs)"
  by (induction evs) (auto simp: speaks_of_def List.map_filter_def)

lemma tracks_used:
  assumes "live s k" and "ev_frame (speaks_of proj k) s s'"
  shows "tracks proj live s s'"
proof -
  obtain n g evs where "s' = s\<lparr>ktime_reads := n, bpf_log_globals := g, events := events s @ evs\<rparr>"
    "list_all (speaks_of proj k) evs" using assms(2) by (rule ev_frameE)
  with track_used [of "live s" k evs "[]"] assms(1)
  show ?thesis by (intro tracksI [of _ _ evs]) (simp_all add: List.map_filter_def)
qed

lemma tracks_closed:
  assumes "live s k" "events t = events s" "live t = (live s)(k := False)" "ev_frame (speaks_of proj k) t u"
    and "proj ev = Some (Closed k)"
  shows "tracks proj live s (u\<lparr>events := events u @ [ev]\<rparr>)"
proof -
  obtain n g evs where "u = t\<lparr>ktime_reads := n, bpf_log_globals := g, events := events t @ evs\<rparr>"
    "list_all (speaks_of proj k) evs" using assms(4) by (rule ev_frameE)
  with track_used [of "live s" k evs "[ev]"] assms(1-3,5)
  show ?thesis by (intro tracksI [of _ _ "evs @ [ev]"]) (simp_all add: List.map_filter_def)
qed

lemma tracks_opened:
  assumes "\<not> live s k" "log_frame t u" "events t = events s" "live t = (live s)(k := True)" "proj ev = Some (Opened k)"
  shows "tracks proj live s (u\<lparr>events := events u @ [ev]\<rparr>)"
proof -
  obtain n g evs where "u = t\<lparr>ktime_reads := n, bpf_log_globals := g, events := events t @ evs\<rparr>"
    "list_all is_log evs" using assms(2) by (rule log_frameE)
  with proj_logs [of evs] assms(1,3-5)
  show ?thesis by (intro tracksI [of _ _ "evs @ [ev]"]) (simp_all add: map_filter_append map_filter_one)
qed

text \<open>One program after another, from a given state.\<close>

lemma tracks_bind:
  "run_state m s = (a, t) \<Longrightarrow> tracks proj live s t \<Longrightarrow> tracks proj live t (snd (run_state (f a) t)) \<Longrightarrow>
    tracks proj live s (snd (run_state (m \<bind> f) s))"
  by (simp add: tracks_trans)

text \<open>A store that leaves the open objects alone.\<close>

lemma io_store: "(\<And>s. events (f s) = events s \<and> live (f s) = live s) \<Longrightarrow> state_io_rel (tracks proj live) (modify f)"
  unfolding state_io_rel_def by (auto intro: tracksI [of _ _ "[]"] simp: List.map_filter_def)

lemmas tracker_io = io_rules io_bpf_log io_get_timestamp io_pid_tgid io_checked_read

end

end
