(* ===== verification/Render_State.thy ===== *)
theory Render_State
  imports Bpf_Env
begin

text \<open>
  The tables of \<^verbatim>\<open>src/collector/kernel/bpf_src/render_bpf.c\<close> and the constants of the kernel's
  interface that its programs test.
\<close>

section \<open>Constants\<close>

definition AF_INET :: u16 where "AF_INET = 2"
definition AF_INET6 :: u16 where "AF_INET6 = 10"
definition IPPROTO_TCP :: u8 where "IPPROTO_TCP = 6"
definition IPPROTO_UDP :: u8 where "IPPROTO_UDP = 17"
definition TCP_ESTABLISHED :: u8 where "TCP_ESTABLISHED = 1"
definition TCP_SYN_SENT :: u8 where "TCP_SYN_SENT = 2"
definition TCP_SYN_RECV :: u8 where "TCP_SYN_RECV = 3"
definition TCP_LISTEN :: u8 where "TCP_LISTEN = 10"

text \<open>\<^verbatim>\<open>TCP_FLAG_RST\<close> as the two bytes at offset 12 of the header are read on a little-endian machine.\<close>

definition TCP_FLAG_RST :: u16 where "TCP_FLAG_RST = 0x0400"

definition TCP_LIFETIME_HACK_CODE :: u64 where "TCP_LIFETIME_HACK_CODE = 1"
definition UDP_LIFETIME_HACK_CODE :: u64 where "UDP_LIFETIME_HACK_CODE = 2"

definition ntohs :: "u16 \<Rightarrow> u16" where
  "ntohs x = push_bit 8 x OR drop_bit 8 x"

section \<open>Tables\<close>

record tcp_open_socket_t =
  os_tgid :: u32
  os_rcv_holes :: u32
  os_last_output :: u64
  os_bytes_received :: u64
  os_rcv_delivered :: u32
  os_parent :: u64

record udp_stats_t =
  us_last_output :: u64
  us_laddr6 :: in6_addr
  us_raddr6 :: in6_addr
  us_lport :: u16
  us_rport :: u16
  us_addr_changed :: u8
  us_bytes :: u32
  us_packets :: u32
  us_drops :: u32

text \<open>The two entries of \<^verbatim>\<open>stats\<close>, sending and receiving, are indexed by \<^verbatim>\<open>is_rx\<close>.\<close>

record udp_open_socket_t =
  uo_tgid :: u32
  uo_stats :: "bool \<Rightarrow> udp_stats_t"

record on_accept_args =
  oa_sk :: u64
  oa_flags :: u32
  oa_err :: u64

record render = bpf +
  tgid_info_table :: "u32 \<rightharpoonup> u32"
  dead_group_tasks :: "u64 \<rightharpoonup> u64"
  seen_inodes :: "u32 \<rightharpoonup> u32"
  seen_conntracks :: "u64 \<rightharpoonup> u64"
  tcp_open_sockets :: "u64 \<rightharpoonup> tcp_open_socket_t"
  udp_open_sockets :: "u64 \<rightharpoonup> udp_open_socket_t"
  udp_get_port_hash :: "u64 \<rightharpoonup> u64"
  cgroup_exit_active :: "u64 \<rightharpoonup> u32"
  on_inet_csk_accept_active :: "u64 \<rightharpoonup> on_accept_args"
  inet_release_active :: "u64 \<rightharpoonup> u64"
  cgroup_control_active :: "u64 \<rightharpoonup> u64"

type_synonym 'a rprog = "(render, 'a) state"

text \<open>
  A tail call runs another program in place of the rest of this one.  The kernel allows
  \<^verbatim>\<open>max_tail_calls\<close> of them in a row; beyond that the call returns and the caller goes on, which in
  these programs is to return.  \<open>n\<close> is the number of tail calls made before.
\<close>

definition tail_call :: "env \<Rightarrow> nat \<Rightarrow> unit rprog \<Rightarrow> unit rprog" where
  "tail_call e n p = (if n < max_tail_calls e then p else skip)"

text \<open>The inode number of a socket's file, through three pointers, and its table entry taken out.\<close>

definition sock_ino :: "env \<Rightarrow> u64 \<Rightarrow> u32" where
  "sock_ino e sk = kget e ''inode.i_ino'' (kget e ''file.f_inode'' (kget e ''socket.file'' (kget e ''sock.sk_socket'' sk)))"

definition take_seen_inode :: "env \<Rightarrow> u64 \<Rightarrow> u32 option rprog" where
  "take_seen_inode e sk = (let ino = sock_ino e sk in do {
     lookup_tgid \<leftarrow> gets (\<lambda>s. seen_inodes s ino);
     (if lookup_tgid = None then skip
      else modify (\<lambda>s. s\<lparr>seen_inodes := snd (map_delete e (Tbl BPF_TABLE_SEEN_INODES) (ucast ino) ino (seen_inodes s))\<rparr>));
     State_Monad.return lookup_tgid
   })"

definition render0 :: render where
  "render0 = \<lparr>ktime_reads = 0, bpf_log_globals = log_globals0, events = [],
     tgid_info_table = Map.empty, dead_group_tasks = Map.empty, seen_inodes = Map.empty,
     seen_conntracks = Map.empty, tcp_open_sockets = Map.empty, udp_open_sockets = Map.empty,
     udp_get_port_hash = Map.empty, cgroup_exit_active = Map.empty,
     on_inet_csk_accept_active = Map.empty, inet_release_active = Map.empty,
     cgroup_control_active = Map.empty\<rparr>"

end
