(* ===== verification/Render_Process.thy ===== *)
theory Render_Process
  imports Render_State
begin

text \<open>
  Processes, cgroups and NAT of \<^verbatim>\<open>src/collector/kernel/bpf_src/render_bpf.c\<close>: the probes that tell
  user space about the life of thread groups, of cgroups and of translated connections.
\<close>

section \<open>Processes\<close>

definition report_pid_exit :: "env \<Rightarrow> u64 \<Rightarrow> u64 \<Rightarrow> unit rprog" where
  "report_pid_exit e timestamp task = perf_submit (Ev_pid_exit timestamp
     (kget e ''task_struct.tgid'' task) (kget e ''task_struct.pid'' task) (kget e ''task_struct.exit_code'' task))"

definition set_task_group_dead :: "env \<Rightarrow> u64 \<Rightarrow> bool rprog" where
  "set_task_group_dead e tsk = do {
     m \<leftarrow> gets dead_group_tasks;
     let (ret, m') = map_insert e (Tbl BPF_TABLE_DEAD_GROUP_TASKS) tsk tsk tsk m;
     modify (\<lambda>s. s\<lparr>dead_group_tasks := m'\<rparr>);
     if table_full ret then do {
       bpf_log e 182 BPF_LOG_TABLE_FULL (table_id BPF_TABLE_DEAD_GROUP_TASKS) 0 tsk;
       State_Monad.return False
     } else if ret = - EEXIST then do {
       bpf_log e 188 BPF_LOG_TABLE_DUPLICATE_INSERT (table_id BPF_TABLE_DEAD_GROUP_TASKS) 0 tsk;
       State_Monad.return False
     } else if ret \<noteq> 0 then do {
       bpf_log e 194 BPF_LOG_TABLE_BAD_INSERT (table_id BPF_TABLE_DEAD_GROUP_TASKS) 0 (abs_val ret);
       State_Monad.return False
     } else State_Monad.return True
   }"

definition task_group_check_dead_and_remove :: "env \<Rightarrow> u64 \<Rightarrow> bool rprog" where
  "task_group_check_dead_and_remove e tsk = do {
     m \<leftarrow> gets dead_group_tasks;
     let (ret, m') = map_delete e (Tbl BPF_TABLE_DEAD_GROUP_TASKS) tsk tsk m;
     modify (\<lambda>s. s\<lparr>dead_group_tasks := m'\<rparr>);
     State_Monad.return (ret = 0)
   }"

definition task_is_group_leader :: "env \<Rightarrow> u64 \<Rightarrow> bool rprog" where
  "task_is_group_leader e tsk = (
     if tsk = 0 then do {
       bpf_log e 217 BPF_LOG_INVALID_POINTER 0 0 0;
       State_Monad.return False
     } else checked_read e 224 ''task_struct.group_leader'' tsk False (\<lambda>group_leader.
       if group_leader = 0 then do {
         bpf_log e 228 BPF_LOG_INVALID_POINTER 0 0 0;
         State_Monad.return False
       } else State_Monad.return (tsk = group_leader)))"

definition get_task_cgroup :: "env \<Rightarrow> u64 \<Rightarrow> u64 rprog" where
  "get_task_cgroup e tsk = (
     if tsk = 0 then do { bpf_log e 244 BPF_LOG_INVALID_POINTER 0 0 0; State_Monad.return 0 }
     else checked_read e 251 ''task_struct.cgroups'' tsk 0 (\<lambda>set.
       if set = 0 then do { bpf_log e 255 BPF_LOG_INVALID_POINTER 0 0 0; State_Monad.return 0 }
       else checked_read e 262 ''css_set.subsys[FLOW_CGROUP_SUBSYS]'' set 0 (\<lambda>css.
         if css = 0 then do { bpf_log e 266 BPF_LOG_INVALID_POINTER 0 0 0; State_Monad.return 0 }
         else checked_read e 273 ''cgroup_subsys_state.cgroup'' css 0 (\<lambda>cgrp.
           if cgrp = 0 then do { bpf_log e 277 BPF_LOG_INVALID_POINTER 0 0 0; State_Monad.return 0 }
           else State_Monad.return cgrp))))"

definition get_task_parent :: "env \<Rightarrow> u64 \<Rightarrow> u32 rprog" where
  "get_task_parent e tsk =
     checked_read e 291 ''task_struct.parent'' tsk (- 1) (\<lambda>parent_tsk.
       checked_read e 298 ''task_struct.tgid'' parent_tsk (- 1) (\<lambda>parent_tgid.
         State_Monad.return (ucast parent_tgid)))"

definition insert_tgid_info :: "env \<Rightarrow> u32 \<Rightarrow> bool rprog" where
  "insert_tgid_info e tgid = do {
     m \<leftarrow> gets tgid_info_table;
     let (ret, m') = map_insert e (Tbl BPF_TABLE_TGID_INFO) (ucast tgid) tgid tgid m;
     modify (\<lambda>s. s\<lparr>tgid_info_table := m'\<rparr>);
     if table_full ret then do {
       bpf_log e 316 BPF_LOG_TABLE_FULL (table_id BPF_TABLE_TGID_INFO) (ucast tgid) (ucast tgid);
       State_Monad.return False
     } else if ret = - EEXIST then State_Monad.return False
     else if ret \<noteq> 0 then do {
       bpf_log e 327 BPF_LOG_TABLE_BAD_INSERT (table_id BPF_TABLE_TGID_INFO) (ucast tgid) (abs_val ret);
       State_Monad.return False
     } else State_Monad.return True
   }"

definition remove_tgid_info :: "env \<Rightarrow> u32 \<Rightarrow> bool rprog" where
  "remove_tgid_info e tgid = do {
     m \<leftarrow> gets tgid_info_table;
     let (ret, m') = map_delete e (Tbl BPF_TABLE_TGID_INFO) (ucast tgid) tgid m;
     modify (\<lambda>s. s\<lparr>tgid_info_table := m'\<rparr>);
     if ret \<noteq> 0 then do {
       (if ret \<noteq> - ENOENT
        then bpf_log e 346 BPF_LOG_TABLE_BAD_REMOVE (table_id BPF_TABLE_TGID_INFO) (ucast tgid) (abs_val ret)
        else skip);
       State_Monad.return False
     } else State_Monad.return True
   }"

definition on_taskstats_exit :: "env \<Rightarrow> u64 \<Rightarrow> bool \<Rightarrow> unit rprog" where
  "on_taskstats_exit e tsk group_dead = (
     if group_dead then do { r \<leftarrow> set_task_group_dead e tsk; skip } else skip)"

definition on_cgroup_exit :: "env \<Rightarrow> u64 \<Rightarrow> unit rprog" where
  "on_cgroup_exit e tsk = checked_read e 374 ''task_struct.tgid'' tsk () (\<lambda>tgid. do {
     dead \<leftarrow> task_group_check_dead_and_remove e tsk;
     if \<not> dead then skip else do {
       (pid_tgid, my_tgid, cpu) \<leftarrow> GET_PID_TGID e 384;
       modify (\<lambda>s. s\<lparr>cgroup_exit_active :=
         SAVE_ARGS e ''cgroup_exit'' pid_tgid (ucast tgid) (cgroup_exit_active s)\<rparr>)
     }
   })"

definition onret_cgroup_exit :: "env \<Rightarrow> unit rprog" where
  "onret_cgroup_exit e = do {
     (pid_tgid, my_tgid, cpu) \<leftarrow> GET_PID_TGID e 395;
     lookup \<leftarrow> gets (\<lambda>s. GET_ARGS pid_tgid (cgroup_exit_active s));
     case lookup of None \<Rightarrow> skip
     | Some tgid \<Rightarrow> do {
         modify (\<lambda>s. s\<lparr>cgroup_exit_active := DELETE_ARGS pid_tgid (cgroup_exit_active s)\<rparr>);
         removed \<leftarrow> remove_tgid_info e tgid;
         if \<not> removed then skip else do {
           now \<leftarrow> get_timestamp e;
           perf_submit (Ev_pid_close now tgid (current_comm e))
         }
       }
   }"

definition on_set_task_comm :: "env \<Rightarrow> u64 \<Rightarrow> u64 \<Rightarrow> unit rprog" where
  "on_set_task_comm e tsk buf = do {
     leader \<leftarrow> task_is_group_leader e tsk;
     if \<not> leader then skip else do {
       now \<leftarrow> get_timestamp e;
       checked_read e 439 ''task_struct.tgid'' tsk () (\<lambda>tgid.
         perf_submit (Ev_pid_set_comm now (ucast tgid) buf))
     }
   }"

text \<open>The common end of the probes on new and on existing tasks, from \<^verbatim>\<open>insert_tgid_info\<close> on.\<close>

definition report_new_task :: "env \<Rightarrow> nat \<Rightarrow> u64 \<Rightarrow> u32 \<Rightarrow> unit rprog" where
  "report_new_task e line tsk tgid = do {
     inserted \<leftarrow> insert_tgid_info e tgid;
     if \<not> inserted then skip else do {
       now \<leftarrow> get_timestamp e;
       cgroup \<leftarrow> get_task_cgroup e tsk;
       parent_tgid \<leftarrow> get_task_parent e tsk;
       let (ret, comm) = kread_comm e tsk;
       if ret \<noteq> 0 then bpf_log e line BPF_LOG_BPF_CALL_FAILED (abs_val ret) 0 0
       else perf_submit (Ev_pid_info now tgid comm cgroup parent_tgid)
     }
   }"

definition on_wake_up_new_task :: "env \<Rightarrow> u64 \<Rightarrow> unit rprog" where
  "on_wake_up_new_task e tsk = checked_read e 455 ''task_struct.tgid'' tsk () (\<lambda>tgid.
     report_new_task e 471 tsk (ucast tgid))"

definition onret_get_pid_task :: "env \<Rightarrow> unit rprog" where
  "onret_get_pid_task e = (let tsk = regs_rc e; (ret, tgid) = probe_read e ''task_struct.tgid'' tsk in
     if ret \<noteq> 0 then bpf_log e 489 BPF_LOG_BPF_CALL_FAILED (abs_val ret) tsk 0
     else report_new_task e 505 tsk (ucast tgid))"

section \<open>Cgroups\<close>

definition get_css_id :: "env \<Rightarrow> u64 \<Rightarrow> u32" where
  "get_css_id e css = (
     if linux_version e < KERNEL_VERSION 3 12 0 then
       (if kget e ''cgroup_subsys_state.id'' css = (0 :: u64) then 0
        else ucast (kget e ''css_id.id'' (kget e ''cgroup_subsys_state.id'' css) :: u16))
     else if kget e ''cgroup_subsys_state.ss'' css = (0 :: u64) then 0
     else kget e ''cgroup_subsys.id'' (kget e ''cgroup_subsys_state.ss'' css))"

definition get_css_parent_cgroup :: "env \<Rightarrow> u64 \<Rightarrow> u64" where
  "get_css_parent_cgroup e css = (
     if linux_version e < KERNEL_VERSION 3 12 0 then
       kget e ''cgroup.parent'' (kget e ''cgroup_subsys_state.cgroup'' css)
     else if kget e ''cgroup_subsys_state.parent'' css = (0 :: u64) then 0
     else kget e ''cgroup_subsys_state.cgroup'' (kget e ''cgroup_subsys_state.parent'' css))"

definition get_cgroup_name :: "env \<Rightarrow> u64 \<Rightarrow> u64" where
  "get_cgroup_name e cg = (
     if linux_version e < KERNEL_VERSION 3 15 0 then kget e ''cgroup.name'' cg
     else kget e ''kernfs_node.name'' (kget e ''cgroup.kn'' cg))"

definition on_kill_css :: "env \<Rightarrow> u64 \<Rightarrow> unit rprog" where
  "on_kill_css e css = (
     if unat (get_css_id e css) \<noteq> flow_cgroup_subsys e then skip else do {
       now \<leftarrow> get_timestamp e;
       let cgroup = kget e ''cgroup_subsys_state.cgroup'' css;
       perf_submit (Ev_kill_css now cgroup (get_css_parent_cgroup e css) (get_cgroup_name e cgroup))
     })"

definition on_cgroup_destroy_locked :: "env \<Rightarrow> u64 \<Rightarrow> unit rprog" where
  "on_cgroup_destroy_locked e cgrp = (
     if kget e ''cgroup.subsys[FLOW_CGROUP_SUBSYS]'' cgrp = (0 :: u64) then skip else do {
       now \<leftarrow> get_timestamp e;
       perf_submit (Ev_kill_css now cgrp (kget e ''cgroup.parent'' cgrp) (get_cgroup_name e cgrp))
     })"

definition on_css_populate_dir :: "env \<Rightarrow> u64 \<Rightarrow> unit rprog" where
  "on_css_populate_dir e css = (
     if unat (get_css_id e css) \<noteq> flow_cgroup_subsys e then skip else do {
       now \<leftarrow> get_timestamp e;
       let cgroup = kget e ''cgroup_subsys_state.cgroup'' css;
       perf_submit (Ev_css_populate_dir now cgroup (get_css_parent_cgroup e css) (get_cgroup_name e cgroup))
     })"

definition on_cgroup_populate_dir :: "env \<Rightarrow> u64 \<Rightarrow> unit rprog" where
  "on_cgroup_populate_dir e cgrp = (
     if kget e ''cgroup.subsys[FLOW_CGROUP_SUBSYS]'' cgrp = (0 :: u64) then skip else do {
       now \<leftarrow> get_timestamp e;
       perf_submit (Ev_css_populate_dir now cgrp (kget e ''cgroup.parent'' cgrp) (get_cgroup_name e cgrp))
     })"

definition on_cgroup_control :: "env \<Rightarrow> u64 \<Rightarrow> unit rprog" where
  "on_cgroup_control e cgrp = do {
     (pid_tgid, tgid, cpu) \<leftarrow> GET_PID_TGID e 2331;
     modify (\<lambda>s. s\<lparr>cgroup_control_active :=
       SAVE_ARGS e ''cgroup_control'' pid_tgid cgrp (cgroup_control_active s)\<rparr>)
   }"

definition onret_cgroup_control :: "env \<Rightarrow> unit rprog" where
  "onret_cgroup_control e = do {
     (pid_tgid, tgid, cpu) \<leftarrow> GET_PID_TGID e 2342;
     lookup \<leftarrow> gets (\<lambda>s. GET_ARGS pid_tgid (cgroup_control_active s));
     case lookup of None \<Rightarrow> skip
     | Some cgrp \<Rightarrow> do {
         modify (\<lambda>s. s\<lparr>cgroup_control_active := DELETE_ARGS pid_tgid (cgroup_control_active s)\<rparr>);
         let subsys_mask = (ucast (regs_rc e) :: u16);
         if \<not> bit subsys_mask (flow_cgroup_subsys e) then skip else do {
           now \<leftarrow> get_timestamp e;
           perf_submit (Ev_existing_cgroup_probe now cgrp
             (get_css_parent_cgroup e (cgroup_self e cgrp)) (get_cgroup_name e cgrp))
         }
       }
   }"

text \<open>
  A cgroup hierarchy is the memory controller's if that is the only bit of its root's mask; the shift
  \<^verbatim>\<open>1 << FLOW_CGROUP_SUBSYS\<close> is computed in 32 bits.
\<close>

definition memory_hierarchy :: "env \<Rightarrow> u64 \<Rightarrow> bool" where
  "memory_hierarchy e cgrp \<longleftrightarrow>
     (kget e ''cgroup_root.subsys_mask'' (kget e ''cgroup.root'' cgrp) :: u32) = push_bit (flow_cgroup_subsys e) 1"

definition on_cgroup_clone_children_read :: "env \<Rightarrow> u64 \<Rightarrow> unit rprog" where
  "on_cgroup_clone_children_read e css = (let cgroup = kget e ''cgroup_subsys_state.cgroup'' css in
     if \<not> memory_hierarchy e cgroup then skip else do {
       now \<leftarrow> get_timestamp e;
       perf_submit (Ev_existing_cgroup_probe now cgroup (get_css_parent_cgroup e css) (get_cgroup_name e cgroup))
     })"

definition on_cgroup_clone_children_read_old :: "env \<Rightarrow> u64 \<Rightarrow> unit rprog" where
  "on_cgroup_clone_children_read_old e cgrp = (
     if \<not> memory_hierarchy e cgrp then skip else do {
       now \<leftarrow> get_timestamp e;
       perf_submit (Ev_existing_cgroup_probe now cgrp (kget e ''cgroup.parent'' cgrp) (get_cgroup_name e cgrp))
     })"

definition on_cgroup_attach_task :: "env \<Rightarrow> u64 \<Rightarrow> u64 \<Rightarrow> unit rprog" where
  "on_cgroup_attach_task e dst_cgrp leader = (
     if \<not> memory_hierarchy e dst_cgrp then skip else do {
       now \<leftarrow> get_timestamp e;
       perf_submit (Ev_cgroup_attach_task now dst_cgrp (kget e ''task_struct.pid'' leader)
         (snd (kread_comm e leader)))
     })"

section \<open>NAT\<close>

definition on_nf_nat_cleanup_conntrack :: "env \<Rightarrow> u64 \<Rightarrow> unit rprog" where
  "on_nf_nat_cleanup_conntrack e ct = do {
     now \<leftarrow> get_timestamp e;
     seen_conntrack \<leftarrow> gets (\<lambda>s. seen_conntracks s ct);
     if seen_conntrack = None then skip else do {
       perf_submit (Ev_nf_nat_cleanup_conntrack now ct
         (kget e ''nf_conn.tuplehash[0].tuple.src.u3.ip'' ct) (kget e ''nf_conn.tuplehash[0].tuple.src.u.all'' ct)
         (kget e ''nf_conn.tuplehash[0].tuple.dst.u3.ip'' ct) (kget e ''nf_conn.tuplehash[0].tuple.dst.u.all'' ct)
         (kget e ''nf_conn.tuplehash[0].tuple.dst.protonum'' ct));
       modify (\<lambda>s. s\<lparr>seen_conntracks :=
         snd (map_delete e (Tbl BPF_TABLE_SEEN_CONNTRACKS) ct ct (seen_conntracks s))\<rparr>)
     }
   }"

definition on_nf_conntrack_alter_reply :: "env \<Rightarrow> u64 \<Rightarrow> u64 \<Rightarrow> unit rprog" where
  "on_nf_conntrack_alter_reply e ct newreply = do {
     now \<leftarrow> get_timestamp e;
     let proto = (kget e ''nf_conntrack_tuple.dst.protonum'' newreply :: u8);
     if kget e ''nf_conn.tuplehash[0].tuple.src.l3num'' ct \<noteq> AF_INET then skip
     else if proto \<noteq> IPPROTO_TCP \<and> proto \<noteq> IPPROTO_UDP then skip
     else do {
       m \<leftarrow> gets seen_conntracks;
       let (ret, m') = map_insert e (Tbl BPF_TABLE_SEEN_CONNTRACKS) ct ct ct m;
       modify (\<lambda>s. s\<lparr>seen_conntracks := m'\<rparr>);
       if table_full ret then skip
       else perf_submit (Ev_nf_conntrack_alter_reply now ct
         (kget e ''nf_conn.tuplehash[0].tuple.src.u3.ip'' ct) (kget e ''nf_conn.tuplehash[0].tuple.src.u.all'' ct)
         (kget e ''nf_conn.tuplehash[0].tuple.dst.u3.ip'' ct) (kget e ''nf_conn.tuplehash[0].tuple.dst.u.all'' ct)
         (kget e ''nf_conn.tuplehash[0].tuple.dst.protonum'' ct)
         (kget e ''nf_conntrack_tuple.dst.u3.ip'' newreply) (kget e ''nf_conntrack_tuple.dst.u.all'' newreply)
         (kget e ''nf_conntrack_tuple.src.u3.ip'' newreply) (kget e ''nf_conntrack_tuple.src.u.all'' newreply)
         proto)
     }
   }"

definition on_ctnetlink_dump_tuples :: "env \<Rightarrow> u64 \<Rightarrow> unit rprog" where
  "on_ctnetlink_dump_tuples e ct = do {
     now \<leftarrow> get_timestamp e;
     let src_ip = kget e ''nf_conntrack_tuple.src.u3.ip'' ct;
     let src_port = kget e ''nf_conntrack_tuple.src.u.all'' ct;
     let dst_ip = kget e ''nf_conntrack_tuple.dst.u3.ip'' ct;
     let dst_port = kget e ''nf_conntrack_tuple.dst.u.all'' ct;
     let protonum = kget e ''nf_conntrack_tuple.dst.protonum'' ct;
     let dir = (kget e ''nf_conntrack_tuple.dst.dir'' ct :: u8);
     if dir = 0
     then perf_submit (Ev_existing_conntrack_tuple now ct src_ip src_port dst_ip dst_port protonum dir)
     else perf_submit (Ev_existing_conntrack_tuple now (ct - tuple_hash_size e)
       dst_ip dst_port src_ip src_port protonum dir)
   }"

end
