(* ===== verification/Render_Tcp.thy ===== *)
theory Render_Tcp
  imports Render_State
begin

text \<open>
  TCP sockets of \<^verbatim>\<open>src/collector/kernel/bpf_src/render_bpf.c\<close>: the table of open sockets, the probes
  on their life (\<^verbatim>\<open>tcp_init_sock\<close>, \<^verbatim>\<open>inet_csk_accept\<close>, \<^verbatim>\<open>tcp46_seq_show\<close>), on their state changes, resets
  and time-outs, and the periodic statistics.  A pointer to an entry of the table is the entry's key.
\<close>

section \<open>Statistics\<close>

definition packets_in_flight_helper :: "env \<Rightarrow> u64 \<Rightarrow> u32" where
  "packets_in_flight_helper e sk =
     kget e ''tcp_sock.packets_out'' sk - (kget e ''tcp_sock.sacked_out'' sk + kget e ''tcp_sock.lost_out'' sk) +
     kget e ''tcp_sock.retrans_out'' sk"

definition tcp_get_delivered :: "env \<Rightarrow> u64 \<Rightarrow> u32" where
  "tcp_get_delivered e sk = (
     if linux_version e < KERNEL_VERSION 4 6 0
     then kget e ''tcp_sock.packets_out'' sk - kget e ''tcp_sock.sacked_out'' sk
     else kget e ''tcp_sock.delivered'' sk)"

text \<open>The entry with its new time of output, which the caller stores where its pointer points.\<close>

definition report_rtt_estimator ::
    "env \<Rightarrow> u64 \<Rightarrow> tcp_open_socket_t \<Rightarrow> u64 \<Rightarrow> bool \<Rightarrow> tcp_open_socket_t rprog" where
  "report_rtt_estimator e sk sk_info0 now adjust = (
     let sk_info = sk_info0\<lparr>os_last_output := now\<rparr>;
         rcv_rtt_us = (if linux_version e < KERNEL_VERSION 4 12 0 then kget e ''tcp_sock.rcv_rtt_est.rtt'' sk
           else kget e ''tcp_sock.rcv_rtt_est.rtt_us'' sk) in
     checked_read e 561 ''tcp_sock.srtt_us'' sk sk_info (\<lambda>srtt.
     checked_read e 567 ''tcp_sock.snd_cwnd'' sk sk_info (\<lambda>snd_cwnd.
     checked_read e 573 ''tcp_sock.bytes_acked'' sk sk_info (\<lambda>bytes_acked0.
     checked_read e 579 ''*(&inet_connection_sock.icsk_sync_mss + 1)'' sk sk_info (\<lambda>ca_state.
     checked_read e 585 ''tcp_sock.total_retrans'' sk sk_info (\<lambda>packets_retrans.
     checked_read e 591 ''tcp_sock.bytes_received'' sk sk_info (\<lambda>bytes_received0.
       let bytes_acked = (if adjust then bytes_acked0 AND NOT 3 else bytes_acked0);
           bytes_received = (if adjust then bytes_received0 AND NOT 3 else bytes_received0) in do {
         perf_submit (Ev_rtt_estimator now (ucast srtt) (ucast snd_cwnd) bytes_acked (ucast ca_state) sk
           (packets_in_flight_helper e sk) (tcp_get_delivered e sk) (ucast packets_retrans)
           (os_rcv_holes sk_info) bytes_received (os_rcv_delivered sk_info) rcv_rtt_us);
         State_Monad.return sk_info
       })))))))"

section \<open>The table of open sockets\<close>

definition add_tcp_open_socket :: "env \<Rightarrow> u64 \<Rightarrow> u32 \<Rightarrow> u64 \<Rightarrow> u64 \<Rightarrow> int rprog" where
  "add_tcp_open_socket e sk tgid now parent =
     checked_read e 650 ''tcp_sock.bytes_received'' sk (- 1) (\<lambda>bytes_received. do {
       m \<leftarrow> gets tcp_open_sockets;
       let (ret, m') = map_insert e (Tbl BPF_TABLE_TCP_OPEN_SOCKETS) sk sk
         \<lparr>os_tgid = tgid, os_rcv_holes = 0, os_last_output = 0, os_bytes_received = bytes_received,
           os_rcv_delivered = 0, os_parent = parent\<rparr> m;
       modify (\<lambda>s. s\<lparr>tcp_open_sockets := m'\<rparr>);
       if table_full ret then do {
         bpf_log e 660 BPF_LOG_TABLE_FULL (table_id BPF_TABLE_TCP_OPEN_SOCKETS) (ucast tgid) sk;
         State_Monad.return (- 1)
       } else if ret = - EEXIST then State_Monad.return 0
       else if ret \<noteq> 0 then do {
         bpf_log e 668 BPF_LOG_TABLE_BAD_INSERT (table_id BPF_TABLE_TCP_OPEN_SOCKETS) (ucast tgid) (abs_val ret);
         State_Monad.return (- 1)
       } else State_Monad.return 1
     })"

text \<open>
  \<^verbatim>\<open>remove_tcp_open_socket\<close> in its two atomic parts: the lookup that copies the entry, and the deletion
  with the final report, sent only if this call removed the entry.
\<close>

definition finish_tcp_socket :: "env \<Rightarrow> u64 \<Rightarrow> tcp_open_socket_t \<Rightarrow> unit rprog" where
  "finish_tcp_socket e sk sk_info = do {
     m \<leftarrow> gets tcp_open_sockets;
     let (ret, m') = map_delete e (Tbl BPF_TABLE_TCP_OPEN_SOCKETS) sk sk m;
     modify (\<lambda>s. s\<lparr>tcp_open_sockets := m'\<rparr>);
     if ret \<noteq> 0 then skip else do {
       now \<leftarrow> get_timestamp e;
       r \<leftarrow> report_rtt_estimator e sk sk_info now True;
       perf_submit (Ev_close_sock_info now sk)
     }
   }"

definition remove_tcp_open_socket :: "env \<Rightarrow> u64 \<Rightarrow> unit rprog" where
  "remove_tcp_open_socket e sk = do {
     lookup \<leftarrow> gets (\<lambda>s. tcp_open_sockets s sk);
     case lookup of None \<Rightarrow> skip
     | Some sk_info \<Rightarrow> finish_tcp_socket e sk sk_info
   }"

definition submit_set_state_ipv6 :: "env \<Rightarrow> u64 \<Rightarrow> u32 \<Rightarrow> u64 \<Rightarrow> unit rprog" where
  "submit_set_state_ipv6 e now tx_rx sk = (
     if sk = 0 then bpf_log e 710 BPF_LOG_INVALID_POINTER 0 0 0
     else perf_submit (Ev_set_state_ipv6 now (kget6 e ''sock.sk_v6_daddr'' sk) (kget6 e ''sock.sk_v6_rcv_saddr'' sk)
       (ntohs (kget e ''sock.sk_dport'' sk)) (kget e ''sock.sk_num'' sk) sk tx_rx))"

definition submit_set_state_ipv4 :: "env \<Rightarrow> u64 \<Rightarrow> u32 \<Rightarrow> u64 \<Rightarrow> unit rprog" where
  "submit_set_state_ipv4 e now tx_rx sk = (
     if sk = 0 then bpf_log e 731 BPF_LOG_INVALID_POINTER 0 0 0
     else perf_submit (Ev_set_state_ipv4 now (kget e ''sock.sk_daddr'' sk) (kget e ''sock.sk_rcv_saddr'' sk)
       (ntohs (kget e ''sock.sk_dport'' sk)) (kget e ''sock.sk_num'' sk) sk tx_rx))"

definition submit_reset_tcp_counters :: "env \<Rightarrow> u64 \<Rightarrow> u64 \<Rightarrow> u64 \<Rightarrow> unit rprog" where
  "submit_reset_tcp_counters e now pid sk =
     checked_read e 752 ''tcp_sock.bytes_acked'' sk () (\<lambda>bytes_acked.
     checked_read e 758 ''tcp_sock.total_retrans'' sk () (\<lambda>packets_retrans.
     checked_read e 764 ''tcp_sock.bytes_received'' sk () (\<lambda>bytes_received.
       perf_submit (Ev_reset_tcp_counters now sk bytes_acked (tcp_get_delivered e sk) (ucast packets_retrans)
         bytes_received pid))))"

definition ensure_tcp_existing :: "env \<Rightarrow> u64 \<Rightarrow> u32 \<Rightarrow> int rprog" where
  "ensure_tcp_existing e sk pid = (let family = kget e ''sock.sk_family'' sk in
     if family \<noteq> AF_INET \<and> family \<noteq> AF_INET6 then State_Monad.return (- 1)
     else do {
       now \<leftarrow> get_timestamp e;
       let tx_rx = (if kget e ''sock.sk_state'' sk = TCP_LISTEN then 2 else 0);
       ret \<leftarrow> add_tcp_open_socket e sk pid now 0;
       (if ret = 1 then do {
          submit_reset_tcp_counters e now (ucast pid) sk;
          if family = AF_INET6 then submit_set_state_ipv6 e now tx_rx sk
          else submit_set_state_ipv4 e now tx_rx sk
        } else skip);
       State_Monad.return ret
     })"

text \<open>The result is whether the socket is in the table afterwards (the returned pointer is not null).\<close>

definition tcp_existing_hack :: "env \<Rightarrow> u64 \<Rightarrow> bool rprog" where
  "tcp_existing_hack e sk = (let pid_tgid = current_pid_tgid e;
       tgid = TGID_FROM_PID_TGID pid_tgid; pid = PID_FROM_PID_TGID pid_tgid in
     if tgid = 0 \<or> pid = 0 then State_Monad.return False
     else do {
       ret \<leftarrow> ensure_tcp_existing e sk tgid;
       gets (\<lambda>s. tcp_open_sockets s sk \<noteq> None)
     })"

text \<open>A lookup that adds a missing socket if it can, the beginning of several probes.\<close>

definition tcp_socket_known :: "env \<Rightarrow> u64 \<Rightarrow> bool rprog" where
  "tcp_socket_known e sk = do {
     sk_info \<leftarrow> gets (\<lambda>s. tcp_open_sockets s sk);
     if sk_info = None then tcp_existing_hack e sk else State_Monad.return True
   }"

definition restart_tcp_socket :: "env \<Rightarrow> u64 \<Rightarrow> u64 \<Rightarrow> unit rprog" where
  "restart_tcp_socket e now sk = do {
     (pid_tgid, tgid, cpu) \<leftarrow> GET_PID_TGID e 837;
     remove_tcp_open_socket e sk;
     ret \<leftarrow> add_tcp_open_socket e sk tgid now 0;
     if ret = 1 then perf_submit (Ev_new_sock_created now tgid sk)
     else if ret = 0 then
       bpf_log e 850 BPF_LOG_TABLE_DUPLICATE_INSERT (table_id BPF_TABLE_TCP_OPEN_SOCKETS) (ucast tgid) sk
     else bpf_log e 855 BPF_LOG_TABLE_BAD_INSERT (table_id BPF_TABLE_TCP_OPEN_SOCKETS) (ucast tgid) (abs_val ret)
   }"

section \<open>Probes on the life of sockets\<close>

definition on_tcp_connect :: "env \<Rightarrow> u64 \<Rightarrow> unit rprog" where
  "on_tcp_connect e sk = do {
     known \<leftarrow> tcp_socket_known e sk;
     if \<not> known then skip else do {
       now \<leftarrow> get_timestamp e;
       let family = kget e ''sock.sk_family'' sk;
       if family = AF_INET then submit_set_state_ipv4 e now 1 sk
       else if family = AF_INET6 then submit_set_state_ipv6 e now 1 sk
       else bpf_log e 888 BPF_LOG_UNREACHABLE 0 0 0
     }
   }"

definition on_inet_csk_listen_start :: "env \<Rightarrow> u64 \<Rightarrow> unit rprog" where
  "on_inet_csk_listen_start e sk = (let family = kget e ''sock.sk_family'' sk in
     if family \<noteq> AF_INET \<and> family \<noteq> AF_INET6 then skip else do {
       known \<leftarrow> tcp_socket_known e sk;
       if \<not> known then skip else do {
         now \<leftarrow> get_timestamp e;
         if family = AF_INET then submit_set_state_ipv4 e now 2 sk
         else if family = AF_INET6 then submit_set_state_ipv6 e now 2 sk
         else bpf_log e 929 BPF_LOG_UNREACHABLE 0 0 0
       }
     })"

definition tcp_lifetime_hack :: "env \<Rightarrow> u64 \<Rightarrow> unit rprog" where
  "tcp_lifetime_hack e sk = do {
     sk_info \<leftarrow> gets (\<lambda>s. tcp_open_sockets s sk);
     if sk_info = None then skip else do {
       (if report_debug_events e then do {
          now \<leftarrow> get_timestamp e;
          perf_submit (Ev_report_debug_event now TCP_LIFETIME_HACK_CODE sk)
        } else skip);
       remove_tcp_open_socket e sk
     }
   }"

definition on_tcp_init_sock :: "env \<Rightarrow> u64 \<Rightarrow> unit rprog" where
  "on_tcp_init_sock e sk = do {
     (pid_tgid, tgid, cpu) \<leftarrow> GET_PID_TGID e 960;
     now \<leftarrow> get_timestamp e;
     tcp_lifetime_hack e sk;
     ret \<leftarrow> add_tcp_open_socket e sk tgid now 0;
     if ret = 1 then perf_submit (Ev_new_sock_created now tgid sk)
     else if ret = 0 then
       bpf_log e 977 BPF_LOG_TABLE_DUPLICATE_INSERT (table_id BPF_TABLE_TCP_OPEN_SOCKETS) (ucast tgid) sk
     else bpf_log e 982 BPF_LOG_TABLE_BAD_INSERT (table_id BPF_TABLE_TCP_OPEN_SOCKETS) (ucast tgid) (abs_val ret)
   }"

definition on_inet_csk_accept :: "env \<Rightarrow> u64 \<Rightarrow> u32 \<Rightarrow> u64 \<Rightarrow> unit rprog" where
  "on_inet_csk_accept e sk flags err = do {
     (pid_tgid, tgid, cpu) \<leftarrow> GET_PID_TGID e 1006;
     known \<leftarrow> tcp_socket_known e sk;
     if \<not> known then skip
     else modify (\<lambda>s. s\<lparr>on_inet_csk_accept_active := SAVE_ARGS e ''on_inet_csk_accept'' pid_tgid
       \<lparr>oa_sk = sk, oa_flags = flags, oa_err = err\<rparr> (on_inet_csk_accept_active s)\<rparr>)
   }"

definition delete_on_accept_args :: "u64 \<Rightarrow> unit rprog" where
  "delete_on_accept_args pid_tgid = modify (\<lambda>s. s\<lparr>on_inet_csk_accept_active :=
     DELETE_ARGS pid_tgid (on_inet_csk_accept_active s)\<rparr>)"

definition onret_inet_csk_accept :: "env \<Rightarrow> unit rprog" where
  "onret_inet_csk_accept e = do {
     (pid_tgid, tgid, cpu) \<leftarrow> GET_PID_TGID e 1034;
     let newsk = regs_rc e;
     let family = kget e ''sock.sk_family'' newsk;
     if newsk = 0 then delete_on_accept_args pid_tgid
     else if family \<noteq> AF_INET \<and> family \<noteq> AF_INET6 then do {
       bpf_log e 1054 BPF_LOG_UNEXPECTED_TYPE newsk (ucast family) 0;
       delete_on_accept_args pid_tgid
     } else do {
       lookup \<leftarrow> gets (\<lambda>s. GET_ARGS pid_tgid (on_inet_csk_accept_active s));
       case lookup of None \<Rightarrow> skip
       | Some args \<Rightarrow> do {
           now \<leftarrow> get_timestamp e;
           tcp_lifetime_hack e newsk;
           ret \<leftarrow> add_tcp_open_socket e newsk tgid now (oa_sk args);
           (if ret = 1 then do {
              perf_submit (Ev_new_sock_created now tgid newsk);
              let dport = kget e ''sock.sk_dport'' newsk;
              let sport = kget e ''sock.sk_num'' newsk;
              if family = AF_INET then perf_submit (Ev_set_state_ipv4 now (kget e ''sock.sk_daddr'' newsk)
                (kget e ''sock.sk_rcv_saddr'' newsk) (ntohs dport) sport newsk 2)
              else perf_submit (Ev_set_state_ipv6 now (kget6 e ''sock.sk_v6_daddr'' newsk)
                (kget6 e ''sock.sk_v6_rcv_saddr'' newsk) (ntohs dport) sport newsk 2)
            } else if ret = 0 then
              bpf_log e 1087 BPF_LOG_TABLE_DUPLICATE_INSERT (table_id BPF_TABLE_TCP_OPEN_SOCKETS) (ucast tgid) newsk
            else skip);
           delete_on_accept_args pid_tgid
         }
     }
   }"

definition on_tcp46_seq_show :: "env \<Rightarrow> u64 \<Rightarrow> unit rprog" where
  "on_tcp46_seq_show e sk = do {
     lookup_tgid \<leftarrow> take_seen_inode e sk;
     case lookup_tgid of None \<Rightarrow> skip
     | Some tgid \<Rightarrow> do {
         ret \<leftarrow> ensure_tcp_existing e sk tgid;
         if ret < 0 then
           bpf_log e 1153 BPF_LOG_TABLE_BAD_INSERT (table_id BPF_TABLE_TCP_OPEN_SOCKETS) (ucast tgid) (abs_val ret)
         else skip
       }
   }"

section \<open>Resets and time-outs\<close>

definition handle_tcp_reset :: "env \<Rightarrow> u64 \<Rightarrow> u8 \<Rightarrow> unit rprog" where
  "handle_tcp_reset e sk is_rx = do {
     sk_info \<leftarrow> gets (\<lambda>s. tcp_open_sockets s sk);
     if sk_info = None then skip else do {
       now \<leftarrow> get_timestamp e;
       perf_submit (Ev_tcp_reset now sk is_rx)
     }
   }"

definition on_tcp_reset :: "env \<Rightarrow> u64 \<Rightarrow> unit rprog" where
  "on_tcp_reset e sk = handle_tcp_reset e sk 1"

definition on_tcp_send_active_reset :: "env \<Rightarrow> u64 \<Rightarrow> unit rprog" where
  "on_tcp_send_active_reset e sk = handle_tcp_reset e sk 0"

text \<open>The state as a one-bit mask, of type \<^verbatim>\<open>int\<close>, against those of the two SYN states.\<close>

definition syn_state :: "u8 \<Rightarrow> bool" where
  "syn_state st \<longleftrightarrow> (push_bit (unat st) 1 :: u32) AND
     (push_bit (unat TCP_SYN_SENT) 1 OR push_bit (unat TCP_SYN_RECV) 1) \<noteq> 0"

definition handle_syn_timeout :: "env \<Rightarrow> u64 \<Rightarrow> unit rprog" where
  "handle_syn_timeout e sk = (
     if \<not> syn_state (kget e ''sock.sk_state'' sk) then skip else do {
       sk_info \<leftarrow> gets (\<lambda>s. tcp_open_sockets s sk);
       if sk_info = None then skip else do {
         now \<leftarrow> get_timestamp e;
         perf_submit (Ev_tcp_syn_timeout now sk)
       }
     })"

definition on_tcp_retransmit_timer :: "env \<Rightarrow> u64 \<Rightarrow> unit rprog" where
  "on_tcp_retransmit_timer e sk = handle_syn_timeout e sk"

definition on_tcp_syn_ack_timeout :: "env \<Rightarrow> u64 \<Rightarrow> unit rprog" where
  "on_tcp_syn_ack_timeout e req = (
     if linux_version e < KERNEL_VERSION 4 4 0 then do {
       lookup \<leftarrow> gets (\<lambda>s. tcp_open_sockets s (kget e ''request_sock.sk'' req));
       case lookup of None \<Rightarrow> skip
       | Some sk_info \<Rightarrow> handle_syn_timeout e (os_parent sk_info)
     } else handle_syn_timeout e (kget e ''request_sock.rsk_listener'' req))"

section \<open>Live statistics\<close>

definition report_rtt_estimator_if_time ::
    "env \<Rightarrow> u64 \<Rightarrow> tcp_open_socket_t \<Rightarrow> tcp_open_socket_t rprog" where
  "report_rtt_estimator_if_time e sk sk_info = do {
     now \<leftarrow> get_timestamp e;
     if now - os_last_output sk_info < filter_ns e then State_Monad.return sk_info
     else report_rtt_estimator e sk sk_info now False
   }"

definition on_tcp_rtt_estimator :: "env \<Rightarrow> u64 \<Rightarrow> unit rprog" where
  "on_tcp_rtt_estimator e sk = (
     if kget e ''sock.sk_state'' sk \<noteq> TCP_ESTABLISHED then skip else do {
       lookup \<leftarrow> gets (\<lambda>s. tcp_open_sockets s sk);
       case lookup of None \<Rightarrow> skip
       | Some sk_info \<Rightarrow> do {
           sk_info' \<leftarrow> report_rtt_estimator_if_time e sk sk_info;
           modify (\<lambda>s. s\<lparr>tcp_open_sockets := (tcp_open_sockets s)(sk \<mapsto> sk_info')\<rparr>)
         }
     })"

definition on_tcp_rcv_established :: "env \<Rightarrow> u64 \<Rightarrow> unit rprog" where
  "on_tcp_rcv_established e sk = do {
     lookup \<leftarrow> gets (\<lambda>s. tcp_open_sockets s sk);
     case lookup of None \<Rightarrow> skip
     | Some sk_info \<Rightarrow> checked_read e 1913 ''tcp_sock.bytes_received'' sk () (\<lambda>bytes_received.
         if bytes_received \<noteq> os_bytes_received sk_info then do {
           sk_info' \<leftarrow> report_rtt_estimator_if_time e sk (sk_info\<lparr>
             os_rcv_holes := os_rcv_holes sk_info + 1, os_rcv_delivered := os_rcv_delivered sk_info + 1,
             os_bytes_received := bytes_received\<rparr>);
           modify (\<lambda>s. s\<lparr>tcp_open_sockets := (tcp_open_sockets s)(sk \<mapsto> sk_info')\<rparr>)
         } else skip)
   }"

definition on_tcp_event_data_recv :: "env \<Rightarrow> u64 \<Rightarrow> unit rprog" where
  "on_tcp_event_data_recv e sk = do {
     lookup \<leftarrow> gets (\<lambda>s. tcp_open_sockets s sk);
     case lookup of None \<Rightarrow> skip
     | Some sk_info \<Rightarrow> checked_read e 1945 ''tcp_sock.bytes_received'' sk () (\<lambda>bytes_received. do {
         sk_info' \<leftarrow> report_rtt_estimator_if_time e sk (sk_info\<lparr>
           os_rcv_delivered := os_rcv_delivered sk_info + 1, os_bytes_received := bytes_received\<rparr>);
         modify (\<lambda>s. s\<lparr>tcp_open_sockets := (tcp_open_sockets s)(sk \<mapsto> sk_info')\<rparr>)
       })
   }"

end
