(* ===== verification/Render_Udp.thy ===== *)
theory Render_Udp
  imports Render_Tcp
begin

text \<open>
  UDP sockets and DNS capture of \<^verbatim>\<open>src/collector/kernel/bpf_src/render_bpf.c\<close>: the table of open
  sockets with the statistics of both directions, the probes on the end of any socket, and the probes
  on datagrams, which update the statistics and then copy the payload of those to or from port 53.
\<close>

section \<open>The table of open sockets\<close>

definition udp_stats0 :: udp_stats_t where
  "udp_stats0 = \<lparr>us_last_output = 0, us_laddr6 = In6 0 0 0 0, us_raddr6 = In6 0 0 0 0, us_lport = 0,
     us_rport = 0, us_addr_changed = 0, us_bytes = 0, us_packets = 0, us_drops = 0\<rparr>"

definition add_udp_open_socket :: "env \<Rightarrow> u64 \<Rightarrow> u32 \<Rightarrow> u64 \<Rightarrow> int rprog" where
  "add_udp_open_socket e sk tgid now = do {
     m \<leftarrow> gets udp_open_sockets;
     let (ret, m') = map_insert e (Tbl BPF_TABLE_UDP_OPEN_SOCKETS) sk sk
       \<lparr>uo_tgid = tgid, uo_stats = (\<lambda>is_rx. udp_stats0)\<rparr> m;
     modify (\<lambda>s. s\<lparr>udp_open_sockets := m'\<rparr>);
     if table_full ret then do {
       bpf_log e 1187 BPF_LOG_TABLE_FULL (table_id BPF_TABLE_UDP_OPEN_SOCKETS) (ucast tgid) sk;
       State_Monad.return (- 1)
     } else if ret = - EEXIST then State_Monad.return 0
     else if ret \<noteq> 0 then do {
       bpf_log e 1195 BPF_LOG_TABLE_BAD_INSERT (table_id BPF_TABLE_UDP_OPEN_SOCKETS) (ucast tgid) (abs_val ret);
       State_Monad.return (- 1)
     } else State_Monad.return 1
   }"

definition ensure_udp_existing :: "env \<Rightarrow> u64 \<Rightarrow> u32 \<Rightarrow> int rprog" where
  "ensure_udp_existing e sk tgid = (let family = kget e ''sock.sk_family'' sk in
     if family \<noteq> AF_INET \<and> family \<noteq> AF_INET6 then State_Monad.return (- 1)
     else do {
       now \<leftarrow> get_timestamp e;
       ret \<leftarrow> add_udp_open_socket e sk tgid now;
       (if ret = 1 then
          let addr = (if family = AF_INET6 then kget6 e ''sock.sk_v6_rcv_saddr'' sk
            else In6 0 0 0xffff0000 (kget e ''sock.sk_rcv_saddr'' sk)) in
          perf_submit (Ev_udp_new_socket now tgid sk addr (kget e ''inet_sock.inet_num'' sk))
        else skip);
       State_Monad.return ret
     })"

definition udp_existing_hack :: "env \<Rightarrow> u64 \<Rightarrow> udp_open_socket_t option rprog" where
  "udp_existing_hack e sk = (let pid_tgid = current_pid_tgid e;
       tgid = TGID_FROM_PID_TGID pid_tgid; pid = PID_FROM_PID_TGID pid_tgid in
     if tgid = 0 \<or> pid = 0 then State_Monad.return None
     else do {
       ret \<leftarrow> ensure_udp_existing e sk tgid;
       gets (\<lambda>s. udp_open_sockets s sk)
     })"

definition sk_drops :: "env \<Rightarrow> u64 \<Rightarrow> u32" where
  "sk_drops e sk = kget e ''sock.sk_drops.counter'' sk"

definition udp_send_stats_if_nonempty :: "env \<Rightarrow> u64 \<Rightarrow> u64 \<Rightarrow> udp_stats_t \<Rightarrow> bool \<Rightarrow> unit rprog" where
  "udp_send_stats_if_nonempty e now sk stats is_rx = (
     if us_addr_changed stats = 0 \<and> us_packets stats = 0 \<and> sk_drops e sk = us_drops stats then skip
     else perf_submit (Ev_udp_stats now sk (us_raddr6 stats) (us_packets stats) (us_bytes stats)
       (us_addr_changed stats) (us_rport stats) (if is_rx then 1 else 0) (us_laddr6 stats) (us_lport stats)
       (if is_rx then sk_drops e sk - us_drops stats else 0)))"

text \<open>\<^verbatim>\<open>remove_udp_open_socket\<close> in its two atomic parts, as for TCP.\<close>

definition finish_udp_socket :: "env \<Rightarrow> u64 \<Rightarrow> udp_open_socket_t \<Rightarrow> unit rprog" where
  "finish_udp_socket e sk sk_info = do {
     m \<leftarrow> gets udp_open_sockets;
     let (ret, m') = map_delete e (Tbl BPF_TABLE_UDP_OPEN_SOCKETS) sk sk m;
     modify (\<lambda>s. s\<lparr>udp_open_sockets := m'\<rparr>);
     if ret \<noteq> 0 then skip else do {
       now \<leftarrow> get_timestamp e;
       udp_send_stats_if_nonempty e now sk (uo_stats sk_info False) False;
       udp_send_stats_if_nonempty e now sk (uo_stats sk_info True) True;
       perf_submit (Ev_udp_destroy_socket now sk)
     }
   }"

definition remove_udp_open_socket :: "env \<Rightarrow> u64 \<Rightarrow> unit rprog" where
  "remove_udp_open_socket e sk = do {
     lookup \<leftarrow> gets (\<lambda>s. udp_open_sockets s sk);
     case lookup of None \<Rightarrow> skip
     | Some sk_info \<Rightarrow> finish_udp_socket e sk sk_info
   }"

definition udp_lifetime_hack :: "env \<Rightarrow> u64 \<Rightarrow> unit rprog" where
  "udp_lifetime_hack e sk = do {
     sk_info \<leftarrow> gets (\<lambda>s. udp_open_sockets s sk \<noteq> None);
     if \<not> sk_info then skip else do {
       (if report_debug_events e then do {
          now \<leftarrow> get_timestamp e;
          perf_submit (Ev_report_debug_event now UDP_LIFETIME_HACK_CODE sk)
        } else skip);
       remove_udp_open_socket e sk
     }
   }"

section \<open>Probes on the life of sockets\<close>

definition on_udp46_seq_show :: "env \<Rightarrow> u64 \<Rightarrow> unit rprog" where
  "on_udp46_seq_show e sk = do {
     lookup_tgid \<leftarrow> take_seen_inode e sk;
     case lookup_tgid of None \<Rightarrow> skip
     | Some tgid \<Rightarrow> do {
         ret \<leftarrow> ensure_udp_existing e sk tgid;
         if ret < 0 then
           bpf_log e 1370 BPF_LOG_TABLE_BAD_INSERT (table_id BPF_TABLE_UDP_OPEN_SOCKETS) (ucast tgid) (abs_val ret)
         else skip
       }
   }"

definition on_udp_v46_get_port :: "env \<Rightarrow> u64 \<Rightarrow> unit rprog" where
  "on_udp_v46_get_port e sk = do {
     (pid_tgid, tgid, cpu) \<leftarrow> GET_PID_TGID e 1379;
     modify (\<lambda>s. s\<lparr>udp_get_port_hash :=
       snd (map_insert e (Tbl BPF_TABLE_UDP_GET_PORT_HASH) cpu cpu sk (udp_get_port_hash s))\<rparr>)
   }"

definition onret_udp_v46_get_port :: "env \<Rightarrow> unit rprog" where
  "onret_udp_v46_get_port e = do {
     (pid_tgid, tgid, cpu) \<leftarrow> GET_PID_TGID e 1406;
     let retval = (ucast (regs_rc e) :: u32);
     found \<leftarrow> gets (\<lambda>s. udp_get_port_hash s cpu);
     case found of None \<Rightarrow> skip
     | Some sk \<Rightarrow> do {
         (if retval = 0 then do {
            udp_lifetime_hack e sk;
            ret \<leftarrow> ensure_udp_existing e sk tgid;
            skip
          } else skip);
         modify (\<lambda>s. s\<lparr>udp_get_port_hash :=
           snd (map_delete e (Tbl BPF_TABLE_UDP_GET_PORT_HASH) cpu cpu (udp_get_port_hash s))\<rparr>)
       }
   }"

definition remove_open_socket :: "env \<Rightarrow> u64 \<Rightarrow> unit rprog" where
  "remove_open_socket e sk = do {
     tcp_sk_info \<leftarrow> gets (\<lambda>s. tcp_open_sockets s sk \<noteq> None);
     if tcp_sk_info then remove_tcp_open_socket e sk
     else do {
       udp_sk_info \<leftarrow> gets (\<lambda>s. udp_open_sockets s sk \<noteq> None);
       if udp_sk_info then remove_udp_open_socket e sk else skip
     }
   }"

definition on_security_sk_free :: "env \<Rightarrow> u64 \<Rightarrow> unit rprog" where
  "on_security_sk_free e sk = remove_open_socket e sk"

definition on_inet_release :: "env \<Rightarrow> u64 \<Rightarrow> unit rprog" where
  "on_inet_release e sock = do {
     (pid_tgid, tgid, cpu) \<leftarrow> GET_PID_TGID e 1495;
     let sk = kget e ''socket.sk'' sock;
     if sk = 0 then skip
     else modify (\<lambda>s. s\<lparr>inet_release_active :=
       SAVE_ARGS e ''inet_release'' pid_tgid sk (inet_release_active s)\<rparr>)
   }"

definition onret_inet_release :: "env \<Rightarrow> unit rprog" where
  "onret_inet_release e = do {
     (pid_tgid, tgid, cpu) \<leftarrow> GET_PID_TGID e 1513;
     args \<leftarrow> gets (\<lambda>s. GET_ARGS pid_tgid (inet_release_active s));
     case args of None \<Rightarrow> skip
     | Some sk \<Rightarrow> do {
         modify (\<lambda>s. s\<lparr>inet_release_active := DELETE_ARGS pid_tgid (inet_release_active s)\<rparr>);
         if sk \<noteq> 0 then remove_open_socket e sk else skip
       }
   }"

section \<open>Statistics\<close>

text \<open>The differing bits of two addresses with ports, as \<^verbatim>\<open>lchanged\<close> and \<^verbatim>\<open>rchanged\<close> collect them.\<close>

definition addr_diff :: "in6_addr \<Rightarrow> u16 \<Rightarrow> in6_addr \<Rightarrow> u16 \<Rightarrow> u32" where
  "addr_diff a p b q = (s6_0 a XOR s6_0 b) OR (s6_1 a XOR s6_1 b) OR (s6_2 a XOR s6_2 b) OR (s6_3 a XOR s6_3 b) OR
     ucast (p XOR q)"

text \<open>The entry of a socket, added if it is missing and can be added, as for TCP.\<close>

definition udp_socket_known :: "env \<Rightarrow> u64 \<Rightarrow> udp_open_socket_t option rprog" where
  "udp_socket_known e sk = do {
     lookup \<leftarrow> gets (\<lambda>s. udp_open_sockets s sk);
     if lookup = None then udp_existing_hack e sk else State_Monad.return lookup
   }"

text \<open>
  The entry's statistics after a report at time \<open>now\<close> are what is sent, with the new addresses in
  place, and then restarted with the datagram at hand.
\<close>

definition udp_report_stats ::
    "env \<Rightarrow> u64 \<Rightarrow> udp_stats_t \<Rightarrow> in6_addr \<Rightarrow> u16 \<Rightarrow> in6_addr \<Rightarrow> u16 \<Rightarrow> udp_stats_t" where
  "udp_report_stats e sk stats laddr lport raddr rport = (
     let family = (kget e ''sock.sk_family'' sk :: u16);
         lchanged = addr_diff (us_laddr6 stats) (us_lport stats) laddr lport;
         rchanged = addr_diff (us_raddr6 stats) (us_rport stats) raddr rport;
         stats1 = (if lchanged \<noteq> 0 then stats\<lparr>us_laddr6 := laddr, us_lport := lport\<rparr> else stats);
         stats2 = (if rchanged \<noteq> 0 then stats1\<lparr>us_raddr6 := raddr, us_rport := rport\<rparr> else stats1) in
     stats2\<lparr>us_addr_changed := (if lchanged \<noteq> 0 \<or> rchanged \<noteq> 0 then ucast family else 0)\<rparr>)"

definition udp_update_entry ::
    "env \<Rightarrow> u64 \<Rightarrow> u32 \<Rightarrow> in6_addr \<Rightarrow> u16 \<Rightarrow> in6_addr \<Rightarrow> u16 \<Rightarrow> bool \<Rightarrow> udp_open_socket_t \<Rightarrow> unit rprog" where
  "udp_update_entry e sk skb_len laddr lport raddr rport is_rx sk_info = (
     let stats = uo_stats sk_info is_rx;
         store = (\<lambda>st. modify (\<lambda>s. s\<lparr>udp_open_sockets := (udp_open_sockets s)(sk \<mapsto>
           sk_info\<lparr>uo_stats := (uo_stats sk_info)(is_rx := st)\<rparr>)\<rparr>));
         lchanged = addr_diff (us_laddr6 stats) (us_lport stats) laddr lport;
         rchanged = addr_diff (us_raddr6 stats) (us_rport stats) raddr rport;
         dchanged = (is_rx \<and> sk_drops e sk \<noteq> us_drops stats);
         changed = (lchanged \<noteq> 0 \<or> rchanged \<noteq> 0 \<or> dchanged) in do {
       now \<leftarrow> get_timestamp e;
       if changed \<or> now - us_last_output stats \<ge> filter_ns e then do {
         let reported = udp_report_stats e sk stats laddr lport raddr rport;
         udp_send_stats_if_nonempty e now sk reported is_rx;
         store (reported\<lparr>us_packets := 1, us_drops := (if is_rx then sk_drops e sk else 0),
           us_bytes := skb_len, us_last_output := now\<rparr>)
       } else store (stats\<lparr>us_packets := us_packets stats + 1, us_bytes := us_bytes stats + skb_len\<rparr>)
     })"

definition udp_update_stats ::
    "env \<Rightarrow> u64 \<Rightarrow> u64 \<Rightarrow> in6_addr \<Rightarrow> u16 \<Rightarrow> in6_addr \<Rightarrow> u16 \<Rightarrow> bool \<Rightarrow> unit rprog" where
  "udp_update_stats e sk skb laddr lport raddr rport is_rx = do {
     sk_info_p \<leftarrow> udp_socket_known e sk;
     case sk_info_p of None \<Rightarrow> skip
     | Some sk_info \<Rightarrow>
         udp_update_entry e sk (kget e ''sk_buff.len'' skb) laddr lport raddr rport is_rx sk_info
   }"

section \<open>DNS\<close>

definition DNS_MAX_PACKET_LEN :: "env \<Rightarrow> u32" where
  "DNS_MAX_PACKET_LEN e = (if linux_version e < KERNEL_VERSION 4 15 0 then 380 else 512)"

definition sizeof_udphdr :: nat where "sizeof_udphdr = 8"

text \<open>A pointer read whose failure or null result is logged.\<close>

definition checked_pointer :: "env \<Rightarrow> nat \<Rightarrow> kfield \<Rightarrow> u64 \<Rightarrow> (u64 \<Rightarrow> unit rprog) \<Rightarrow> unit rprog" where
  "checked_pointer e line f p k = (let (rc, v) = probe_read e f p in
     if rc \<noteq> 0 \<or> v = 0 then bpf_log e line BPF_LOG_BPF_CALL_FAILED (abs_val rc) 0 0 else k v)"

text \<open>
  Where the payload starts and how much of it is in the linear part of the buffer, from where \<^verbatim>\<open>data\<close>
  points: the UDP header, the IP header, or already the payload.
\<close>

definition dns_payload :: "u64 \<Rightarrow> u32 \<Rightarrow> u64 \<Rightarrow> u16 \<Rightarrow> u16 \<Rightarrow> (u64 \<times> u32) option" where
  "dns_payload from valid_len skb_head transport_header network_header = (
     if from = skb_head + ucast transport_header then
       if valid_len < of_nat sizeof_udphdr then None
       else Some (from + of_nat sizeof_udphdr, valid_len - of_nat sizeof_udphdr)
     else if from = skb_head + ucast network_header then
       let from' = skb_head + ucast transport_header + of_nat sizeof_udphdr;
           diff = ucast (from' - (skb_head + ucast network_header)) in
       if valid_len < diff then None else Some (from', valid_len - diff)
     else Some (from, valid_len))"

definition submit_dns :: "env \<Rightarrow> u64 \<Rightarrow> u64 \<Rightarrow> u32 \<Rightarrow> u32 \<Rightarrow> bool \<Rightarrow> unit rprog" where
  "submit_dns e sk from valid_len0 len is_rx = do {
     (if valid_len0 > DNS_MAX_PACKET_LEN e then
        bpf_log e 2142 BPF_LOG_DATA_TRUNCATED (ucast valid_len0) (ucast (DNS_MAX_PACKET_LEN e)) 0
      else skip);
     let valid_len = (if valid_len0 > DNS_MAX_PACKET_LEN e then DNS_MAX_PACKET_LEN e else valid_len0);
     if linux_version e \<ge> KERNEL_VERSION 4 15 0 \<and> \<not> percpu_buffer e then
       bpf_log e 2159 BPF_LOG_BPF_CALL_FAILED 0 0 0
     else do {
       let to = probe_mem e from (unat (DNS_MAX_PACKET_LEN e));
       now \<leftarrow> get_timestamp e;
       perf_submit (Ev_dns_packet now sk (take (unat valid_len) to) (ucast len) (if is_rx then 1 else 0))
     }
   }"

definition perf_check_and_submit_dns ::
    "env \<Rightarrow> u64 \<Rightarrow> u64 \<Rightarrow> u8 \<Rightarrow> u16 \<Rightarrow> u16 \<Rightarrow> bool \<Rightarrow> unit rprog" where
  "perf_check_and_submit_dns e sk skb proto sport dport is_rx = (let len = (kget e ''sk_buff.len'' skb :: u32) in
     if \<not> (proto = IPPROTO_UDP \<and> (sport = ntohs 53 \<or> dport = ntohs 53) \<and> len > 0) then skip
     else checked_read e 2074 ''sk_buff.data_len'' skb () (\<lambda>skb_data_len.
       checked_pointer e 2081 ''sk_buff.data'' skb (\<lambda>from.
       checked_pointer e 2088 ''sk_buff.head'' skb (\<lambda>skb_head.
       checked_read e 2095 ''sk_buff.transport_header'' skb () (\<lambda>transport_header.
       checked_read e 2102 ''sk_buff.network_header'' skb () (\<lambda>network_header.
         case dns_payload from (len - ucast skb_data_len) skb_head (ucast transport_header) (ucast network_header) of
           None \<Rightarrow> skip
         | Some (payload, valid_len) \<Rightarrow> submit_dns e sk payload valid_len len is_rx))))))"

section \<open>Probes on datagrams\<close>

definition skb_network :: "env \<Rightarrow> u64 \<Rightarrow> u64" where
  "skb_network e skb = kget e ''sk_buff.head'' skb + ucast (kget e ''sk_buff.network_header'' skb :: u16)"

definition skb_transport :: "env \<Rightarrow> u64 \<Rightarrow> u64" where
  "skb_transport e skb = kget e ''sk_buff.head'' skb + ucast (kget e ''sk_buff.transport_header'' skb :: u16)"

definition on_udp_send_skb__2 :: "env \<Rightarrow> u64 \<Rightarrow> u64 \<Rightarrow> unit rprog" where
  "on_udp_send_skb__2 e skb fl4 = perf_check_and_submit_dns e (kget e ''sk_buff.sk'' skb) skb IPPROTO_UDP
     (kget e ''flowi4.fl4_sport'' fl4) (kget e ''flowi4.fl4_dport'' fl4) False"

definition on_udp_v6_send_skb__2 :: "env \<Rightarrow> u64 \<Rightarrow> u64 \<Rightarrow> unit rprog" where
  "on_udp_v6_send_skb__2 e skb fl6 = perf_check_and_submit_dns e (kget e ''sk_buff.sk'' skb) skb IPPROTO_UDP
     (kget e ''flowi6.fl6_sport'' fl6) (kget e ''flowi6.fl6_dport'' fl6) False"

definition on_ip_send_skb__2 :: "env \<Rightarrow> u64 \<Rightarrow> unit rprog" where
  "on_ip_send_skb__2 e skb = (let udp_hdr = skb_transport e skb in
     if kget e ''iphdr.protocol'' (skb_network e skb) = IPPROTO_UDP then
       perf_check_and_submit_dns e (kget e ''sk_buff.sk'' skb) skb IPPROTO_UDP
         (kget e ''udphdr.source'' udp_hdr) (kget e ''udphdr.dest'' udp_hdr) False
     else skip)"

definition on_ip6_send_skb__2 :: "env \<Rightarrow> u64 \<Rightarrow> unit rprog" where
  "on_ip6_send_skb__2 e skb = (let udp_hdr = skb_transport e skb in
     if kget e ''ipv6hdr.nexthdr'' (skb_network e skb) = IPPROTO_UDP then
       perf_check_and_submit_dns e (kget e ''sk_buff.sk'' skb) skb IPPROTO_UDP
         (kget e ''udphdr.source'' udp_hdr) (kget e ''udphdr.dest'' udp_hdr) False
     else skip)"

definition on_udp_send_skb :: "env \<Rightarrow> u64 \<Rightarrow> u64 \<Rightarrow> unit rprog" where
  "on_udp_send_skb e skb fl4 = do {
     (pid_tgid, tgid, cpu) \<leftarrow> GET_PID_TGID e 1693;
     udp_update_stats e (kget e ''sk_buff.sk'' skb) skb
       (make_ipv6_address (kget e ''flowi4.saddr'' fl4)) (kget e ''flowi4.fl4_sport'' fl4)
       (make_ipv6_address (kget e ''flowi4.daddr'' fl4)) (kget e ''flowi4.fl4_dport'' fl4) False;
     tail_call e 0 (on_udp_send_skb__2 e skb fl4)
   }"

definition on_udp_v6_send_skb :: "env \<Rightarrow> u64 \<Rightarrow> u64 \<Rightarrow> unit rprog" where
  "on_udp_v6_send_skb e skb fl6 = do {
     (pid_tgid, tgid, cpu) \<leftarrow> GET_PID_TGID e 1710;
     udp_update_stats e (kget e ''sk_buff.sk'' skb) skb
       (kget6 e ''flowi6.saddr'' fl6) (kget e ''flowi6.fl6_sport'' fl6)
       (kget6 e ''flowi6.daddr'' fl6) (kget e ''flowi6.fl6_dport'' fl6) False;
     tail_call e 0 (on_udp_v6_send_skb__2 e skb fl6)
   }"

definition on_ip_send_skb :: "env \<Rightarrow> u64 \<Rightarrow> unit rprog" where
  "on_ip_send_skb e skb = (let sk = kget e ''sk_buff.sk'' skb; ip_hdr = skb_network e skb;
       protocol = kget e ''iphdr.protocol'' ip_hdr; hdr = skb_transport e skb in do {
     (if protocol = IPPROTO_UDP then
        udp_update_stats e sk skb (make_ipv6_address (kget e ''iphdr.saddr'' ip_hdr)) (kget e ''udphdr.source'' hdr)
          (make_ipv6_address (kget e ''iphdr.daddr'' ip_hdr)) (kget e ''udphdr.dest'' hdr) False
      else skip);
     (if protocol = IPPROTO_TCP \<and> kget e ''u16'' (hdr + 12) AND TCP_FLAG_RST \<noteq> 0 then handle_tcp_reset e sk 0
      else skip);
     tail_call e 0 (on_ip_send_skb__2 e skb)
   })"

definition on_ip6_send_skb :: "env \<Rightarrow> u64 \<Rightarrow> unit rprog" where
  "on_ip6_send_skb e skb = (let sk = kget e ''sk_buff.sk'' skb; ipv6_hdr = skb_network e skb;
       nexthdr = kget e ''ipv6hdr.nexthdr'' ipv6_hdr; hdr = skb_transport e skb in do {
     (pid_tgid, tgid, cpu) \<leftarrow> GET_PID_TGID e 1775;
     (if nexthdr = IPPROTO_UDP then
        udp_update_stats e sk skb (kget6 e ''ipv6hdr.saddr'' ipv6_hdr) (kget e ''udphdr.source'' hdr)
          (kget6 e ''ipv6hdr.daddr'' ipv6_hdr) (kget e ''udphdr.dest'' hdr) False
      else skip);
     (if nexthdr = IPPROTO_TCP \<and> kget e ''u16'' (hdr + 12) AND TCP_FLAG_RST \<noteq> 0 then handle_tcp_reset e sk 0
      else skip);
     tail_call e 0 (on_ip6_send_skb__2 e skb)
   })"

definition handle_receive_udp_skb__2 :: "env \<Rightarrow> u64 \<Rightarrow> u64 \<Rightarrow> unit rprog" where
  "handle_receive_udp_skb__2 e sk skb = do {
     (pid_tgid, tgid, cpu) \<leftarrow> GET_PID_TGID e 1861;
     let hdr = skb_transport e skb;
     perf_check_and_submit_dns e sk skb IPPROTO_UDP (kget e ''udphdr.source'' hdr) (kget e ''udphdr.dest'' hdr) True
   }"

text \<open>Both receiving probes reach this program by their first tail call.\<close>

definition handle_receive_udp_skb :: "env \<Rightarrow> u64 \<Rightarrow> u64 \<Rightarrow> unit rprog" where
  "handle_receive_udp_skb e sk skb = (let ip_hdr = skb_network e skb; udp_hdr = skb_transport e skb;
       version = (kget e ''u8'' ip_hdr :: u8) AND 0xF0;
       continue = (\<lambda>laddr raddr. do {
         udp_update_stats e sk skb laddr (kget e ''udphdr.dest'' udp_hdr) raddr (kget e ''udphdr.source'' udp_hdr) True;
         tail_call e 1 (handle_receive_udp_skb__2 e sk skb)
       }) in
     if version = 0x40 then
       continue (make_ipv6_address (kget e ''iphdr.daddr'' ip_hdr)) (make_ipv6_address (kget e ''iphdr.saddr'' ip_hdr))
     else if version AND 0x60 \<noteq> 0 then
       continue (kget6 e ''ipv6hdr.daddr'' ip_hdr) (kget6 e ''ipv6hdr.saddr'' ip_hdr)
     else bpf_log e 1840 BPF_LOG_UNREACHABLE (ucast version) 0 0)"

definition on_skb_consume_udp :: "env \<Rightarrow> u64 \<Rightarrow> u64 \<Rightarrow> unit rprog" where
  "on_skb_consume_udp e sk skb = tail_call e 0 (handle_receive_udp_skb e sk skb)"

definition on_skb_free_datagram_locked :: "env \<Rightarrow> u64 \<Rightarrow> u64 \<Rightarrow> unit rprog" where
  "on_skb_free_datagram_locked e sk skb = tail_call e 0 (handle_receive_udp_skb e sk skb)"

end
