(* ===== verification/Render_Probes.thy ===== *)
theory Render_Probes
  imports Lifecycle_Spec Render_Process Render_Udp
begin

text \<open>
  All probes of \<^verbatim>\<open>src/collector/kernel/bpf_src/render_bpf.c\<close> together: what they tell user space about
  TCP sockets, UDP sockets and processes is a run of the tracker of \<^verbatim>\<open>Lifecycle_Spec\<close>, in every sequence
  of probes.
\<close>

section \<open>The objects followed\<close>

datatype (plugins only: code) tracked = Tcp_sock u64 | Udp_sock u64 | Process u32

fun life_event :: "bpf_event \<Rightarrow> tracked life option" where
  "life_event (Ev_new_sock_created now tgid sk) = Some (Opened (Tcp_sock sk))"
| "life_event (Ev_reset_tcp_counters now sk acked delivered retrans received pid) = Some (Opened (Tcp_sock sk))"
| "life_event (Ev_set_state_ipv4 now daddr saddr dport sport sk tx_rx) = Some (Used (Tcp_sock sk))"
| "life_event (Ev_set_state_ipv6 now daddr6 saddr6 dport sport sk tx_rx) = Some (Used (Tcp_sock sk))"
| "life_event (Ev_rtt_estimator now srtt cwnd acked ca sk pif delivered retrans holes received rdel rrtt) =
     Some (Used (Tcp_sock sk))"
| "life_event (Ev_tcp_reset now sk is_rx) = Some (Used (Tcp_sock sk))"
| "life_event (Ev_tcp_syn_timeout now sk) = Some (Used (Tcp_sock sk))"
| "life_event (Ev_close_sock_info now sk) = Some (Closed (Tcp_sock sk))"
| "life_event (Ev_udp_new_socket now tgid sk laddr lport) = Some (Opened (Udp_sock sk))"
| "life_event (Ev_udp_stats now sk raddr packets bytes af rport is_rx laddr lport drops) = Some (Used (Udp_sock sk))"
| "life_event (Ev_udp_destroy_socket now sk) = Some (Closed (Udp_sock sk))"
| "life_event (Ev_pid_info now tgid comm cgroup parent) = Some (Opened (Process tgid))"
| "life_event (Ev_pid_close now tgid comm) = Some (Closed (Process tgid))"
| "life_event _ = None"

fun live_object :: "render \<Rightarrow> tracked \<Rightarrow> bool" where
  "live_object s (Tcp_sock sk) = (tcp_open_sockets s sk \<noteq> None)"
| "live_object s (Udp_sock sk) = (udp_open_sockets s sk \<noteq> None)"
| "live_object s (Process tgid) = (tgid_info_table s tgid \<noteq> None)"

lemma live_objectI:
  "tcp_open_sockets s = tcp_open_sockets t \<Longrightarrow> udp_open_sockets s = udp_open_sockets t \<Longrightarrow>
    tgid_info_table s = tgid_info_table t \<Longrightarrow> live_object s = live_object t"
  by (rule ext, rename_tac k, case_tac k) simp_all

lemma life_event_log: "is_log ev \<Longrightarrow> life_event ev = None"
  by (cases ev) simp_all

interpretation rl: life_tracker life_event live_object
  by unfold_locales (erule life_event_log, (rule live_objectI; simp)+)


abbreviation told :: "render \<Rightarrow> render \<Rightarrow> bool" where
  "told \<equiv> tracks life_event live_object"

text \<open>The set of open objects after a store to one of the three tables.\<close>

lemma live_tcp_insert: "live_object (s\<lparr>tcp_open_sockets := (tcp_open_sockets s)(sk \<mapsto> i)\<rparr>) = (live_object s)(Tcp_sock sk := True)"
  by (rule ext, rename_tac k, case_tac k) simp_all

lemma live_tcp_delete: "live_object (s\<lparr>tcp_open_sockets := (tcp_open_sockets s)(sk := None)\<rparr>) = (live_object s)(Tcp_sock sk := False)"
  by (rule ext, rename_tac k, case_tac k) simp_all

lemma live_udp_insert: "live_object (s\<lparr>udp_open_sockets := (udp_open_sockets s)(sk \<mapsto> i)\<rparr>) = (live_object s)(Udp_sock sk := True)"
  by (rule ext, rename_tac k, case_tac k) simp_all

lemma live_udp_delete: "live_object (s\<lparr>udp_open_sockets := (udp_open_sockets s)(sk := None)\<rparr>) = (live_object s)(Udp_sock sk := False)"
  by (rule ext, rename_tac k, case_tac k) simp_all

lemma live_tgid_insert: "live_object (s\<lparr>tgid_info_table := (tgid_info_table s)(p \<mapsto> i)\<rparr>) = (live_object s)(Process p := True)"
  by (rule ext, rename_tac k, case_tac k) simp_all

lemma live_tgid_delete: "live_object (s\<lparr>tgid_info_table := (tgid_info_table s)(p := None)\<rparr>) = (live_object s)(Process p := False)"
  by (rule ext, rename_tac k, case_tac k) simp_all

lemmas live_stores = live_tcp_insert live_tcp_delete live_udp_insert live_udp_delete live_tgid_insert live_tgid_delete

lemma io_runD: "state_io_rel R m \<Longrightarrow> run_state m s = (a, t) \<Longrightarrow> R s t"
  by (auto simp: state_io_rel_def dest: spec [of _ s])

lemma io_all: "(\<And>s. R s (snd (run_state m s))) \<Longrightarrow> state_io_rel R m"
  by (simp add: state_io_rel_def)

lemma told_live_store:
  "events t = events s \<Longrightarrow> live_object t = live_object s \<Longrightarrow> told s t"
  by (rule tracksI [of _ _ "[]"]) (simp_all add: List.map_filter_def)

text \<open>The documented behaviour of the helpers that the contract rests on.\<close>

definition announcing_reads_ok :: "env \<Rightarrow> bool" where
  "announcing_reads_ok e \<longleftrightarrow> (\<forall>sk. fst (kread e ''tcp_sock.bytes_acked'' sk) = 0 \<and>
     fst (kread e ''tcp_sock.total_retrans'' sk) = 0 \<and> fst (kread e ''tcp_sock.bytes_received'' sk) = 0) \<and>
     (\<forall>tsk. fst (kread_comm e tsk) = 0)"

definition render_env_ok :: "env \<Rightarrow> bool" where
  "render_env_ok e \<longleftrightarrow> noexist_ok e \<and> delete_ok e \<and> announcing_reads_ok e"

section \<open>TCP sockets\<close>

lemma report_rtt_speaks: "state_io_rel (ev_frame (speaks_of life_event (Tcp_sock sk))) (report_rtt_estimator e sk i now adjust)"
  unfolding report_rtt_estimator_def Let_def
  by (intro ef_checked_read ef.io_bind ef.io_return ef_perf_submit)
    (simp_all add: speaks_of_def life_event_log)

lemma fst_report_rtt: "fst (run_state (report_rtt_estimator e sk i now adjust) s) = i\<lparr>os_last_output := now\<rparr>"
proof -
  have cr: "fst (run_state (checked_read e line f p d k) s) = d"
    if "\<And>v s. fst (run_state (k v) s) = d" for line f p k s and d :: tcp_open_socket_t
    using that by (auto simp: checked_read_def split: prod.split elim: run_bpf_log [of e line _ _ 0 0 s])
  show ?thesis unfolding report_rtt_estimator_def Let_def by (intro cr) simp
qed

lemma told_finish_tcp:
  assumes "delete_ok e"
  shows "told s (snd (run_state (finish_tcp_socket e sk i) s))"
proof (cases "tcp_open_sockets s sk")
  case None
  then show ?thesis using assms
    by (simp add: finish_tcp_socket_def map_delete_def delete_ok_def ENOENT_def told_live_store fun_upd_idem)
next
  case (Some j)
  let ?t = "s\<lparr>tcp_open_sockets := (tcp_open_sockets s)(sk := None)\<rparr>"
  let ?now = "ktime e (ktime_reads s) + boot_time_adjustment e"
  let ?m = "report_rtt_estimator e sk i ?now True"
  let ?t1 = "?t\<lparr>ktime_reads := ktime_reads s + 1\<rparr>"
  obtain r u where u: "run_state ?m ?t1 = (r, u)" by (cases "run_state ?m ?t1")
  have "ev_frame (speaks_of life_event (Tcp_sock sk)) ?t1 u"
    using u by (rule io_runD [OF report_rtt_speaks])
  then have "ev_frame (speaks_of life_event (Tcp_sock sk)) ?t u" by (rule ev_frame_trans [OF ev_frame_ktime])
  then have "told s (u\<lparr>events := events u @ [Ev_close_sock_info ?now sk]\<rparr>)"
    using Some by (intro rl.tracks_closed [of s "Tcp_sock sk" ?t]) (simp_all add: live_stores)
  moreover have "run_state (finish_tcp_socket e sk i) s = ((), u\<lparr>events := events u @ [Ev_close_sock_info ?now sk]\<rparr>)"
    using assms Some u by (simp add: finish_tcp_socket_def map_delete_def delete_ok_def)
  ultimately show ?thesis by simp
qed

lemma io_remove_tcp: "delete_ok e \<Longrightarrow> state_io_rel told (remove_tcp_open_socket e sk)"
  unfolding remove_tcp_open_socket_def
  by (intro rl.tracker_io) (simp_all add: state_io_rel_def told_finish_tcp)

lemma io_tcp_lifetime_hack: "delete_ok e \<Longrightarrow> state_io_rel told (tcp_lifetime_hack e sk)"
  unfolding tcp_lifetime_hack_def
  by (intro rl.tracker_io io_remove_tcp rl.io_perf_submit_other) simp_all

text \<open>
  The three insertions that announce an object share their treatment of the return code: either the key
  was absent and is stored, or at most a log is written.
\<close>

lemma insert_report:
  assumes ret: "(ret, m') = map_insert e t kc k v m" and "noexist_ok e"
  obtains (added) "m k = None" "m' = m(k \<mapsto> v)"
      "run_state (if table_full ret then do { bpf_log e l1 c1 a1 b1 d1; State_Monad.return r1 }
        else if ret = - EEXIST then State_Monad.return r2
        else if ret \<noteq> 0 then do { bpf_log e l2 c2 a2 b2 d2; State_Monad.return r3 }
        else State_Monad.return r4) s = (r4, s)"
  | (refused) r s' where "r \<in> {r1, r2, r3}" "log_frame s s'" "m' = m"
      "run_state (if table_full ret then do { bpf_log e l1 c1 a1 b1 d1; State_Monad.return r1 }
        else if ret = - EEXIST then State_Monad.return r2
        else if ret \<noteq> 0 then do { bpf_log e l2 c2 a2 b2 d2; State_Monad.return r3 }
        else State_Monad.return r4) s = (r, s')"
proof (cases "ret = 0")
  case True
  with ret have rc: "insert_rc e t kc (m k \<noteq> None) = 0" "m' = m(k \<mapsto> v)"
    by (auto simp: map_insert_def Let_def split: if_splits)
  with \<open>noexist_ok e\<close> have "m k = None" by (cases "m k") (auto simp: noexist_ok_def EEXIST_def)
  with True rc show ?thesis
    by (intro added) (simp_all add: table_full_def E2BIG_def ENOMEM_def EINVAL_def EEXIST_def)
next
  case False
  with ret have m: "m' = m" by (auto simp: map_insert_def Let_def split: if_splits)
  obtain s1 where s1: "run_state (bpf_log e l1 c1 a1 b1 d1) s = ((), s1)" "log_frame s s1" by (rule run_bpf_log)
  obtain s2 where s2: "run_state (bpf_log e l2 c2 a2 b2 d2) s = ((), s2)" "log_frame s s2" by (rule run_bpf_log)
  consider "table_full ret" | "\<not> table_full ret" "ret = - EEXIST" | "\<not> table_full ret" "ret \<noteq> - EEXIST" by blast
  then show ?thesis
  proof cases
    case 1
    with s1 m show ?thesis by (intro refused [of r1 s1]) simp_all
  next
    case 2
    with m show ?thesis by (intro refused [of r2 s]) (simp_all add: log_frame_refl)
  next
    case 3
    with s2 m False show ?thesis by (intro refused [of r3 s2]) simp_all
  qed
qed

lemma run_add_tcp:
  assumes "noexist_ok e"
  obtains (added) i where "tcp_open_sockets s sk = None"
      "run_state (add_tcp_open_socket e sk tgid now parent) s = (1, s\<lparr>tcp_open_sockets := (tcp_open_sockets s)(sk \<mapsto> i)\<rparr>)"
  | (refused) r s' where "r = 0 \<or> r = - 1" "log_frame s s'"
      "run_state (add_tcp_open_socket e sk tgid now parent) s = (r, s')"
proof -
  obtain rc v where pr: "probe_read e ''tcp_sock.bytes_received'' sk = (rc, v)" by (rule prod.exhaust)
  show ?thesis
  proof (cases "rc = 0")
    case False
    obtain s' where "run_state (bpf_log e 650 BPF_LOG_BPF_CALL_FAILED (abs_val rc) 0 0) s = ((), s')" "log_frame s s'"
      by (rule run_bpf_log)
    with False pr show ?thesis by (intro refused) (simp_all add: add_tcp_open_socket_def checked_read_def)
  next
    case True
    let ?i = "\<lparr>os_tgid = tgid, os_rcv_holes = 0, os_last_output = 0, os_bytes_received = v,
           os_rcv_delivered = 0, os_parent = parent\<rparr>"
    obtain ret m' where ret: "map_insert e (Tbl BPF_TABLE_TCP_OPEN_SOCKETS) sk sk ?i (tcp_open_sockets s) = (ret, m')"
      by (rule prod.exhaust)
    note unf = add_tcp_open_socket_def checked_read_def pr True ret
    show ?thesis
      by (rule insert_report [OF ret [symmetric] assms, where s = "s\<lparr>tcp_open_sockets := m'\<rparr>"])
        (rule added refused; simp add: unf; fastforce)+
  qed
qed

lemma io_add_tcp:
  assumes "noexist_ok e"
    and "\<And>s i. tcp_open_sockets s sk = None \<Longrightarrow>
      told s (snd (run_state (k 1) (s\<lparr>tcp_open_sockets := (tcp_open_sockets s)(sk \<mapsto> i)\<rparr>)))"
    and "\<And>r. r = 0 \<or> r = - 1 \<Longrightarrow> state_io_rel told (k r)"
  shows "state_io_rel told (add_tcp_open_socket e sk tgid now parent \<bind> k)"
  unfolding state_io_rel_def
proof (rule allI)
  fix s
  show "told s (snd (run_state (add_tcp_open_socket e sk tgid now parent \<bind> k) s))"
  proof (rule run_add_tcp [OF assms(1), of s sk tgid now parent])
    fix i assume "tcp_open_sockets s sk = None" "run_state (add_tcp_open_socket e sk tgid now parent) s =
      (1, s\<lparr>tcp_open_sockets := (tcp_open_sockets s)(sk \<mapsto> i)\<rparr>)"
    with assms(2) show ?thesis by simp
  next
    fix r s' assume *: "r = 0 \<or> r = - 1" "log_frame s s'" "run_state (add_tcp_open_socket e sk tgid now parent) s = (r, s')"
    then show ?thesis using assms(3) [OF *(1)]
      by (intro rl.tracks_bind [OF *(3) rl.tracks_log_frame]) (simp_all add: state_io_rel_def)
  qed
qed

lemma told_opened_tcp:
  assumes "tcp_open_sockets s sk = None" "life_event ev = Some (Opened (Tcp_sock sk))"
  shows "told s (s\<lparr>tcp_open_sockets := (tcp_open_sockets s)(sk \<mapsto> i), events := events s @ [ev]\<rparr>)"
  using rl.tracks_opened [of s "Tcp_sock sk" "s\<lparr>tcp_open_sockets := (tcp_open_sockets s)(sk \<mapsto> i)\<rparr>" _ ev,
    OF _ log_frame_refl] assms by (simp add: live_stores)

lemma ev_frame_tables:
  assumes "ev_frame P s (t :: render)"
  shows "tcp_open_sockets t = tcp_open_sockets s" "udp_open_sockets t = udp_open_sockets s"
    "tgid_info_table t = tgid_info_table s"
  using assms by (auto elim: ev_frameE)

lemma log_frame_tables:
  assumes "log_frame s (t :: render)"
  shows "tcp_open_sockets t = tcp_open_sockets s" "udp_open_sockets t = udp_open_sockets s"
    "tgid_info_table t = tgid_info_table s"
  using assms by (auto elim: log_frameE)

text \<open>The messages with the addresses of a socket.\<close>

lemma speaks_set_state:
  "state_io_rel (ev_frame (speaks_of life_event (Tcp_sock sk))) (submit_set_state_ipv4 e now tx_rx sk)"
  "state_io_rel (ev_frame (speaks_of life_event (Tcp_sock sk))) (submit_set_state_ipv6 e now tx_rx sk)"
  unfolding submit_set_state_ipv4_def submit_set_state_ipv6_def
  by (intro ef.io_if ef_bpf_log ef_perf_submit; simp add: speaks_of_def life_event_log)+

lemma told_speaks:
  assumes "state_io_rel (ev_frame (speaks_of life_event k)) m" "live_object s k"
  shows "told s (snd (run_state m s))"
  using assms by (intro rl.tracks_used [of s k]) (simp_all add: state_io_rel_def)

lemma run_submit_reset:
  assumes "announcing_reads_ok e"
  obtains ev where "run_state (submit_reset_tcp_counters e now pid sk) s = ((), s\<lparr>events := events s @ [ev]\<rparr>)"
    and "life_event ev = Some (Opened (Tcp_sock sk))"
proof -
  have "probe_read e f sk = (0, snd (kread e f sk))"
    if "f \<in> {''tcp_sock.bytes_acked'', ''tcp_sock.total_retrans'', ''tcp_sock.bytes_received''}" for f
    using assms that by (auto simp: announcing_reads_ok_def probe_read_def case_prod_unfold)
  then show ?thesis using that by (simp add: submit_reset_tcp_counters_def checked_read_def)
qed

lemma io_ensure_tcp_existing:
  assumes "render_env_ok e"
  shows "state_io_rel told (ensure_tcp_existing e sk pid)"
proof -
  have "told s (snd (run_state (do {
          submit_reset_tcp_counters e now (ucast pid) sk;
          (if f then submit_set_state_ipv6 e now t sk else submit_set_state_ipv4 e now t sk);
          State_Monad.return (1 :: int) }) (s\<lparr>tcp_open_sockets := (tcp_open_sockets s)(sk \<mapsto> i)\<rparr>)))"
    if new: "tcp_open_sockets s sk = None" for s i now f t
  proof -
    let ?s = "s\<lparr>tcp_open_sockets := (tcp_open_sockets s)(sk \<mapsto> i)\<rparr>"
    obtain ev where ev: "run_state (submit_reset_tcp_counters e now (ucast pid) sk) ?s =
        ((), ?s\<lparr>events := events ?s @ [ev]\<rparr>)" "life_event ev = Some (Opened (Tcp_sock sk))"
      using assms run_submit_reset [of e now "ucast pid" sk ?s] by (auto simp: render_env_ok_def)
    let ?t = "?s\<lparr>events := events ?s @ [ev]\<rparr>"
    let ?m = "if f then submit_set_state_ipv6 e now t sk else submit_set_state_ipv4 e now t sk"
    have "told s ?t" using told_opened_tcp [OF new ev(2)] by simp
    moreover have "told ?t (snd (run_state ?m ?t))"
      by (rule told_speaks [of "Tcp_sock sk"]) (simp_all add: speaks_set_state)
    ultimately have "told s (snd (run_state ?m ?t))" by (rule tracks_trans)
    then show ?thesis using ev(1) by (simp add: case_prod_unfold)
  qed
  note new = this
  show ?thesis unfolding ensure_tcp_existing_def Let_def
    using assms new
    by (intro rl.tracker_io io_add_tcp)
      (auto simp: render_env_ok_def intro!: rl.io_return rl.io_bind rl.io_skip)
qed

lemma run_tcp_known:
  assumes "render_env_ok e"
  obtains b s' where "run_state (tcp_socket_known e sk) s = (b, s')" "told s s'" "b \<Longrightarrow> live_object s' (Tcp_sock sk)"
proof (cases "tcp_open_sockets s sk")
  case (Some i)
  then show ?thesis by (intro that [of True s]) (simp_all add: tcp_socket_known_def rl.tracks_refl)
next
  case None
  let ?m = "ensure_tcp_existing e sk (TGID_FROM_PID_TGID (current_pid_tgid e))"
  obtain r s' where r: "run_state ?m s = (r, s')" by (cases "run_state ?m s")
  then have "told s s'" by (rule io_runD [OF io_ensure_tcp_existing [OF assms]])
  then show ?thesis using None r that [of False s] that [of "tcp_open_sockets s' sk \<noteq> None" s']
    by (cases "TGID_FROM_PID_TGID (current_pid_tgid e) = 0 \<or> PID_FROM_PID_TGID (current_pid_tgid e) = 0")
      (simp_all add: tcp_socket_known_def tcp_existing_hack_def Let_def rl.tracks_refl)
qed

lemma io_tcp_known:
  assumes "render_env_ok e" and "state_io_rel told (k False)"
    and "state_io_rel (ev_frame (speaks_of life_event (Tcp_sock sk))) (k True)"
  shows "state_io_rel told (tcp_socket_known e sk \<bind> k)"
  unfolding state_io_rel_def
proof (rule allI)
  fix s
  obtain b s' where *: "run_state (tcp_socket_known e sk) s = (b, s')" "told s s'" "b \<Longrightarrow> live_object s' (Tcp_sock sk)"
    using run_tcp_known [OF assms(1), of sk s] by metis
  have "told s' (snd (run_state (k b) s'))"
    using assms(2) told_speaks [OF assms(3)] *(3) by (cases b) (simp_all add: state_io_rel_def)
  then show "told s (snd (run_state (tcp_socket_known e sk \<bind> k) s))" by (rule rl.tracks_bind [OF *(1,2)])
qed

lemma io_tcp_states:
  assumes "render_env_ok e"
  shows "state_io_rel told (on_tcp_connect e sk)" "state_io_rel told (on_inet_csk_listen_start e sk)"
  unfolding on_tcp_connect_def on_inet_csk_listen_start_def Let_def
  by (intro rl.io_if rl.io_skip io_tcp_known assms ef.io_if ef.io_skip ef.io_bind ef_get_timestamp speaks_set_state ef_bpf_log;
      simp add: rl.io_skip ef.io_rules ef_get_timestamp speaks_set_state ef_bpf_log rl.log_speaks_of)+

lemma io_on_tcp_init_sock:
  assumes "render_env_ok e"
  shows "state_io_rel told (on_tcp_init_sock e sk)"
  unfolding on_tcp_init_sock_def
  using assms
  by (intro rl.tracker_io io_tcp_lifetime_hack io_add_tcp)
    (auto simp: render_env_ok_def rl.io_bpf_log intro!: told_opened_tcp)

lemma io_restart_tcp_socket:
  assumes "render_env_ok e"
  shows "state_io_rel told (restart_tcp_socket e now sk)"
  unfolding restart_tcp_socket_def
  using assms
  by (intro rl.tracker_io io_remove_tcp io_add_tcp)
    (auto simp: render_env_ok_def rl.io_bpf_log intro!: told_opened_tcp)

lemma io_save_args:
  "state_io_rel told (modify (\<lambda>s. s\<lparr>on_inet_csk_accept_active := a s\<rparr>))"
  "state_io_rel told (modify (\<lambda>s. s\<lparr>inet_release_active := b s\<rparr>))"
  "state_io_rel told (modify (\<lambda>s. s\<lparr>cgroup_exit_active := c s\<rparr>))"
  "state_io_rel told (modify (\<lambda>s. s\<lparr>cgroup_control_active := d s\<rparr>))"
  "state_io_rel told (modify (\<lambda>s. s\<lparr>udp_get_port_hash := h s\<rparr>))"
  "state_io_rel told (modify (\<lambda>s. s\<lparr>seen_inodes := i s\<rparr>))"
  "state_io_rel told (modify (\<lambda>s. s\<lparr>seen_conntracks := j s\<rparr>))"
  "state_io_rel told (modify (\<lambda>s. s\<lparr>dead_group_tasks := l s\<rparr>))"
  by (rule rl.io_store, simp, rule live_objectI; simp)+

lemma io_accept:
  assumes "render_env_ok e"
  shows "state_io_rel told (on_inet_csk_accept e sk flags err)"
  unfolding on_inet_csk_accept_def
proof (intro rl.io_bind rl.io_pid_tgid rl.io_prod)
  fix pid_tgid tgid cpu
  let ?k = "\<lambda>known. if \<not> known then skip else modify (\<lambda>s. s\<lparr>on_inet_csk_accept_active :=
       SAVE_ARGS e ''on_inet_csk_accept'' pid_tgid \<lparr>oa_sk = sk, oa_flags = flags, oa_err = err\<rparr> (on_inet_csk_accept_active s)\<rparr>)"
  show "state_io_rel told (tcp_socket_known e sk)" unfolding state_io_rel_def
    using run_tcp_known [OF assms, of sk] by (metis snd_conv)
  show "state_io_rel told (?k known)" for known by (intro rl.io_if rl.io_skip io_save_args)
qed

lemma told_accepted:
  assumes new: "tcp_open_sockets s sk = None"
    and ev: "life_event ev = Some (Used (Tcp_sock sk))"
  shows "told s (s\<lparr>tcp_open_sockets := (tcp_open_sockets s)(sk \<mapsto> i), events := events s @ [Ev_new_sock_created now tgid sk, ev],
    on_inet_csk_accept_active := a\<rparr>)"
proof (rule tracksI [of _ _ "[Ev_new_sock_created now tgid sk, ev]"])
  show "track (live_object s) (List.map_filter life_event [Ev_new_sock_created now tgid sk, ev]) =
      Some (live_object (s\<lparr>tcp_open_sockets := (tcp_open_sockets s)(sk \<mapsto> i), events := events s @
      [Ev_new_sock_created now tgid sk, ev], on_inet_csk_accept_active := a\<rparr>))"
    using assms live_objectI [of "s\<lparr>tcp_open_sockets := (tcp_open_sockets s)(sk \<mapsto> i), events := events s @
      [Ev_new_sock_created now tgid sk, ev], on_inet_csk_accept_active := a\<rparr>"
      "s\<lparr>tcp_open_sockets := (tcp_open_sockets s)(sk \<mapsto> i)\<rparr>"]
    by (simp add: List.map_filter_def live_stores)
qed simp

lemma io_onret_accept:
  assumes "render_env_ok e"
  shows "state_io_rel told (onret_inet_csk_accept e)"
  unfolding onret_inet_csk_accept_def delete_on_accept_args_def Let_def
  using assms
  by (intro rl.tracker_io io_save_args io_tcp_lifetime_hack io_add_tcp)
    (auto simp: render_env_ok_def intro!: told_accepted rl.tracker_io io_save_args)

lemma io_take_seen_inode: "state_io_rel told (take_seen_inode e sk)"
  unfolding take_seen_inode_def by (intro rl.tracker_io io_save_args)

lemma io_on_tcp46_seq_show: "render_env_ok e \<Longrightarrow> state_io_rel told (on_tcp46_seq_show e sk)"
  unfolding on_tcp46_seq_show_def by (intro rl.tracker_io io_take_seen_inode io_ensure_tcp_existing)

text \<open>Programs that look a socket up and then only speak about it.\<close>

lemma io_lookup_tcp:
  assumes "\<And>i. state_io_rel (ev_frame (speaks_of life_event (Tcp_sock sk))) (k (Some i))"
    and "state_io_rel told (k None)"
  shows "state_io_rel told (gets (\<lambda>s. tcp_open_sockets s sk) \<bind> k)"
  unfolding state_io_rel_def
proof (rule allI)
  fix s
  show "told s (snd (run_state (gets (\<lambda>s. tcp_open_sockets s sk) \<bind> k) s))"
    using assms(2) told_speaks [OF assms(1), of s] by (cases "tcp_open_sockets s sk") (simp_all add: state_io_rel_def)
qed

lemma io_handle_tcp_reset: "state_io_rel told (handle_tcp_reset e sk is_rx)"
  unfolding handle_tcp_reset_def
  by (rule io_lookup_tcp) (auto simp: rl.io_skip speaks_of_def intro!: ef.io_bind ef_get_timestamp ef_perf_submit)

lemma io_handle_syn_timeout: "state_io_rel told (handle_syn_timeout e sk)"
  unfolding handle_syn_timeout_def
  by (intro rl.io_if rl.io_skip io_lookup_tcp)
    (auto simp: rl.io_skip speaks_of_def intro!: ef.io_bind ef_get_timestamp ef_perf_submit)

lemma io_on_tcp_syn_ack_timeout: "state_io_rel told (on_tcp_syn_ack_timeout e req)"
  unfolding on_tcp_syn_ack_timeout_def by (intro rl.io_rules io_handle_syn_timeout)

lemma speaks_report_if_time:
  "state_io_rel (ev_frame (speaks_of life_event (Tcp_sock sk))) (report_rtt_estimator_if_time e sk i)"
  unfolding report_rtt_estimator_if_time_def by (intro ef.io_rules ef_get_timestamp report_rtt_speaks)

lemma told_tcp_store:
  "tcp_open_sockets s sk \<noteq> None \<Longrightarrow> told s (s\<lparr>tcp_open_sockets := (tcp_open_sockets s)(sk \<mapsto> i)\<rparr>)"
  by (rule told_live_store) (auto simp: live_stores fun_upd_idem)

lemma told_report_store:
  assumes "tcp_open_sockets s sk = Some j"
  shows "told s (snd (run_state (do {
    sk_info \<leftarrow> report_rtt_estimator_if_time e sk i;
    modify (\<lambda>s. s\<lparr>tcp_open_sockets := (tcp_open_sockets s)(sk \<mapsto> sk_info)\<rparr>) }) s))"
proof -
  obtain r t where r: "run_state (report_rtt_estimator_if_time e sk i) s = (r, t)" by (rule prod.exhaust)
  then have "ev_frame (speaks_of life_event (Tcp_sock sk)) s t" by (rule io_runD [OF speaks_report_if_time])
  then have "told s t" "tcp_open_sockets t sk \<noteq> None"
    using assms rl.tracks_used [of s "Tcp_sock sk" t] by (simp_all add: ev_frame_tables)
  then show ?thesis by (intro rl.tracks_bind [OF r]) (simp_all add: told_tcp_store)
qed

lemma told_checked_read:
  assumes "\<And>v. told s (snd (run_state (k v) s))"
  shows "told s (snd (run_state (checked_read e line f p d k) s))"
proof (cases "fst (probe_read e f p) = 0")
  case True
  with assms show ?thesis by (simp add: checked_read_def case_prod_unfold)
next
  case False
  have "state_io_rel told (do { bpf_log e line BPF_LOG_BPF_CALL_FAILED (abs_val (fst (probe_read e f p))) 0 0;
      State_Monad.return d })" by (intro rl.tracker_io)
  with False show ?thesis by (simp add: checked_read_def case_prod_unfold state_io_rel_def)
qed

lemma io_live_tcp:
  "state_io_rel told (on_tcp_rtt_estimator e sk)" "state_io_rel told (on_tcp_rcv_established e sk)"
  "state_io_rel told (on_tcp_event_data_recv e sk)"
proof -
  show "state_io_rel told (on_tcp_rtt_estimator e sk)" unfolding on_tcp_rtt_estimator_def state_io_rel_def
    using told_report_store by (auto simp: rl.tracks_refl split: option.split)
  show "state_io_rel told (on_tcp_rcv_established e sk)" unfolding on_tcp_rcv_established_def state_io_rel_def
    using told_report_store by (auto simp: rl.tracks_refl split: option.split intro!: told_checked_read)
  show "state_io_rel told (on_tcp_event_data_recv e sk)" unfolding on_tcp_event_data_recv_def state_io_rel_def
    using told_report_store by (auto simp: rl.tracks_refl split: option.split intro!: told_checked_read)
qed

section \<open>UDP sockets\<close>

lemma speaks_udp_send:
  "state_io_rel (ev_frame (speaks_of life_event (Udp_sock sk))) (udp_send_stats_if_nonempty e now sk st is_rx)"
  unfolding udp_send_stats_if_nonempty_def
  by (intro ef.io_if ef.io_skip ef_perf_submit) (simp add: speaks_of_def)

lemma told_finish_udp:
  assumes "delete_ok e"
  shows "told s (snd (run_state (finish_udp_socket e sk i) s))"
proof (cases "udp_open_sockets s sk")
  case None
  then show ?thesis using assms
    by (simp add: finish_udp_socket_def map_delete_def delete_ok_def ENOENT_def told_live_store fun_upd_idem)
next
  case (Some j)
  let ?t = "s\<lparr>udp_open_sockets := (udp_open_sockets s)(sk := None)\<rparr>"
  let ?now = "ktime e (ktime_reads s) + boot_time_adjustment e"
  let ?m = "do { udp_send_stats_if_nonempty e ?now sk (uo_stats i False) False;
       udp_send_stats_if_nonempty e ?now sk (uo_stats i True) True }"
  let ?t1 = "?t\<lparr>ktime_reads := ktime_reads s + 1\<rparr>"
  obtain r u where u: "run_state ?m ?t1 = (r, u)" by (rule prod.exhaust)
  have "state_io_rel (ev_frame (speaks_of life_event (Udp_sock sk))) ?m" by (intro ef.io_bind speaks_udp_send)
  then have "ev_frame (speaks_of life_event (Udp_sock sk)) ?t1 u" using u by (rule io_runD)
  then have "ev_frame (speaks_of life_event (Udp_sock sk)) ?t u" by (rule ev_frame_trans [OF ev_frame_ktime])
  then have "told s (u\<lparr>events := events u @ [Ev_udp_destroy_socket ?now sk]\<rparr>)"
    using Some by (intro rl.tracks_closed [of s "Udp_sock sk" ?t]) (simp_all add: live_stores)
  moreover have "run_state (finish_udp_socket e sk i) s = ((), u\<lparr>events := events u @ [Ev_udp_destroy_socket ?now sk]\<rparr>)"
    using assms Some u by (simp add: finish_udp_socket_def map_delete_def delete_ok_def case_prod_unfold)
  ultimately show ?thesis by simp
qed

lemma io_remove_udp: "delete_ok e \<Longrightarrow> state_io_rel told (remove_udp_open_socket e sk)"
  unfolding remove_udp_open_socket_def
  by (intro rl.tracker_io) (simp_all add: state_io_rel_def told_finish_udp)

lemma io_remove_open_socket: "delete_ok e \<Longrightarrow> state_io_rel told (remove_open_socket e sk)"
  unfolding remove_open_socket_def by (intro rl.tracker_io io_remove_tcp io_remove_udp)

lemma io_udp_lifetime_hack: "delete_ok e \<Longrightarrow> state_io_rel told (udp_lifetime_hack e sk)"
  unfolding udp_lifetime_hack_def
  by (intro rl.tracker_io io_remove_udp rl.io_perf_submit_other) simp_all

lemma run_add_udp:
  assumes "noexist_ok e"
  obtains (added) i where "udp_open_sockets s sk = None"
      "run_state (add_udp_open_socket e sk tgid now) s = (1, s\<lparr>udp_open_sockets := (udp_open_sockets s)(sk \<mapsto> i)\<rparr>)"
  | (refused) r s' where "r = 0 \<or> r = - 1" "log_frame s s'" "run_state (add_udp_open_socket e sk tgid now) s = (r, s')"
proof -
  let ?i = "\<lparr>uo_tgid = tgid, uo_stats = (\<lambda>is_rx. udp_stats0)\<rparr>"
  obtain ret m' where ret: "map_insert e (Tbl BPF_TABLE_UDP_OPEN_SOCKETS) sk sk ?i (udp_open_sockets s) = (ret, m')"
    by (rule prod.exhaust)
  show ?thesis
    by (rule insert_report [OF ret [symmetric] assms, where s = "s\<lparr>udp_open_sockets := m'\<rparr>"])
      (rule added refused; simp add: add_udp_open_socket_def ret; fastforce)+
qed

lemma io_ensure_udp_existing:
  assumes "render_env_ok e"
  shows "state_io_rel told (ensure_udp_existing e sk tgid)"
proof (cases "kget e ''sock.sk_family'' sk \<noteq> AF_INET \<and> kget e ''sock.sk_family'' sk \<noteq> AF_INET6")
  case True
  then show ?thesis by (simp add: ensure_udp_existing_def rl.io_return)
next
  case False
  have ne: "noexist_ok e" using assms by (simp add: render_env_ok_def)
  show ?thesis unfolding ensure_udp_existing_def Let_def if_not_P [OF False]
  proof (intro rl.io_bind [OF rl.io_get_timestamp])
    fix now addr lport
    let ?k = "\<lambda>ret. do { (if ret = 1 then perf_submit (Ev_udp_new_socket now tgid sk
        (if kget e ''sock.sk_family'' sk = AF_INET6 then kget6 e ''sock.sk_v6_rcv_saddr'' sk
          else In6 0 0 0xffff0000 (kget e ''sock.sk_rcv_saddr'' sk)) (kget e ''inet_sock.inet_num'' sk)) else skip);
        State_Monad.return ret }"
    have "told s (snd (run_state (add_udp_open_socket e sk tgid now \<bind> ?k) s))" for s
    proof (rule run_add_udp [OF ne, of s sk tgid now])
      fix i assume *: "udp_open_sockets s sk = None" "run_state (add_udp_open_socket e sk tgid now) s =
        (1, s\<lparr>udp_open_sockets := (udp_open_sockets s)(sk \<mapsto> i)\<rparr>)"
      show ?thesis using * rl.tracks_opened [of s "Udp_sock sk" "s\<lparr>udp_open_sockets := (udp_open_sockets s)(sk \<mapsto> i)\<rparr>",
          OF _ log_frame_refl] by (simp add: live_stores)
    next
      fix r s' assume "r = 0 \<or> r = - 1" "log_frame s s'" "run_state (add_udp_open_socket e sk tgid now) s = (r, s')"
      then show ?thesis by (auto simp: rl.tracks_log_frame)
    qed
    then show "state_io_rel told (add_udp_open_socket e sk tgid now \<bind> ?k)" by (simp add: state_io_rel_def)
  qed
qed

lemma io_udp_life:
  assumes "render_env_ok e"
  shows "state_io_rel told (on_udp46_seq_show e sk)" "state_io_rel told (on_udp_v46_get_port e sk)"
    "state_io_rel told (onret_udp_v46_get_port e)" "state_io_rel told (on_inet_release e sock)"
    "state_io_rel told (onret_inet_release e)"
proof -
  have d: "delete_ok e" using assms by (simp add: render_env_ok_def)
  note io = rl.tracker_io io_take_seen_inode io_ensure_udp_existing [OF assms] io_save_args io_udp_lifetime_hack [OF d]
    io_remove_open_socket [OF d]
  show "state_io_rel told (on_udp46_seq_show e sk)" unfolding on_udp46_seq_show_def by (intro io)
  show "state_io_rel told (on_udp_v46_get_port e sk)" unfolding on_udp_v46_get_port_def by (intro io)
  show "state_io_rel told (onret_udp_v46_get_port e)" unfolding onret_udp_v46_get_port_def by (intro io)
  show "state_io_rel told (on_inet_release e sock)" unfolding on_inet_release_def by (intro io)
  show "state_io_rel told (onret_inet_release e)" unfolding onret_inet_release_def by (intro io)
qed

text \<open>The entry \<^verbatim>\<open>udp_update_stats\<close> works on, in the state it works on it.\<close>

lemma run_udp_known:
  assumes "render_env_ok e"
  obtains x s' where "run_state (udp_socket_known e sk) s = (x, s')"
    "told s s'" "\<And>i. x = Some i \<Longrightarrow> udp_open_sockets s' sk = Some i"
proof (cases "udp_open_sockets s sk")
  case (Some i)
  then show ?thesis by (intro that [of "Some i" s]) (simp_all add: udp_socket_known_def rl.tracks_refl)
next
  case None
  let ?m = "ensure_udp_existing e sk (TGID_FROM_PID_TGID (current_pid_tgid e))"
  obtain r s' where r: "run_state ?m s = (r, s')" by (rule prod.exhaust)
  then have "told s s'" by (rule io_runD [OF io_ensure_udp_existing [OF assms]])
  then show ?thesis using None r that [of None s] that [of "udp_open_sockets s' sk" s']
    by (cases "TGID_FROM_PID_TGID (current_pid_tgid e) = 0 \<or> PID_FROM_PID_TGID (current_pid_tgid e) = 0")
      (simp_all add: udp_socket_known_def udp_existing_hack_def Let_def rl.tracks_refl)
qed

lemma told_udp_store:
  "udp_open_sockets s sk \<noteq> None \<Longrightarrow> told s (s\<lparr>udp_open_sockets := (udp_open_sockets s)(sk \<mapsto> i)\<rparr>)"
  by (rule told_live_store) (auto simp: live_stores fun_upd_idem)

lemma told_send_store:
  assumes "udp_open_sockets s sk \<noteq> None"
  shows "told s (snd (run_state (do {
    udp_send_stats_if_nonempty e now sk st is_rx;
    modify (\<lambda>s. s\<lparr>udp_open_sockets := (udp_open_sockets s)(sk \<mapsto> i)\<rparr>) }) s))"
proof -
  obtain r t where r: "run_state (udp_send_stats_if_nonempty e now sk st is_rx) s = (r, t)" by (rule prod.exhaust)
  then have "ev_frame (speaks_of life_event (Udp_sock sk)) s t" by (rule io_runD [OF speaks_udp_send])
  then have "told s t" "udp_open_sockets t sk \<noteq> None"
    using assms rl.tracks_used [of s "Udp_sock sk" t] by (simp_all add: ev_frame_tables)
  then show ?thesis by (intro rl.tracks_bind [OF r]) (simp_all add: told_udp_store)
qed

lemma told_tick: "told s (s\<lparr>ktime_reads := n\<rparr>)"
  by (rule rl.tracks_log_frame) simp

lemma told_if:
  "(b \<Longrightarrow> told s (snd (run_state m s))) \<Longrightarrow> (\<not> b \<Longrightarrow> told s (snd (run_state n s))) \<Longrightarrow>
    told s (snd (run_state (if b then m else n) s))"
  by simp

lemma told_udp_update_entry:
  assumes "udp_open_sockets s sk \<noteq> None"
  shows "told s (snd (run_state (udp_update_entry e sk n laddr lport raddr rport is_rx i) s))"
proof -
  let ?t = "s\<lparr>ktime_reads := ktime_reads s + 1\<rparr>"
  have known: "udp_open_sockets ?t sk \<noteq> None" using assms by simp
  show ?thesis unfolding udp_update_entry_def Let_def
    by (rule rl.tracks_bind [OF run_get_timestamp told_tick], rule told_if, rule told_send_store [OF known],
      simp only: run_modify snd_conv, rule told_udp_store [OF known])
qed

lemma io_udp_update_stats:
  assumes "render_env_ok e"
  shows "state_io_rel told (udp_update_stats e sk skb laddr lport raddr rport is_rx)"
proof (rule io_all)
  fix s
  obtain x s' where x: "run_state (udp_socket_known e sk) s = (x, s')"
    "told s s'" "\<And>i. x = Some i \<Longrightarrow> udp_open_sockets s' sk = Some i"
    using run_udp_known [OF assms, of sk s] by metis
  show "told s (snd (run_state (udp_update_stats e sk skb laddr lport raddr rport is_rx) s))"
    unfolding udp_update_stats_def
    by (rule rl.tracks_bind [OF x(1,2)])
      (use x(3) in \<open>cases x; simp add: rl.tracks_refl told_udp_update_entry\<close>)
qed

text \<open>DNS packets are not tied to the socket table.\<close>

lemma io_checked_pointer:
  "(\<And>v. state_io_rel told (k v)) \<Longrightarrow> state_io_rel told (checked_pointer e line f p k)"
  unfolding checked_pointer_def by (intro rl.tracker_io)

lemma io_submit_dns: "state_io_rel told (submit_dns e sk from valid_len len is_rx)"
  unfolding submit_dns_def Let_def by (intro rl.tracker_io rl.io_perf_submit_other) simp

lemma io_dns: "state_io_rel told (perf_check_and_submit_dns e sk skb proto sport dport is_rx)"
  unfolding perf_check_and_submit_dns_def Let_def by (intro rl.tracker_io io_checked_pointer io_submit_dns)

lemma io_tail_call: "state_io_rel told p \<Longrightarrow> state_io_rel told (tail_call e n p)"
  unfolding tail_call_def by (intro rl.io_if rl.io_skip)

lemma io_datagrams:
  assumes "render_env_ok e"
  shows "state_io_rel told (on_udp_send_skb e skb fl)" "state_io_rel told (on_udp_v6_send_skb e skb fl)"
    "state_io_rel told (on_ip_send_skb e skb)" "state_io_rel told (on_ip6_send_skb e skb)"
    "state_io_rel told (on_skb_consume_udp e sk skb)" "state_io_rel told (on_skb_free_datagram_locked e sk skb)"
proof -
  note io = rl.tracker_io io_udp_update_stats [OF assms] io_tail_call io_dns io_handle_tcp_reset
  show "state_io_rel told (on_udp_send_skb e skb fl)"
    unfolding on_udp_send_skb_def on_udp_send_skb__2_def by (intro io)
  show "state_io_rel told (on_udp_v6_send_skb e skb fl)"
    unfolding on_udp_v6_send_skb_def on_udp_v6_send_skb__2_def by (intro io)
  show "state_io_rel told (on_ip_send_skb e skb)"
    unfolding on_ip_send_skb_def on_ip_send_skb__2_def Let_def by (intro io)
  show "state_io_rel told (on_ip6_send_skb e skb)"
    unfolding on_ip6_send_skb_def on_ip6_send_skb__2_def Let_def by (intro io)
  show "state_io_rel told (on_skb_consume_udp e sk skb)"
    unfolding on_skb_consume_udp_def handle_receive_udp_skb_def handle_receive_udp_skb__2_def Let_def by (intro io)
  show "state_io_rel told (on_skb_free_datagram_locked e sk skb)"
    unfolding on_skb_free_datagram_locked_def handle_receive_udp_skb_def handle_receive_udp_skb__2_def Let_def
    by (intro io)
qed

section \<open>Processes, cgroups and NAT\<close>

lemma lf_checked_read:
  "(\<And>v. state_io_rel log_frame (k v)) \<Longrightarrow> state_io_rel log_frame (checked_read e line f p d k)"
  unfolding checked_read_def by (intro lf.io_rules bpf_log_frame)

lemma lf_task:
  "state_io_rel log_frame (get_task_cgroup e tsk)" "state_io_rel log_frame (get_task_parent e tsk)"
  "state_io_rel log_frame (task_is_group_leader e tsk)"
  unfolding get_task_cgroup_def get_task_parent_def task_is_group_leader_def
  by (intro lf.io_rules lf_checked_read bpf_log_frame)+

lemma run_insert_tgid:
  assumes "noexist_ok e"
  obtains (added) "tgid_info_table s tgid = None"
      "run_state (insert_tgid_info e tgid) s = (True, s\<lparr>tgid_info_table := (tgid_info_table s)(tgid \<mapsto> tgid)\<rparr>)"
  | (refused) s' where "log_frame s s'" "run_state (insert_tgid_info e tgid) s = (False, s')"
proof -
  obtain ret m' where ret: "map_insert e (Tbl BPF_TABLE_TGID_INFO) (ucast tgid) tgid tgid (tgid_info_table s) = (ret, m')"
    by (rule prod.exhaust)
  show ?thesis
    by (rule insert_report [OF ret [symmetric] assms, where s = "s\<lparr>tgid_info_table := m'\<rparr>"])
      (rule added refused; simp add: insert_tgid_info_def ret; fastforce)+
qed

lemma io_report_new_task:
  assumes "render_env_ok e"
  shows "state_io_rel told (report_new_task e line tsk tgid)"
  unfolding state_io_rel_def
proof (rule allI)
  fix s
  have ok: "noexist_ok e" "fst (kread_comm e tsk) = 0" using assms by (simp_all add: render_env_ok_def announcing_reads_ok_def)
  show "told s (snd (run_state (report_new_task e line tsk tgid) s))"
  proof (rule run_insert_tgid [OF ok(1), of s tgid])
    fix s' assume "log_frame s s'" "run_state (insert_tgid_info e tgid) s = (False, s')"
    then show ?thesis by (simp add: report_new_task_def rl.tracks_log_frame)
  next
    let ?t = "s\<lparr>tgid_info_table := (tgid_info_table s)(tgid \<mapsto> tgid)\<rparr>"
    let ?t1 = "?t\<lparr>ktime_reads := ktime_reads s + 1\<rparr>"
    assume new: "tgid_info_table s tgid = None" "run_state (insert_tgid_info e tgid) s = (True, ?t)"
    obtain cg u where u: "run_state (get_task_cgroup e tsk) ?t1 = (cg, u)" by (rule prod.exhaust)
    obtain pa w where w: "run_state (get_task_parent e tsk) u = (pa, w)" by (rule prod.exhaust)
    have "log_frame ?t w"
      using log_frame_ktime io_runD [OF lf_task(1) u] io_runD [OF lf_task(2) w] by (metis log_frame_trans)
    then have "told s (w\<lparr>events := events w @ [Ev_pid_info now tgid comm cg pa]\<rparr>)" for now comm
      using new(1) by (intro rl.tracks_opened [of s "Process tgid" ?t]) (simp_all add: live_stores)
    then show ?thesis using new(2) u w ok(2)
      by (simp add: report_new_task_def case_prod_unfold)
  qed
qed

lemma io_onret_cgroup_exit:
  assumes "render_env_ok e"
  shows "state_io_rel told (onret_cgroup_exit e)"
proof -
  have d: "delete_ok e" using assms by (simp add: render_env_ok_def)
  have close: "told s (snd (run_state (do { removed \<leftarrow> remove_tgid_info e tgid;
      if \<not> removed then skip else do { now \<leftarrow> get_timestamp e; perf_submit (Ev_pid_close now tgid (current_comm e)) } }) s))"
    for tgid s
  proof (cases "tgid_info_table s tgid")
    case None
    with d show ?thesis
      by (simp add: remove_tgid_info_def map_delete_def delete_ok_def ENOENT_def told_live_store fun_upd_idem)
  next
    case (Some i)
    let ?t = "s\<lparr>tgid_info_table := (tgid_info_table s)(tgid := None)\<rparr>"
    let ?now = "ktime e (ktime_reads s) + boot_time_adjustment e"
    have "told s (?t\<lparr>ktime_reads := ktime_reads s + 1, events := events s @ [Ev_pid_close ?now tgid (current_comm e)]\<rparr>)"
      using rl.tracks_closed [of s "Process tgid" ?t, OF _ _ _ ev_frame_ktime] Some by (simp add: live_stores)
    with d Some show ?thesis by (simp add: remove_tgid_info_def map_delete_def delete_ok_def)
  qed
  show ?thesis unfolding onret_cgroup_exit_def
    by (rule io_all [where R = told, OF close] io_save_args rl.io_pid_tgid rl.io_skip rl.io_gets rl.io_prod rl.io_option rl.io_bind)+
qed

lemma io_process:
  assumes "render_env_ok e"
  shows "state_io_rel told (on_taskstats_exit e tsk dead)" "state_io_rel told (on_cgroup_exit e tsk)"
    "state_io_rel told (on_set_task_comm e tsk buf)" "state_io_rel told (on_wake_up_new_task e tsk)"
    "state_io_rel told (onret_get_pid_task e)"
proof -
  note io = rl.tracker_io io_save_args rl.io_log [OF lf_task(3)] io_report_new_task [OF assms] rl.io_perf_submit_other
  show "state_io_rel told (on_taskstats_exit e tsk dead)"
    unfolding on_taskstats_exit_def set_task_group_dead_def by (intro io)
  show "state_io_rel told (on_cgroup_exit e tsk)"
    unfolding on_cgroup_exit_def task_group_check_dead_and_remove_def by (intro io)
  show "state_io_rel told (on_set_task_comm e tsk buf)" unfolding on_set_task_comm_def by (intro io) simp
  show "state_io_rel told (on_wake_up_new_task e tsk)" unfolding on_wake_up_new_task_def by (intro io)
  show "state_io_rel told (onret_get_pid_task e)" unfolding onret_get_pid_task_def by (intro io)
qed

lemma io_cgroups:
  "state_io_rel told (on_kill_css e css)" "state_io_rel told (on_cgroup_destroy_locked e cgrp)"
  "state_io_rel told (on_css_populate_dir e css)" "state_io_rel told (on_cgroup_populate_dir e cgrp)"
  "state_io_rel told (on_cgroup_control e cgrp)" "state_io_rel told (onret_cgroup_control e)"
  "state_io_rel told (on_cgroup_clone_children_read e css)" "state_io_rel told (on_cgroup_clone_children_read_old e cgrp)"
  "state_io_rel told (on_cgroup_attach_task e cgrp leader)"
  unfolding on_kill_css_def on_cgroup_destroy_locked_def on_css_populate_dir_def on_cgroup_populate_dir_def
    on_cgroup_control_def onret_cgroup_control_def on_cgroup_clone_children_read_def
    on_cgroup_clone_children_read_old_def on_cgroup_attach_task_def
  by (intro rl.tracker_io io_save_args rl.io_perf_submit_other; simp)+

lemma io_nat:
  "state_io_rel told (on_nf_nat_cleanup_conntrack e ct)" "state_io_rel told (on_nf_conntrack_alter_reply e ct reply)"
  "state_io_rel told (on_ctnetlink_dump_tuples e ct)"
  unfolding on_nf_nat_cleanup_conntrack_def on_nf_conntrack_alter_reply_def on_ctnetlink_dump_tuples_def
  by (intro rl.tracker_io io_save_args rl.io_perf_submit_other; simp)+

section \<open>Every sequence of probes\<close>

text \<open>
  A probe with the arguments the kernel passes it.  \<^verbatim>\<open>seen_inode\<close> is the one action of user space: it
  fills \<^verbatim>\<open>seen_inodes\<close> while it scans \<^verbatim>\<open>/proc\<close>.
\<close>

datatype (plugins only: code) render_probe =
  P_taskstats_exit u64 bool | P_cgroup_exit u64 | P_ret_cgroup_exit | P_set_task_comm u64 u64
| P_wake_up_new_task u64 | P_ret_get_pid_task
| P_tcp_connect u64 | P_inet_csk_listen_start u64 | P_tcp_init_sock u64 | P_inet_csk_accept u64 u32 u64
| P_ret_inet_csk_accept | P_tcp46_seq_show u64 | P_tcp_reset u64 | P_tcp_send_active_reset u64
| P_tcp_retransmit_timer u64 | P_tcp_syn_ack_timeout u64 | P_tcp_rtt_estimator u64
| P_tcp_rcv_established u64 | P_tcp_event_data_recv u64
| P_udp46_seq_show u64 | P_udp_v46_get_port u64 | P_ret_udp_v46_get_port | P_security_sk_free u64
| P_inet_release u64 | P_ret_inet_release | P_udp_send_skb u64 u64 | P_udp_v6_send_skb u64 u64
| P_ip_send_skb u64 | P_ip6_send_skb u64 | P_skb_consume_udp u64 u64 | P_skb_free_datagram_locked u64 u64
| P_kill_css u64 | P_cgroup_destroy_locked u64 | P_css_populate_dir u64 | P_cgroup_populate_dir u64
| P_cgroup_control u64 | P_ret_cgroup_control | P_cgroup_clone_children_read u64
| P_cgroup_clone_children_read_old u64 | P_cgroup_attach_task u64 u64
| P_nf_nat_cleanup_conntrack u64 | P_nf_conntrack_alter_reply u64 u64 | P_ctnetlink_dump_tuples u64
| P_seen_inode u32 u32

primrec run_probe :: "env \<Rightarrow> render_probe \<Rightarrow> unit rprog" where
  "run_probe e (P_taskstats_exit tsk dead) = on_taskstats_exit e tsk dead"
| "run_probe e (P_cgroup_exit tsk) = on_cgroup_exit e tsk"
| "run_probe e P_ret_cgroup_exit = onret_cgroup_exit e"
| "run_probe e (P_set_task_comm tsk buf) = on_set_task_comm e tsk buf"
| "run_probe e (P_wake_up_new_task tsk) = on_wake_up_new_task e tsk"
| "run_probe e P_ret_get_pid_task = onret_get_pid_task e"
| "run_probe e (P_tcp_connect sk) = on_tcp_connect e sk"
| "run_probe e (P_inet_csk_listen_start sk) = on_inet_csk_listen_start e sk"
| "run_probe e (P_tcp_init_sock sk) = on_tcp_init_sock e sk"
| "run_probe e (P_inet_csk_accept sk flags err) = on_inet_csk_accept e sk flags err"
| "run_probe e P_ret_inet_csk_accept = onret_inet_csk_accept e"
| "run_probe e (P_tcp46_seq_show sk) = on_tcp46_seq_show e sk"
| "run_probe e (P_tcp_reset sk) = on_tcp_reset e sk"
| "run_probe e (P_tcp_send_active_reset sk) = on_tcp_send_active_reset e sk"
| "run_probe e (P_tcp_retransmit_timer sk) = on_tcp_retransmit_timer e sk"
| "run_probe e (P_tcp_syn_ack_timeout req) = on_tcp_syn_ack_timeout e req"
| "run_probe e (P_tcp_rtt_estimator sk) = on_tcp_rtt_estimator e sk"
| "run_probe e (P_tcp_rcv_established sk) = on_tcp_rcv_established e sk"
| "run_probe e (P_tcp_event_data_recv sk) = on_tcp_event_data_recv e sk"
| "run_probe e (P_udp46_seq_show sk) = on_udp46_seq_show e sk"
| "run_probe e (P_udp_v46_get_port sk) = on_udp_v46_get_port e sk"
| "run_probe e P_ret_udp_v46_get_port = onret_udp_v46_get_port e"
| "run_probe e (P_security_sk_free sk) = on_security_sk_free e sk"
| "run_probe e (P_inet_release sock) = on_inet_release e sock"
| "run_probe e P_ret_inet_release = onret_inet_release e"
| "run_probe e (P_udp_send_skb skb fl4) = on_udp_send_skb e skb fl4"
| "run_probe e (P_udp_v6_send_skb skb fl6) = on_udp_v6_send_skb e skb fl6"
| "run_probe e (P_ip_send_skb skb) = on_ip_send_skb e skb"
| "run_probe e (P_ip6_send_skb skb) = on_ip6_send_skb e skb"
| "run_probe e (P_skb_consume_udp sk skb) = on_skb_consume_udp e sk skb"
| "run_probe e (P_skb_free_datagram_locked sk skb) = on_skb_free_datagram_locked e sk skb"
| "run_probe e (P_kill_css css) = on_kill_css e css"
| "run_probe e (P_cgroup_destroy_locked cgrp) = on_cgroup_destroy_locked e cgrp"
| "run_probe e (P_css_populate_dir css) = on_css_populate_dir e css"
| "run_probe e (P_cgroup_populate_dir cgrp) = on_cgroup_populate_dir e cgrp"
| "run_probe e (P_cgroup_control cgrp) = on_cgroup_control e cgrp"
| "run_probe e P_ret_cgroup_control = onret_cgroup_control e"
| "run_probe e (P_cgroup_clone_children_read css) = on_cgroup_clone_children_read e css"
| "run_probe e (P_cgroup_clone_children_read_old cgrp) = on_cgroup_clone_children_read_old e cgrp"
| "run_probe e (P_cgroup_attach_task cgrp leader) = on_cgroup_attach_task e cgrp leader"
| "run_probe e (P_nf_nat_cleanup_conntrack ct) = on_nf_nat_cleanup_conntrack e ct"
| "run_probe e (P_nf_conntrack_alter_reply ct newreply) = on_nf_conntrack_alter_reply e ct newreply"
| "run_probe e (P_ctnetlink_dump_tuples ct) = on_ctnetlink_dump_tuples e ct"
| "run_probe e (P_seen_inode ino tgid) = modify (\<lambda>s. s\<lparr>seen_inodes := (seen_inodes s)(ino \<mapsto> tgid)\<rparr>)"

text \<open>Each probe runs in an environment of its own.\<close>

primrec run_probes :: "(env \<times> render_probe) list \<Rightarrow> unit rprog" where
  "run_probes [] = skip"
| "run_probes (p # ps) = do { run_probe (fst p) (snd p); run_probes ps }"

lemma io_run_probe:
  assumes "render_env_ok e"
  shows "state_io_rel told (run_probe e p)"
proof -
  have d: "delete_ok e" using assms by (simp add: render_env_ok_def)
  show ?thesis
    by (cases p; simp only: run_probe.simps on_tcp_reset_def on_tcp_send_active_reset_def on_tcp_retransmit_timer_def
        on_security_sk_free_def;
      (rule io_process [OF assms] io_onret_cgroup_exit [OF assms] io_tcp_states [OF assms] io_on_tcp_init_sock [OF assms]
        io_accept [OF assms] io_onret_accept [OF assms] io_on_tcp46_seq_show [OF assms] io_handle_tcp_reset
        io_handle_syn_timeout io_on_tcp_syn_ack_timeout io_live_tcp io_udp_life [OF assms]
        io_remove_open_socket [OF d] io_datagrams [OF assms] io_cgroups io_nat io_save_args))
qed

lemma io_run_probes: "(\<And>p. p \<in> set ps \<Longrightarrow> render_env_ok (fst p)) \<Longrightarrow> state_io_rel told (run_probes ps)"
  by (induction ps) (auto intro!: rl.io_skip rl.io_bind io_run_probe)

section \<open>The contract with user space\<close>

text \<open>
  C26. Whatever probes fire in whatever order, each in its own environment, the messages they send about
  TCP sockets, UDP sockets and processes are a run of the tracker from the objects the tables hold before
  to those they hold after: a socket or process is announced only while user space does not know it,
  every report on a socket (addresses, statistics, resets, time-outs) comes between its announcement and
  its closing message, and an object is in its table exactly while user space believes it open.  This
  rests on the insertion of a present key returning \<^verbatim>\<open>-EEXIST\<close>, on deletion returning zero exactly for
  a present key, and on the reads of an announcing message not failing.
\<close>

theorem render_refines_tracker:
  assumes "\<forall>p \<in> set ps. render_env_ok (fst p)"
    and "run_state (run_probes ps) s = ((), s')"
  shows "\<exists>evs. events s' = events s @ evs \<and>
    track (live_object s) (List.map_filter life_event evs) = Some (live_object s')"
  using io_runD [OF io_run_probes assms(2)] assms(1) unfolding tracks_def by blast

text \<open>Runs on the environment \<^verbatim>\<open>env0\<close>: a socket created, reset and freed.\<close>

definition tcp_life :: "(env \<times> render_probe) list" where
  "tcp_life = [(env0, P_tcp_init_sock 7), (env0, P_tcp_reset 7), (env0, P_security_sk_free 7), (env0, P_tcp_reset 7)]"

lemma env0_render_ok [simp]: "render_env_ok env0"
  by (simp add: render_env_ok_def announcing_reads_ok_def) (simp add: env0_def)

theorem render_refines_tracker_witness:
  "\<exists>evs. events (snd (run_state (run_probes tcp_life) render0)) = events render0 @ evs \<and>
     track (live_object render0) (List.map_filter life_event evs) =
       Some (live_object (snd (run_state (run_probes tcp_life) render0)))"
  by (rule render_refines_tracker [of tcp_life]) (simp_all add: tcp_life_def prod_eq_iff)

lemma tcp_life_events:
  "List.map_filter life_event (events (snd (run_state (run_probes tcp_life) render0))) =
     [Opened (Tcp_sock 7), Used (Tcp_sock 7), Used (Tcp_sock 7), Closed (Tcp_sock 7)]"
  by (simp add: tcp_life_def env0_def render0_def on_tcp_init_sock_def GET_PID_TGID_def TGID_FROM_PID_TGID_def
      PID_FROM_PID_TGID_def tcp_lifetime_hack_def add_tcp_open_socket_def checked_read_def probe_read_def
      map_insert_def map_delete_def table_full_def on_tcp_reset_def handle_tcp_reset_def on_security_sk_free_def
      remove_open_socket_def remove_tcp_open_socket_def finish_tcp_socket_def report_rtt_estimator_def
      List.map_filter_def Let_def E2BIG_def ENOMEM_def EINVAL_def EEXIST_def)

section \<open>Sockets closed on several CPUs at once\<close>

text \<open>
  \<^verbatim>\<open>security_sk_free\<close> and \<^verbatim>\<open>inet_release\<close> can remove the same socket concurrently.  A remover has not
  started, has looked the entry up and copied it, or is done; between its two parts any other may run,
  each on a CPU with its own environment from \<open>E\<close>.
\<close>

datatype remover = Start | Found tcp_open_socket_t | Done

inductive remove_step :: "env set \<Rightarrow> u64 \<Rightarrow> render \<times> remover list \<Rightarrow> render \<times> remover list \<Rightarrow> bool"
  for E sk where
  hit: "i < length ts \<Longrightarrow> ts ! i = Start \<Longrightarrow> tcp_open_sockets s sk = Some sk_info \<Longrightarrow>
    remove_step E sk (s, ts) (s, ts[i := Found sk_info])"
| miss: "i < length ts \<Longrightarrow> ts ! i = Start \<Longrightarrow> tcp_open_sockets s sk = None \<Longrightarrow>
    remove_step E sk (s, ts) (s, ts[i := Done])"
| finish: "i < length ts \<Longrightarrow> ts ! i = Found sk_info \<Longrightarrow> e \<in> E \<Longrightarrow>
    run_state (finish_tcp_socket e sk sk_info) s = ((), s') \<Longrightarrow>
    remove_step E sk (s, ts) (s', ts[i := Done])"

fun closes :: "u64 \<Rightarrow> bpf_event \<Rightarrow> bool" where
  "closes sk (Ev_close_sock_info now sk') = (sk = sk')"
| "closes sk _ = False"

lemma speaks_not_closes: "speaks_of life_event k ev \<Longrightarrow> \<not> closes sk ev"
  by (cases ev) (simp_all add: speaks_of_def)

lemma finish_tcp_closes:
  assumes "delete_ok e" "run_state (finish_tcp_socket e sk i) s = ((), s')"
  shows "tcp_open_sockets s' sk = None \<and> (\<exists>evs. events s' = events s @ evs \<and>
    length (filter (closes sk) evs) = (if tcp_open_sockets s sk = None then 0 else 1))"
proof (cases "tcp_open_sockets s sk")
  case None
  then show ?thesis using assms by (auto simp: finish_tcp_socket_def map_delete_def delete_ok_def ENOENT_def)
next
  case (Some j)
  let ?now = "ktime e (ktime_reads s) + boot_time_adjustment e"
  let ?m = "report_rtt_estimator e sk i ?now True"
  let ?t = "s\<lparr>tcp_open_sockets := (tcp_open_sockets s)(sk := None), ktime_reads := ktime_reads s + 1\<rparr>"
  obtain r u where u: "run_state ?m ?t = (r, u)" by (rule prod.exhaust)
  then have fr: "ev_frame (speaks_of life_event (Tcp_sock sk)) ?t u" by (rule io_runD [OF report_rtt_speaks])
  obtain n g evs where evs: "u = ?t\<lparr>ktime_reads := n, bpf_log_globals := g, events := events ?t @ evs\<rparr>"
    "list_all (speaks_of life_event (Tcp_sock sk)) evs" using fr by (rule ev_frameE)
  have "filter (closes sk) evs = []" using evs(2) by (auto simp: filter_empty_conv list_all_iff dest: speaks_not_closes)
  moreover have "s' = u\<lparr>events := events u @ [Ev_close_sock_info ?now sk]\<rparr>"
    using assms Some u by (simp add: finish_tcp_socket_def map_delete_def delete_ok_def)
  ultimately show ?thesis using evs(1) Some by simp
qed

lemma remove_step_inv:
  assumes "remove_step E sk c c'" "\<forall>e \<in> E. delete_ok e"
    and "\<exists>evs. events (fst c) = es @ evs \<and> length (filter (closes sk) evs) = (if tcp_open_sockets (fst c) sk = None then 1 else 0)"
    and "Done \<in> set (snd c) \<Longrightarrow> tcp_open_sockets (fst c) sk = None"
  shows "(\<exists>evs. events (fst c') = es @ evs \<and> length (filter (closes sk) evs) = (if tcp_open_sockets (fst c') sk = None then 1 else 0)) \<and>
    (Done \<in> set (snd c') \<longrightarrow> tcp_open_sockets (fst c') sk = None)"
  using assms(1)
proof cases
  case (hit i ts s sk_info)
  with assms(3,4) show ?thesis using set_update_subset_insert [of ts i "Found sk_info"] by auto
next
  case (miss i ts s)
  with assms(3) show ?thesis by simp
next
  case (finish i ts sk_info e s s')
  then have "delete_ok e" using assms(2) by simp
  from finish_tcp_closes [OF this finish(6)] obtain evs where evs: "tcp_open_sockets s' sk = None"
    "events s' = events s @ evs" "length (filter (closes sk) evs) = (if tcp_open_sockets s sk = None then 0 else 1)" by blast
  obtain evs0 where "events s = es @ evs0" "length (filter (closes sk) evs0) = (if tcp_open_sockets s sk = None then 1 else 0)"
    using assms(3) finish(1) by auto
  with evs finish(2) show ?thesis by (auto intro!: exI [of _ "evs0 @ evs"])
qed

text \<open>
  C28. However many CPUs remove a tracked socket at the same time and however their lookups and deletions
  interleave, once any of them is done the socket is out of the table and exactly one of them has sent
  the closing message.
\<close>

theorem concurrent_removals_close_once:
  assumes "(remove_step E sk)\<^sup>*\<^sup>* (s, replicate n Start) (s', ts)" "\<forall>e \<in> E. delete_ok e"
    and "tcp_open_sockets s sk \<noteq> None" "Done \<in> set ts"
  shows "tcp_open_sockets s' sk = None \<and>
    (\<exists>evs. events s' = events s @ evs \<and> length (filter (closes sk) evs) = 1)"
proof -
  have "(\<exists>evs. events (fst c) = events s @ evs \<and> length (filter (closes sk) evs) = (if tcp_open_sockets (fst c) sk = None then 1 else 0)) \<and>
    (Done \<in> set (snd c) \<longrightarrow> tcp_open_sockets (fst c) sk = None)" if "(remove_step E sk)\<^sup>*\<^sup>* (s, replicate n Start) c" for c
    using that
  proof (induction rule: rtranclp_induct)
    case base
    then show ?case using assms(3) by auto
  next
    case (step c c')
    then show ?case using remove_step_inv [OF step(2) assms(2), of "events s"] by blast
  qed
  from this [OF assms(1)] assms(4) show ?thesis by auto
qed

theorem concurrent_removals_close_once_witness:
  "let s = render0\<lparr>tcp_open_sockets := [7 \<mapsto> \<lparr>os_tgid = 1, os_rcv_holes = 0, os_last_output = 0,
        os_bytes_received = 0, os_rcv_delivered = 0, os_parent = 0\<rparr>]\<rparr>
   in \<exists>s'. (remove_step {env0} 7)\<^sup>*\<^sup>* (s, [Start, Start]) (s', [Done, Done]) \<and>
     (\<exists>evs. events s' = events s @ evs \<and> length (filter (closes 7) evs) = 1)"
proof -
  let ?i = "\<lparr>os_tgid = 1, os_rcv_holes = 0, os_last_output = 0, os_bytes_received = 0, os_rcv_delivered = 0, os_parent = 0\<rparr>"
  let ?s = "render0\<lparr>tcp_open_sockets := [7 \<mapsto> ?i]\<rparr>"
  let ?m = "finish_tcp_socket env0 7 ?i"
  obtain t where t: "run_state ?m ?s = ((), t)" by (cases "run_state ?m ?s") simp
  obtain u where u: "run_state ?m t = ((), u)" by (cases "run_state ?m t") simp
  have "remove_step {env0} 7 (?s, [Start, Start]) (?s, [Found ?i, Start])"
    using remove_step.hit [of 0 "[Start, Start]" ?s 7 ?i] by simp
  moreover have "remove_step {env0} 7 (?s, [Found ?i, Start]) (?s, [Found ?i, Found ?i])"
    using remove_step.hit [of 1 "[Found ?i, Start]" ?s 7 ?i] by simp
  moreover have "remove_step {env0} 7 (?s, [Found ?i, Found ?i]) (t, [Found ?i, Done])"
    using remove_step.finish [of 1 "[Found ?i, Found ?i]" ?i env0 "{env0}" 7 ?s t] t by simp
  moreover have "remove_step {env0} 7 (t, [Found ?i, Done]) (u, [Done, Done])"
    using remove_step.finish [of 0 "[Found ?i, Done]" ?i env0 "{env0}" 7 t u] u by simp
  ultimately have run: "(remove_step {env0} 7)\<^sup>*\<^sup>* (?s, [Start, Start]) (u, [Done, Done])"
    by (meson converse_rtranclp_into_rtranclp rtranclp.rtrancl_refl)
  have "\<exists>evs. events u = events ?s @ evs \<and> length (filter (closes 7) evs) = 1"
    using concurrent_removals_close_once [of "{env0}" 7 ?s 2 u "[Done, Done]"] run by (simp add: numeral_2_eq_2)
  with run show ?thesis unfolding Let_def by blast
qed

section \<open>Sockets that cannot be tracked\<close>

text \<open>Programs that add messages, none of which announces an object.\<close>

definition quiet :: "render \<Rightarrow> render \<Rightarrow> bool" where
  "quiet s s' \<longleftrightarrow> (\<exists>evs. events s' = events s @ evs \<and> (\<forall>ev \<in> set evs. \<forall>k. life_event ev \<noteq> Some (Opened k)))"

lemma quietI: "events s' = events s @ evs \<Longrightarrow> (\<And>ev k. ev \<in> set evs \<Longrightarrow> life_event ev \<noteq> Some (Opened k)) \<Longrightarrow> quiet s s'"
  unfolding quiet_def by blast

lemma quiet_trans:
  assumes "quiet s t" and "quiet t u"
  shows "quiet s u"
proof -
  obtain xs where "events t = events s @ xs" "\<forall>ev \<in> set xs. \<forall>k. life_event ev \<noteq> Some (Opened k)"
    using assms(1) by (auto simp: quiet_def)
  moreover obtain ys where "events u = events t @ ys" "\<forall>ev \<in> set ys. \<forall>k. life_event ev \<noteq> Some (Opened k)"
    using assms(2) by (auto simp: quiet_def)
  ultimately show ?thesis by (intro quietI [of _ _ "xs @ ys"]) auto
qed

interpretation qf: frame_rel quiet
  by unfold_locales (auto intro: quietI [of _ _ "[]"] quiet_trans)

lemma quiet_ev_frame: "ev_frame (speaks_of life_event k) s s' \<Longrightarrow> quiet s s'"
  by (erule ev_frameE, rule quietI, simp) (auto simp: list_all_iff speaks_of_def)

lemma quiet_log_frame: "log_frame s s' \<Longrightarrow> quiet s s'"
  using quiet_ev_frame [OF ev_frame_logs] rl.log_speaks_of by blast

lemma quiet_finish_tcp: "state_io_rel quiet (finish_tcp_socket e sk i)"
  unfolding finish_tcp_socket_def
proof (intro qf.io_rules)
  show "state_io_rel quiet (modify (\<lambda>s. s\<lparr>tcp_open_sockets := m\<rparr>))" for m
    by (rule qf.io_modify, rule quietI [of _ _ "[]"]) simp_all
  show "state_io_rel quiet (get_timestamp e)" by (rule io_all, rule quietI [of _ _ "[]"]) simp_all
  show "state_io_rel quiet (report_rtt_estimator e sk i now True)" for now
    by (rule io_all, rule quiet_ev_frame, rule report_rtt_speaks [unfolded state_io_rel_def, rule_format])
  show "state_io_rel quiet (perf_submit (Ev_close_sock_info now sk))" for now
    by (rule io_all, rule quietI [of _ _ "[Ev_close_sock_info now sk]"]) simp_all
qed

lemma finish_tcp_table:
  assumes "run_state (finish_tcp_socket e sk i) s = ((), s')"
  shows "tcp_open_sockets s' = (tcp_open_sockets s)(sk := None)"
proof -
  let ?now = "ktime e (ktime_reads s) + boot_time_adjustment e"
  let ?t = "s\<lparr>tcp_open_sockets := (tcp_open_sockets s)(sk := None), ktime_reads := ktime_reads s + 1\<rparr>"
  obtain r u where u: "run_state (report_rtt_estimator e sk i ?now True) ?t = (r, u)" by (rule prod.exhaust)
  then have "tcp_open_sockets u = tcp_open_sockets ?t" by (rule io_runD [OF report_rtt_speaks, THEN ev_frame_tables(1)])
  with u assms show ?thesis by (auto simp: finish_tcp_socket_def map_delete_def split: if_splits)
qed

lemma tcp_lifetime_hack_effect:
  assumes "run_state (tcp_lifetime_hack e sk) s = ((), s')"
  shows "quiet s s' \<and> tcp_open_sockets s' = (tcp_open_sockets s)(sk := None)"
proof (cases "tcp_open_sockets s sk")
  case None
  with assms show ?thesis by (auto simp: tcp_lifetime_hack_def qf.frame_refl)
next
  case (Some i)
  define t where "t = (if report_debug_events e then s\<lparr>ktime_reads := ktime_reads s + 1, events := events s @
    [Ev_report_debug_event (ktime e (ktime_reads s) + boot_time_adjustment e) TCP_LIFETIME_HACK_CODE sk]\<rparr> else s)"
  have t: "tcp_open_sockets t = tcp_open_sockets s" by (simp add: t_def)
  have q: "quiet s t" by (auto simp: t_def quiet_def)
  have run: "run_state (finish_tcp_socket e sk i) t = ((), s')"
    using assms Some by (auto simp: tcp_lifetime_hack_def remove_tcp_open_socket_def t_def split: if_splits)
  from quiet_trans [OF q io_runD [OF quiet_finish_tcp run]] finish_tcp_table [OF run] t show ?thesis by simp
qed

lemma snd_bpf_log: "log_frame s (snd (run_state (bpf_log e line code a0 a1 a2) s))"
  by (rule bpf_log_frame [unfolded state_io_rel_def, rule_format])

lemma run_add_tcp_cases:
  fixes e s sk
  defines "rc \<equiv> insert_rc e (Tbl BPF_TABLE_TCP_OPEN_SOCKETS) sk False"
  assumes "tcp_open_sockets s sk = None" "run_state (add_tcp_open_socket e sk tgid now parent) s = (r, s')" "rc \<noteq> - EEXIST"
  shows "if fst (kread e ''tcp_sock.bytes_received'' sk) = 0 \<and> rc = 0
    then r = 1 \<and> s' = s\<lparr>tcp_open_sockets := (tcp_open_sockets s)(sk \<mapsto> \<lparr>os_tgid = tgid, os_rcv_holes = 0, os_last_output = 0,
      os_bytes_received = snd (kread e ''tcp_sock.bytes_received'' sk), os_rcv_delivered = 0, os_parent = parent\<rparr>)\<rparr>
    else r = - 1 \<and> log_frame s s'"
proof (cases "fst (kread e ''tcp_sock.bytes_received'' sk) = 0")
  case True
  have "table_full 0 = False" by (simp add: table_full_def E2BIG_def ENOMEM_def EINVAL_def)
  with True assms show ?thesis
    by (cases "rc = 0"; cases "table_full rc")
      (auto simp: add_tcp_open_socket_def checked_read_def probe_read_def case_prod_unfold map_insert_def Let_def EEXIST_def
        snd_bpf_log)
next
  case False
  with assms(3) show ?thesis
    by (auto simp: add_tcp_open_socket_def checked_read_def probe_read_def case_prod_unfold Let_def
      snd_bpf_log)
qed

text \<open>
  C30. A new TCP socket is announced exactly when it could be stored: if the table refuses it (full, out of
  memory, or any other code) or its counters cannot be read, the socket is in no table and no announcement
  of any object is sent, so nothing is ever reported about it; otherwise its entry is a fresh one owned by the
  current process, and the last message sent announces it.  Either way an entry left over from an earlier
  socket at the same address is gone.
\<close>

theorem tcp_init_sock_outcome:
  assumes "insert_rc e (Tbl BPF_TABLE_TCP_OPEN_SOCKETS) sk False \<noteq> - EEXIST"
    and "run_state (on_tcp_init_sock e sk) s = ((), s')"
  shows "if fst (kread e ''tcp_sock.bytes_received'' sk) = 0 \<and> insert_rc e (Tbl BPF_TABLE_TCP_OPEN_SOCKETS) sk False = 0
    then (\<exists>now. last (events s') = Ev_new_sock_created now (TGID_FROM_PID_TGID (current_pid_tgid e)) sk) \<and>
      tcp_open_sockets s' = (tcp_open_sockets s)(sk \<mapsto> \<lparr>os_tgid = TGID_FROM_PID_TGID (current_pid_tgid e),
        os_rcv_holes = 0, os_last_output = 0, os_bytes_received = snd (kread e ''tcp_sock.bytes_received'' sk),
        os_rcv_delivered = 0, os_parent = 0\<rparr>)
    else tcp_open_sockets s' = (tcp_open_sockets s)(sk := None) \<and>
      (\<exists>evs. events s' = events s @ evs \<and> (\<forall>ev \<in> set evs. \<forall>k. life_event ev \<noteq> Some (Opened k)))"
proof -
  let ?tgid = "TGID_FROM_PID_TGID (current_pid_tgid e)"
  obtain t where t: "run_state (GET_PID_TGID e 960) s = ((current_pid_tgid e, ?tgid, ucast (smp_processor_id e)), t)"
    "log_frame s t" by (rule run_GET_PID_TGID)
  let ?t = "t\<lparr>ktime_reads := ktime_reads t + 1\<rparr>" and ?now = "ktime e (ktime_reads t) + boot_time_adjustment e"
  obtain u where u: "run_state (tcp_lifetime_hack e sk) ?t = ((), u)" by (cases "run_state (tcp_lifetime_hack e sk) ?t") simp
  obtain r w where w: "run_state (add_tcp_open_socket e sk ?tgid ?now 0) u = (r, w)" by (rule prod.exhaust)
  have "quiet t ?t" by (rule quietI [of _ _ "[]"]) simp_all
  then have su: "quiet s u" "tcp_open_sockets u = (tcp_open_sockets s)(sk := None)"
    using tcp_lifetime_hack_effect [OF u] quiet_log_frame [OF t(2)] log_frame_tables(1) [OF t(2)]
    by (auto intro: quiet_trans)
  then have add: "tcp_open_sockets u sk = None" by simp
  note cases = run_add_tcp_cases [OF add w assms(1)]
  let ?log = "bpf_log e 982 BPF_LOG_TABLE_BAD_INSERT (table_id BPF_TABLE_TCP_OPEN_SOCKETS) (ucast ?tgid) (abs_val (- 1))"
  have s': "s' = (if r = 1 then w\<lparr>events := events w @ [Ev_new_sock_created ?now ?tgid sk]\<rparr> else snd (run_state ?log w))"
    if "r = 1 \<or> r = - 1" using assms(2) t(1) u w that by (auto simp: on_tcp_init_sock_def)
  show ?thesis
  proof (cases "fst (kread e ''tcp_sock.bytes_received'' sk) = 0 \<and> insert_rc e (Tbl BPF_TABLE_TCP_OPEN_SOCKETS) sk False = 0")
    case True
    with cases s' su show ?thesis by simp
  next
    case False
    with cases have r: "r = - 1" "log_frame u w" by simp_all
    have "log_frame u (snd (run_state ?log w))" by (rule log_frame_trans [OF r(2) snd_bpf_log])
    with r(1) s' have "quiet s s'" "tcp_open_sockets s' = (tcp_open_sockets s)(sk := None)"
      using su quiet_trans [OF su(1) quiet_log_frame] log_frame_tables(1) by auto
    then show ?thesis unfolding if_not_P [OF False] quiet_def by blast
  qed
qed

theorem tcp_init_sock_outcome_witness:
  "let e = env0\<lparr>insert_rc := (\<lambda>t k present. if present then - EEXIST else - E2BIG)\<rparr>
   in tcp_open_sockets (snd (run_state (on_tcp_init_sock e 7) render0)) 7 = None"
proof -
  let ?e = "env0\<lparr>insert_rc := (\<lambda>t k present. if present then - EEXIST else - E2BIG)\<rparr>"
  have *: "insert_rc ?e (Tbl BPF_TABLE_TCP_OPEN_SOCKETS) 7 False \<noteq> - EEXIST"
    "insert_rc ?e (Tbl BPF_TABLE_TCP_OPEN_SOCKETS) 7 False \<noteq> 0" by (simp_all add: EEXIST_def E2BIG_def)
  obtain s' where "run_state (on_tcp_init_sock ?e 7) render0 = ((), s')"
    by (cases "run_state (on_tcp_init_sock ?e 7) render0") simp
  with tcp_init_sock_outcome [OF *(1) this] *(2) show ?thesis by (simp add: Let_def del: select_convs)
qed

text \<open>
  The hypothesis on reads in \<^verbatim>\<open>render_refines_tracker\<close> is needed: when an existing socket is found and
  one of the counters of its announcement cannot be read, the socket stays in the table unannounced, and
  later reports speak of a socket user space has not heard of.
\<close>

lemma existing_socket_unannounced:
  assumes "kget e ''sock.sk_family'' sk = AF_INET" "tcp_open_sockets s sk = None"
    and "insert_rc e (Tbl BPF_TABLE_TCP_OPEN_SOCKETS) sk False = 0"
    and "fst (kread e ''tcp_sock.bytes_received'' sk) = 0" "fst (kread e ''tcp_sock.bytes_acked'' sk) \<noteq> 0"
  shows "tcp_open_sockets (snd (run_state (ensure_tcp_existing e sk pid) s)) sk \<noteq> None \<and>
    quiet s (snd (run_state (ensure_tcp_existing e sk pid) s))"
proof -
  let ?s = "s\<lparr>ktime_reads := ktime_reads s + 1\<rparr>" and ?now = "ktime e (ktime_reads s) + boot_time_adjustment e"
  obtain r t where t: "run_state (add_tcp_open_socket e sk pid ?now 0) ?s = (r, t)" by (rule prod.exhaust)
  have "r = 1 \<and> tcp_open_sockets t sk \<noteq> None \<and> events t = events s"
    using run_add_tcp_cases [OF _ t] assms(2-4) by (auto simp: EEXIST_def)
  then have r: "r = 1" "tcp_open_sockets t sk \<noteq> None" "quiet s t" by (auto intro: quietI [of _ _ "[]"])
  let ?log = "bpf_log e 752 BPF_LOG_BPF_CALL_FAILED (abs_val (fst (kread e ''tcp_sock.bytes_acked'' sk))) 0 0"
  obtain u where u: "run_state ?log t = ((), u)" "log_frame t u" by (rule run_bpf_log)
  let ?m = "submit_set_state_ipv4 e ?now (if kget e ''sock.sk_state'' sk = TCP_LISTEN then 2 else 0) sk"
  have m: "ev_frame (speaks_of life_event (Tcp_sock sk)) u (snd (run_state ?m u))"
    by (rule speaks_set_state(1) [unfolded state_io_rel_def, rule_format])
  have "AF_INET \<noteq> AF_INET6" by (simp add: AF_INET_def AF_INET6_def)
  then have run: "snd (run_state (ensure_tcp_existing e sk pid) s) = snd (run_state ?m u)"
    using assms(1,5) t r(1) u(1)
    by (simp add: ensure_tcp_existing_def submit_reset_tcp_counters_def checked_read_def probe_read_def case_prod_unfold)
  have "quiet s (snd (run_state ?m u))"
    by (rule quiet_trans [OF quiet_trans [OF r(3) quiet_log_frame [OF u(2)]] quiet_ev_frame [OF m]])
  with run r(2) ev_frame_tables(1) [OF m] log_frame_tables(1) [OF u(2)] show ?thesis by simp
qed

end
