(* ===== verification/Render_Stats.thy ===== *)
theory Render_Stats
  imports Render_Udp
begin

text \<open>
  What the statistics of \<^verbatim>\<open>src/collector/kernel/bpf_src/render_bpf.c\<close> add up to: the datagrams of a UDP
  socket, the rate of TCP reports and the bytes of a captured DNS message.
\<close>

section \<open>Reports on a UDP socket\<close>

fun udp_reported :: "u64 \<Rightarrow> bool \<Rightarrow> bpf_event \<Rightarrow> (u32 \<times> u32 \<times> u32) option" where
  "udp_reported sk rx (Ev_udp_stats now sk' raddr packets bytes af rport is_rx laddr lport drops) =
     (if sk = sk' \<and> is_rx = (if rx then 1 else 0) then Some (packets, bytes, drops) else None)"
| "udp_reported sk rx _ = None"

definition reported_packets :: "u64 \<Rightarrow> bool \<Rightarrow> bpf_event list \<Rightarrow> u32" where
  "reported_packets sk rx evs = sum_list (map fst (List.map_filter (udp_reported sk rx) evs))"

definition reported_bytes :: "u64 \<Rightarrow> bool \<Rightarrow> bpf_event list \<Rightarrow> u32" where
  "reported_bytes sk rx evs = sum_list (map (fst \<circ> snd) (List.map_filter (udp_reported sk rx) evs))"

definition reported_drops :: "u64 \<Rightarrow> bool \<Rightarrow> bpf_event list \<Rightarrow> u32" where
  "reported_drops sk rx evs = sum_list (map (snd \<circ> snd) (List.map_filter (udp_reported sk rx) evs))"

lemmas reported_defs = reported_packets_def reported_bytes_def reported_drops_def List.map_filter_def

lemma reported_append [simp]:
  "reported_packets sk rx (xs @ ys) = reported_packets sk rx xs + reported_packets sk rx ys"
  "reported_bytes sk rx (xs @ ys) = reported_bytes sk rx xs + reported_bytes sk rx ys"
  "reported_drops sk rx (xs @ ys) = reported_drops sk rx xs + reported_drops sk rx ys"
  by (simp_all add: reported_defs)

lemma reported_Nil [simp]:
  "reported_packets sk rx [] = 0" "reported_bytes sk rx [] = 0" "reported_drops sk rx [] = 0"
  by (simp_all add: reported_defs)

text \<open>The messages of one report.\<close>

definition udp_send_events :: "env \<Rightarrow> u64 \<Rightarrow> u64 \<Rightarrow> udp_stats_t \<Rightarrow> bool \<Rightarrow> bpf_event list" where
  "udp_send_events e now sk stats is_rx = (
     if us_addr_changed stats = 0 \<and> us_packets stats = 0 \<and> sk_drops e sk = us_drops stats then []
     else [Ev_udp_stats now sk (us_raddr6 stats) (us_packets stats) (us_bytes stats) (us_addr_changed stats)
       (us_rport stats) (if is_rx then 1 else 0) (us_laddr6 stats) (us_lport stats)
       (if is_rx then sk_drops e sk - us_drops stats else 0)])"

lemma run_udp_send:
  "run_state (udp_send_stats_if_nonempty e now sk st rx) s = ((), s\<lparr>events := events s @ udp_send_events e now sk st rx\<rparr>)"
  by (simp add: udp_send_stats_if_nonempty_def udp_send_events_def)

text \<open>
  What a report accounts for in its own direction; bytes are lost only if a whole multiple of
  \<open>2\<^sup>3\<^sup>2\<close> packets carried them.
\<close>

lemma reported_send:
  "reported_packets sk rx (udp_send_events e now sk st rx') = (if rx = rx' then us_packets st else 0)"
  "(us_packets st = 0 \<Longrightarrow> us_bytes st = 0) \<Longrightarrow>
    reported_bytes sk rx (udp_send_events e now sk st rx') = (if rx = rx' then us_bytes st else 0)"
  "reported_drops sk rx (udp_send_events e now sk st rx') = (if rx = rx' \<and> rx then sk_drops e sk - us_drops st else 0)"
  by (cases rx; cases rx'; simp add: udp_send_events_def reported_defs)+

lemma addr_diff_0: "addr_diff a p b q = 0 \<longleftrightarrow> a = b \<and> p = q"
proof -
  have x: "(v XOR w = 0) = (v = w)" for v w :: "'a::len word" by (metis xor_self_eq xor.right_neutral xor.assoc)
  have o: "(v OR w = 0) = (v = 0 \<and> w = 0)" for v w :: u32 by (simp add: or_eq_0_iff)
  have u: "(ucast v = (0 :: u32)) = (v = 0)" for v :: u16 by transfer simp
  show ?thesis by (cases a; cases b; simp add: addr_diff_def o x u)
qed

lemma report_stats_simps [simp]:
  "us_packets (udp_report_stats e sk st la lp ra rp) = us_packets st"
  "us_bytes (udp_report_stats e sk st la lp ra rp) = us_bytes st"
  "us_drops (udp_report_stats e sk st la lp ra rp) = us_drops st"
  by (simp_all add: udp_report_stats_def Let_def)

lemma report_stats_addr [simp]:
  "us_laddr6 (udp_report_stats e sk st la lp ra rp) = la" "us_lport (udp_report_stats e sk st la lp ra rp) = lp"
  "us_raddr6 (udp_report_stats e sk st la lp ra rp) = ra" "us_rport (udp_report_stats e sk st la lp ra rp) = rp"
  by (auto simp: udp_report_stats_def Let_def addr_diff_0)

text \<open>
  Where the account of an entry stands: per direction, what was reported and what is pending make up
  \<open>n\<close> packets and \<open>b\<close> bytes, modulo \<open>2\<^sup>3\<^sup>2\<close>.
\<close>

definition dir_accounted :: "u64 \<Rightarrow> bpf_event list \<Rightarrow> udp_stats_t \<Rightarrow> bool \<Rightarrow> nat \<Rightarrow> u32 \<Rightarrow> bool" where
  "dir_accounted sk evs st rx n b \<longleftrightarrow>
     reported_packets sk rx evs + us_packets st = of_nat n \<and> reported_bytes sk rx evs + us_bytes st = b \<and>
     unat (us_packets st) \<le> n \<and> (us_packets st = 0 \<longrightarrow> us_bytes st = 0) \<and>
     (rx \<longrightarrow> reported_drops sk True evs = us_drops st)"

definition accounted :: "u64 \<Rightarrow> bpf_event list \<Rightarrow> udp_open_socket_t \<Rightarrow> (bool \<Rightarrow> nat) \<Rightarrow> (bool \<Rightarrow> u32) \<Rightarrow> bool" where
  "accounted sk evs i n b \<longleftrightarrow> (\<forall>rx. dir_accounted sk evs (uo_stats i rx) rx (n rx) (b rx))"

lemma dir_accounted_other:
  assumes "dir_accounted sk evs st rx n b" "rx' \<noteq> rx" "us_packets st' = 0 \<Longrightarrow> us_bytes st' = 0"
  shows "dir_accounted sk (evs @ udp_send_events e now sk st' rx') st rx n b"
  using assms by (auto simp: dir_accounted_def reported_send)

lemma u32_Suc_ne0:
  assumes "unat (x :: u32) \<le> n" "Suc n < 2 ^ 32"
  shows "unat (x + 1) \<le> Suc n \<and> x + 1 \<noteq> 0"
proof -
  have "unat (x + 1) = Suc (unat x)" using assms by (simp add: unat_word_ariths)
  then show ?thesis using assms by (auto simp: word_unat_eq_iff)
qed

lemma dir_accounted_report:
  assumes "dir_accounted sk evs st rx n b" "us_packets st1 = us_packets st" "us_bytes st1 = us_bytes st"
    and "us_drops st1 = us_drops st" "us_packets st' = 1" "us_drops st' = (if rx then sk_drops e sk else 0)"
  shows "dir_accounted sk (evs @ udp_send_events e now sk st1 rx) st' rx (Suc n) (b + us_bytes st')"
proof -
  have "reported_bytes sk rx (udp_send_events e now sk st1 rx) = us_bytes st"
    using assms(1-3) reported_send(2) [of st1 sk rx e now rx] by (simp add: dir_accounted_def)
  then show ?thesis using assms by (auto simp: dir_accounted_def reported_send(1,3) algebra_simps)
qed

lemma dir_accounted_count:
  assumes "dir_accounted sk evs st rx n b" "Suc n < 2 ^ 32" "us_packets st' = us_packets st + 1"
    and "us_bytes st' = us_bytes st + len" "us_drops st' = us_drops st"
  shows "dir_accounted sk evs st' rx (Suc n) (b + len)"
  using assms u32_Suc_ne0 [of "us_packets st" n] by (auto simp: dir_accounted_def algebra_simps)

lemma run_udp_update_entry:
  obtains evs st' where "run_state (udp_update_entry e sk len la lp ra rp rx i) s = ((), s\<lparr>
      ktime_reads := ktime_reads s + 1, events := events s @ evs,
      udp_open_sockets := (udp_open_sockets s)(sk \<mapsto> i\<lparr>uo_stats := (uo_stats i)(rx := st')\<rparr>)\<rparr>)"
    and "(\<exists>now. evs = udp_send_events e now sk (udp_report_stats e sk (uo_stats i rx) la lp ra rp) rx \<and>
        us_packets st' = 1 \<and> us_bytes st' = len \<and> us_drops st' = (if rx then sk_drops e sk else 0)) \<or>
      evs = [] \<and> us_packets st' = us_packets (uo_stats i rx) + 1 \<and> us_bytes st' = us_bytes (uo_stats i rx) + len \<and>
        us_drops st' = us_drops (uo_stats i rx)"
proof -
  let ?st = "uo_stats i rx"
  let ?now = "ktime e (ktime_reads s) + boot_time_adjustment e"
  let ?r = "udp_report_stats e sk ?st la lp ra rp"
  let ?due = "(addr_diff (us_laddr6 ?st) (us_lport ?st) la lp \<noteq> 0 \<or> addr_diff (us_raddr6 ?st) (us_rport ?st) ra rp \<noteq> 0 \<or>
    rx \<and> sk_drops e sk \<noteq> us_drops ?st) \<or> filter_ns e \<le> ?now - us_last_output ?st"
  show ?thesis
  proof (cases ?due)
    case True
    show ?thesis
      by (rule that [of "?r\<lparr>us_packets := 1, us_drops := (if rx then sk_drops e sk else 0), us_bytes := len,
          us_last_output := ?now\<rparr>" "udp_send_events e ?now sk ?r rx"])
        (use True in \<open>cases rx; simp add: udp_update_entry_def Let_def run_udp_send\<close>, auto)
  next
    case False
    show ?thesis
      by (rule that [of "?st\<lparr>us_packets := us_packets ?st + 1, us_bytes := us_bytes ?st + len\<rparr>" "[]"])
        (use False in \<open>cases rx; simp add: udp_update_entry_def Let_def\<close>)+
  qed
qed

text \<open>A datagram as \<^verbatim>\<open>udp_update_stats\<close> is given it.\<close>

record datagram =
  dg_env :: env
  dg_skb :: u64
  dg_laddr :: in6_addr
  dg_lport :: u16
  dg_raddr :: in6_addr
  dg_rport :: u16
  dg_rx :: bool

definition dg_len :: "datagram \<Rightarrow> u32" where
  "dg_len d = kget (dg_env d) ''sk_buff.len'' (dg_skb d)"

definition dg_update :: "u64 \<Rightarrow> datagram \<Rightarrow> unit rprog" where
  "dg_update sk d = udp_update_stats (dg_env d) sk (dg_skb d) (dg_laddr d) (dg_lport d) (dg_raddr d) (dg_rport d) (dg_rx d)"

primrec udp_datagrams :: "u64 \<Rightarrow> datagram list \<Rightarrow> unit rprog" where
  "udp_datagrams sk [] = skip"
| "udp_datagrams sk (d # ds) = do { dg_update sk d; udp_datagrams sk ds }"

definition packets_of :: "bool \<Rightarrow> datagram list \<Rightarrow> nat" where
  "packets_of rx ds = length (filter (\<lambda>d. dg_rx d = rx) ds)"

definition bytes_of :: "bool \<Rightarrow> datagram list \<Rightarrow> u32" where
  "bytes_of rx ds = sum_list (map dg_len (filter (\<lambda>d. dg_rx d = rx) ds))"

lemma dg_update_accounted:
  assumes "udp_open_sockets s sk = Some i" "events s = es @ evs" "accounted sk evs i n b" "Suc (n (dg_rx d)) < 2 ^ 32"
  obtains s' i' evs' where "run_state (dg_update sk d) s = ((), s')" "udp_open_sockets s' sk = Some i'"
    "events s' = es @ evs'" "accounted sk evs' i' (n(dg_rx d := Suc (n (dg_rx d)))) (b(dg_rx d := b (dg_rx d) + dg_len d))"
proof -
  let ?rx = "dg_rx d" and ?e = "dg_env d"
  obtain new st' where run: "run_state (udp_update_entry ?e sk (dg_len d) (dg_laddr d) (dg_lport d) (dg_raddr d)
      (dg_rport d) ?rx i) s = ((), s\<lparr>ktime_reads := ktime_reads s + 1, events := events s @ new,
      udp_open_sockets := (udp_open_sockets s)(sk \<mapsto> i\<lparr>uo_stats := (uo_stats i)(?rx := st')\<rparr>)\<rparr>)" (is "_ = ((), ?s')")
    and new: "(\<exists>now. new = udp_send_events ?e now sk (udp_report_stats ?e sk (uo_stats i ?rx) (dg_laddr d) (dg_lport d)
        (dg_raddr d) (dg_rport d)) ?rx \<and>
        us_packets st' = 1 \<and> us_bytes st' = dg_len d \<and> us_drops st' = (if ?rx then sk_drops ?e sk else 0)) \<or>
      new = [] \<and> us_packets st' = us_packets (uo_stats i ?rx) + 1 \<and> us_bytes st' = us_bytes (uo_stats i ?rx) + dg_len d \<and>
        us_drops st' = us_drops (uo_stats i ?rx)"
    by (rule run_udp_update_entry)
  have "run_state (dg_update sk d) s = ((), ?s')"
    using assms(1) run by (simp add: dg_update_def udp_update_stats_def udp_socket_known_def dg_len_def)
  moreover have old: "dir_accounted sk evs (uo_stats i rx) rx (n rx) (b rx)" for rx
    using assms(3) by (simp add: accounted_def)
  have "dir_accounted sk (evs @ new) st' ?rx (Suc (n ?rx)) (b ?rx + dg_len d)"
    using new
  proof (elim disjE exE conjE)
    fix now
    let ?r = "udp_report_stats ?e sk (uo_stats i ?rx) (dg_laddr d) (dg_lport d) (dg_raddr d) (dg_rport d)"
    assume "new = udp_send_events ?e now sk ?r ?rx" "us_packets st' = 1" "us_bytes st' = dg_len d"
      "us_drops st' = (if ?rx then sk_drops ?e sk else 0)"
    then show ?thesis using dir_accounted_report [OF old [of ?rx], of ?r st' ?e now] by simp
  next
    assume "new = []" "us_packets st' = us_packets (uo_stats i ?rx) + 1" "us_bytes st' = us_bytes (uo_stats i ?rx) + dg_len d"
      "us_drops st' = us_drops (uo_stats i ?rx)"
    then show ?thesis using dir_accounted_count [OF old assms(4)] by simp
  qed
  moreover have "dir_accounted sk (evs @ new) (uo_stats i rx) rx (n rx) (b rx)" if "rx \<noteq> ?rx" for rx
    using new
  proof (elim disjE exE conjE)
    fix now
    let ?r = "udp_report_stats ?e sk (uo_stats i ?rx) (dg_laddr d) (dg_lport d) (dg_raddr d) (dg_rport d)"
    assume *: "new = udp_send_events ?e now sk ?r ?rx"
    have "us_packets ?r = 0 \<Longrightarrow> us_bytes ?r = 0" using old [of ?rx] by (simp add: dir_accounted_def)
    then show ?thesis unfolding * using that by (intro dir_accounted_other [OF old]) auto
  next
    assume "new = []"
    then show ?thesis using old by simp
  qed
  ultimately show ?thesis
    by (intro that [of ?s' "i\<lparr>uo_stats := (uo_stats i)(?rx := st')\<rparr>" "evs @ new"])
      (use assms(2) in \<open>simp_all add: accounted_def\<close>)
qed

lemma udp_datagrams_accounted:
  assumes "udp_open_sockets s sk = Some i" "events s = es @ evs" "accounted sk evs i n b"
    and "\<And>rx. n rx + packets_of rx ds < 2 ^ 32"
  shows "\<exists>s' i' evs'. run_state (udp_datagrams sk ds) s = ((), s') \<and> udp_open_sockets s' sk = Some i' \<and>
    events s' = es @ evs' \<and> accounted sk evs' i' (\<lambda>rx. n rx + packets_of rx ds) (\<lambda>rx. b rx + bytes_of rx ds)"
  using assms
proof (induction ds arbitrary: s i evs n b)
  case Nil
  then show ?case by (simp add: packets_of_def bytes_of_def)
next
  case (Cons d ds)
  define n' where "n' = n(dg_rx d := Suc (n (dg_rx d)))"
  define b' where "b' = b(dg_rx d := b (dg_rx d) + dg_len d)"
  have n: "n' rx + packets_of rx ds = n rx + packets_of rx (d # ds)" for rx by (simp add: packets_of_def n'_def)
  have b: "b' rx + bytes_of rx ds = b rx + bytes_of rx (d # ds)" for rx by (simp add: bytes_of_def b'_def)
  have lt: "Suc (n (dg_rx d)) < 2 ^ 32" using Cons.prems(4) [of "dg_rx d"] by (simp add: packets_of_def)
  obtain t j evs1 where t: "run_state (dg_update sk d) s = ((), t)" "udp_open_sockets t sk = Some j"
    "events t = es @ evs1" "accounted sk evs1 j n' b'"
    unfolding n'_def b'_def by (rule dg_update_accounted [OF Cons.prems(1-3) lt])
  from Cons.IH [OF t(2-4)] Cons.prems(4) t(1) show ?case unfolding n b by simp
qed

lemma reported_destroy [simp]:
  "reported_packets sk rx [Ev_udp_destroy_socket now k] = 0" "reported_bytes sk rx [Ev_udp_destroy_socket now k] = 0"
  "reported_drops sk rx [Ev_udp_destroy_socket now k] = 0"
  by (simp_all add: reported_defs)

lemma run_remove_udp:
  assumes "udp_open_sockets s sk = Some i" "delete_rc e (Tbl BPF_TABLE_UDP_OPEN_SOCKETS) sk True = 0"
  obtains now where "events (snd (run_state (remove_udp_open_socket e sk) s)) = events s @
    udp_send_events e now sk (uo_stats i False) False @ udp_send_events e now sk (uo_stats i True) True @
    [Ev_udp_destroy_socket now sk]"
  using assms that [of "ktime e (ktime_reads s) + boot_time_adjustment e"]
  by (simp add: remove_udp_open_socket_def finish_udp_socket_def map_delete_def run_udp_send)

text \<open>
  C27. Nothing a UDP socket sends or receives is lost or counted twice: from its entry in the table,
  through any sequence of datagrams in both directions (whatever their addresses and whatever the clock,
  so whenever reports fall due), to its removal, the reports of each direction add up to exactly the
  datagrams and bytes that passed, modulo \<open>2\<^sup>3\<^sup>2\<close>, and the drops reported for the receiving side add up to
  the socket's drop counter at the end.
\<close>

theorem udp_stats_conserved:
  assumes "udp_open_sockets s sk = Some \<lparr>uo_tgid = tgid, uo_stats = (\<lambda>is_rx. udp_stats0)\<rparr>"
    and "length ds < 2 ^ 32" and "delete_rc e (Tbl BPF_TABLE_UDP_OPEN_SOCKETS) sk True = 0"
  shows "\<exists>evs. events (snd (run_state (do { udp_datagrams sk ds; remove_udp_open_socket e sk }) s)) = events s @ evs \<and>
    (\<forall>rx. reported_packets sk rx evs = of_nat (packets_of rx ds) \<and> reported_bytes sk rx evs = bytes_of rx ds) \<and>
    reported_drops sk True evs = sk_drops e sk"
proof -
  have "accounted sk [] \<lparr>uo_tgid = tgid, uo_stats = (\<lambda>is_rx. udp_stats0)\<rparr> (\<lambda>rx. 0) (\<lambda>rx. 0)"
    by (simp add: accounted_def dir_accounted_def udp_stats0_def)
  moreover have "packets_of rx ds < 2 ^ 32" for rx
    unfolding packets_of_def by (rule le_less_trans [OF length_filter_le assms(2)])
  ultimately obtain s' i evs where s': "run_state (udp_datagrams sk ds) s = ((), s')" "udp_open_sockets s' sk = Some i"
    "events s' = events s @ evs" "accounted sk evs i (\<lambda>rx. packets_of rx ds) (\<lambda>rx. bytes_of rx ds)"
    using udp_datagrams_accounted [OF assms(1), of "events s" "[]" "\<lambda>rx. 0" "\<lambda>rx. 0" ds] by auto
  obtain now where now: "events (snd (run_state (remove_udp_open_socket e sk) s')) = events s' @
      udp_send_events e now sk (uo_stats i False) False @ udp_send_events e now sk (uo_stats i True) True @
      [Ev_udp_destroy_socket now sk]" using run_remove_udp [OF s'(2) assms(3)] .
  have acc: "dir_accounted sk evs (uo_stats i rx) rx (packets_of rx ds) (bytes_of rx ds)" for rx
    using s'(4) by (simp add: accounted_def)
  let ?evs = "evs @ udp_send_events e now sk (uo_stats i False) False @ udp_send_events e now sk (uo_stats i True) True @
      [Ev_udp_destroy_socket now sk]"
  have "reported_packets sk rx ?evs = of_nat (packets_of rx ds) \<and> reported_bytes sk rx ?evs = bytes_of rx ds" for rx
    using acc [of rx] acc [of "\<not> rx"] by (cases rx) (simp_all add: dir_accounted_def reported_send)
  moreover have "reported_drops sk True ?evs = sk_drops e sk"
    using acc [of True] by (simp add: dir_accounted_def reported_send)
  ultimately show ?thesis using s'(1,3) now by (intro exI [of _ ?evs]) simp
qed

text \<open>A socket with two datagrams sent to different addresses and one received.\<close>

definition udp_example :: "datagram list" where
  "udp_example = [
     \<lparr>dg_env = env0, dg_skb = 1, dg_laddr = In6 0 0 0 1, dg_lport = 9, dg_raddr = In6 0 0 0 2, dg_rport = 53, dg_rx = False\<rparr>,
     \<lparr>dg_env = env0, dg_skb = 2, dg_laddr = In6 0 0 0 1, dg_lport = 9, dg_raddr = In6 0 0 0 3, dg_rport = 53, dg_rx = False\<rparr>,
     \<lparr>dg_env = env0, dg_skb = 3, dg_laddr = In6 0 0 0 1, dg_lport = 9, dg_raddr = In6 0 0 0 2, dg_rport = 53, dg_rx = True\<rparr>]"

theorem udp_stats_conserved_witness:
  "let s = render0\<lparr>udp_open_sockets := [5 \<mapsto> \<lparr>uo_tgid = 1, uo_stats = (\<lambda>is_rx. udp_stats0)\<rparr>]\<rparr>
   in \<exists>evs. events (snd (run_state (do { udp_datagrams 5 udp_example; remove_udp_open_socket env0 5 }) s)) = evs \<and>
     reported_packets 5 False evs = 2 \<and> reported_packets 5 True evs = 1"
proof -
  let ?s = "render0\<lparr>udp_open_sockets := [5 \<mapsto> \<lparr>uo_tgid = 1, uo_stats = (\<lambda>is_rx. udp_stats0)\<rparr>]\<rparr>"
  have "packets_of False udp_example = 2" "packets_of True udp_example = 1" by (simp_all add: packets_of_def udp_example_def)
  moreover have "length udp_example < 2 ^ 32" by (simp add: udp_example_def)
  moreover have "delete_rc env0 (Tbl BPF_TABLE_UDP_OPEN_SOCKETS) 5 True = 0" by (simp add: env0_def)
  moreover have "events ?s = []" by (simp add: render0_def)
  ultimately show ?thesis using udp_stats_conserved [of ?s 5 1 udp_example env0] by (simp add: Let_def del: run_state_bind)
qed

text \<open>
  The totals are right, their split by peer is not: when a datagram for a new address arrives, the packets
  still pending for the old address are sent in a message that already carries the new one.
\<close>

lemma udp_pending_sent_under_new_address:
  assumes "udp_open_sockets s sk = Some i" "us_raddr6 (uo_stats i rx) \<noteq> raddr" "us_packets (uo_stats i rx) \<noteq> 0"
  shows "\<exists>now af drops. events (snd (run_state (udp_update_stats e sk skb laddr lport raddr rport rx) s)) = events s @
    [Ev_udp_stats now sk raddr (us_packets (uo_stats i rx)) (us_bytes (uo_stats i rx)) af rport (if rx then 1 else 0)
      laddr lport drops]"
proof -
  let ?st = "uo_stats i rx"
  have "addr_diff (us_raddr6 ?st) (us_rport ?st) raddr rport \<noteq> 0" using assms(2) by (simp add: addr_diff_0)
  then show ?thesis using assms(1,3)
    by (simp add: udp_update_stats_def udp_socket_known_def udp_update_entry_def Let_def run_udp_send udp_send_events_def)
qed

section \<open>Captured DNS messages\<close>

fun dns_capture :: "bpf_event \<Rightarrow> (u64 \<times> u8 list) option" where
  "dns_capture (Ev_dns_packet now sk pkt len is_rx) = Some (sk, pkt)"
| "dns_capture _ = None"

lemma log_no_capture: "list_all is_log evs \<Longrightarrow> List.map_filter dns_capture evs = []"
proof (induction evs)
  case (Cons ev evs)
  then show ?case by (cases ev) (simp_all add: List.map_filter_def)
qed (simp add: List.map_filter_def)

definition captures :: "render \<Rightarrow> (u64 \<times> u8 list) list \<Rightarrow> render \<Rightarrow> bool" where
  "captures s cs s' \<longleftrightarrow> (\<exists>evs. events s' = events s @ evs \<and> List.map_filter dns_capture evs = cs)"

lemma captures_log: "log_frame s s' \<Longrightarrow> captures s [] s'"
  unfolding captures_def using log_no_capture by (auto elim!: log_frameE)

lemma captures_log_run: "captures s [] (snd (run_state (bpf_log e line code a0 a1 a2) s))"
  by (rule captures_log) (rule bpf_log_frame [unfolded state_io_rel_def, rule_format])

lemma captures_refl: "captures s [] s"
  by (rule captures_log [OF log_frame_refl])

text \<open>How much of the linear payload is sent: at most 380 bytes before Linux 4.15 and 512 from then on.\<close>

definition dns_captured :: "env \<Rightarrow> u64 \<Rightarrow> u32 \<Rightarrow> u8 list" where
  "dns_captured e from valid_len =
     (let limit = (if linux_version e < KERNEL_VERSION 4 15 0 then 380 else 512)
      in take (min (unat valid_len) limit) (probe_mem e from limit))"

lemma dns_captured_limit:
  "dns_captured e from valid_len = take (min (unat valid_len) (unat (DNS_MAX_PACKET_LEN e)))
     (probe_mem e from (unat (DNS_MAX_PACKET_LEN e)))"
  by (simp add: dns_captured_def DNS_MAX_PACKET_LEN_def)

lemma submit_dns_captures:
  "captures s (if linux_version e \<ge> KERNEL_VERSION 4 15 0 \<and> \<not> percpu_buffer e then [] else [(sk, dns_captured e from n)])
    (snd (run_state (submit_dns e sk from n len rx) s))"
proof -
  let ?m = "if n > DNS_MAX_PACKET_LEN e
    then bpf_log e 2142 BPF_LOG_DATA_TRUNCATED (ucast n) (ucast (DNS_MAX_PACKET_LEN e)) 0 else skip :: unit rprog"
  have "state_io_rel log_frame ?m" by (intro lf.io_if lf.io_skip bpf_log_frame)
  then have fr: "log_frame s (snd (run_state ?m s))" by (simp only: state_io_rel_def)
  obtain t where t: "run_state ?m s = ((), t)" by (cases "run_state ?m s") simp
  obtain k g evs where evs: "t = s\<lparr>ktime_reads := k, bpf_log_globals := g, events := events s @ evs\<rparr>" "list_all is_log evs"
    using fr unfolding t snd_conv by (rule log_frameE)
  obtain u where u: "run_state (bpf_log e 2159 BPF_LOG_BPF_CALL_FAILED 0 0 0) t = ((), u)" "log_frame t u" by (rule run_bpf_log)
  have su: "log_frame s u" using fr u(2) unfolding t snd_conv by (rule log_frame_trans)
  have len: "unat (if n > DNS_MAX_PACKET_LEN e then DNS_MAX_PACKET_LEN e else n) = min (unat n) (unat (DNS_MAX_PACKET_LEN e))"
    by (simp add: min_def word_less_nat_alt)
  show ?thesis
  proof (cases "linux_version e \<ge> KERNEL_VERSION 4 15 0 \<and> \<not> percpu_buffer e")
    case True
    then have "run_state (submit_dns e sk from n len rx) s = ((), u)" unfolding submit_dns_def Let_def run_state_bind t
      using u(1) by simp
    with True su show ?thesis by (simp add: captures_log)
  next
    case False
    then have "events (snd (run_state (submit_dns e sk from n len rx) s)) = events s @ evs @
        [Ev_dns_packet (ktime e k + boot_time_adjustment e) sk (dns_captured e from n) (ucast len) (if rx then 1 else 0)]"
      unfolding submit_dns_def Let_def run_state_bind t using evs(1) len by (auto simp: dns_captured_limit)
    with False log_no_capture [OF evs(2)] show ?thesis
      unfolding captures_def by (auto simp: map_filter_append map_filter_one intro!: exI)
  qed
qed

text \<open>
  Where the payload is, from where \<^verbatim>\<open>data\<close> points in a well-formed buffer: at the UDP header, at the IP
  header, or past both.
\<close>

lemma dns_payload_start:
  fixes head :: u64 and th nh :: u16
  assumes "data = head + ucast th \<or> data = head + ucast nh \<or> data = head + ucast th + 8" and "nh \<le> th"
  defines "start \<equiv> head + ucast th + 8"
  shows "dns_payload data n head th nh =
    (if n < ucast (start - data) then None else Some (start, n - ucast (start - data)))"
proof -
  have ne: "(ucast th :: u64) + 8 \<noteq> ucast nh"
  proof
    assume "(ucast th :: u64) + 8 = ucast nh"
    then have "unat ((ucast th :: u64) + 8) = unat (ucast nh :: u64)" by simp
    moreover have "unat th < 65536" using unsigned_less [of th] by simp
    ultimately show False using assms(2) by (simp add: word_le_nat_alt unat_word_ariths unat_ucast_16_64)
  qed
  consider (udp) "data = head + ucast th" | (ip) "data \<noteq> head + ucast th" "data = head + ucast nh"
    | (past) "data = head + ucast th + 8" using assms(1) by blast
  then show ?thesis
  proof cases
    case udp
    then show ?thesis by (simp add: dns_payload_def start_def sizeof_udphdr_def)
  next
    case ip
    then show ?thesis by (simp add: dns_payload_def start_def sizeof_udphdr_def Let_def)
  next
    case past
    have "data \<noteq> head + ucast th" using past by simp
    moreover have "data \<noteq> head + ucast nh" using past ne by (simp add: add.assoc)
    ultimately show ?thesis using past by (simp add: dns_payload_def start_def)
  qed
qed

lemma probe_read_ok: "fst (kread e f p) = 0 \<Longrightarrow> probe_read e f p = (0, snd (kread e f p))"
  by (simp add: probe_read_def case_prod_unfold)

text \<open>
  C29. A DNS message is captured exactly from datagrams to or from port 53, and what is captured is its
  payload: wherever \<^verbatim>\<open>data\<close> points in the buffer (at the IP header, at the UDP header, or past it, which
  depends on the kernel version and on the probe), the bytes sent start right after the UDP header, are
  those of the buffer's linear part only, and are cut at 380 bytes before Linux 4.15 and 512 from then on.
\<close>

theorem dns_capture_payload:
  fixes e :: env and skb :: u64
  defines "len \<equiv> kget e ''sk_buff.len'' skb" and "data_len \<equiv> ucast (snd (kread e ''sk_buff.data_len'' skb))"
    and "data \<equiv> snd (kread e ''sk_buff.data'' skb)" and "head \<equiv> snd (kread e ''sk_buff.head'' skb)"
    and "th \<equiv> (ucast (snd (kread e ''sk_buff.transport_header'' skb)) :: u16)"
    and "nh \<equiv> (ucast (snd (kread e ''sk_buff.network_header'' skb)) :: u16)"
  defines "start \<equiv> head + ucast th + 8"
  assumes reads: "\<forall>f \<in> {''sk_buff.data_len'', ''sk_buff.data'', ''sk_buff.head'', ''sk_buff.transport_header'',
      ''sk_buff.network_header''}. fst (kread e f skb) = 0"
    and "data \<noteq> 0" "head \<noteq> 0" "nh \<le> th" "percpu_buffer e"
    and "data = head + ucast th \<or> data = head + ucast nh \<or> data = start"
  shows "captures s
    (if (sport = ntohs 53 \<or> dport = ntohs 53) \<and> 0 < len \<and> ucast (start - data) \<le> len - data_len
     then [(sk, dns_captured e start (len - data_len - ucast (start - data)))] else [])
    (snd (run_state (perf_check_and_submit_dns e sk skb IPPROTO_UDP sport dport is_rx) s))"
proof -
  note pay = dns_payload_start [of data head th nh "len - data_len", folded start_def, OF assms(13) assms(11)]
  have pr: "probe_read e ''sk_buff.data_len'' skb = (0, snd (kread e ''sk_buff.data_len'' skb))"
    "probe_read e ''sk_buff.data'' skb = (0, data)" "probe_read e ''sk_buff.head'' skb = (0, head)"
    "probe_read e ''sk_buff.transport_header'' skb = (0, snd (kread e ''sk_buff.transport_header'' skb))"
    "probe_read e ''sk_buff.network_header'' skb = (0, snd (kread e ''sk_buff.network_header'' skb))"
    unfolding data_def head_def by (rule probe_read_ok, simp add: reads)+
  have swap: "(if \<not> P then x else y) = (if P then y else x)" for P and x y :: "unit rprog" by simp
  have run: "perf_check_and_submit_dns e sk skb IPPROTO_UDP sport dport is_rx = (
    if (sport = ntohs 53 \<or> dport = ntohs 53) \<and> 0 < len then
      (case dns_payload data (len - data_len) head th nh of None \<Rightarrow> skip
       | Some (payload, valid_len) \<Rightarrow> submit_dns e sk payload valid_len len is_rx)
    else skip)"
    unfolding perf_check_and_submit_dns_def checked_read_def checked_pointer_def pr Let_def prod.case
      len_def [symmetric] data_len_def [symmetric] th_def [symmetric] nh_def [symmetric]
    using assms(9,10) by (simp only: simp_thms if_False swap)
  show ?thesis
    using submit_dns_captures [of s e sk start "len - data_len - ucast (start - data)" len is_rx] assms(12)
    unfolding run pay by (auto simp: captures_refl not_less)
qed

text \<open>A DNS query of 32 bytes behind a 20-byte IP header and a UDP header, seen with \<^verbatim>\<open>data\<close> at the IP header.\<close>

definition dns_env :: env where
  "dns_env = env0\<lparr>kread := (\<lambda>f p. (0, if f = ''sk_buff.len'' then 60 else if f = ''sk_buff.head'' then 0x1000
      else if f = ''sk_buff.data'' then 0x1000 else if f = ''sk_buff.transport_header'' then 20 else 0)),
    kmem := (\<lambda>p n. (0, replicate n (if p = 0x101c then 42 else 0)))\<rparr>"

theorem dns_capture_payload_witness:
  "captures render0 [(9, replicate 32 42)]
    (snd (run_state (perf_check_and_submit_dns dns_env 9 1 IPPROTO_UDP 1024 (ntohs 53) False) render0))"
proof -
  have "dns_captured dns_env 0x101c 32 = replicate 32 42"
    by (simp add: dns_captured_def DNS_MAX_PACKET_LEN_def dns_env_def env0_def KERNEL_VERSION_def probe_mem_def)
  then show ?thesis
    using dns_capture_payload [of dns_env 1 render0 1024 "ntohs 53" 9 False]
    by (simp add: dns_env_def env0_def kget_def probe_read_def)
qed

section \<open>The rate of TCP reports\<close>

fun report_time :: "u64 \<Rightarrow> bpf_event \<Rightarrow> u64 option" where
  "report_time sk (Ev_rtt_estimator now srtt cwnd acked ca sk' pif delivered retrans holes received rdel rrtt) =
     (if sk = sk' then Some now else None)"
| "report_time sk _ = None"

text \<open>Any two reports are at least \<open>d\<close> nanoseconds apart, without wrap-around.\<close>

definition apart :: "u64 \<Rightarrow> u64 list \<Rightarrow> bool" where
  "apart d = sorted_wrt (\<lambda>x y. unat x + unat d \<le> unat y)"

lemma apart_Cons: "apart d (x # xs) \<longleftrightarrow> (\<forall>y \<in> set xs. unat x + unat d \<le> unat y) \<and> apart d xs"
  by (simp add: apart_def)

lemma apart_earlier: "apart d (y # xs) \<Longrightarrow> x \<le> y \<Longrightarrow> apart d (x # xs)"
  by (auto simp: apart_Cons word_le_nat_alt)

abbreviation reports :: "u64 \<Rightarrow> bpf_event list \<Rightarrow> u64 list" where
  "reports sk \<equiv> List.map_filter (report_time sk)"

lemma reports_simps [simp]:
  "reports sk [] = []" "reports sk (xs @ ys) = reports sk xs @ reports sk ys"
  "reports sk (x # xs) = (case report_time sk x of None \<Rightarrow> reports sk xs | Some t \<Rightarrow> t # reports sk xs)"
  by (simp_all add: List.map_filter_def split: option.split)

lemma reports_logs: "list_all is_log evs \<Longrightarrow> reports sk evs = []"
proof (induction evs)
  case (Cons ev evs)
  then show ?case by (cases ev) simp_all
qed simp

text \<open>Time only advances: every program reads the clock at a later reading than the one before.\<close>

definition later :: "'s bpf_scheme \<Rightarrow> 's bpf_scheme \<Rightarrow> bool" where
  "later s s' \<longleftrightarrow> ktime_reads s \<le> ktime_reads s'"

interpretation tk: frame_rel later
  by unfold_locales (simp_all add: later_def)

lemma later_bpf_log: "state_io_rel later (bpf_log e line code a0 a1 a2)"
proof -
  have "state_io_rel later (get_timestamp e)" "state_io_rel later (perf_submit ev)"
    "state_io_rel later (modify (\<lambda>s. s\<lparr>bpf_log_globals := f s\<rparr>))" for ev f
    by (simp_all add: state_io_rel_def later_def)
  then show ?thesis unfolding bpf_log_def by (intro tk.io_rules)
qed

text \<open>
  What reporting leaves behind, whether or not the socket's fields can be read: the entry with its new
  time of output and either one report of that time or only log messages.
\<close>

definition reporting :: "u64 \<Rightarrow> u64 \<Rightarrow> 'a \<Rightarrow> 'a rprog \<Rightarrow> bool" where
  "reporting sk now r m \<longleftrightarrow> (\<forall>s. \<exists>s'. run_state m s = (r, s') \<and> later s s' \<and>
     (log_frame s s' \<or> (\<exists>ev. s' = s\<lparr>events := events s @ [ev]\<rparr> \<and> report_time sk ev = Some now)))"

lemma reporting_log:
  "reporting sk now r (do { bpf_log e line code a 0 0; State_Monad.return r })"
  unfolding reporting_def
proof
  fix s :: render
  obtain s' where s': "run_state (bpf_log e line code a 0 0) s = ((), s')" "log_frame s s'" by (rule run_bpf_log)
  then have "later s s'" using later_bpf_log [of e line code a 0 0] by (auto simp: state_io_rel_def dest: spec [of _ s])
  with s' show "\<exists>s'. run_state (do { bpf_log e line code a 0 0; State_Monad.return r }) s = (r, s') \<and> later s s' \<and>
      (log_frame s s' \<or> (\<exists>ev. s' = s\<lparr>events := events s @ [ev]\<rparr> \<and> report_time sk ev = Some now))" by simp
qed

lemma reporting_read: "(\<And>v. reporting sk now r (k v)) \<Longrightarrow> reporting sk now r (checked_read e line f p r k)"
  by (simp add: checked_read_def Let_def case_prod_unfold reporting_log)

lemma reporting_submit:
  assumes "report_time sk ev = Some now"
  shows "reporting sk now r (do { perf_submit ev; State_Monad.return r })"
  using assms by (auto simp: reporting_def later_def)

lemma reporting_rtt: "reporting sk now (i\<lparr>os_last_output := now\<rparr>) (report_rtt_estimator e sk i now adjust)"
  unfolding report_rtt_estimator_def Let_def by (intro reporting_read reporting_submit) simp

text \<open>The three probes on live TCP traffic.\<close>

datatype live_probe = Rtt_estimator | Rcv_established | Event_data_recv

fun run_live :: "u64 \<Rightarrow> env \<times> live_probe \<Rightarrow> unit rprog" where
  "run_live sk (e, Rtt_estimator) = on_tcp_rtt_estimator e sk"
| "run_live sk (e, Rcv_established) = on_tcp_rcv_established e sk"
| "run_live sk (e, Event_data_recv) = on_tcp_event_data_recv e sk"

primrec run_lives :: "u64 \<Rightarrow> (env \<times> live_probe) list \<Rightarrow> unit rprog" where
  "run_lives sk [] = skip"
| "run_lives sk (p # ps) = do { run_live sk p; run_lives sk ps }"

text \<open>The clock of the host: the readings of every program are those of one clock, which does not go back.\<close>

definition clocked :: "(nat \<Rightarrow> u64) \<Rightarrow> u64 \<Rightarrow> env \<Rightarrow> bool" where
  "clocked clock d e \<longleftrightarrow> mono clock \<and> log_time e = clock \<and> filter_ns e = d"

text \<open>
  What one probe leaves behind of an entry last reported at \<open>prev\<close>: an entry last reported then or at a
  later reading of the clock, and at most one report, of that time and if it was due.
\<close>

definition live_outcome :: "(nat \<Rightarrow> u64) \<Rightarrow> u64 \<Rightarrow> u64 \<Rightarrow> u64 \<Rightarrow> render \<Rightarrow> render \<Rightarrow> bool" where
  "live_outcome clock d sk prev s s' \<longleftrightarrow> (\<exists>j evs. tcp_open_sockets s' sk = Some j \<and> events s' = events s @ evs \<and>
     prev \<le> os_last_output j \<and> os_last_output j \<le> clock (ktime_reads s') \<and>
     (reports sk evs = [] \<or> reports sk evs = [os_last_output j] \<and> unat prev + unat d \<le> unat (os_last_output j)))"

lemma live_outcome_logs:
  assumes "mono clock" "log_frame s s'" "later s s'" "tcp_open_sockets s sk = Some i" "os_last_output i \<le> clock (ktime_reads s)"
  shows "live_outcome clock d sk (os_last_output i) s s'"
proof -
  obtain n g evs where s': "s' = s\<lparr>ktime_reads := n, bpf_log_globals := g, events := events s @ evs\<rparr>" "list_all is_log evs"
    using assms(2) by (rule log_frameE)
  have "os_last_output i \<le> clock n" using assms(3,5) monoD [OF assms(1), of "ktime_reads s" n] by (auto simp: s'(1) later_def)
  then show ?thesis using assms(4) reports_logs [OF s'(2)] by (simp add: live_outcome_def s'(1))
qed

lemma live_store_outcome:
  assumes e: "clocked clock d e" and i: "os_last_output i = prev" "prev \<le> clock (ktime_reads s)"
  shows "live_outcome clock d sk prev s (snd (run_state (do {
    sk_info \<leftarrow> report_rtt_estimator_if_time e sk i;
    modify (\<lambda>s. s\<lparr>tcp_open_sockets := (tcp_open_sockets s)(sk \<mapsto> sk_info)\<rparr>) }) s))"
proof -
  let ?now = "clock (ktime_reads s)" and ?s = "s\<lparr>ktime_reads := ktime_reads s + 1\<rparr>"
  have now: "ktime e (ktime_reads s) + boot_time_adjustment e = ?now" "filter_ns e = d" "mono clock"
    using e by (auto simp: clocked_def log_time_def fun_eq_iff)
  have up: "?now \<le> clock n" if "ktime_reads s \<le> n" for n using monoD [OF now(3) that] .
  show ?thesis
  proof (cases "?now - prev < d")
    case True
    then show ?thesis using i up [of "Suc (ktime_reads s)"]
      by (auto simp: live_outcome_def report_rtt_estimator_if_time_def now(1,2))
  next
    case False
    then have due: "unat prev + unat d \<le> unat ?now" using i(2) by (simp add: not_less word_le_nat_alt unat_sub)
    obtain s' where s': "run_state (report_rtt_estimator e sk i ?now False) ?s = (i\<lparr>os_last_output := ?now\<rparr>, s')" "later ?s s'"
      "log_frame ?s s' \<or> (\<exists>ev. s' = ?s\<lparr>events := events ?s @ [ev]\<rparr> \<and> report_time sk ev = Some ?now)"
      using reporting_rtt [of sk ?now i e False] unfolding reporting_def by blast
    obtain evs where "events s' = events s @ evs" "reports sk evs = [] \<or> reports sk evs = [?now]"
      using s'(3) by (auto elim!: log_frameE simp: reports_logs)
    then show ?thesis using False s'(1,2) i due up [of "ktime_reads s'"]
      by (auto simp: live_outcome_def report_rtt_estimator_if_time_def now(1,2) later_def)
  qed
qed

lemma live_read_outcome:
  assumes e: "clocked clock d e" and i: "tcp_open_sockets s sk = Some i" "os_last_output i \<le> clock (ktime_reads s)"
    and k: "\<And>v. live_outcome clock d sk (os_last_output i) s (snd (run_state (k v) s))"
  shows "live_outcome clock d sk (os_last_output i) s (snd (run_state (checked_read e line f p () k) s))"
proof -
  have "live_outcome clock d sk (os_last_output i) s (snd (run_state (bpf_log e line BPF_LOG_BPF_CALL_FAILED a 0 0) s))" for a
  proof (rule live_outcome_logs [where clock = clock, OF _ _ _ i])
    show "mono clock" using e by (simp add: clocked_def)
    show "log_frame s (snd (run_state (bpf_log e line BPF_LOG_BPF_CALL_FAILED a 0 0) s))"
      by (rule bpf_log_frame [unfolded state_io_rel_def, rule_format])
    show "later s (snd (run_state (bpf_log e line BPF_LOG_BPF_CALL_FAILED a 0 0) s))"
      by (rule later_bpf_log [unfolded state_io_rel_def, rule_format])
  qed
  then show ?thesis using k by (simp add: checked_read_def Let_def case_prod_unfold)
qed

lemma run_live_outcome:
  assumes i: "tcp_open_sockets s sk = Some i" "os_last_output i \<le> clock (ktime_reads s)" and e: "clocked clock d (fst p)"
  shows "live_outcome clock d sk (os_last_output i) s (snd (run_state (run_live sk p) s))"
proof -
  obtain e l where p: "p = (e, l)" by (rule prod.exhaust)
  have e': "clocked clock d e" using e by (simp add: p)
  have stay: "live_outcome clock d sk (os_last_output i) s s" using i by (simp add: live_outcome_def)
  note st = live_store_outcome [OF e', where s = s and prev = "os_last_output i", OF _ i(2)]
  show ?thesis
  proof (cases l)
    case Rtt_estimator
    then show ?thesis using i(1) stay st [of i] by (simp add: p on_tcp_rtt_estimator_def)
  next
    case Rcv_established
    then show ?thesis using i(1)
      by (simp add: p on_tcp_rcv_established_def) (intro live_read_outcome [OF e' i], use stay st in simp)
  next
    case Event_data_recv
    then show ?thesis using i(1)
      by (simp add: p on_tcp_event_data_recv_def) (intro live_read_outcome [OF e' i], use st in simp)
  qed
qed

lemma run_lives_outcome:
  assumes "tcp_open_sockets s sk = Some i" "os_last_output i \<le> clock (ktime_reads s)" "\<forall>p \<in> set ps. clocked clock d (fst p)"
  shows "\<exists>j evs. tcp_open_sockets (snd (run_state (run_lives sk ps) s)) sk = Some j \<and>
    events (snd (run_state (run_lives sk ps) s)) = events s @ evs \<and> apart d (os_last_output i # reports sk evs)"
  using assms
proof (induction ps arbitrary: s i)
  case Nil
  then show ?case by (simp add: apart_def)
next
  case (Cons p ps)
  obtain t where t: "run_state (run_live sk p) s = ((), t)" by (cases "run_state (run_live sk p) s") simp
  have "live_outcome clock d sk (os_last_output i) s t"
    using run_live_outcome [where clock = clock and d = d and p = p, OF Cons.prems(1,2)] Cons.prems(3) t by simp
  then obtain j evs where j: "tcp_open_sockets t sk = Some j" "events t = events s @ evs" "os_last_output i \<le> os_last_output j"
    "os_last_output j \<le> clock (ktime_reads t)"
    "reports sk evs = [] \<or> reports sk evs = [os_last_output j] \<and> unat (os_last_output i) + unat d \<le> unat (os_last_output j)"
    unfolding live_outcome_def by blast
  obtain k evs' where "tcp_open_sockets (snd (run_state (run_lives sk ps) t)) sk = Some k"
    "events (snd (run_state (run_lives sk ps) t)) = events t @ evs'" "apart d (os_last_output j # reports sk evs')"
    using Cons.IH [OF j(1) j(4)] Cons.prems(3) by auto
  then show ?case using t j(2,3,5) apart_earlier [of d "os_last_output j" "reports sk evs'" "os_last_output i"]
    by (intro exI [of _ k] exI [of _ "evs @ evs'"]) (auto simp: apart_Cons)
qed

text \<open>When all fields can be read, the report is sent.\<close>

definition rtt_reads_ok :: "env \<Rightarrow> u64 \<Rightarrow> bool" where
  "rtt_reads_ok e sk \<longleftrightarrow> (\<forall>f. fst (kread e f sk) = 0)"

lemma run_report_rtt:
  assumes "rtt_reads_ok e sk"
  obtains ev where "run_state (report_rtt_estimator e sk i now adjust) s =
      (i\<lparr>os_last_output := now\<rparr>, s\<lparr>events := events s @ [ev]\<rparr>)" "report_time sk ev = Some now"
proof -
  have "probe_read e f sk = (0, snd (kread e f sk))" for f
    using assms by (intro probe_read_ok) (simp add: rtt_reads_ok_def)
  then show ?thesis using that by (simp add: report_rtt_estimator_def checked_read_def Let_def)
qed

lemma removal_reports:
  assumes "tcp_open_sockets s sk = Some i" "delete_ok e"
  defines "s' \<equiv> snd (run_state (remove_tcp_open_socket e sk) s)"
  shows "\<exists>evs t. events s' = events s @ evs @ [Ev_close_sock_info t sk] \<and> reports sk evs \<in> {[], [t]} \<and>
    (rtt_reads_ok e sk \<longrightarrow> reports sk evs = [t]) \<and> tcp_open_sockets s' sk = None"
proof -
  let ?s = "s\<lparr>tcp_open_sockets := (tcp_open_sockets s)(sk := None), ktime_reads := ktime_reads s + 1\<rparr>"
  let ?now = "ktime e (ktime_reads s) + boot_time_adjustment e"
  let ?sent = "\<lambda>t. \<exists>ev. t = ?s\<lparr>events := events ?s @ [ev]\<rparr> \<and> report_time sk ev = Some ?now"
  obtain r t where t: "run_state (report_rtt_estimator e sk i ?now True) ?s = (r, t)" "log_frame ?s t \<or> ?sent t"
    using reporting_rtt [of sk ?now i e True] unfolding reporting_def by blast
  have ok: "?sent t" if "rtt_reads_ok e sk" using run_report_rtt [OF that, of i ?now True ?s] t(1) by auto
  obtain evs where "events t = events s @ evs" "reports sk evs \<in> {[], [?now]}" "rtt_reads_ok e sk \<longrightarrow> reports sk evs = [?now]"
    "tcp_open_sockets t sk = None"
  proof (cases "?sent t")
    case True
    then show ?thesis using that by auto
  next
    case False
    then have "\<not> rtt_reads_ok e sk" "log_frame ?s t" using t(2) ok by blast+
    then show ?thesis using that by (auto elim!: log_frameE simp: reports_logs)
  qed
  moreover have "delete_rc e (Tbl BPF_TABLE_TCP_OPEN_SOCKETS) sk True = 0" using assms(2) by (simp add: delete_ok_def)
  ultimately show ?thesis unfolding s'_def using assms(1) t(1)
    by (intro exI [of _ evs] exI [of _ ?now])
      (auto simp: remove_tcp_open_socket_def finish_tcp_socket_def map_delete_def)
qed

text \<open>
  C31. The rate of the statistics reports of a TCP socket. However often the kernel calls the three probes
  on its traffic, and whether or not they can read its fields, any two of the reports they send, and the
  first of them and the entry's time of last output, are at least \<^verbatim>\<open>FILTER_NS\<close> apart, given that the clock
  does not go back. The removal of the socket is exempt: whatever the time, it sends at most one more
  report before the closing message, with the same time stamp, and it does send it when the fields can be
  read; then the entry is gone.
\<close>

theorem tcp_reports_spaced:
  assumes "tcp_open_sockets s sk = Some i" "os_last_output i \<le> clock (ktime_reads s)"
    and "\<forall>p \<in> set ps. clocked clock d (fst p)" and "delete_ok e"
  defines "s1 \<equiv> snd (run_state (run_lives sk ps) s)"
    and "s2 \<equiv> snd (run_state (do { run_lives sk ps; remove_tcp_open_socket e sk }) s)"
  shows "\<exists>evs fin t. events s1 = events s @ evs \<and> apart d (os_last_output i # reports sk evs) \<and>
    events s2 = events s1 @ fin @ [Ev_close_sock_info t sk] \<and> reports sk fin \<in> {[], [t]} \<and>
    (rtt_reads_ok e sk \<longrightarrow> reports sk fin = [t]) \<and> tcp_open_sockets s2 sk = None"
proof -
  obtain j evs where "tcp_open_sockets s1 sk = Some j" "events s1 = events s @ evs" "apart d (os_last_output i # reports sk evs)"
    using run_lives_outcome [OF assms(1-3)] unfolding s1_def by blast
  moreover have "s2 = snd (run_state (remove_tcp_open_socket e sk) s1)"
    by (simp add: s1_def s2_def case_prod_unfold)
  ultimately show ?thesis using removal_reports [OF _ assms(4), of s1 sk j] by blast
qed

text \<open>Three calls in a burst and one later: the first and the last report.\<close>

definition tick_env :: env where
  "tick_env = env0\<lparr>ktime := (\<lambda>n. if n < 3 then 5000000000 + of_nat n else 6000000000),
     kread := (\<lambda>f p. (0, if f = ''sock.sk_state'' then 1 else 0))\<rparr>"

definition burst :: "(env \<times> live_probe) list" where
  "burst = [(tick_env, Rtt_estimator), (tick_env, Rtt_estimator), (tick_env, Rtt_estimator), (tick_env, Rtt_estimator)]"

definition tick_start :: render where
  "tick_start = render0\<lparr>tcp_open_sockets := [7 \<mapsto> \<lparr>os_tgid = 1, os_rcv_holes = 0, os_last_output = 0,
     os_bytes_received = 0, os_rcv_delivered = 0, os_parent = 0\<rparr>]\<rparr>"

theorem tcp_reports_spaced_witness:
  "let s1 = snd (run_state (run_lives 7 burst) tick_start);
       s2 = snd (run_state (do { run_lives 7 burst; remove_tcp_open_socket tick_env 7 }) tick_start)
   in \<exists>evs fin t. events s1 = evs \<and> apart 10000000 (0 # reports 7 evs) \<and>
     events s2 = events s1 @ fin @ [Ev_close_sock_info t 7] \<and> reports 7 fin = [t] \<and> tcp_open_sockets s2 7 = None"
proof -
  let ?i = "\<lparr>os_tgid = 1, os_rcv_holes = 0, os_last_output = 0, os_bytes_received = 0, os_rcv_delivered = 0, os_parent = 0\<rparr>"
  have "ktime tick_env n = (if n = 0 then 5000000000 else if n = 1 then 5000000001 else if n = 2 then 5000000002 else 6000000000)" for n
    by (auto simp: tick_env_def less_Suc_eq numeral_3_eq_3 numeral_2_eq_2)
  then have "mono (ktime tick_env)" by (intro monoI) auto
  then have e: "clocked (ktime tick_env) 10000000 tick_env" "delete_ok tick_env" "rtt_reads_ok tick_env 7"
    by (simp_all add: clocked_def log_time_def fun_eq_iff delete_ok_def rtt_reads_ok_def) (simp_all add: tick_env_def env0_def)
  have s: "tcp_open_sockets tick_start 7 = Some ?i" "os_last_output ?i \<le> ktime tick_env (ktime_reads tick_start)"
    "events tick_start = []" "os_last_output ?i = 0" by (simp_all add: tick_start_def render0_def)
  have "\<forall>p \<in> set burst. clocked (ktime tick_env) 10000000 (fst p)" using e(1) by (simp add: burst_def)
  from tcp_reports_spaced [OF s(1,2) this e(2)] e(3) show ?thesis unfolding Let_def s(3,4) append_Nil by blast
qed

lemma tick_reports:
  "reports 7 (events (snd (run_state (run_lives 7 burst) tick_start))) = [5000000000, 6000000000]"
  by (simp add: tick_start_def tick_env_def env0_def render0_def burst_def on_tcp_rtt_estimator_def
    report_rtt_estimator_if_time_def report_rtt_estimator_def checked_read_def probe_read_def kget_def
    TCP_ESTABLISHED_def)

end
