(* ===== verification/Dns_Name.thy ===== *)
theory Dns_Name
  imports Prelude
begin

unbundle bit_operations_syntax

text \<open>
  The expansion of encoded domain names, \<^verbatim>\<open>src/collector/kernel/dns/ares_expand_name.c\<close>.

  A message is the list of its bytes: \<open>abuf\<close> is the list, \<open>alen\<close> its length, and the
  pointers \<open>encoded\<close>, \<open>p\<close> into it are offsets. Reading a byte past the end of the message
  and storing one past the end of the output buffer are the value \<^const>\<open>None\<close>, and so is a
  loop that does not end: a function that returns \<^const>\<open>Some\<close> has stayed within its buffers
  and has returned. \<open>dns_name_length\<close> checks what it reads and is total; \<open>dns_expand_name\<close>
  checks nothing and is a partial function.

  The specification is the relation \<open>name_at\<close>, the encoding of RFC 1035 (labels,
  compression pointers and the root): the check accepts exactly the names that the relation
  gives with at most 50 pointers, the expansion then stays within both buffers, ends, and
  leaves the labels printed with their escapes.
\<close>

subsection \<open>Buffers\<close>

definition rd :: "u8 list \<Rightarrow> nat \<Rightarrow> u8 option" where
  "rd buf p = (if p < length buf then Some (buf ! p) else None)"

definition wr :: "u8 list \<Rightarrow> nat \<Rightarrow> u8 \<Rightarrow> u8 list option" where
  "wr buf q b = (if q < length buf then Some (buf[q := b]) else None)"

subsection \<open>Constants\<close>

definition INDIR_MASK :: u8 where "INDIR_MASK = 0xc0"
definition MAX_INDIRS :: nat where "MAX_INDIRS = 50"
definition DNS_NAME_MAX_LENGTH :: nat where "DNS_NAME_MAX_LENGTH = 256"
definition ARES_SUCCESS :: cint where "ARES_SUCCESS = 0"
definition ARES_EBADNAME :: cint where "ARES_EBADNAME = 8"
definition ARES_ENOMEM :: cint where "ARES_ENOMEM = 15"

definition aresx_uztosl :: "nat \<Rightarrow> int" where
  "aresx_uztosl uznum = int (uznum AND 0x7FFFFFFF)"

text \<open>\<open>needs_escape\<close> is the test \<open>*p == '.' || *p == '\\'\<close>; \<open>pointer_offset\<close> is the offset that a
  compression pointer of the two given bytes selects.\<close>

definition needs_escape :: "u8 \<Rightarrow> bool" where
  "needs_escape c \<longleftrightarrow> c = 0x2e \<or> c = 0x5c"

definition pointer_offset :: "u8 \<Rightarrow> u8 \<Rightarrow> nat" where
  "pointer_offset b0 b1 = (push_bit 8 (unat (b0 AND NOT INDIR_MASK))) OR unat b1"

subsection \<open>dns_name_length\<close>

fun label_length :: "u8 list \<Rightarrow> nat \<Rightarrow> nat \<Rightarrow> int \<Rightarrow> int option" where
  "label_length abuf encoded 0 n = Some n"
| "label_length abuf encoded (Suc offset) n =
     (case rd abuf encoded of
        None \<Rightarrow> None
      | Some c \<Rightarrow> label_length abuf (encoded + 1) offset (n + (if needs_escape c then 2 else 1)))"

text \<open>
  The length \<open>n\<close> is an \<^verbatim>\<open>int\<close> in the source. Each of the at most 51 passes over the message adds no more
  than twice its bytes, so that it stays below \<open>2 ^ 31\<close> for messages of up to 20 million bytes; the packets
  handed to the parser have at most 65535 bytes.
\<close>

function dns_name_length_loop :: "u8 list \<Rightarrow> nat \<Rightarrow> int \<Rightarrow> nat \<Rightarrow> int option" where
  "dns_name_length_loop abuf encoded n indir =
     (case rd abuf encoded of
        None \<Rightarrow> None
      | Some b \<Rightarrow>
          if b = 0 then Some (if n \<noteq> 0 then n - 1 else n)
          else if b AND INDIR_MASK = INDIR_MASK then
            (if encoded + 1 \<ge> length abuf then Some (- 1)
             else
               (case rd abuf (encoded + 1) of
                  None \<Rightarrow> None
                | Some b' \<Rightarrow>
                    if pointer_offset b b' \<ge> length abuf then Some (- 1)
                    else if indir + 1 > length abuf \<or> indir + 1 > MAX_INDIRS then Some (- 1)
                    else dns_name_length_loop abuf (pointer_offset b b') n (indir + 1)))
          else if b AND INDIR_MASK = 0 then
            (if encoded + unat b + 1 \<ge> length abuf then Some (- 1)
             else
               (case label_length abuf (encoded + 1) (unat b) n of
                  None \<Rightarrow> None
                | Some n' \<Rightarrow> dns_name_length_loop abuf (encoded + 1 + unat b) (n' + 1) indir))
          else Some (- 1))"
  by pat_completeness auto
termination
  by (relation "measures [\<lambda>(abuf, encoded, n, indir). MAX_INDIRS - indir,
                          \<lambda>(abuf, encoded, n, indir). length abuf - encoded]")
     (auto simp: rd_def split: if_splits)

declare dns_name_length_loop.simps [simp del]

definition dns_name_length :: "u8 list \<Rightarrow> nat \<Rightarrow> int option" where
  "dns_name_length abuf encoded =
     (if encoded \<ge> length abuf then Some (- 1) else dns_name_length_loop abuf encoded 0 0)"

subsection \<open>dns_expand_name\<close>

text \<open>The inner loop that copies a label; \<open>s\<close> is the output buffer and \<open>q\<close> the offset of the
  next byte to store.\<close>

fun copy_label :: "u8 list \<Rightarrow> nat \<Rightarrow> nat \<Rightarrow> u8 list \<Rightarrow> nat \<Rightarrow> (u8 list \<times> nat) option" where
  "copy_label abuf p 0 s q = Some (s, q)"
| "copy_label abuf p (Suc len) s q =
     (case rd abuf p of
        None \<Rightarrow> None
      | Some c \<Rightarrow>
          (case (if needs_escape c then wr s q 0x5c else Some s) of
             None \<Rightarrow> None
           | Some s1 \<Rightarrow>
               (let q1 = (if needs_escape c then q + 1 else q)
                in case wr s1 q1 c of
                     None \<Rightarrow> None
                   | Some s2 \<Rightarrow> copy_label abuf (p + 1) len s2 (q1 + 1))))"

partial_function (option) dns_expand_loop ::
  "u8 list \<Rightarrow> nat \<Rightarrow> nat \<Rightarrow> u8 list \<Rightarrow> nat \<Rightarrow> bool \<Rightarrow> int
    \<Rightarrow> (nat \<times> u8 list \<times> nat \<times> bool \<times> int) option" where
  "dns_expand_loop abuf encoded p s q indir enclen =
     (case rd abuf p of
        None \<Rightarrow> None
      | Some b \<Rightarrow>
          if b = 0 then Some (p, s, q, indir, enclen)
          else if b AND INDIR_MASK = INDIR_MASK then
            (case rd abuf (p + 1) of
               None \<Rightarrow> None
             | Some b' \<Rightarrow>
                 dns_expand_loop abuf encoded (pointer_offset b b') s q True
                   (if indir then enclen else aresx_uztosl (p + 2 - encoded)))
          else
            (case copy_label abuf (p + 1) (unat b) s q of
               None \<Rightarrow> None
             | Some (s', q') \<Rightarrow>
                 (case wr s' q' 0x2e of
                    None \<Rightarrow> None
                  | Some s'' \<Rightarrow>
                      dns_expand_loop abuf encoded (p + 1 + unat b) s'' (q' + 1) indir enclen)))"

definition dns_expand_name :: "u8 list \<Rightarrow> nat \<Rightarrow> u8 list \<Rightarrow> int \<Rightarrow> (u8 list \<times> int) option" where
  "dns_expand_name abuf encoded expanded_name enclen =
     (case dns_expand_loop abuf encoded encoded expanded_name 0 False enclen of
        None \<Rightarrow> None
      | Some (p, s, q, indir, enclen') \<Rightarrow>
          (case wr s (if q > 0 then q - 1 else q) 0 of
             None \<Rightarrow> None
           | Some s' \<Rightarrow> Some (s', if indir then enclen' else aresx_uztosl (p + 1 - encoded))))"

subsection \<open>dns_expand_name_maxlen\<close>

text \<open>The result is the status, the output buffer, \<open>*enclen\<close> and \<open>*expanded_len\<close>
  (\<^const>\<open>None\<close> for a NULL pointer).\<close>

definition dns_expand_name_maxlen ::
  "u8 list \<Rightarrow> nat \<Rightarrow> u8 list \<Rightarrow> int \<Rightarrow> int option \<Rightarrow> (cint \<times> u8 list \<times> int \<times> int option) option" where
  "dns_expand_name_maxlen abuf encoded expanded_name enclen expanded_len =
     (case dns_name_length abuf encoded of
        None \<Rightarrow> None
      | Some len \<Rightarrow>
          if len < 0 then Some (ARES_EBADNAME, expanded_name, enclen, expanded_len)
          else if len + 1 > int DNS_NAME_MAX_LENGTH
          then Some (ARES_ENOMEM, expanded_name, enclen, expanded_len)
          else
            (case dns_expand_name abuf encoded expanded_name enclen of
               None \<Rightarrow> None
             | Some (s, enclen') \<Rightarrow>
                 Some (ARES_SUCCESS, s, enclen', map_option (\<lambda>_. len) expanded_len)))"

subsection \<open>The encoding of names\<close>

text \<open>\<open>name_at abuf p ls k e\<close>: at offset \<open>p\<close> the message holds the name with the labels \<open>ls\<close>,
  reached through \<open>k\<close> compression pointers, whose encoding takes \<open>e\<close> bytes at \<open>p\<close>.\<close>

inductive name_at :: "u8 list \<Rightarrow> nat \<Rightarrow> u8 list list \<Rightarrow> nat \<Rightarrow> nat \<Rightarrow> bool" for abuf where
  root: "p < length abuf \<Longrightarrow> abuf ! p = 0 \<Longrightarrow> name_at abuf p [] 0 1"
| pointer: "p + 1 < length abuf \<Longrightarrow> abuf ! p AND INDIR_MASK = INDIR_MASK
    \<Longrightarrow> name_at abuf (pointer_offset (abuf ! p) (abuf ! (p + 1))) ls k e
    \<Longrightarrow> name_at abuf p ls (k + 1) 2"
| label: "p < length abuf \<Longrightarrow> abuf ! p \<noteq> 0 \<Longrightarrow> abuf ! p AND INDIR_MASK = 0
    \<Longrightarrow> name_at abuf (p + 1 + unat (abuf ! p)) ls k e
    \<Longrightarrow> name_at abuf p (load_bytes abuf (p + 1) (unat (abuf ! p)) # ls) k (1 + unat (abuf ! p) + e)"

definition escape :: "u8 \<Rightarrow> u8 list" where
  "escape c = (if needs_escape c then [0x5c, c] else [c])"

definition dotted :: "u8 list list \<Rightarrow> u8 list" where
  "dotted ls = concat (map (\<lambda>l. concat (map escape l) @ [0x2e]) ls)"

definition name_text :: "u8 list list \<Rightarrow> u8 list" where
  "name_text ls = butlast (dotted ls)"

lemma dotted_simps [simp]:
  "dotted [] = []" "dotted (l # ls) = concat (map escape l) @ 0x2e # dotted ls"
  by (simp_all add: dotted_def)

lemma indir_mask_nonzero [simp]: "INDIR_MASK \<noteq> 0"
  by (simp add: INDIR_MASK_def)

lemma name_at_in_buffer: "name_at abuf p ls k e \<Longrightarrow> p < length abuf \<and> p + e \<le> length abuf"
  by (induction rule: name_at.induct) auto

lemma name_at_unique:
  assumes "name_at abuf p ls k e" and "name_at abuf p ls' k' e'"
  shows "ls' = ls \<and> k' = k \<and> e' = e"
  using assms
proof (induction arbitrary: ls' k' e' rule: name_at.induct)
  case (root p)
  show ?case
    by (rule name_at.cases [OF root.prems]) (use root.hyps in simp_all)
next
  case (pointer p ls k e)
  have "\<exists>k1 e1. k' = k1 + 1 \<and> e' = 2 \<and>
      name_at abuf (pointer_offset (abuf ! p) (abuf ! (p + 1))) ls' k1 e1"
    by (rule name_at.cases [OF pointer.prems]) (use pointer.hyps(1,2) in auto)
  then show ?case using pointer.IH by blast
next
  case (label p ls k e)
  have "\<exists>ls1 e1. ls' = load_bytes abuf (p + 1) (unat (abuf ! p)) # ls1 \<and>
      e' = 1 + unat (abuf ! p) + e1 \<and> name_at abuf (p + 1 + unat (abuf ! p)) ls1 k' e1"
    by (rule name_at.cases [OF label.prems]) (use label.hyps(1-3) in auto)
  then show ?case using label.IH by blast
qed

lemma load_bytes_Cons:
  "p < length abuf \<Longrightarrow> load_bytes abuf p (Suc k) = abuf ! p # load_bytes abuf (p + 1) k"
  by (simp add: load_bytes_def Cons_nth_drop_Suc [symmetric])

subsection \<open>The check accepts exactly the encoded names\<close>

lemma label_length_eq:
  "p + k \<le> length abuf \<Longrightarrow>
   label_length abuf p k n = Some (n + int (length (concat (map escape (load_bytes abuf p k)))))"
  by (induction k arbitrary: p n) (simp_all add: rd_def load_bytes_Cons escape_def)

text \<open>What the loop returns when the name it started in ends after \<open>n\<close> bytes with its dots.\<close>

abbreviation without_dot :: "int \<Rightarrow> int" where
  "without_dot n \<equiv> (if n \<noteq> 0 then n - 1 else n)"

definition pointer_step :: "u8 list \<Rightarrow> nat \<Rightarrow> nat \<Rightarrow> bool" where
  "pointer_step abuf p indir \<longleftrightarrow> abuf ! p \<noteq> 0 \<and> abuf ! p AND INDIR_MASK = INDIR_MASK \<and> p + 1 < length abuf \<and>
     pointer_offset (abuf ! p) (abuf ! (p + 1)) < length abuf \<and>
     indir + 1 \<le> length abuf \<and> indir + 1 \<le> MAX_INDIRS"

definition label_step :: "u8 list \<Rightarrow> nat \<Rightarrow> bool" where
  "label_step abuf p \<longleftrightarrow> abuf ! p \<noteq> 0 \<and> abuf ! p AND INDIR_MASK = 0 \<and>
     p + unat (abuf ! p) + 1 < length abuf"

lemma name_length_root:
  "p < length abuf \<Longrightarrow> abuf ! p = 0 \<Longrightarrow> dns_name_length_loop abuf p n indir = Some (without_dot n)"
  by (subst dns_name_length_loop.simps) (simp add: rd_def)

lemma name_length_pointer:
  "pointer_step abuf p indir \<Longrightarrow> dns_name_length_loop abuf p n indir =
     dns_name_length_loop abuf (pointer_offset (abuf ! p) (abuf ! (p + 1))) n (indir + 1)"
  by (subst dns_name_length_loop.simps) (auto simp: rd_def pointer_step_def)

lemma name_length_label:
  "label_step abuf p \<Longrightarrow> dns_name_length_loop abuf p n indir =
     dns_name_length_loop abuf (p + 1 + unat (abuf ! p))
       (n + int (length (dotted [load_bytes abuf (p + 1) (unat (abuf ! p))]))) indir"
  by (subst dns_name_length_loop.simps)
     (simp add: rd_def label_step_def label_length_eq algebra_simps)

lemma name_length_bad:
  "p < length abuf \<Longrightarrow> abuf ! p \<noteq> 0 \<Longrightarrow> \<not> pointer_step abuf p indir \<Longrightarrow> \<not> label_step abuf p
   \<Longrightarrow> dns_name_length_loop abuf p n indir = Some (- 1)"
  by (subst dns_name_length_loop.simps) (auto simp: rd_def pointer_step_def label_step_def)

lemma name_length_complete:
  assumes "name_at abuf p ls k e" and "indir + k \<le> length abuf" and "indir + k \<le> MAX_INDIRS"
  shows "dns_name_length_loop abuf p n indir = Some (without_dot (n + int (length (dotted ls))))"
  using assms
proof (induction arbitrary: n indir rule: name_at.induct)
  case (label p ls k e)
  then have "label_step abuf p"
    using name_at_in_buffer [OF label.hyps(4)] by (simp add: label_step_def)
  from name_length_label [OF this] show ?case
    by (simp only: label.IH [OF label.prems]) (simp add: algebra_simps)
next
  case (pointer p ls k e)
  then have "pointer_step abuf p indir"
    using name_at_in_buffer [OF pointer.hyps(3)] by (auto simp: pointer_step_def)
  from name_length_pointer [OF this] show ?case
    using pointer.IH [of "indir + 1" n] pointer.prems by simp
qed (simp add: name_length_root)

definition within :: "u8 list \<Rightarrow> nat \<Rightarrow> nat \<Rightarrow> bool" where
  "within abuf p indir \<longleftrightarrow>
     (\<exists>ls k e. name_at abuf p ls k e \<and> indir + k \<le> length abuf \<and> indir + k \<le> MAX_INDIRS)"

lemma within_pointer:
  assumes "pointer_step abuf p indir"
    and "within abuf (pointer_offset (abuf ! p) (abuf ! (p + 1))) (indir + 1)"
  shows "within abuf p indir"
proof -
  obtain ls k e where n: "name_at abuf (pointer_offset (abuf ! p) (abuf ! (p + 1))) ls k e"
    and k: "indir + 1 + k \<le> length abuf" "indir + 1 + k \<le> MAX_INDIRS"
    using assms(2) by (auto simp: within_def)
  have "name_at abuf p ls (k + 1) 2"
    using assms(1) n by (intro name_at.pointer) (auto simp: pointer_step_def)
  then show ?thesis using k unfolding within_def by (intro exI conjI) auto
qed

lemma within_label:
  assumes "label_step abuf p" and "within abuf (p + 1 + unat (abuf ! p)) indir"
  shows "within abuf p indir"
proof -
  obtain ls k e where n: "name_at abuf (p + 1 + unat (abuf ! p)) ls k e"
    and k: "indir + k \<le> length abuf" "indir + k \<le> MAX_INDIRS"
    using assms(2) by (auto simp: within_def)
  have "name_at abuf p (load_bytes abuf (p + 1) (unat (abuf ! p)) # ls) k (1 + unat (abuf ! p) + e)"
    using assms(1) n by (intro name_at.label) (auto simp: label_step_def)
  then show ?thesis using k unfolding within_def by (intro exI conjI)
qed

lemma name_length_sound:
  "p < length abuf \<Longrightarrow> indir \<le> length abuf \<Longrightarrow> indir \<le> MAX_INDIRS \<Longrightarrow>
   dns_name_length_loop abuf p n indir = Some (- 1) \<or> within abuf p indir"
proof (induction abuf p n indir rule: dns_name_length_loop.induct)
  case (1 abuf p n indir)
  let ?o = "pointer_offset (abuf ! p) (abuf ! (p + 1))"
  consider (root) "abuf ! p = 0" | (ptr) "pointer_step abuf p indir" | (lab) "label_step abuf p"
    | (bad) "dns_name_length_loop abuf p n indir = Some (- 1)"
    using name_length_bad 1(3) by blast
  then show ?case
  proof cases
    case root
    then have "name_at abuf p [] 0 1" using 1(3) by (rule name_at.root [rotated])
    then have "within abuf p indir" using 1(4,5) unfolding within_def by (intro exI conjI) auto
    then show ?thesis ..
  next
    case ptr
    then have "dns_name_length_loop abuf ?o n (indir + 1) = Some (- 1) \<or> within abuf ?o (indir + 1)"
      using 1(1) [of "abuf ! p" "abuf ! (p + 1)"] by (simp add: pointer_step_def rd_def)
    then show ?thesis using name_length_pointer [OF ptr, of n] within_pointer [OF ptr] by argo
  next
    case lab
    let ?p = "p + 1 + unat (abuf ! p)" and ?l = "load_bytes abuf (p + 1) (unat (abuf ! p))"
    have "dns_name_length_loop abuf ?p (n + int (length (dotted [?l]))) indir = Some (- 1) \<or>
        within abuf ?p indir"
      using lab 1(2) [of "abuf ! p"] 1(4,5)
      by (simp add: label_step_def rd_def label_length_eq algebra_simps)
    then show ?thesis using name_length_label [OF lab, of n indir] within_label [OF lab, of indir] by argo
  qed simp
qed

text \<open>The check is total, and what it accepts is what the encoding gives.\<close>

definition encoded_name :: "u8 list \<Rightarrow> nat \<Rightarrow> u8 list list \<Rightarrow> nat \<Rightarrow> bool" where
  "encoded_name abuf p ls e \<longleftrightarrow>
     (\<exists>k. name_at abuf p ls k e \<and> k \<le> length abuf \<and> k \<le> MAX_INDIRS)"

lemma length_name_text: "int (length (name_text ls)) = without_dot (int (length (dotted ls)))"
  by (simp add: name_text_def of_nat_diff Suc_leI)

lemma dns_name_length_name:
  "encoded_name abuf p ls e \<Longrightarrow> dns_name_length abuf p = Some (int (length (name_text ls)))"
  using name_length_complete [of abuf p ls _ e 0 0] name_at_in_buffer [of abuf p]
  by (force simp: encoded_name_def dns_name_length_def length_name_text)

lemma dns_name_length_no_name:
  "\<nexists>ls e. encoded_name abuf p ls e \<Longrightarrow> dns_name_length abuf p = Some (- 1)"
  using name_length_sound [of p abuf 0 0] by (auto simp: encoded_name_def dns_name_length_def within_def)

subsection \<open>The expansion of a checked name\<close>

lemma store_bytes_append:
  "q + length as + length bs \<le> length s \<Longrightarrow>
   store_bytes (store_bytes s q as) (q + length as) bs = store_bytes s q (as @ bs)"
  by (simp add: store_bytes_def ac_simps)

lemma wr_store: "q < length s \<Longrightarrow> wr s q b = Some (store_bytes s q [b])"
  by (simp add: wr_def store_bytes_def upd_conv_take_nth_drop)

lemma copy_label_eq:
  assumes "p + k \<le> length abuf" and "q + length (concat (map escape (load_bytes abuf p k))) \<le> length s"
  shows "copy_label abuf p k s q =
    (let t = concat (map escape (load_bytes abuf p k)) in Some (store_bytes s q t, q + length t))"
  using assms
proof (induction k arbitrary: p s q)
  case (Suc k)
  let ?c = "abuf ! p" and ?t = "concat (map escape (load_bytes abuf (p + 1) k))"
  have room: "q + length (escape ?c) + length ?t \<le> length s" and p: "p < length abuf"
    using Suc.prems by (simp_all add: load_bytes_Cons)
  have "copy_label abuf p (Suc k) s q =
      copy_label abuf (p + 1) k (store_bytes s q (escape ?c)) (q + length (escape ?c))"
    using room p store_bytes_append [of q "[0x5c]" "[?c]" s]
    by (cases "needs_escape ?c") (simp_all add: rd_def escape_def wr_store Let_def)
  then show ?case
    using Suc.IH [of "p + 1" "q + length (escape ?c)" "store_bytes s q (escape ?c)"] room p Suc.prems(1)
    by (simp add: load_bytes_Cons Let_def store_bytes_append)
qed simp

text \<open>Where the loop stands after the name at \<open>p\<close>: the length of the encoded name is noted at
  the first pointer, and is otherwise found from the position of the root.\<close>

definition expanded :: "nat \<Rightarrow> nat \<Rightarrow> u8 list list \<Rightarrow> nat \<Rightarrow> nat \<Rightarrow> u8 list \<Rightarrow> nat \<Rightarrow> bool \<Rightarrow> int
    \<Rightarrow> (nat \<times> u8 list \<times> nat \<times> bool \<times> int) \<Rightarrow> bool" where
  "expanded encoded p ls k e s q indir enclen = (\<lambda>(p', s', q', indir', enclen').
     s' = store_bytes s q (dotted ls) \<and> q' = q + length (dotted ls) \<and>
     indir' = (indir \<or> k > 0) \<and>
     (if indir then enclen' = enclen
      else if k > 0 then enclen' = aresx_uztosl (p + e - encoded)
      else enclen' = enclen \<and> p' + 1 = p + e))"

lemma expand_loop_root:
  "p < length abuf \<Longrightarrow> abuf ! p = 0 \<Longrightarrow>
   dns_expand_loop abuf encoded p s q indir enclen = Some (p, s, q, indir, enclen)"
  by (subst dns_expand_loop.simps) (simp add: rd_def)

lemma expand_loop_pointer:
  "p + 1 < length abuf \<Longrightarrow> abuf ! p AND INDIR_MASK = INDIR_MASK \<Longrightarrow>
   dns_expand_loop abuf encoded p s q indir enclen =
     dns_expand_loop abuf encoded (pointer_offset (abuf ! p) (abuf ! (p + 1))) s q True
       (if indir then enclen else aresx_uztosl (p + 2 - encoded))"
  by (subst dns_expand_loop.simps) (auto simp: rd_def)

lemma expand_loop_label:
  assumes "label_step abuf p"
    and "q + length (dotted [load_bytes abuf (p + 1) (unat (abuf ! p))]) \<le> length s"
  shows "dns_expand_loop abuf encoded p s q indir enclen =
     (let t = dotted [load_bytes abuf (p + 1) (unat (abuf ! p))]
      in dns_expand_loop abuf encoded (p + 1 + unat (abuf ! p)) (store_bytes s q t) (q + length t) indir enclen)"
  using assms
  by (subst dns_expand_loop.simps)
     (simp add: rd_def label_step_def copy_label_eq wr_store store_bytes_append Let_def)

lemma dns_expand_loop_name:
  assumes "name_at abuf p ls k e" and "q + length (dotted ls) \<le> length s"
  shows "\<exists>r. dns_expand_loop abuf encoded p s q indir enclen = Some r \<and>
    expanded encoded p ls k e s q indir enclen r"
  using assms
proof (induction arbitrary: s q indir enclen rule: name_at.induct)
  case (root p)
  then show ?case by (simp add: expand_loop_root expanded_def)
next
  case (pointer p ls k e)
  then show ?case
    using pointer.IH [of q s True "if indir then enclen else aresx_uztosl (p + 2 - encoded)"]
    by (auto simp: expand_loop_pointer expanded_def)
next
  case (label p ls k e)
  let ?t = "dotted [load_bytes abuf (p + 1) (unat (abuf ! p))]"
  have step: "label_step abuf p"
    using label.hyps name_at_in_buffer [OF label.hyps(4)] by (simp add: label_step_def)
  have room: "q + length ?t + length (dotted ls) \<le> length s" using label.prems by simp
  then obtain r where
    "dns_expand_loop abuf encoded (p + 1 + unat (abuf ! p)) (store_bytes s q ?t) (q + length ?t) indir enclen = Some r"
    and "expanded encoded (p + 1 + unat (abuf ! p)) ls k e (store_bytes s q ?t) (q + length ?t) indir enclen r"
    using label.IH [of "q + length ?t" "store_bytes s q ?t" indir enclen] by auto
  moreover from this(2) have "expanded encoded p (load_bytes abuf (p + 1) (unat (abuf ! p)) # ls) k
      (1 + unat (abuf ! p) + e) s q indir enclen r"
    using store_bytes_append [of q ?t "dotted ls" s] room
    by (cases r) (auto simp: expanded_def add_ac split: if_splits)
  ultimately show ?case using expand_loop_label [OF step, of q s] room by (simp add: Let_def)
qed

lemma butlast_store:
  "xs \<noteq> [] \<Longrightarrow> q + length xs \<le> length s \<Longrightarrow>
   (store_bytes s q xs)[q + length xs - 1 := b] = store_bytes s q (butlast xs @ [b])"
  by (cases xs rule: rev_cases)
     (simp_all add: store_bytes_def list_update_append)

lemma aresx_uztosl_id:
  assumes "n < 2 ^ 31"
  shows "aresx_uztosl n = int n"
proof -
  have "(0x7FFFFFFF :: nat) = mask 31" by (simp add: mask_eq_exp_minus_1)
  then have "n AND 0x7FFFFFFF = take_bit 31 n" by (simp only: take_bit_eq_mask)
  then show ?thesis using assms by (simp add: aresx_uztosl_def take_bit_nat_eq_self)
qed

lemma dns_expand_name_name:
  assumes "name_at abuf p ls k e" and "length (name_text ls) < length s" and "length abuf < 2 ^ 31"
  shows "dns_expand_name abuf p s enclen = Some (store_bytes s 0 (name_text ls @ [0]), int e)"
proof -
  let ?d = "dotted ls"
  have room: "length ?d \<le> length s" using assms(2) by (simp add: name_text_def)
  have e: "aresx_uztosl e = int e"
    using name_at_in_buffer [OF assms(1)] assms(3) by (simp add: aresx_uztosl_id)
  have out: "wr (store_bytes s 0 ?d) (if length ?d > 0 then length ?d - 1 else length ?d) 0
      = Some (store_bytes s 0 (name_text ls @ [0]))"
    using butlast_store [of ?d 0 s 0] assms(2) room
    by (cases "?d = []") (simp_all add: name_text_def wr_def store_bytes_def upd_conv_take_nth_drop)
  obtain p' enclen' where
    "dns_expand_loop abuf p p s 0 False enclen = Some (p', store_bytes s 0 ?d, length ?d, k > 0, enclen')"
    "k > 0 \<Longrightarrow> enclen' = aresx_uztosl e" "k = 0 \<Longrightarrow> p' + 1 = p + e"
    using dns_expand_loop_name [OF assms(1), of 0 s p False enclen] room
    by (auto simp: expanded_def split: if_splits)
  then show ?thesis using out e by (simp add: dns_expand_name_def)
qed

lemma maxlen_name:
  assumes "encoded_name abuf p ls e" and "length abuf < 2 ^ 31" and "length s = DNS_NAME_MAX_LENGTH"
    and "length (name_text ls) < DNS_NAME_MAX_LENGTH"
  shows "dns_expand_name_maxlen abuf p s enclen len =
    Some (ARES_SUCCESS, store_bytes s 0 (name_text ls @ [0]), int e,
          map_option (\<lambda>_. int (length (name_text ls))) len)"
proof -
  obtain k where "name_at abuf p ls k e" using assms(1) by (auto simp: encoded_name_def)
  then have "dns_expand_name abuf p s enclen = Some (store_bytes s 0 (name_text ls @ [0]), int e)"
    using assms(2-4) by (intro dns_expand_name_name) simp_all
  then show ?thesis
    using dns_name_length_name [OF assms(1)] assms(4) by (simp add: dns_expand_name_maxlen_def)
qed

text \<open>
  C32. Expanding a name of an arbitrary message (at most 2 GiB long) into a 256-byte buffer always
  returns, reads only bytes of the message and stores only into the buffer. It succeeds exactly
  when the message holds an encoded name at that offset, reached through at most 50 pointers (and
  at most as many as the message has bytes) and with fewer than 256 printed characters; the buffer
  then starts with the labels, escaped, joined with dots and terminated by NUL, its other bytes are
  as before, \<open>*enclen\<close> is the number of bytes that the name takes in the message and
  \<open>*expanded_len\<close> the number of characters. A name that is too long gives ARES_ENOMEM and
  anything else ARES_EBADNAME, both with the outputs untouched.
\<close>

theorem dns_expand_name_maxlen_spec:
  assumes "length abuf < 2 ^ 31" and "length s = DNS_NAME_MAX_LENGTH"
  shows "(\<exists>ls e. encoded_name abuf p ls e \<and> length (name_text ls) < DNS_NAME_MAX_LENGTH \<and>
            dns_expand_name_maxlen abuf p s enclen len =
              Some (ARES_SUCCESS, store_bytes s 0 (name_text ls @ [0]), int e,
                    map_option (\<lambda>_. int (length (name_text ls))) len))
       \<or> (\<exists>ls e. encoded_name abuf p ls e \<and> DNS_NAME_MAX_LENGTH \<le> length (name_text ls)) \<and>
            dns_expand_name_maxlen abuf p s enclen len = Some (ARES_ENOMEM, s, enclen, len)
       \<or> (\<nexists>ls e. encoded_name abuf p ls e) \<and>
            dns_expand_name_maxlen abuf p s enclen len = Some (ARES_EBADNAME, s, enclen, len)"
proof (cases "\<exists>ls e. encoded_name abuf p ls e")
  case True
  then obtain ls e where n: "encoded_name abuf p ls e" by blast
  show ?thesis
  proof (cases "length (name_text ls) < DNS_NAME_MAX_LENGTH")
    case True
    then have "dns_expand_name_maxlen abuf p s enclen len =
        Some (ARES_SUCCESS, store_bytes s 0 (name_text ls @ [0]), int e,
              map_option (\<lambda>_. int (length (name_text ls))) len)"
      using maxlen_name [OF n] assms by simp
    then show ?thesis using n True by blast
  next
    case False
    then show ?thesis
      using n by (auto simp: dns_expand_name_maxlen_def dns_name_length_name [OF n])
  qed
qed (simp add: dns_expand_name_maxlen_def dns_name_length_no_name)

theorem dns_expand_name_maxlen_spec_witness:
  "\<exists>r. dns_expand_name_maxlen [0xc0, 5, 1, 0x62, 0, 2, 0x61, 0x2e, 0xc0, 2] 0 (replicate 256 0xff) 7 (Some 9)
     = Some r"
  using dns_expand_name_maxlen_spec [of "[0xc0, 5, 1, 0x62, 0, 2, 0x61, 0x2e, 0xc0, 2]" "replicate 256 0xff" 0 7 "Some 9"]
  by (auto simp: DNS_NAME_MAX_LENGTH_def)

end
