(* ===== verification/Dns_Parse.thy ===== *)
theory Dns_Parse
  imports Dns_Name
begin

text \<open>
  The DNS parsers \<^verbatim>\<open>dns_parse_query\<close> and \<^verbatim>\<open>dns_parse_a_aaaa_reply\<close>
  (\<^verbatim>\<open>src/collector/kernel/dns/ares_parse_query.c\<close> and \<^verbatim>\<open>ares_parse_a_aaaa_reply.c\<close>).

  The macros that read the fields of a header, a question and a resource record come from
  the c-ares header \<^verbatim>\<open>ares_dns.h\<close>, which is not part of the repository. They are the record
  \<open>ares_dns\<close>, a parameter of the parsers: each macro is a function of the bytes of the fixed
  section it reads, and applying it to a section that is not wholly inside the message is the
  value \<^const>\<open>None\<close>, as every other access outside a buffer is.
\<close>

subsection \<open>The field macros and the constants\<close>

record ares_dns =
  DNS_HEADER_QR :: "u8 list \<Rightarrow> int"
  DNS_HEADER_QID :: "u8 list \<Rightarrow> u16"
  DNS_HEADER_QDCOUNT :: "u8 list \<Rightarrow> u32"
  DNS_HEADER_ANCOUNT :: "u8 list \<Rightarrow> u32"
  DNS_HEADER_NSCOUNT :: "u8 list \<Rightarrow> u32"
  DNS_QUESTION_TYPE :: "u8 list \<Rightarrow> int"
  DNS_QUESTION_CLASS :: "u8 list \<Rightarrow> int"
  DNS_RR_TYPE :: "u8 list \<Rightarrow> int"
  DNS_RR_CLASS :: "u8 list \<Rightarrow> int"
  DNS_RR_LEN :: "u8 list \<Rightarrow> int"
  DNS_RR_TTL :: "u8 list \<Rightarrow> int"

definition HFIXEDSZ :: nat where "HFIXEDSZ = 12"
definition QFIXEDSZ :: nat where "QFIXEDSZ = 4"
definition RRFIXEDSZ :: nat where "RRFIXEDSZ = 10"
definition C_IN :: int where "C_IN = 1"
definition T_A :: int where "T_A = 1"
definition T_CNAME :: int where "T_CNAME = 5"
definition T_AAAA :: int where "T_AAAA = 28"
definition ARES_ENODATA :: cint where "ARES_ENODATA = 1"
definition ARES_EBADQUERY :: cint where "ARES_EBADQUERY = 7"
definition ARES_EBADRESP :: cint where "ARES_EBADRESP = 10"

definition section_at :: "u8 list \<Rightarrow> nat \<Rightarrow> nat \<Rightarrow> u8 list option" where
  "section_at abuf p n = (if p + n \<le> length abuf then Some (load_bytes abuf p n) else None)"

subsection \<open>dns_parse_query\<close>

text \<open>The outputs; \<^const>\<open>None\<close> is a NULL pointer.\<close>

record query_out =
  is_response :: "int option"
  type_out :: "u16 option"
  qid_out :: "u16 option"
  question_out :: "u8 list"
  question_len :: "int option"

text \<open>The part of \<open>dns_parse_query\<close> after the header has been accepted. The local \<open>len\<close> is not
  initialised; it is only read after a successful expansion has set it.\<close>

definition dns_parse_question ::
  "ares_dns \<Rightarrow> u8 list \<Rightarrow> query_out \<Rightarrow> (cint \<times> query_out) option" where
  "dns_parse_question d abuf out =
     (let aptr = HFIXEDSZ
      in case dns_expand_name_maxlen abuf aptr (question_out out) 0 (question_len out) of
           None \<Rightarrow> None
         | Some (status, question, len, qlen) \<Rightarrow>
             (let out = out\<lparr>question_out := question, question_len := qlen\<rparr>
              in if status \<noteq> ARES_SUCCESS then Some (status, out)
                 else if int aptr + len + int QFIXEDSZ > int (length abuf) then Some (ARES_EBADQUERY, out)
                 else
                   (case section_at abuf (nat (int aptr + len)) QFIXEDSZ of
                      None \<Rightarrow> None
                    | Some q \<Rightarrow>
                        if DNS_QUESTION_CLASS d q \<noteq> C_IN then Some (ARES_EBADQUERY, out)
                        else Some (ARES_SUCCESS, out\<lparr>type_out :=
                          map_option (\<lambda>_. word_of_int (DNS_QUESTION_TYPE d q)) (type_out out)\<rparr>))))"

definition dns_parse_query ::
  "ares_dns \<Rightarrow> u8 list \<Rightarrow> query_out \<Rightarrow> (cint \<times> query_out) option" where
  "dns_parse_query d abuf out =
     (if length abuf < HFIXEDSZ then Some (ARES_EBADQUERY, out)
      else
        (case section_at abuf 0 HFIXEDSZ of
           None \<Rightarrow> None
         | Some h \<Rightarrow>
             if DNS_HEADER_QR d h = 0 \<and>
                (DNS_HEADER_QDCOUNT d h \<noteq> 1 \<or> DNS_HEADER_ANCOUNT d h \<noteq> 0 \<or> DNS_HEADER_NSCOUNT d h \<noteq> 0)
             then Some (ARES_EBADQUERY, out)
             else if DNS_HEADER_QR d h \<noteq> 0 \<and> DNS_HEADER_QDCOUNT d h \<noteq> 1
             then Some (ARES_EBADQUERY, out)
             else
               dns_parse_question d abuf (out\<lparr>
                 is_response := map_option (\<lambda>_. if DNS_HEADER_QR d h = 0 then 0 else 1) (is_response out),
                 qid_out := map_option (\<lambda>_. DNS_HEADER_QID d h) (qid_out out)\<rparr>)))"

subsection \<open>dns_parse_a_aaaa_reply\<close>

text \<open>\<open>strcasecmp(a, b) == 0\<close> on NUL-terminated buffers, in the C locale; a buffer without a NUL
  is read past its end.\<close>

definition tolower_c :: "u8 \<Rightarrow> u8" where
  "tolower_c c = (if 0x41 \<le> c \<and> c \<le> 0x5a then c + 0x20 else c)"

definition c_string :: "u8 list \<Rightarrow> u8 list option" where
  "c_string buf = (if 0 \<in> set buf then Some (takeWhile (\<lambda>c. c \<noteq> 0) buf) else None)"

definition strcasecmp_eq :: "u8 list \<Rightarrow> u8 list \<Rightarrow> bool option" where
  "strcasecmp_eq a b =
     (case (c_string a, c_string b) of
        (Some x, Some y) \<Rightarrow> Some (map tolower_c x = map tolower_c y)
      | _ \<Rightarrow> None)"

text \<open>The locals and outputs of the parser: \<open>hostname_is_data\<close> says whether the local pointer
  \<open>hostname\<close> points to \<open>rr_data\<close> or to \<open>hostname_out\<close>. \<open>in_addrs_out\<close> is \<^const>\<open>None\<close> for a NULL
  pointer, \<open>max_in_addrs\<close> the local of that name.\<close>

record reply_state =
  r_aptr :: nat
  r_status :: cint
  r_hostname_out :: "u8 list"
  r_hostname_is_data :: bool
  r_rr_name :: "u8 list"
  r_rr_data :: "u8 list"
  r_naddrs :: int
  r_n6addrs :: int
  r_naliases :: int
  r_cname_ttl :: int
  r_in_addrs :: "u8 list list option"
  r_in6_addrs :: "u8 list list option"

definition r_hostname :: "reply_state \<Rightarrow> u8 list" where
  "r_hostname r = (if r_hostname_is_data r then r_rr_data r else r_hostname_out r)"

text \<open>Storing the \<open>n\<close> bytes at \<open>aptr\<close> as element \<open>k\<close> of an output array of addresses.\<close>

definition store_addr ::
  "u8 list \<Rightarrow> nat \<Rightarrow> nat \<Rightarrow> int \<Rightarrow> u8 list list option \<Rightarrow> u8 list list option option" where
  "store_addr abuf aptr n k arr =
     (case (arr, section_at abuf aptr n) of
        (Some xs, Some bytes) \<Rightarrow>
          if 0 \<le> k \<and> nat k < length xs then Some (Some (xs[nat k := bytes])) else None
      | _ \<Rightarrow> None)"

text \<open>The record classes of one pass of the loop: an address of the host asked for (\<open>reply_a\<close>,
  \<open>reply_aaaa\<close>) and an alias (\<open>reply_cname\<close>). A result \<^term>\<open>Some (True, r)\<close> continues with the next
  record, \<^term>\<open>Some (False, r)\<close> leaves the loop. The second bounds check before each \<open>memcpy\<close> is the
  test that \<open>section_at\<close> makes.\<close>

definition reply_a :: "u8 list \<Rightarrow> int \<Rightarrow> reply_state \<Rightarrow> (bool \<times> reply_state) option" where
  "reply_a abuf max_in_addrs r =
     (if r_naddrs r < max_in_addrs \<and> int (r_aptr r) + 4 > int (length abuf)
      then Some (False, r\<lparr>r_status := ARES_EBADRESP\<rparr>)
      else if r_naddrs r < max_in_addrs then
        map_option (\<lambda>a. (True, r\<lparr>r_in_addrs := a, r_naddrs := r_naddrs r + 1, r_status := ARES_SUCCESS\<rparr>))
          (store_addr abuf (r_aptr r) 4 (r_naddrs r) (r_in_addrs r))
      else Some (True, r\<lparr>r_naddrs := r_naddrs r + 1, r_status := ARES_SUCCESS\<rparr>))"

definition reply_aaaa :: "u8 list \<Rightarrow> int \<Rightarrow> reply_state \<Rightarrow> (bool \<times> reply_state) option" where
  "reply_aaaa abuf max_in6_addrs r =
     (if r_n6addrs r < max_in6_addrs \<and> int (r_aptr r) + 16 > int (length abuf)
      then Some (False, r\<lparr>r_status := ARES_EBADRESP\<rparr>)
      else if r_n6addrs r < max_in6_addrs then
        map_option (\<lambda>a. (True, r\<lparr>r_in6_addrs := a, r_n6addrs := r_n6addrs r + 1, r_status := ARES_SUCCESS\<rparr>))
          (store_addr abuf (r_aptr r) 16 (r_n6addrs r) (r_in6_addrs r))
      else Some (True, r\<lparr>r_n6addrs := r_n6addrs r + 1, r_status := ARES_SUCCESS\<rparr>))"

definition reply_cname :: "u8 list \<Rightarrow> int \<Rightarrow> reply_state \<Rightarrow> (bool \<times> reply_state) option" where
  "reply_cname abuf rr_ttl r =
     (case dns_expand_name_maxlen abuf (r_aptr r) (r_rr_data r) 0 None of
        None \<Rightarrow> None
      | Some (status, rr_data, len, _) \<Rightarrow>
          (let r = r\<lparr>r_naliases := r_naliases r + 1, r_status := status, r_rr_data := rr_data\<rparr>
           in if status \<noteq> ARES_SUCCESS then Some (False, r)
              else Some (True, r\<lparr>r_hostname_is_data := True,
                r_cname_ttl := (if r_cname_ttl r > rr_ttl then rr_ttl else r_cname_ttl r)\<rparr>)))"

text \<open>The body of the loop after the fixed part \<open>f\<close> of the record has been read and the pointer moved
  to its data.\<close>

definition reply_address ::
  "ares_dns \<Rightarrow> u8 list \<Rightarrow> int \<Rightarrow> int \<Rightarrow> u8 list \<Rightarrow> reply_state \<Rightarrow> (bool \<times> reply_state) option" where
  "reply_address d abuf max_in_addrs max_in6_addrs f r =
     (if DNS_RR_CLASS d f = C_IN \<and> DNS_RR_TYPE d f = T_A \<and> DNS_RR_LEN d f = 4 then
        (case strcasecmp_eq (r_rr_name r) (r_hostname r) of
           None \<Rightarrow> None
         | Some same \<Rightarrow> if same then reply_a abuf max_in_addrs r else Some (True, r))
      else if DNS_RR_CLASS d f = C_IN \<and> DNS_RR_TYPE d f = T_AAAA \<and> DNS_RR_LEN d f = 16 then
        (case strcasecmp_eq (r_rr_name r) (r_hostname r) of
           None \<Rightarrow> None
         | Some same \<Rightarrow> if same then reply_aaaa abuf max_in6_addrs r else Some (True, r))
      else Some (True, r))"

definition reply_data ::
  "ares_dns \<Rightarrow> u8 list \<Rightarrow> int \<Rightarrow> int \<Rightarrow> u8 list \<Rightarrow> reply_state \<Rightarrow> (bool \<times> reply_state) option" where
  "reply_data d abuf max_in_addrs max_in6_addrs f r =
     (case reply_address d abuf max_in_addrs max_in6_addrs f r of
        None \<Rightarrow> None
      | Some (False, r) \<Rightarrow> Some (False, r)
      | Some (True, r) \<Rightarrow>
          if DNS_RR_CLASS d f = C_IN \<and> DNS_RR_TYPE d f = T_CNAME
          then reply_cname abuf (DNS_RR_TTL d f) r
          else Some (True, r))"

definition reply_record ::
  "ares_dns \<Rightarrow> u8 list \<Rightarrow> int \<Rightarrow> int \<Rightarrow> reply_state \<Rightarrow> (bool \<times> reply_state) option" where
  "reply_record d abuf max_in_addrs max_in6_addrs r =
     (case dns_expand_name_maxlen abuf (r_aptr r) (r_rr_name r) 0 None of
        None \<Rightarrow> None
      | Some (status, rr_name, len, _) \<Rightarrow>
          (let r = r\<lparr>r_status := status, r_rr_name := rr_name\<rparr>;
               aptr = nat (int (r_aptr r) + len)
           in if status \<noteq> ARES_SUCCESS then Some (False, r)
              else if aptr + RRFIXEDSZ > length abuf
              then Some (False, r\<lparr>r_aptr := aptr, r_status := ARES_EBADRESP\<rparr>)
              else
                (case section_at abuf aptr RRFIXEDSZ of
                   None \<Rightarrow> None
                 | Some f \<Rightarrow>
                     (let r = r\<lparr>r_aptr := aptr + RRFIXEDSZ\<rparr>; rr_len = DNS_RR_LEN d f
                      in if int (r_aptr r) + rr_len > int (length abuf)
                         then Some (False, r\<lparr>r_status := ARES_EBADRESP\<rparr>)
                         else
                           (case reply_data d abuf max_in_addrs max_in6_addrs f r of
                              None \<Rightarrow> None
                            | Some (False, r) \<Rightarrow> Some (False, r)
                            | Some (True, r) \<Rightarrow>
                                (let r = r\<lparr>r_aptr := nat (int (r_aptr r) + rr_len)\<rparr>
                                 in if r_aptr r > length abuf
                                    then Some (False, r\<lparr>r_status := ARES_EBADRESP\<rparr>)
                                    else Some (True, r)))))))"

fun reply_loop :: "ares_dns \<Rightarrow> u8 list \<Rightarrow> int \<Rightarrow> int \<Rightarrow> nat \<Rightarrow> reply_state \<Rightarrow> reply_state option" where
  "reply_loop d abuf m4 m6 0 r = Some r"
| "reply_loop d abuf m4 m6 (Suc n) r =
     (case reply_record d abuf m4 m6 r of
        None \<Rightarrow> None
      | Some (False, r') \<Rightarrow> Some r'
      | Some (True, r') \<Rightarrow> reply_loop d abuf m4 m6 n r')"

record reply_out =
  hostname_out :: "u8 list"
  hostname_len :: "int option"
  in_addrs_out :: "u8 list list option"
  num_in_addrs :: "int option"
  in6_addrs_out :: "u8 list list option"
  num_in6_addrs :: "int option"

text \<open>\<open>max_addrs\<close> is the initialiser of \<open>max_in_addrs\<close> and \<open>max_in6_addrs\<close>; \<open>rr_name\<close> and \<open>rr_data\<close>
  are the uninitialised local buffers, \<open>INT_MAX\<close> the initial TTL.\<close>

definition max_addrs :: "u8 list list option \<Rightarrow> int option \<Rightarrow> int" where
  "max_addrs arr num = (if arr \<noteq> None \<and> num \<noteq> None then the num else 0)"

definition INT_MAX :: int where "INT_MAX = 2 ^ 31 - 1"

definition reply_answers ::
  "ares_dns \<Rightarrow> u8 list \<Rightarrow> u8 list \<Rightarrow> int \<Rightarrow> int \<Rightarrow> nat \<Rightarrow> reply_out \<Rightarrow> reply_state \<Rightarrow> (cint \<times> reply_out) option" where
  "reply_answers d abuf h m4 m6 aptr out r =
     (case reply_loop d abuf m4 m6 (nat (sint (DNS_HEADER_ANCOUNT d h))) (r\<lparr>r_aptr := aptr\<rparr>) of
        None \<Rightarrow> None
      | Some r \<Rightarrow>
          Some (if r_status r = ARES_SUCCESS \<and> r_naddrs r = 0 \<and> r_n6addrs r = 0 \<and> r_naliases r = 0
                then ARES_ENODATA else r_status r,
            out\<lparr>hostname_out := r_hostname_out r,
              in_addrs_out := r_in_addrs r,
              num_in_addrs := map_option (\<lambda>_. if r_naddrs r < m4 then r_naddrs r else m4) (num_in_addrs out),
              in6_addrs_out := r_in6_addrs r,
              num_in6_addrs := map_option (\<lambda>_. if r_n6addrs r < m6 then r_n6addrs r else m6) (num_in6_addrs out)\<rparr>))"

definition dns_parse_a_aaaa_reply ::
  "ares_dns \<Rightarrow> u8 list \<Rightarrow> u8 list \<Rightarrow> u8 list \<Rightarrow> reply_out \<Rightarrow> (cint \<times> reply_out) option" where
  "dns_parse_a_aaaa_reply d rr_name rr_data abuf out0 =
     (let m4 = max_addrs (in_addrs_out out0) (num_in_addrs out0);
          m6 = max_addrs (in6_addrs_out out0) (num_in6_addrs out0);
          out = out0\<lparr>num_in_addrs := map_option (\<lambda>_. 0) (num_in_addrs out0),
                     num_in6_addrs := map_option (\<lambda>_. 0) (num_in6_addrs out0)\<rparr>
      in if length abuf < HFIXEDSZ then Some (ARES_EBADRESP, out)
         else
           (case section_at abuf 0 HFIXEDSZ of
              None \<Rightarrow> None
            | Some h \<Rightarrow>
                if DNS_HEADER_QR d h \<noteq> 1 then Some (ARES_EBADRESP, out)
                else if DNS_HEADER_QDCOUNT d h \<noteq> 1 then Some (ARES_EBADRESP, out)
                else
                  (case dns_expand_name_maxlen abuf HFIXEDSZ (hostname_out out) 0 (hostname_len out) of
                     None \<Rightarrow> None
                   | Some (status, hostname, len, hlen) \<Rightarrow>
                       (let out = out\<lparr>hostname_out := hostname, hostname_len := hlen\<rparr>
                        in if status \<noteq> ARES_SUCCESS then Some (status, out)
                           else if int HFIXEDSZ + len + int QFIXEDSZ > int (length abuf)
                           then Some (ARES_EBADRESP, out)
                           else
                             reply_answers d abuf h m4 m6 (nat (int HFIXEDSZ + len + int QFIXEDSZ)) out
                               \<lparr>r_aptr = 0, r_status = status, r_hostname_out = hostname,
                                r_hostname_is_data = False, r_rr_name = rr_name, r_rr_data = rr_data,
                                r_naddrs = 0, r_n6addrs = 0, r_naliases = 0, r_cname_ttl = INT_MAX,
                                r_in_addrs = in_addrs_out out, r_in6_addrs = in6_addrs_out out\<rparr>))))"

subsection \<open>The queries that are accepted\<close>

lemma maxlen_cases:
  assumes "length abuf < 2 ^ 31" and "length s = DNS_NAME_MAX_LENGTH"
  shows "(\<exists>st. st \<noteq> ARES_SUCCESS \<and> dns_expand_name_maxlen abuf p s enclen len = Some (st, s, enclen, len) \<and>
            (\<nexists>ls e. encoded_name abuf p ls e \<and> length (name_text ls) < DNS_NAME_MAX_LENGTH))
       \<or> (\<exists>ls e. encoded_name abuf p ls e \<and> length (name_text ls) < DNS_NAME_MAX_LENGTH \<and>
            dns_expand_name_maxlen abuf p s enclen len =
              Some (ARES_SUCCESS, store_bytes s 0 (name_text ls @ [0]), int e,
                    map_option (\<lambda>_. int (length (name_text ls))) len))"
proof (cases "\<exists>ls e. encoded_name abuf p ls e \<and> length (name_text ls) < DNS_NAME_MAX_LENGTH")
  case True
  then show ?thesis using maxlen_name assms by blast
next
  case False
  have "\<exists>st. st \<noteq> ARES_SUCCESS \<and> dns_expand_name_maxlen abuf p s enclen len = Some (st, s, enclen, len)"
  proof (cases "\<exists>ls e. encoded_name abuf p ls e")
    case True
    then obtain ls e where n: "encoded_name abuf p ls e" by blast
    then show ?thesis
      using False dns_name_length_name [OF n]
      by (auto simp: dns_expand_name_maxlen_def ARES_SUCCESS_def ARES_ENOMEM_def)
  qed (simp add: dns_expand_name_maxlen_def dns_name_length_no_name ARES_SUCCESS_def ARES_EBADNAME_def)
  then show ?thesis using False by blast
qed

lemma encoded_name_unique:
  assumes "encoded_name abuf p ls e" and "encoded_name abuf p ls' e'"
  shows "ls' = ls \<and> e' = e"
  using assms name_at_unique [of abuf p ls _ e ls' _ e'] by (auto simp: encoded_name_def)

text \<open>The header a query is accepted with, and the message of an accepted query.\<close>

definition header_ok :: "ares_dns \<Rightarrow> u8 list \<Rightarrow> bool" where
  "header_ok d h \<longleftrightarrow> DNS_HEADER_QDCOUNT d h = 1 \<and>
     (DNS_HEADER_QR d h = 0 \<longrightarrow> DNS_HEADER_ANCOUNT d h = 0 \<and> DNS_HEADER_NSCOUNT d h = 0)"

definition query_message :: "ares_dns \<Rightarrow> u8 list \<Rightarrow> u8 list list \<Rightarrow> nat \<Rightarrow> bool" where
  "query_message d abuf ls e \<longleftrightarrow>
     HFIXEDSZ + e + QFIXEDSZ \<le> length abuf \<and> header_ok d (load_bytes abuf 0 HFIXEDSZ) \<and>
     encoded_name abuf HFIXEDSZ ls e \<and> length (name_text ls) < DNS_NAME_MAX_LENGTH \<and>
     DNS_QUESTION_CLASS d (load_bytes abuf (HFIXEDSZ + e) QFIXEDSZ) = C_IN"

lemma parse_query_question:
  "HFIXEDSZ \<le> length abuf \<Longrightarrow> header_ok d (load_bytes abuf 0 HFIXEDSZ) \<Longrightarrow>
   dns_parse_query d abuf out =
     (let h = load_bytes abuf 0 HFIXEDSZ
      in dns_parse_question d abuf (out\<lparr>
           is_response := map_option (\<lambda>_. if DNS_HEADER_QR d h = 0 then 0 else 1) (is_response out),
           qid_out := map_option (\<lambda>_. DNS_HEADER_QID d h) (qid_out out)\<rparr>))"
  by (auto simp: dns_parse_query_def section_at_def header_ok_def Let_def)

lemma parse_query_refused:
  "HFIXEDSZ > length abuf \<or> \<not> header_ok d (load_bytes abuf 0 HFIXEDSZ) \<Longrightarrow>
   dns_parse_query d abuf out = Some (ARES_EBADQUERY, out)"
  by (auto simp: dns_parse_query_def section_at_def header_ok_def)

definition query_answer :: "ares_dns \<Rightarrow> u8 list \<Rightarrow> u8 list list \<Rightarrow> nat \<Rightarrow> query_out \<Rightarrow> query_out" where
  "query_answer d abuf ls e out = out\<lparr>
     type_out := map_option (\<lambda>_. word_of_int (DNS_QUESTION_TYPE d (load_bytes abuf (HFIXEDSZ + e) QFIXEDSZ)))
       (type_out out),
     question_out := store_bytes (question_out out) 0 (name_text ls @ [0]),
     question_len := map_option (\<lambda>_. int (length (name_text ls))) (question_len out)\<rparr>"

lemma parse_question_cases:
  assumes "length abuf < 2 ^ 31" and "length (question_out out) = DNS_NAME_MAX_LENGTH"
    and "header_ok d (load_bytes abuf 0 HFIXEDSZ)"
  shows "(\<exists>ls e. query_message d abuf ls e \<and>
            dns_parse_question d abuf out = Some (ARES_SUCCESS, query_answer d abuf ls e out))
       \<or> (\<nexists>ls e. query_message d abuf ls e) \<and>
           (\<exists>st out'. st \<noteq> ARES_SUCCESS \<and> dns_parse_question d abuf out = Some (st, out'))"
  using maxlen_cases [OF assms(1,2), of HFIXEDSZ 0 "question_len out"]
proof (elim disjE exE conjE)
  fix st assume "st \<noteq> ARES_SUCCESS"
    "dns_expand_name_maxlen abuf HFIXEDSZ (question_out out) 0 (question_len out)
       = Some (st, question_out out, 0, question_len out)"
    "\<nexists>ls e. encoded_name abuf HFIXEDSZ ls e \<and> length (name_text ls) < DNS_NAME_MAX_LENGTH"
  then show ?thesis by (auto simp: dns_parse_question_def query_message_def Let_def)
next
  fix ls e
  let ?q = "load_bytes abuf (HFIXEDSZ + e) QFIXEDSZ"
  assume n: "encoded_name abuf HFIXEDSZ ls e" and t: "length (name_text ls) < DNS_NAME_MAX_LENGTH"
    and x: "dns_expand_name_maxlen abuf HFIXEDSZ (question_out out) 0 (question_len out) =
       Some (ARES_SUCCESS, store_bytes (question_out out) 0 (name_text ls @ [0]), int e,
             map_option (\<lambda>_. int (length (name_text ls))) (question_len out))"
  have only: "query_message d abuf ls' e' \<Longrightarrow> ls' = ls \<and> e' = e" for ls' e'
    using encoded_name_unique [OF n] by (auto simp: query_message_def)
  have nat: "nat (int HFIXEDSZ + int e) = HFIXEDSZ + e" by simp
  show ?thesis
  proof (cases "HFIXEDSZ + e + QFIXEDSZ \<le> length abuf \<and> DNS_QUESTION_CLASS d ?q = C_IN")
    case True
    then have "query_message d abuf ls e" using n t assms(3) by (simp add: query_message_def)
    moreover have "dns_parse_question d abuf out = Some (ARES_SUCCESS, query_answer d abuf ls e out)"
      using True x by (simp add: dns_parse_question_def query_answer_def section_at_def Let_def nat)
    ultimately show ?thesis by blast
  next
    case False
    then have "\<exists>st out'. st \<noteq> ARES_SUCCESS \<and> dns_parse_question d abuf out = Some (st, out')"
      using x by (auto simp: dns_parse_question_def section_at_def Let_def nat
          ARES_SUCCESS_def ARES_EBADQUERY_def)
    then show ?thesis using only False by (auto simp: query_message_def)
  qed
qed

text \<open>
  C33. Parsing a message as a query always returns without leaving the message or the 256-byte
  question buffer. It succeeds exactly on the messages with a complete header that counts one
  question (and, in a request, no answer and no authority record) and whose question is an
  encoded name of fewer than 256 characters followed by a complete type and the class IN. The
  outputs are then the direction and transaction id of the header, the type of the question and
  the printed name with its length.
\<close>

theorem dns_parse_query_accepts:
  assumes "length abuf < 2 ^ 31" and "length (question_out out) = DNS_NAME_MAX_LENGTH"
  shows "(\<exists>ls e. query_message d abuf ls e \<and>
            dns_parse_query d abuf out = Some (ARES_SUCCESS, query_answer d abuf ls e (out\<lparr>
              is_response := map_option
                (\<lambda>_. if DNS_HEADER_QR d (load_bytes abuf 0 HFIXEDSZ) = 0 then 0 else 1) (is_response out),
              qid_out := map_option (\<lambda>_. DNS_HEADER_QID d (load_bytes abuf 0 HFIXEDSZ)) (qid_out out)\<rparr>)))
       \<or> (\<nexists>ls e. query_message d abuf ls e) \<and>
           (\<exists>st out'. st \<noteq> ARES_SUCCESS \<and> dns_parse_query d abuf out = Some (st, out'))"
proof (cases "HFIXEDSZ \<le> length abuf \<and> header_ok d (load_bytes abuf 0 HFIXEDSZ)")
  case True
  then show ?thesis
    using parse_question_cases [OF assms(1), of "out\<lparr>is_response := _, qid_out := _\<rparr>" d] assms(2)
    by (simp add: parse_query_question Let_def)
next
  case False
  then have "dns_parse_query d abuf out = Some (ARES_EBADQUERY, out)"
    using parse_query_refused by (metis not_le)
  then show ?thesis using False by (auto simp: query_message_def ARES_SUCCESS_def ARES_EBADQUERY_def)
qed

text \<open>The macros as c-ares documents them, the big-endian fields of RFC 1035; they instantiate the
  parameter in the witnesses.\<close>

definition be16 :: "u8 list \<Rightarrow> nat \<Rightarrow> nat" where
  "be16 h i = unat (h ! i) * 256 + unat (h ! (i + 1))"

definition rfc1035 :: ares_dns where
  "rfc1035 = \<lparr>DNS_HEADER_QR = (\<lambda>h. int (unat (h ! 2) div 128)),
     DNS_HEADER_QID = (\<lambda>h. of_nat (be16 h 0)),
     DNS_HEADER_QDCOUNT = (\<lambda>h. of_nat (be16 h 4)),
     DNS_HEADER_ANCOUNT = (\<lambda>h. of_nat (be16 h 6)),
     DNS_HEADER_NSCOUNT = (\<lambda>h. of_nat (be16 h 8)),
     DNS_QUESTION_TYPE = (\<lambda>h. int (be16 h 0)),
     DNS_QUESTION_CLASS = (\<lambda>h. int (be16 h 2)),
     DNS_RR_TYPE = (\<lambda>h. int (be16 h 0)),
     DNS_RR_CLASS = (\<lambda>h. int (be16 h 2)),
     DNS_RR_LEN = (\<lambda>h. int (be16 h 8)),
     DNS_RR_TTL = (\<lambda>h. int (be16 h 4 * 65536 + be16 h 6))\<rparr>"

theorem dns_parse_query_accepts_witness:
  "\<exists>st out. dns_parse_query rfc1035 [0x12, 0x34, 1, 0, 0, 1, 0, 0, 0, 0, 0, 0, 1, 0x61, 0, 0, 1, 0, 1]
     \<lparr>is_response = Some 7, type_out = Some 0, qid_out = Some 0, question_out = replicate 256 0,
      question_len = Some 0\<rparr> = Some (st, out)"
  using dns_parse_query_accepts [of "[0x12, 0x34, 1, 0, 0, 1, 0, 0, 0, 0, 0, 0, 1, 0x61, 0, 0, 1, 0, 1]"
      "\<lparr>is_response = Some 7, type_out = Some 0, qid_out = Some 0, question_out = replicate 256 0,
        question_len = Some 0\<rparr>" rfc1035]
  by (auto simp: DNS_NAME_MAX_LENGTH_def)

subsection \<open>The addresses of a reply\<close>

text \<open>\<open>address_record d abuf t n a\<close>: the \<open>n\<close> bytes \<open>a\<close> are the data of a record of the message of
  type \<open>t\<close> and class IN. \<open>addresses\<close> says so of the elements of an output array that are in use.\<close>

definition address_record :: "ares_dns \<Rightarrow> u8 list \<Rightarrow> int \<Rightarrow> nat \<Rightarrow> u8 list \<Rightarrow> bool" where
  "address_record d abuf t n a \<longleftrightarrow>
     (\<exists>p. p + RRFIXEDSZ + n \<le> length abuf \<and> a = load_bytes abuf (p + RRFIXEDSZ) n \<and>
        DNS_RR_CLASS d (load_bytes abuf p RRFIXEDSZ) = C_IN \<and>
        DNS_RR_TYPE d (load_bytes abuf p RRFIXEDSZ) = t \<and>
        DNS_RR_LEN d (load_bytes abuf p RRFIXEDSZ) = int n)"

definition addresses ::
  "ares_dns \<Rightarrow> u8 list \<Rightarrow> int \<Rightarrow> nat \<Rightarrow> int \<Rightarrow> int \<Rightarrow> u8 list list option \<Rightarrow> bool" where
  "addresses d abuf t n m k arr \<longleftrightarrow>
     0 \<le> k \<and> (0 < m \<longrightarrow> (\<exists>xs. arr = Some xs \<and> m \<le> int (length xs) \<and>
       (\<forall>i. int i < k \<longrightarrow> int i < m \<longrightarrow> address_record d abuf t n (xs ! i))))"

definition reply_inv :: "ares_dns \<Rightarrow> u8 list \<Rightarrow> int \<Rightarrow> int \<Rightarrow> u8 list \<Rightarrow> reply_state \<Rightarrow> bool" where
  "reply_inv d abuf m4 m6 host r \<longleftrightarrow>
     r_aptr r \<le> length abuf \<and> length (r_rr_name r) = DNS_NAME_MAX_LENGTH \<and>
     length (r_rr_data r) = DNS_NAME_MAX_LENGTH \<and> r_hostname_out r = host \<and> 0 \<in> set host \<and>
     (r_hostname_is_data r \<longrightarrow> 0 \<in> set (r_rr_data r)) \<and>
     addresses d abuf T_A 4 m4 (r_naddrs r) (r_in_addrs r) \<and>
     addresses d abuf T_AAAA 16 m6 (r_n6addrs r) (r_in6_addrs r)"

lemma reply_inv_updates [simp]:
  "reply_inv d abuf m4 m6 host (r\<lparr>r_status := st\<rparr>) = reply_inv d abuf m4 m6 host r"
  "reply_inv d abuf m4 m6 host (r\<lparr>r_naliases := k\<rparr>) = reply_inv d abuf m4 m6 host r"
  "reply_inv d abuf m4 m6 host (r\<lparr>r_cname_ttl := t\<rparr>) = reply_inv d abuf m4 m6 host r"
  by (simp_all add: reply_inv_def)

lemma addresses_count: "addresses d abuf t n m k arr \<Longrightarrow> m \<le> k \<Longrightarrow> addresses d abuf t n m (k + 1) arr"
  by (auto simp: addresses_def)

lemma addresses_store:
  assumes "addresses d abuf t n m k arr" and "k < m" and "p + RRFIXEDSZ + n \<le> length abuf"
    and "address_record d abuf t n (load_bytes abuf (p + RRFIXEDSZ) n)"
  shows "\<exists>arr'. store_addr abuf (p + RRFIXEDSZ) n k arr = Some arr' \<and> addresses d abuf t n m (k + 1) arr'"
proof -
  obtain xs where xs: "arr = Some xs" "m \<le> int (length xs)" and k: "0 \<le> k"
    and ok: "\<And>i. int i < k \<Longrightarrow> int i < m \<Longrightarrow> address_record d abuf t n (xs ! i)"
    using assms(1,2) by (auto simp: addresses_def)
  let ?xs = "xs[nat k := load_bytes abuf (p + RRFIXEDSZ) n]"
  have "store_addr abuf (p + RRFIXEDSZ) n k arr = Some (Some ?xs)"
    using assms(2,3) xs k by (simp add: store_addr_def section_at_def)
  moreover have "address_record d abuf t n (?xs ! i)" if "int i < k + 1" "int i < m" for i
    using that ok assms(2,4) xs(2) k by (cases "i = nat k") (simp_all add: nth_list_update)
  ultimately show ?thesis using xs k by (simp add: addresses_def)
qed

text \<open>A step of the loop that returns, keeps the invariant and leaves the pointer where it was.\<close>

definition reply_steps ::
  "(reply_state \<Rightarrow> bool) \<Rightarrow> nat \<Rightarrow> (bool \<times> reply_state) option \<Rightarrow> bool" where
  "reply_steps I p res \<longleftrightarrow> (\<exists>b r. res = Some (b, r) \<and> I r \<and> r_aptr r = p)"

lemma reply_steps_Some [simp]: "reply_steps I p (Some (b, r)) \<longleftrightarrow> I r \<and> r_aptr r = p"
  by (simp add: reply_steps_def)

lemma reply_a_steps:
  assumes "reply_inv d abuf m4 m6 host r" and "r_aptr r = p + RRFIXEDSZ" and "p + RRFIXEDSZ + 4 \<le> length abuf"
    and "address_record d abuf T_A 4 (load_bytes abuf (p + RRFIXEDSZ) 4)"
  shows "reply_steps (reply_inv d abuf m4 m6 host) (r_aptr r) (reply_a abuf m4 r)"
proof (cases "r_naddrs r < m4")
  case True
  have "addresses d abuf T_A 4 m4 (r_naddrs r) (r_in_addrs r)" using assms(1) by (simp add: reply_inv_def)
  from addresses_store [OF this True assms(3,4)] show ?thesis
    using assms True by (auto simp: reply_a_def reply_inv_def)
next
  case False
  then show ?thesis using assms addresses_count by (auto simp: reply_a_def reply_inv_def)
qed

lemma reply_aaaa_steps:
  assumes "reply_inv d abuf m4 m6 host r" and "r_aptr r = p + RRFIXEDSZ" and "p + RRFIXEDSZ + 16 \<le> length abuf"
    and "address_record d abuf T_AAAA 16 (load_bytes abuf (p + RRFIXEDSZ) 16)"
  shows "reply_steps (reply_inv d abuf m4 m6 host) (r_aptr r) (reply_aaaa abuf m6 r)"
proof (cases "r_n6addrs r < m6")
  case True
  have "addresses d abuf T_AAAA 16 m6 (r_n6addrs r) (r_in6_addrs r)" using assms(1) by (simp add: reply_inv_def)
  from addresses_store [OF this True assms(3,4)] show ?thesis
    using assms True by (auto simp: reply_aaaa_def reply_inv_def)
next
  case False
  then show ?thesis using assms addresses_count by (auto simp: reply_aaaa_def reply_inv_def)
qed

lemma expanded_buffer:
  assumes "length s = DNS_NAME_MAX_LENGTH" and "length (name_text ls) < DNS_NAME_MAX_LENGTH"
  shows "length (store_bytes s 0 (name_text ls @ [0])) = DNS_NAME_MAX_LENGTH"
    and "0 \<in> set (store_bytes s 0 (name_text ls @ [0]))"
  using assms by (simp_all add: store_bytes_def)

lemma reply_cname_steps:
  assumes "reply_inv d abuf m4 m6 host r" and "length abuf < 2 ^ 31"
  shows "reply_steps (reply_inv d abuf m4 m6 host) (r_aptr r) (reply_cname abuf ttl r)"
proof -
  have len: "length (r_rr_data r) = DNS_NAME_MAX_LENGTH" using assms(1) by (simp add: reply_inv_def)
  from maxlen_cases [OF assms(2) len, of "r_aptr r" 0 None] show ?thesis
    using assms(1) expanded_buffer [OF len]
    by (elim disjE exE conjE) (simp_all add: reply_cname_def reply_inv_def Let_def)
qed

lemma reply_address_steps:
  assumes inv: "reply_inv d abuf m4 m6 host r" and p: "r_aptr r = p + RRFIXEDSZ"
    and fit: "int (r_aptr r) + DNS_RR_LEN d f \<le> int (length abuf)" and f: "f = load_bytes abuf p RRFIXEDSZ"
    and name: "0 \<in> set (r_rr_name r)"
  shows "reply_steps (reply_inv d abuf m4 m6 host) (r_aptr r) (reply_address d abuf m4 m6 f r)"
proof -
  have "0 \<in> set (r_hostname r)" using inv by (simp add: reply_inv_def r_hostname_def)
  then obtain same where same: "strcasecmp_eq (r_rr_name r) (r_hostname r) = Some same"
    using name by (simp add: strcasecmp_eq_def c_string_def)
  have stay: "reply_steps (reply_inv d abuf m4 m6 host) (r_aptr r) (Some (True, r))"
    using inv by simp
  have A: "reply_steps (reply_inv d abuf m4 m6 host) (r_aptr r) (reply_a abuf m4 r)"
    if "DNS_RR_CLASS d f = C_IN" "DNS_RR_TYPE d f = T_A" "DNS_RR_LEN d f = 4"
    using that fit p f by (intro reply_a_steps [OF inv p]) (auto simp: address_record_def intro!: exI [of _ p])
  have B: "reply_steps (reply_inv d abuf m4 m6 host) (r_aptr r) (reply_aaaa abuf m6 r)"
    if "DNS_RR_CLASS d f = C_IN" "DNS_RR_TYPE d f = T_AAAA" "DNS_RR_LEN d f = 16"
    using that fit p f by (intro reply_aaaa_steps [OF inv p]) (auto simp: address_record_def intro!: exI [of _ p])
  show ?thesis using A B stay by (simp add: reply_address_def same)
qed

lemma reply_data_steps:
  assumes "reply_inv d abuf m4 m6 host r" and "r_aptr r = p + RRFIXEDSZ"
    and "int (r_aptr r) + DNS_RR_LEN d f \<le> int (length abuf)" and "f = load_bytes abuf p RRFIXEDSZ"
    and "0 \<in> set (r_rr_name r)" and "length abuf < 2 ^ 31"
  shows "reply_steps (reply_inv d abuf m4 m6 host) (r_aptr r) (reply_data d abuf m4 m6 f r)"
proof -
  obtain b r' where "reply_address d abuf m4 m6 f r = Some (b, r')"
    and "reply_inv d abuf m4 m6 host r'" "r_aptr r' = r_aptr r"
    using reply_address_steps [OF assms(1-5)] by (auto simp: reply_steps_def)
  then show ?thesis
    using reply_cname_steps [of d abuf m4 m6 host r'] assms(6)
    by (cases b) (simp_all add: reply_data_def)
qed

lemma reply_record_keeps:
  assumes inv: "reply_inv d abuf m4 m6 host r" and short: "length abuf < 2 ^ 31"
    and len: "\<And>f. 0 \<le> DNS_RR_LEN d f"
  shows "\<exists>b r'. reply_record d abuf m4 m6 r = Some (b, r') \<and> reply_inv d abuf m4 m6 host r'"
proof -
  have buf: "length (r_rr_name r) = DNS_NAME_MAX_LENGTH" using inv by (simp add: reply_inv_def)
  from maxlen_cases [OF short buf, of "r_aptr r" 0 None] show ?thesis
  proof (elim disjE exE conjE)
    fix st assume "st \<noteq> ARES_SUCCESS" and
      "dns_expand_name_maxlen abuf (r_aptr r) (r_rr_name r) 0 None = Some (st, r_rr_name r, 0, None)"
    then show ?thesis using inv by (auto simp: reply_record_def Let_def)
  next
    fix ls e
    let ?n = "store_bytes (r_rr_name r) 0 (name_text ls @ [0])" and ?p = "r_aptr r + e"
    let ?r = "r\<lparr>r_status := ARES_SUCCESS, r_rr_name := ?n, r_aptr := ?p + RRFIXEDSZ\<rparr>"
    let ?f = "load_bytes abuf ?p RRFIXEDSZ"
    assume e: "encoded_name abuf (r_aptr r) ls e" and t: "length (name_text ls) < DNS_NAME_MAX_LENGTH"
      and x: "dns_expand_name_maxlen abuf (r_aptr r) (r_rr_name r) 0 None
        = Some (ARES_SUCCESS, ?n, int e, map_option (\<lambda>_. int (length (name_text ls))) None)"
    have p: "?p \<le> length abuf" using e name_at_in_buffer by (auto simp: encoded_name_def)
    have n: "nat (int (r_aptr r) + int e) = ?p" by simp
    show ?thesis
    proof (cases "?p + RRFIXEDSZ \<le> length abuf \<and> int (?p + RRFIXEDSZ) + DNS_RR_LEN d ?f \<le> int (length abuf)")
      case True
      have "reply_inv d abuf m4 m6 host ?r" using inv True expanded_buffer [OF buf t] by (simp add: reply_inv_def)
      from reply_data_steps [OF this, of ?p ?f] obtain b r' where
        "reply_data d abuf m4 m6 ?f ?r = Some (b, r')" "reply_inv d abuf m4 m6 host r'" "r_aptr r' = r_aptr ?r"
        using True expanded_buffer [OF buf t] short by (auto simp: reply_steps_def)
      then show ?thesis
        using x n True len [of ?f]
        by (cases b) (auto simp: reply_record_def section_at_def Let_def reply_inv_def)
    next
      case False
      then show ?thesis
        using x n p inv expanded_buffer [OF buf t]
        by (auto simp: reply_record_def section_at_def Let_def reply_inv_def)
    qed
  qed
qed

lemma reply_loop_keeps:
  "reply_inv d abuf m4 m6 host r \<Longrightarrow> length abuf < 2 ^ 31 \<Longrightarrow> (\<And>f. 0 \<le> DNS_RR_LEN d f) \<Longrightarrow>
   \<exists>r'. reply_loop d abuf m4 m6 n r = Some r' \<and> reply_inv d abuf m4 m6 host r'"
proof (induction n arbitrary: r)
  case (Suc n)
  obtain b r' where "reply_record d abuf m4 m6 r = Some (b, r')" "reply_inv d abuf m4 m6 host r'"
    using reply_record_keeps [OF Suc.prems] by blast
  then show ?case using Suc.IH [of r'] Suc.prems by (cases b) simp_all
qed simp

text \<open>What a caller can rely on of an output array of \<open>m\<close> elements: \<open>num\<close> of them are in use.\<close>

definition addresses_out ::
  "ares_dns \<Rightarrow> u8 list \<Rightarrow> int \<Rightarrow> nat \<Rightarrow> nat \<Rightarrow> u8 list list option \<Rightarrow> int option \<Rightarrow> bool" where
  "addresses_out d abuf t n m arr num \<longleftrightarrow>
     (\<exists>k. num = Some (int k) \<and> k \<le> m \<and>
        (\<forall>i < k. \<exists>xs. arr = Some xs \<and> i < length xs \<and> address_record d abuf t n (xs ! i)))"

lemma addresses_outI:
  assumes "addresses d abuf t n (int m) k arr"
  shows "addresses_out d abuf t n m arr (Some (if k < int m then k else int m))"
proof -
  have k: "0 \<le> k" using assms by (simp add: addresses_def)
  have "\<exists>xs. arr = Some xs \<and> i < length xs \<and> address_record d abuf t n (xs ! i)"
    if "int i < k" "int i < int m" for i
    using assms that by (auto simp: addresses_def)
  then show ?thesis
    using k unfolding addresses_out_def by (intro exI [of _ "if k < int m then nat k else m"]) auto
qed

lemma reply_start:
  assumes "length name = DNS_NAME_MAX_LENGTH" and "length data = DNS_NAME_MAX_LENGTH" and "0 \<in> set host"
    and "p \<le> length abuf"
  shows "reply_inv d abuf (int (length a4)) (int (length a6)) host
    \<lparr>r_aptr = p, r_status = st, r_hostname_out = host, r_hostname_is_data = False, r_rr_name = name,
     r_rr_data = data, r_naddrs = 0, r_n6addrs = 0, r_naliases = 0, r_cname_ttl = ttl,
     r_in_addrs = Some a4, r_in6_addrs = Some a6\<rparr>"
  using assms by (simp add: reply_inv_def addresses_def)

definition reply_ok :: "ares_dns \<Rightarrow> u8 list \<Rightarrow> nat \<Rightarrow> nat \<Rightarrow> (cint \<times> reply_out) option \<Rightarrow> bool" where
  "reply_ok d abuf n4 n6 res \<longleftrightarrow> (\<exists>st out'. res = Some (st, out') \<and>
     addresses_out d abuf T_A 4 n4 (in_addrs_out out') (num_in_addrs out') \<and>
     addresses_out d abuf T_AAAA 16 n6 (in6_addrs_out out') (num_in6_addrs out'))"

lemma reply_ok_none:
  "num_in_addrs out = Some 0 \<Longrightarrow> num_in6_addrs out = Some 0 \<Longrightarrow> reply_ok d abuf n4 n6 (Some (st, out))"
  by (simp add: reply_ok_def addresses_out_def)

lemma reply_answers_ok:
  assumes "reply_inv d abuf (int n4) (int n6) host (r\<lparr>r_aptr := p\<rparr>)" and "length abuf < 2 ^ 31"
    and "\<And>f. 0 \<le> DNS_RR_LEN d f" and "num_in_addrs out = Some a" and "num_in6_addrs out = Some b"
  shows "reply_ok d abuf n4 n6 (reply_answers d abuf h (int n4) (int n6) p out r)"
proof -
  obtain r' where "reply_loop d abuf (int n4) (int n6) (nat (sint (DNS_HEADER_ANCOUNT d h))) (r\<lparr>r_aptr := p\<rparr>) = Some r'"
    and "reply_inv d abuf (int n4) (int n6) host r'" using reply_loop_keeps [OF assms(1-3)] by blast
  then show ?thesis
    using addresses_outI assms(4,5) by (simp add: reply_answers_def reply_ok_def reply_inv_def)
qed

lemma reply_parse_ok:
  assumes "length abuf < 2 ^ 31" and "\<forall>f. 0 \<le> DNS_RR_LEN d f"
    and "length name = DNS_NAME_MAX_LENGTH" and "length data = DNS_NAME_MAX_LENGTH"
    and "length (hostname_out out) = DNS_NAME_MAX_LENGTH"
    and "in_addrs_out out = Some a4" and "num_in_addrs out = Some (int (length a4))"
    and "in6_addrs_out out = Some a6" and "num_in6_addrs out = Some (int (length a6))"
  shows "reply_ok d abuf (length a4) (length a6) (dns_parse_a_aaaa_reply d name data abuf out)"
proof -
  let ?out = "out\<lparr>num_in_addrs := Some 0, num_in6_addrs := Some 0\<rparr>"
  let ?h = "load_bytes abuf 0 HFIXEDSZ"
  have none: "reply_ok d abuf (length a4) (length a6) (Some (st, ?out\<lparr>hostname_out := x, hostname_len := y\<rparr>))"
    "reply_ok d abuf (length a4) (length a6) (Some (st, ?out))" for st x y
    by (simp_all add: reply_ok_none)
  from maxlen_cases [OF assms(1,5), of HFIXEDSZ 0 "hostname_len out"] show ?thesis
  proof (elim disjE exE conjE)
    fix ls e
    let ?host = "store_bytes (hostname_out out) 0 (name_text ls @ [0])"
    let ?p = "HFIXEDSZ + e + QFIXEDSZ"
    assume t: "length (name_text ls) < DNS_NAME_MAX_LENGTH" and x: "dns_expand_name_maxlen abuf HFIXEDSZ (hostname_out out) 0
      (hostname_len out) = Some (ARES_SUCCESS, ?host, int e, map_option (\<lambda>_. int (length (name_text ls))) (hostname_len out))"
    have n: "nat (int HFIXEDSZ + int e + int QFIXEDSZ) = ?p" by simp
    show ?thesis
    proof (cases "?p \<le> length abuf")
      case True
      show ?thesis
        using none x n True assms reply_start [OF assms(3,4) expanded_buffer(2) [OF assms(5) t] True]
        by (auto simp: dns_parse_a_aaaa_reply_def Let_def section_at_def max_addrs_def intro!: reply_answers_ok)
    qed (use none x assms in \<open>auto simp: dns_parse_a_aaaa_reply_def Let_def section_at_def max_addrs_def\<close>)
  qed (use none assms in \<open>auto simp: dns_parse_a_aaaa_reply_def Let_def section_at_def max_addrs_def\<close>)
qed

text \<open>
  C34. Parsing a message as a reply always returns, for every message of less than 2 GiB and every
  length field, without leaving the message, the name buffers or the address arrays. The counts it
  leaves are at most the sizes of the arrays it was given, and every counted IPv4 (IPv6) address is
  the four (sixteen) data bytes of an A (AAAA) record of class IN of the message.
\<close>

theorem dns_reply_addresses:
  assumes "length abuf < 2 ^ 31" and "\<forall>f. 0 \<le> DNS_RR_LEN d f"
    and "length name = DNS_NAME_MAX_LENGTH" and "length data = DNS_NAME_MAX_LENGTH"
    and "length (hostname_out out) = DNS_NAME_MAX_LENGTH"
    and "in_addrs_out out = Some a4" and "num_in_addrs out = Some (int (length a4))"
    and "in6_addrs_out out = Some a6" and "num_in6_addrs out = Some (int (length a6))"
  shows "\<exists>st out'. dns_parse_a_aaaa_reply d name data abuf out = Some (st, out') \<and>
    addresses_out d abuf T_A 4 (length a4) (in_addrs_out out') (num_in_addrs out') \<and>
    addresses_out d abuf T_AAAA 16 (length a6) (in6_addrs_out out') (num_in6_addrs out')"
  using reply_parse_ok [OF assms] by (simp add: reply_ok_def)

lemma rfc1035_rr_len: "0 \<le> DNS_RR_LEN rfc1035 f"
  by (simp add: rfc1035_def)

theorem dns_reply_addresses_witness:
  "\<exists>st out'. dns_parse_a_aaaa_reply rfc1035 (replicate 256 0) (replicate 256 0)
     [0x12, 0x34, 0x81, 0, 0, 1, 0, 1, 0, 0, 0, 0, 1, 0x61, 0, 0, 1, 0, 1,
      0xc0, 12, 0, 1, 0, 1, 0, 0, 0, 60, 0, 4, 10, 0, 0, 1]
     \<lparr>hostname_out = replicate 256 0, hostname_len = Some 0, in_addrs_out = Some [[]],
      num_in_addrs = Some 1, in6_addrs_out = Some [], num_in6_addrs = Some 0\<rparr> = Some (st, out') \<and>
     addresses_out rfc1035
       [0x12, 0x34, 0x81, 0, 0, 1, 0, 1, 0, 0, 0, 0, 1, 0x61, 0, 0, 1, 0, 1,
        0xc0, 12, 0, 1, 0, 1, 0, 0, 0, 60, 0, 4, 10, 0, 0, 1] T_A 4 1 (in_addrs_out out') (num_in_addrs out')"
  using dns_reply_addresses [of "[0x12, 0x34, 0x81, 0, 0, 1, 0, 1, 0, 0, 0, 0, 1, 0x61, 0, 0, 1, 0, 1,
      0xc0, 12, 0, 1, 0, 1, 0, 0, 0, 60, 0, 4, 10, 0, 0, 1]" rfc1035 "replicate 256 0" "replicate 256 0"
      "\<lparr>hostname_out = replicate 256 0, hostname_len = Some 0, in_addrs_out = Some [[]],
        num_in_addrs = Some 1, in6_addrs_out = Some [], num_in6_addrs = Some 0\<rparr>" "[[]]" "[]"]
  by (auto simp: DNS_NAME_MAX_LENGTH_def rfc1035_rr_len)

end
