(* ===== verification/Iterable_Bitmap.thy ===== *)
theory Iterable_Bitmap
  imports Prelude
begin

unbundle bit_operations_syntax

text \<open>
  The multi-level bitmap \<^verbatim>\<open>src/util/iterable_bitmap.h\<close>: up to \<open>2\<^sup>3\<^sup>0\<close> bits with summary levels, each bit
  of a level saying whether a 64-bit word of the level below has a bit set, and an iterator that
  visits the set bits in ascending order, skipping the empty words.

  The arrays \<open>mask0\<close>\<dots>\<open>mask4\<close> are the list \<open>masks\<close> of five lists of words (an unused level is
  empty), the members \<open>i\<close> and \<open>mask\<close> of an iterator functions of the level. The nested conditionals
  of \<open>operator++\<close> repeat the same code for one level after the other; \<open>advance\<close> is that code for
  level \<open>k\<close>, and likewise \<open>descend\<close> for \<open>begin()\<close>. Indices are at most \<open>2\<^sup>3\<^sup>0\<close>, so that the \<open>int\<close> and
  \<open>size_t\<close> arithmetic on them is exact and they are natural numbers.

  The invariant \<open>ib_wf\<close> says that the summary levels are exact. \<open>set\<close> and \<open>clear\<close> keep it, and under
  it the loop over the bitmap ends and yields exactly the set bits, each once, in ascending order.
\<close>

subsection \<open>Levels\<close>

text \<open>\<open>level_words sz k\<close> is the constant \<open>l0\<close>\<dots>\<open>l4\<close>.\<close>

fun level_words :: "nat \<Rightarrow> nat \<Rightarrow> nat" where
  "level_words sz 0 = (sz + 63) div 64"
| "level_words sz (Suc k) = (if level_words sz k = 1 then 0 else (level_words sz k + 63) div 64)"

definition levels :: "nat \<Rightarrow> nat" where
  "levels sz =
     (if level_words sz 4 > 0 then 5
      else if level_words sz 3 > 0 then 4
      else if level_words sz 2 > 0 then 3
      else if level_words sz 1 > 0 then 2 else 1)"

subsection \<open>Words of bits\<close>

record iterable_bitmap =
  ib_size :: nat
  masks :: "u64 list list"

definition set_bit64 :: "nat \<Rightarrow> u64 list \<Rightarrow> u64 list" where
  "set_bit64 nr addr = addr[nr div 64 := addr ! (nr div 64) OR push_bit (nr mod 64) 1]"

definition clear_bit64 :: "nat \<Rightarrow> u64 list \<Rightarrow> u64 list" where
  "clear_bit64 nr addr = addr[nr div 64 := addr ! (nr div 64) AND NOT (push_bit (nr mod 64) 1)]"

definition test_bit :: "nat \<Rightarrow> u64 list \<Rightarrow> bool" where
  "test_bit nr addr \<longleftrightarrow> bit (addr ! (nr div 64)) (nr mod 64)"

text \<open>\<open>__builtin_ctzll\<close>, the number of trailing zero bits of a word other than 0.\<close>

definition ctzll :: "u64 \<Rightarrow> nat" where
  "ctzll m = hd (filter (bit m) [0..<64])"

subsection \<open>The bitmap\<close>

definition bitmap_empty :: "nat \<Rightarrow> iterable_bitmap" where
  "bitmap_empty sz = \<lparr>ib_size = sz, masks = map (\<lambda>k. replicate (level_words sz k) 0) [0..<5]\<rparr>"

definition set_level :: "nat \<Rightarrow> nat \<Rightarrow> iterable_bitmap \<Rightarrow> iterable_bitmap" where
  "set_level index k b =
     (if level_words (ib_size b) k > 0
      then b\<lparr>masks := (masks b)[k := set_bit64 (index div 64 ^ k) (masks b ! k)]\<rparr> else b)"

definition bitmap_set :: "nat \<Rightarrow> iterable_bitmap \<Rightarrow> iterable_bitmap" where
  "bitmap_set index b = set_level index 4 (set_level index 3 (set_level index 2 (set_level index 1
     (set_level index 0 b))))"

definition clear_level :: "nat \<Rightarrow> nat \<Rightarrow> iterable_bitmap \<Rightarrow> iterable_bitmap" where
  "clear_level index k b =
     (if level_words (ib_size b) k > 0 \<and> masks b ! (k - 1) ! (index div 64 ^ k) = 0
      then b\<lparr>masks := (masks b)[k := clear_bit64 (index div 64 ^ k) (masks b ! k)]\<rparr> else b)"

definition bitmap_clear :: "nat \<Rightarrow> iterable_bitmap \<Rightarrow> iterable_bitmap" where
  "bitmap_clear index b = clear_level index 4 (clear_level index 3 (clear_level index 2 (clear_level index 1
     (b\<lparr>masks := (masks b)[0 := clear_bit64 index (masks b ! 0)]\<rparr>))))"

definition bitmap_get :: "nat \<Rightarrow> iterable_bitmap \<Rightarrow> bool" where
  "bitmap_get index b = test_bit index (masks b ! 0)"

subsection \<open>The iterator\<close>

record bitmap_iterator =
  it_i :: "nat \<Rightarrow> nat"
  it_mask :: "nat \<Rightarrow> u64"

text \<open>The three assignments that enter the word of level \<open>k - 1\<close> selected by the lowest bit of
  \<open>mask[k]\<close>, and the word index they compute.\<close>

definition word_index :: "iterable_bitmap \<Rightarrow> nat \<Rightarrow> bitmap_iterator \<Rightarrow> nat" where
  "word_index b k it = ctzll (it_mask it k) + (if level_words (ib_size b) (k + 1) > 0 then it_i it (k + 1) else 0)"

definition enter_word :: "iterable_bitmap \<Rightarrow> nat \<Rightarrow> bitmap_iterator \<Rightarrow> bitmap_iterator" where
  "enter_word b k it =
     (let w = word_index b k it
      in it\<lparr>it_mask := (it_mask it)(k - 1 := masks b ! (k - 1) ! w), it_i := (it_i it)(k := push_bit 6 w)\<rparr>)"

text \<open>\<open>advance\<close> returns whether the iterator has reached the end (the early returns).\<close>

function advance :: "iterable_bitmap \<Rightarrow> nat \<Rightarrow> bitmap_iterator \<Rightarrow> bool \<times> bitmap_iterator" where
  "advance b k it =
     (let it = it\<lparr>it_mask := (it_mask it)(k := it_mask it k AND (it_mask it k - 1))\<rparr>
      in if it_mask it k = 0 then
           (if k \<ge> 4 \<or> levels (ib_size b) = k + 1 then (True, it)
            else
              (case advance b (k + 1) it of
                 (True, it) \<Rightarrow> (True, it)
               | (False, it) \<Rightarrow> (False, enter_word b (k + 1) it)))
         else (False, it))"
  by pat_completeness auto
termination by (relation "measure (\<lambda>(b, k, it). 4 - k)") auto

declare advance.simps [simp del]

definition iterator_next :: "iterable_bitmap \<Rightarrow> bitmap_iterator \<Rightarrow> bitmap_iterator" where
  "iterator_next b it =
     (case advance b 0 it of
        (True, it) \<Rightarrow> it
      | (False, it) \<Rightarrow> it\<lparr>it_i := (it_i it)(0 := word_index b 0 it)\<rparr>)"

text \<open>The members of an iterator are uninitialised; here they start as 0.\<close>

fun descend :: "iterable_bitmap \<Rightarrow> nat \<Rightarrow> bitmap_iterator \<Rightarrow> bitmap_iterator" where
  "descend b 0 it = it\<lparr>it_i := (it_i it)(0 := word_index b 0 it)\<rparr>"
| "descend b (Suc k) it =
     descend b k (if level_words (ib_size b) (Suc k) > 0 then enter_word b (Suc k) it else it)"

definition bitmap_begin :: "iterable_bitmap \<Rightarrow> bitmap_iterator" where
  "bitmap_begin b =
     (let top = levels (ib_size b) - 1;
          root = masks b ! top ! 0;
          res = \<lparr>it_i = (\<lambda>_. 0), it_mask = (\<lambda>_. 0)(top := root)\<rparr>
      in if root = 0 then res else descend b 4 res)"

text \<open>\<open>operator!=\<close> with \<open>end()\<close>, and the indices that a loop over the bitmap visits.\<close>

definition iterator_more :: "iterable_bitmap \<Rightarrow> bitmap_iterator \<Rightarrow> bool" where
  "iterator_more b it \<longleftrightarrow> it_mask it (levels (ib_size b) - 1) \<noteq> 0"

partial_function (option) bitmap_loop :: "iterable_bitmap \<Rightarrow> bitmap_iterator \<Rightarrow> nat list option" where
  "bitmap_loop b it =
     (if iterator_more b it
      then Option.bind (bitmap_loop b (iterator_next b it)) (\<lambda>rest. Some (it_i it 0 # rest))
      else Some [])"

subsection \<open>Bits of a word\<close>

lemma word_nonzero_iff: "m \<noteq> 0 \<longleftrightarrow> (\<exists>i < 64. bit m i)" for m :: u64
  using bit_imp_le_length [of m] by (auto simp: bit_eq_iff)

definition word_bits :: "u64 \<Rightarrow> nat list" where
  "word_bits m = filter (bit m) [0..<64]"

lemma word_bits_Nil: "word_bits m = [] \<longleftrightarrow> m = 0"
  using word_nonzero_iff [of m] by (auto simp: word_bits_def filter_empty_conv)

lemma word_bits_0 [simp]: "word_bits 0 = []"
  by (simp add: word_bits_Nil)

lemma ctzll_hd: "ctzll m = hd (word_bits m)"
  by (simp add: ctzll_def word_bits_def)

lemma lowest_bit_split:
  fixes m :: u64
  assumes "bit m c" and "\<And>i. i < c \<Longrightarrow> \<not> bit m i"
  shows "bit (m AND (m - 1)) i \<longleftrightarrow> bit m i \<and> i \<noteq> c"
proof -
  define h where "h = unset_bit c m"
  have c: "c < 64" using assms(1) bit_imp_le_length by fastforce
  have "h AND push_bit c 1 = 0"
    by (rule bit_eqI) (auto simp: h_def bit_simps)
  then have "m = h + push_bit c 1"
    using assms(1) c
    by (subst disjunctive_add_eq_or) (auto simp: h_def bit_simps intro!: bit_eqI)
  moreover have "push_bit c 1 = mask c + (1 :: u64)" by (simp add: mask_eq_exp_minus_1)
  ultimately have "m - 1 = h + mask c" by simp
  moreover have "h AND mask c = 0"
    using assms(2) by (intro bit_eqI) (auto simp: h_def bit_simps)
  ultimately have m1: "m - 1 = h OR mask c" by (simp add: disjunctive_add_eq_or)
  show ?thesis
    unfolding m1 using assms by (auto simp: h_def bit_simps)
qed

lemma word_bits_clear_lowest: "word_bits (m AND (m - 1)) = tl (word_bits m)"
proof (cases "m = 0")
  case False
  define c where "c = (LEAST i. bit m i)"
  have c: "bit m c" "\<And>i. i < c \<Longrightarrow> \<not> bit m i"
    using word_nonzero_iff [of m] False unfolding c_def by (auto intro: LeastI dest: not_less_Least)
  then have "c < 64" using bit_imp_le_length by fastforce
  then have split: "[0..<64] = [0..<c] @ c # [Suc c..<64]"
    by (metis less_imp_le_nat upt_conv_Cons upt_add_eq_append le_add_diff_inverse le0 plus_nat.add_0)
  have low: "filter (bit m) [0..<c] = []" using c(2) by (simp add: filter_empty_conv)
  show ?thesis
    unfolding word_bits_def split
    using c low lowest_bit_split [OF c] by (auto simp: filter_empty_conv intro!: filter_cong)
qed simp

subsection \<open>The words of the levels\<close>

lemma level_words_down: "0 < level_words sz (Suc k) \<Longrightarrow> 1 < level_words sz k"
  by (cases "level_words sz k") (auto split: if_splits)

lemma level_words_cover: "1 < level_words sz k \<Longrightarrow> level_words sz k \<le> 64 * level_words sz (Suc k)"
  by simp

lemma level_words_up: "1 < level_words sz k \<Longrightarrow> 0 < level_words sz (Suc k)"
  by simp

lemma level_words_bound: "sz \<le> 2 ^ 30 \<Longrightarrow> k \<le> 4 \<Longrightarrow> level_words sz k \<le> 64 ^ (4 - k)"
proof (induction k)
  case (Suc k)
  have "64 ^ (4 - k) = (64 :: nat) * 64 ^ (4 - Suc k)"
    using Suc.prems by (metis Suc_diff_le diff_Suc_Suc power_Suc)
  then have "level_words sz k \<le> 64 * 64 ^ (4 - Suc k)" using Suc by simp
  then show ?case by auto
qed auto

definition size_ok :: "nat \<Rightarrow> bool" where
  "size_ok sz \<longleftrightarrow> 0 < sz \<and> sz \<le> 2 ^ 30"

lemma level_words_4: "size_ok sz \<Longrightarrow> level_words sz 4 \<le> 1"
  using level_words_bound [of sz 4] by (simp add: size_ok_def)

lemma level_words_0: "size_ok sz \<Longrightarrow> 0 < level_words sz 0"
  by (auto simp: size_ok_def div_greater_zero_iff)

declare level_words.simps [simp del]

lemma levels_iff:
  assumes "size_ok sz" and "k \<le> 4"
  shows "k < levels sz \<longleftrightarrow> 0 < level_words sz k"
proof -
  have "k = 0 \<or> k = 1 \<or> k = 2 \<or> k = 3 \<or> k = 4" using assms(2) by auto
  moreover have "0 < level_words sz 4 \<Longrightarrow> 0 < level_words sz 3" "0 < level_words sz 3 \<Longrightarrow> 0 < level_words sz 2"
    "0 < level_words sz 2 \<Longrightarrow> 0 < level_words sz 1"
    using level_words_down [of sz 3] level_words_down [of sz 2] level_words_down [of sz 1]
    by (auto simp: numeral_eq_Suc)
  ultimately show ?thesis
    using level_words_0 [OF assms(1)] unfolding levels_def by (elim disjE) auto
qed

lemma levels_range: "1 \<le> levels sz" "levels sz \<le> 5"
  by (auto simp: levels_def)

lemma top_word:
  assumes "size_ok sz"
  shows "level_words sz (levels sz - 1) = 1"
proof -
  let ?t = "levels sz - 1"
  have pos: "0 < level_words sz ?t" using levels_iff [OF assms, of ?t] levels_range [of sz] by simp
  have "level_words sz ?t \<le> 1"
  proof (cases "?t = 4")
    case False
    then have "\<not> 0 < level_words sz (Suc ?t)" using levels_iff [OF assms, of "Suc ?t"] levels_range [of sz] by simp
    then show ?thesis using level_words_up [of sz ?t] by linarith
  qed (use level_words_4 [OF assms] in simp)
  then show ?thesis using pos by linarith
qed

subsection \<open>The bitmap as a set\<close>

definition in_level :: "iterable_bitmap \<Rightarrow> nat \<Rightarrow> nat \<Rightarrow> bool" where
  "in_level b k n \<longleftrightarrow> n div 64 < length (masks b ! k) \<and> bit (masks b ! k ! (n div 64)) (n mod 64)"

text \<open>\<open>ib_upto b j S T\<close>: the levels below \<open>j\<close> are those of the set \<open>S\<close>, the others those of \<open>T\<close>.\<close>

definition ib_shape :: "iterable_bitmap \<Rightarrow> bool" where
  "ib_shape b \<longleftrightarrow> size_ok (ib_size b) \<and> length (masks b) = 5 \<and>
     (\<forall>k < 5. length (masks b ! k) = level_words (ib_size b) k)"

definition ib_upto :: "iterable_bitmap \<Rightarrow> nat \<Rightarrow> nat set \<Rightarrow> nat set \<Rightarrow> bool" where
  "ib_upto b j S T \<longleftrightarrow> ib_shape b \<and> S \<subseteq> {..<ib_size b} \<and> T \<subseteq> {..<ib_size b} \<and>
     (\<forall>k < levels (ib_size b). \<forall>n. in_level b k n \<longleftrightarrow> (\<exists>s \<in> (if k < j then S else T). n = s div 64 ^ k))"

definition ib_rep :: "iterable_bitmap \<Rightarrow> nat set \<Rightarrow> bool" where
  "ib_rep b S \<longleftrightarrow> ib_upto b 0 S S"

lemma level_index:
  assumes "size_ok sz" and "s < sz" and "k < levels sz"
  shows "s div 64 ^ k div 64 < level_words sz k"
  using assms(3)
proof (induction k)
  case 0
  then show ?case using assms(2) by (auto simp: level_words.simps)
next
  case (Suc k)
  have k: "Suc k \<le> 4" using Suc.prems levels_range [of sz] by simp
  have "0 < level_words sz (Suc k)" using levels_iff [OF assms(1) k] Suc.prems by simp
  then have "level_words sz k \<le> 64 * level_words sz (Suc k)"
    using level_words_down level_words_cover by blast
  moreover have "s div 64 ^ k div 64 < level_words sz k" using Suc by simp
  moreover have "s div 64 ^ Suc k = s div 64 ^ k div 64" by (simp only: power_Suc2 div_mult2_eq)
  ultimately show ?case by simp
qed

lemma word_zero_iff:
  assumes "w < length (masks b ! k)"
  shows "masks b ! k ! w \<noteq> 0 \<longleftrightarrow> (\<exists>n. in_level b k n \<and> n div 64 = w)"
proof
  assume "masks b ! k ! w \<noteq> 0"
  then obtain i where "i < 64" "bit (masks b ! k ! w) i" using word_nonzero_iff by blast
  then have "in_level b k (64 * w + i) \<and> (64 * w + i) div 64 = w" using assms by (simp add: in_level_def)
  then show "\<exists>n. in_level b k n \<and> n div 64 = w" by blast
next
  assume "\<exists>n. in_level b k n \<and> n div 64 = w"
  then show "masks b ! k ! w \<noteq> 0" by (auto simp: in_level_def)
qed

lemma in_level_set_bit:
  assumes "k < length (masks b)" and "nr div 64 < length (masks b ! k)"
  shows "in_level (b\<lparr>masks := (masks b)[k := set_bit64 nr (masks b ! k)]\<rparr>) j n \<longleftrightarrow>
    in_level b j n \<or> j = k \<and> n = nr"
proof -
  have "n div 64 = nr div 64 \<Longrightarrow> n mod 64 = nr mod 64 \<Longrightarrow> n = nr" by (metis div_mult_mod_eq)
  then show ?thesis
    using assms by (auto simp: in_level_def set_bit64_def nth_list_update bit_simps split: if_splits)
qed

lemma in_level_clear_bit:
  assumes "k < length (masks b)" and "nr div 64 < length (masks b ! k)"
  shows "in_level (b\<lparr>masks := (masks b)[k := clear_bit64 nr (masks b ! k)]\<rparr>) j n \<longleftrightarrow>
    in_level b j n \<and> \<not> (j = k \<and> n = nr)"
proof -
  have "n div 64 = nr div 64 \<Longrightarrow> n mod 64 = nr mod 64 \<Longrightarrow> n = nr" by (metis div_mult_mod_eq)
  then show ?thesis
    using assms by (auto simp: in_level_def clear_bit64_def nth_list_update bit_simps split: if_splits)
qed

lemma ib_shape_update:
  "ib_shape b \<Longrightarrow> length xs = length (masks b ! k) \<Longrightarrow> ib_shape (b\<lparr>masks := (masks b)[k := xs]\<rparr>)"
  by (cases "k < 5") (auto simp: ib_shape_def nth_list_update)

lemma length_bit64 [simp]:
  "length (set_bit64 nr xs) = length xs" "length (clear_bit64 nr xs) = length xs"
  by (simp_all add: set_bit64_def clear_bit64_def)

lemma set_level_upto:
  assumes "ib_upto b k (insert s S) S" and "s < ib_size b" and "k < 5"
  shows "ib_upto (set_level s k b) (Suc k) (insert s S) S" and "ib_size (set_level s k b) = ib_size b"
proof -
  show "ib_size (set_level s k b) = ib_size b" by (simp add: set_level_def)
  have shape: "ib_shape b" and ok: "size_ok (ib_size b)" using assms(1) by (auto simp: ib_upto_def ib_shape_def)
  have used: "0 < level_words (ib_size b) k \<longleftrightarrow> k < levels (ib_size b)" using levels_iff [OF ok, of k] assms(3) by simp
  show "ib_upto (set_level s k b) (Suc k) (insert s S) S"
  proof (cases "k < levels (ib_size b)")
    case True
    have "s div 64 ^ k div 64 < length (masks b ! k)" and "k < length (masks b)"
      using level_index [OF ok assms(2) True] shape assms(3) by (simp_all add: ib_shape_def)
    then show ?thesis
      using True used assms(1) ib_shape_update [OF shape]
      by (auto simp: set_level_def ib_upto_def in_level_set_bit less_Suc_eq)
  next
    case False
    then show ?thesis using used assms(1) by (auto simp: set_level_def ib_upto_def)
  qed
qed

lemma ib_upto_all: "ib_upto b 5 S T \<Longrightarrow> ib_rep b S"
  using levels_range(2) [of "ib_size b"] by (auto simp: ib_rep_def ib_upto_def)

lemma bitmap_set_rep:
  assumes "ib_rep b S" and "s < ib_size b"
  shows "ib_rep (bitmap_set s b) (insert s S)"
proof -
  have 0: "ib_upto b 0 (insert s S) S" using assms by (auto simp: ib_rep_def ib_upto_def)
  note step = set_level_upto
  note 1 = step [OF 0]
  note 2 = step [OF 1(1)]
  note 3 = step [OF 2(1)]
  note 4 = step [OF 3(1)]
  note 5 = step [OF 4(1)]
  show ?thesis
    using 1 2 3 4 5 assms(2) unfolding bitmap_set_def
    by (intro ib_upto_all [of _ _ S]) (simp add: numeral_eq_Suc)
qed

lemma clear_level_upto:
  assumes "ib_upto b (Suc k) (S - {s}) S" and "s < ib_size b" and "k < 4"
  shows "ib_upto (clear_level s (Suc k) b) (Suc (Suc k)) (S - {s}) S"
    and "ib_size (clear_level s (Suc k) b) = ib_size b"
proof -
  show "ib_size (clear_level s (Suc k) b) = ib_size b" by (simp add: clear_level_def)
  let ?w = "s div 64 ^ Suc k" and ?L = "levels (ib_size b)"
  have shape: "ib_shape b" and ok: "size_ok (ib_size b)" using assms(1) by (auto simp: ib_upto_def ib_shape_def)
  have used: "0 < level_words (ib_size b) (Suc k) \<longleftrightarrow> Suc k < ?L" using levels_iff [OF ok, of "Suc k"] assms(3) by simp
  have step: "s' div 64 ^ Suc k = s' div 64 ^ k div 64" for s' :: nat by (simp only: power_Suc2 div_mult2_eq)
  show "ib_upto (clear_level s (Suc k) b) (Suc (Suc k)) (S - {s}) S"
  proof (cases "Suc k < ?L")
    case True
    have w: "?w div 64 < length (masks b ! Suc k)" "Suc k < length (masks b)"
      using level_index [OF ok assms(2) True] shape assms(3) by (simp_all add: ib_shape_def)
    have "?w < length (masks b ! k)"
      using level_index [OF ok assms(2), of k] True shape assms(3) step by (simp add: ib_shape_def)
    then have nz: "masks b ! k ! ?w \<noteq> 0 \<longleftrightarrow> (\<exists>s' \<in> S - {s}. s' div 64 ^ Suc k = ?w)"
      using word_zero_iff [of ?w b k] assms(1) True unfolding step by (auto simp: ib_upto_def)
    show ?thesis
    proof (cases "masks b ! k ! ?w = 0")
      case zero: True
      then show ?thesis
        using nz True used assms(1) ib_shape_update [OF shape] in_level_clear_bit [OF w(2,1)]
        by (auto simp: clear_level_def ib_upto_def less_Suc_eq)
    next
      case False
      then obtain s' where s': "s' \<in> S - {s}" "s' div 64 ^ Suc k = ?w" using nz by blast
      have "(\<exists>t \<in> S. n = t div 64 ^ Suc k) \<longleftrightarrow> (\<exists>t \<in> S - {s}. n = t div 64 ^ Suc k)" for n
        using s' by (metis Diff_iff singletonD)
      then have "ib_upto b (Suc (Suc k)) (S - {s}) S"
        using assms(1) unfolding ib_upto_def by (simp add: less_Suc_eq del: power_Suc)
      then show ?thesis using False by (simp add: clear_level_def del: power_Suc)
    qed
  next
    case False
    then show ?thesis using used assms(1) by (auto simp: clear_level_def ib_upto_def)
  qed
qed

lemma bitmap_clear_rep:
  assumes "ib_rep b S" and "s < ib_size b"
  shows "ib_rep (bitmap_clear s b) (S - {s})"
proof -
  let ?b = "b\<lparr>masks := (masks b)[0 := clear_bit64 s (masks b ! 0)]\<rparr>"
  have shape: "ib_shape b" and ok: "size_ok (ib_size b)" using assms(1) by (auto simp: ib_rep_def ib_upto_def ib_shape_def)
  have "0 < length (masks b)" "s div 64 < length (masks b ! 0)"
    using level_index [OF ok assms(2), of 0] levels_range [of "ib_size b"] shape by (simp_all add: ib_shape_def)
  note bit = in_level_clear_bit [OF this]
  have 0: "ib_upto ?b (Suc 0) (S - {s}) S"
    using assms(1) ib_shape_update [OF shape] unfolding ib_rep_def ib_upto_def by (simp add: bit) auto
  have size: "ib_size ?b = ib_size b" by simp
  note step = clear_level_upto
  note 1 = step [OF 0]
  note 2 = step [OF 1(1)]
  note 3 = step [OF 2(1)]
  note 4 = step [OF 3(1)]
  show ?thesis
    using 1 2 3 4 assms(2) unfolding bitmap_clear_def
    by (intro ib_upto_all [of _ _ S]) (simp add: numeral_eq_Suc)
qed

subsection \<open>The lists that the iterator walks\<close>

definition bits_from :: "u64 \<Rightarrow> nat \<Rightarrow> nat list" where
  "bits_from m base = map ((+) base) (word_bits m)"

definition words_list :: "iterable_bitmap \<Rightarrow> nat \<Rightarrow> nat list \<Rightarrow> nat list" where
  "words_list b k ws = concat (map (\<lambda>w. bits_from (masks b ! k ! w) (64 * w)) ws)"

definition level_list :: "iterable_bitmap \<Rightarrow> nat \<Rightarrow> nat list" where
  "level_list b k = words_list b k [0..<length (masks b ! k)]"

lemma words_list_simps [simp]:
  "words_list b k [] = []"
  "words_list b k (w # ws) = bits_from (masks b ! k ! w) (64 * w) @ words_list b k ws"
  by (simp_all add: words_list_def)

lemma bits_from_Nil [simp]: "bits_from m base = [] \<longleftrightarrow> m = 0"
  by (simp add: bits_from_def word_bits_Nil)

lemma bits_from_lowest: "bits_from (m AND (m - 1)) base = tl (bits_from m base)"
  by (simp add: bits_from_def word_bits_clear_lowest map_tl)

lemma bits_from_hd: "m \<noteq> 0 \<Longrightarrow> hd (bits_from m base) = base + ctzll m"
  by (simp add: bits_from_def ctzll_hd hd_map word_bits_Nil)

lemma set_words_list: "set ws \<subseteq> {..<length (masks b ! k)} \<Longrightarrow> set (words_list b k ws) = {n. in_level b k n \<and> n div 64 \<in> set ws}"
proof -
  assume ws: "set ws \<subseteq> {..<length (masks b ! k)}"
  have "n \<in> set (bits_from (masks b ! k ! w) (64 * w)) \<longleftrightarrow> in_level b k n \<and> n div 64 = w" if "w \<in> set ws" for n w
  proof
    assume "n \<in> set (bits_from (masks b ! k ! w) (64 * w))"
    then show "in_level b k n \<and> n div 64 = w" using that ws by (auto simp: bits_from_def word_bits_def in_level_def)
  next
    assume "in_level b k n \<and> n div 64 = w"
    then show "n \<in> set (bits_from (masks b ! k ! w) (64 * w))"
      by (auto simp: bits_from_def word_bits_def in_level_def intro!: image_eqI [of _ _ "n mod 64"])
  qed
  then show ?thesis by (auto simp: words_list_def)
qed

lemma sorted_words_list:
  "sorted_wrt (<) ws \<Longrightarrow> sorted_wrt (<) (words_list b k ws)"
proof (induction ws)
  case (Cons w ws)
  have one: "sorted_wrt (<) (bits_from m base)" for m base
    by (simp add: bits_from_def word_bits_def sorted_wrt_map sorted_wrt_filter)
  have "x < 64 * w + 64" if "x \<in> set (bits_from (masks b ! k ! w) (64 * w))" for x
    using that by (auto simp: bits_from_def word_bits_def)
  moreover have "64 * v \<le> x" if "x \<in> set (bits_from (masks b ! k ! v) (64 * v))" for x v
    using that by (auto simp: bits_from_def)
  ultimately have "x < y" if "x \<in> set (bits_from (masks b ! k ! w) (64 * w))" "y \<in> set (words_list b k ws)" for x y
    using that Cons.prems by (fastforce simp: words_list_def)
  then show ?case using Cons one by (simp add: sorted_wrt_append)
qed simp

lemma sorted_level_list: "sorted_wrt (<) (level_list b k)"
  by (simp add: level_list_def sorted_words_list)

lemma set_level_list: "set (level_list b k) = {n. in_level b k n}"
  using set_words_list [of "[0..<length (masks b ! k)]" b k]
  by (auto simp: level_list_def in_level_def lessThan_atLeast0)

lemma strict_sorted_unique: "sorted_wrt (<) xs \<Longrightarrow> sorted_wrt (<) ys \<Longrightarrow> set xs = set ys \<Longrightarrow> xs = ys" for xs :: "nat list"
  by (metis sorted_list_of_set.idem_if_sorted_distinct strict_sorted_iff)

text \<open>The words of a level that a set bit of the level above selects are all of its set bits.\<close>

lemma rep_level:
  "ib_rep b S \<Longrightarrow> k < levels (ib_size b) \<Longrightarrow> in_level b k n \<longleftrightarrow> (\<exists>s \<in> S. n = s div 64 ^ k)"
  by (auto simp: ib_rep_def ib_upto_def)

lemma div_64_Suc: "s div 64 ^ Suc k = s div 64 ^ k div 64" for s :: nat
  by (simp only: power_Suc2 div_mult2_eq)

lemma summary_word:
  assumes "ib_rep b S" and "Suc k < levels (ib_size b)" and "in_level b (Suc k) w"
  shows "w < length (masks b ! k)" and "masks b ! k ! w \<noteq> 0"
proof -
  obtain s where s: "s \<in> S" "w = s div 64 ^ k div 64"
    using assms rep_level [of b S "Suc k"] unfolding div_64_Suc by auto
  then have "in_level b k (s div 64 ^ k)" using assms rep_level [of b S k] by auto
  then show "w < length (masks b ! k)" and "masks b ! k ! w \<noteq> 0"
    using s word_zero_iff [of w b k] by (auto simp: in_level_def)
qed

lemma words_of_summary:
  assumes "ib_rep b S" and "Suc k < levels (ib_size b)"
  shows "words_list b k (level_list b (Suc k)) = level_list b k"
proof (rule strict_sorted_unique)
  have "in_level b (Suc k) (n div 64)" if "in_level b k n" for n
    using that assms rep_level [of b S k] rep_level [of b S "Suc k"] unfolding div_64_Suc by auto
  then show "set (words_list b k (level_list b (Suc k))) = set (level_list b k)"
    using set_words_list [of "level_list b (Suc k)" b k] summary_word [OF assms]
    by (auto simp: set_level_list)
qed (simp_all add: sorted_words_list sorted_level_list)

subsection \<open>What an iterator has still to visit\<close>

function remaining :: "iterable_bitmap \<Rightarrow> bitmap_iterator \<Rightarrow> nat \<Rightarrow> nat list" where
  "remaining b it k =
     (if Suc k < levels (ib_size b)
      then bits_from (it_mask it k) (it_i it (Suc k)) @ words_list b k (tl (remaining b it (Suc k)))
      else bits_from (it_mask it k) 0)"
  by pat_completeness auto
termination by (relation "measure (\<lambda>(b, it, k). levels (ib_size b) - k)") auto

declare remaining.simps [simp del]

function it_valid :: "iterable_bitmap \<Rightarrow> bitmap_iterator \<Rightarrow> nat \<Rightarrow> bool" where
  "it_valid b it k \<longleftrightarrow> it_mask it k \<noteq> 0 \<and> (\<forall>n \<in> set (remaining b it k). in_level b k n) \<and>
     (if Suc k < levels (ib_size b)
      then it_i it (Suc k) = 64 * hd (remaining b it (Suc k)) \<and> it_valid b it (Suc k) else True)"
  by pat_completeness auto
termination by (relation "measure (\<lambda>(b, it, k). levels (ib_size b) - k)") auto

declare it_valid.simps [simp del]

lemma remaining_cong:
  assumes "\<And>j. k \<le> j \<Longrightarrow> it_mask it' j = it_mask it j" and "\<And>j. k < j \<Longrightarrow> it_i it' j = it_i it j"
  shows "remaining b it' k = remaining b it k"
  using assms
proof (induction b it k rule: remaining.induct)
  case (1 b it k)
  then show ?case by (subst (1 2) remaining.simps) auto
qed

lemma it_valid_cong:
  assumes "\<And>j. k \<le> j \<Longrightarrow> it_mask it' j = it_mask it j" and "\<And>j. k < j \<Longrightarrow> it_i it' j = it_i it j"
  shows "it_valid b it' k = it_valid b it k"
  using assms
proof (induction b it k rule: it_valid.induct)
  case (1 b it k)
  have "remaining b it' k = remaining b it k" "remaining b it' (Suc k) = remaining b it (Suc k)"
    by (rule remaining_cong; simp add: 1(2,3))+
  then show ?case using 1 by (subst (1 2) it_valid.simps) auto
qed

lemma remaining_hd:
  assumes "size_ok (ib_size b)" and "it_valid b it k" and "k < levels (ib_size b)"
  shows "remaining b it k \<noteq> []" and "word_index b k it = hd (remaining b it k)"
proof -
  have m: "it_mask it k \<noteq> 0" using assms(2) by (subst (asm) it_valid.simps) simp
  show "remaining b it k \<noteq> []" using m by (subst remaining.simps) simp
  have up: "0 < level_words (ib_size b) (k + 1) \<longleftrightarrow> Suc k < levels (ib_size b)"
  proof (cases "k = 4")
    case True
    have "\<not> 0 < level_words (ib_size b) (Suc 4)"
      using level_words_4 [OF assms(1)] level_words_down [of "ib_size b" 4] by linarith
    then show ?thesis using True levels_range(2) [of "ib_size b"] by simp
  next
    case False
    then show ?thesis using levels_iff [OF assms(1), of "Suc k"] assms(3) levels_range(2) [of "ib_size b"] by simp
  qed
  have "hd (bits_from (it_mask it k) base @ xs) = base + ctzll (it_mask it k)" for base xs
    using m bits_from_hd [OF m, of base] by simp
  then show "word_index b k it = hd (remaining b it k)"
    unfolding word_index_def up by (subst remaining.simps) (simp add: bits_from_hd m)
qed

text \<open>Entering the word that the lowest remaining bit of level \<open>k + 1\<close> selects.\<close>

lemma enter_word_valid:
  assumes rep: "ib_rep b S" and up: "Suc k < levels (ib_size b)" and valid: "it_valid b it (Suc k)"
  shows "it_valid b (enter_word b (Suc k) it) k"
    and "remaining b (enter_word b (Suc k) it) k = words_list b k (remaining b it (Suc k))"
proof -
  let ?it = "enter_word b (Suc k) it" and ?r = "remaining b it (Suc k)"
  have ok: "size_ok (ib_size b)" using rep by (simp add: ib_rep_def ib_upto_def ib_shape_def)
  note hd = remaining_hd [OF ok valid up]
  have in_r: "\<forall>n \<in> set ?r. in_level b (Suc k) n" using valid by (subst (asm) it_valid.simps) simp
  have it: "it_mask ?it k = masks b ! k ! hd ?r" "it_i ?it (Suc k) = 64 * hd ?r"
    using hd by (simp_all add: enter_word_def Let_def push_bit_nat_def)
  have r: "remaining b ?it (Suc k) = ?r"
    by (rule remaining_cong) (simp_all add: enter_word_def Let_def)
  have v: "it_valid b ?it (Suc k) = it_valid b it (Suc k)"
    by (rule it_valid_cong) (simp_all add: enter_word_def Let_def)
  have rem: "remaining b ?it k = words_list b k ?r"
    using up it r hd(1) by (subst remaining.simps) (simp add: neq_Nil_conv, fastforce)
  then show "remaining b ?it k = words_list b k ?r" .
  have "hd ?r \<in> set ?r" using hd(1) by simp
  then have "masks b ! k ! hd ?r \<noteq> 0" using summary_word(2) [OF rep up] in_r by blast
  moreover have "set ?r \<subseteq> {..<length (masks b ! k)}" using summary_word(1) [OF rep up] in_r by auto
  from set_words_list [OF this] have "\<forall>n \<in> set (words_list b k ?r). in_level b k n" by auto
  ultimately show "it_valid b ?it k"
    using it r v valid rem by (subst it_valid.simps) simp
qed

lemma advance_spec:
  assumes "ib_rep b S" and "it_valid b it k" and "k < levels (ib_size b)" and "advance b k it = (stop, it')"
  shows "if stop then tl (remaining b it k) = [] \<and> it_mask it' (levels (ib_size b) - 1) = 0
    else it_valid b it' k \<and> remaining b it' k = tl (remaining b it k)"
  using assms
proof (induction b k it arbitrary: stop it' rule: advance.induct)
  case (1 b k it)
  let ?L = "levels (ib_size b)" and ?m = "it_mask it k AND (it_mask it k - 1)"
  let ?it = "it\<lparr>it_mask := (it_mask it)(k := ?m)\<rparr>"
  have m: "it_mask it k \<noteq> 0" and in_r: "\<forall>n \<in> set (remaining b it k). in_level b k n"
    using "1.prems"(2) by (subst (asm) it_valid.simps, simp)+
  have rk: "remaining b it k = (if Suc k < ?L
      then bits_from (it_mask it k) (it_i it (Suc k)) @ words_list b k (tl (remaining b it (Suc k)))
      else bits_from (it_mask it k) 0)" by (rule remaining.simps)
  have r: "remaining b ?it (Suc k) = remaining b it (Suc k)" by (rule remaining_cong) auto
  have v: "it_valid b ?it (Suc k) = it_valid b it (Suc k)" by (rule it_valid_cong) auto
  have up: "Suc k < ?L \<Longrightarrow> it_valid b it (Suc k) \<and> it_i it (Suc k) = 64 * hd (remaining b it (Suc k))"
    using "1.prems"(2) by (subst (asm) it_valid.simps) simp
  show ?case
  proof (cases "?m = 0")
    case False
    then have "stop = False" "it' = ?it" using "1.prems"(4) by (auto simp: advance.simps [of b k it] Let_def)
    moreover have rem: "remaining b ?it k = tl (remaining b it k)"
      using m r by (subst remaining.simps, subst rk) (simp add: bits_from_lowest)
    moreover have "\<forall>n \<in> set (tl (remaining b it k)). in_level b k n"
      using in_r by (cases "remaining b it k") auto
    then have "it_valid b ?it k"
      using False rem r v up by (subst it_valid.simps) auto
    ultimately show ?thesis by simp
  next
    case zero: True
    then have one: "tl (bits_from (it_mask it k) base) = []" for base
      using bits_from_lowest [of "it_mask it k" base] bits_from_Nil [of 0 base] by simp
    show ?thesis
    proof (cases "Suc k < ?L")
      case False
      then have "stop = True" "it' = ?it" "k = ?L - 1"
        using "1.prems"(3,4) zero by (auto simp: advance.simps [of b k it] Let_def)
      then show ?thesis using rk False one zero by simp
    next
      case True
      then have k: "\<not> 4 \<le> k" "?L \<noteq> k + 1" using levels_range(2) [of "ib_size b"] by auto
      obtain stop1 it1 where a: "advance b (k + 1) ?it = (stop1, it1)" by fastforce
      have IH: "if stop1 then tl (remaining b it (Suc k)) = [] \<and> it_mask it1 (?L - 1) = 0
          else it_valid b it1 (Suc k) \<and> remaining b it1 (Suc k) = tl (remaining b it (Suc k))"
        using "1.IH" [OF refl, of stop1 it1] zero k "1.prems"(1) True v up r a
        by (cases stop1) simp_all
      have res: "(stop, it') = (if stop1 then (True, it1) else (False, enter_word b (Suc k) it1))"
        using "1.prems"(4) zero k a by (cases stop1) (simp_all add: advance.simps [of b k it] Let_def)
      have tl: "tl (remaining b it k) = words_list b k (tl (remaining b it (Suc k)))"
        using rk True one m by simp
      show ?thesis
        using IH res tl enter_word_valid [OF "1.prems"(1) True, of it1] by (auto split: if_splits)
    qed
  qed
qed

subsection \<open>The loop over a bitmap\<close>

definition at_front :: "iterable_bitmap \<Rightarrow> bitmap_iterator \<Rightarrow> bool" where
  "at_front b it \<longleftrightarrow> it_valid b it 0 \<and> it_i it 0 = hd (remaining b it 0)"

lemma at_frontI:
  assumes "size_ok (ib_size b)" and "it_valid b it 0"
  shows "at_front b (it\<lparr>it_i := (it_i it)(0 := word_index b 0 it)\<rparr>)"
    and "remaining b (it\<lparr>it_i := (it_i it)(0 := word_index b 0 it)\<rparr>) 0 = remaining b it 0"
proof -
  let ?it = "it\<lparr>it_i := (it_i it)(0 := word_index b 0 it)\<rparr>"
  show r: "remaining b ?it 0 = remaining b it 0" by (rule remaining_cong) auto
  have "it_valid b ?it 0 = it_valid b it 0" by (rule it_valid_cong) auto
  then show "at_front b ?it"
    using r assms remaining_hd(2) [OF assms] levels_range(1) [of "ib_size b"] by (simp add: at_front_def)
qed

lemma it_valid_top:
  "it_valid b it k \<Longrightarrow> k < levels (ib_size b) \<Longrightarrow> it_mask it (levels (ib_size b) - 1) \<noteq> 0"
proof (induction b it k rule: it_valid.induct)
  case (1 b it k)
  show ?case
  proof (cases "Suc k < levels (ib_size b)")
    case True
    then show ?thesis using 1 by (subst (asm) (2) it_valid.simps) simp
  next
    case False
    then have "k = levels (ib_size b) - 1" using 1(3) by simp
    then show ?thesis using 1(2) by (subst (asm) it_valid.simps) simp
  qed
qed

lemma bitmap_loop_remaining:
  assumes "ib_rep b S" and "at_front b it"
  shows "bitmap_loop b it = Some (remaining b it 0)"
  using assms(2)
proof (induction "length (remaining b it 0)" arbitrary: it rule: less_induct)
  case less
  have ok: "size_ok (ib_size b)" using assms(1) by (simp add: ib_rep_def ib_upto_def ib_shape_def)
  have L: "0 < levels (ib_size b)" using levels_range(1) [of "ib_size b"] by simp
  have v: "it_valid b it 0" and hd: "it_i it 0 = hd (remaining b it 0)" using less.prems by (simp_all add: at_front_def)
  note ne = remaining_hd(1) [OF ok v L]
  have more: "iterator_more b it" using it_valid_top [OF v L] by (simp add: iterator_more_def)
  obtain stop it' where a: "advance b 0 it = (stop, it')" by fastforce
  note spec = advance_spec [OF assms(1) v L a]
  show ?case
  proof (cases stop)
    case True
    then have "bitmap_loop b (iterator_next b it) = Some []"
      using spec a by (subst bitmap_loop.simps) (simp add: iterator_next_def iterator_more_def)
    then show ?thesis
      using True spec more hd ne by (subst bitmap_loop.simps) (cases "remaining b it 0", simp_all)
  next
    case False
    let ?it = "it'\<lparr>it_i := (it_i it')(0 := word_index b 0 it')\<rparr>"
    have v': "it_valid b it' 0" and r': "remaining b it' 0 = tl (remaining b it 0)" using spec False by simp_all
    have nx: "iterator_next b it = ?it" using a False by (simp add: iterator_next_def)
    have "length (remaining b ?it 0) < length (remaining b it 0)" using at_frontI(2) [OF ok v'] r' ne by simp
    from less.hyps [OF this at_frontI(1) [OF ok v']] show ?thesis
      using nx more hd ne at_frontI(2) [OF ok v'] r' by (subst bitmap_loop.simps) simp
  qed
qed

lemma descend_front:
  assumes "ib_rep b S"
  shows "k < levels (ib_size b) \<Longrightarrow> it_valid b it k \<Longrightarrow> remaining b it k = level_list b k \<Longrightarrow>
    at_front b (descend b k it) \<and> remaining b (descend b k it) 0 = level_list b 0"
proof (induction k arbitrary: it)
  case 0
  have "size_ok (ib_size b)" using assms by (simp add: ib_rep_def ib_upto_def ib_shape_def)
  then show ?case using at_frontI 0 by simp
next
  case (Suc k)
  have ok: "size_ok (ib_size b)" using assms by (simp add: ib_rep_def ib_upto_def ib_shape_def)
  have "0 < level_words (ib_size b) (Suc k)"
    using levels_iff [OF ok, of "Suc k"] Suc.prems(1) levels_range(2) [of "ib_size b"] by simp
  then show ?case
    using Suc.IH [of "enter_word b (Suc k) it"] Suc.prems enter_word_valid [OF assms Suc.prems(1,2)]
      words_of_summary [OF assms Suc.prems(1)] by simp
qed

lemma descend_skip:
  assumes "size_ok (ib_size b)" and "levels (ib_size b) - 1 \<le> k" and "k \<le> 4"
  shows "descend b k it = descend b (levels (ib_size b) - 1) it"
  using assms(2,3)
proof (induction k)
  case (Suc k)
  then show ?case
    using levels_iff [OF assms(1), of "Suc k"] by (cases "levels (ib_size b) - 1 = Suc k") auto
qed simp

lemma level_list_0:
  assumes "ib_rep b S"
  shows "level_list b 0 = sorted_list_of_set S"
proof (rule strict_sorted_unique)
  have "S \<subseteq> {..<ib_size b}" using assms by (simp add: ib_rep_def ib_upto_def)
  then have fin: "finite S" by (rule finite_subset) simp
  have "{n. in_level b 0 n} = S"
    using rep_level [OF assms, of 0] levels_range(1) [of "ib_size b"] by auto
  then show "set (level_list b 0) = set (sorted_list_of_set S)" using fin by (simp add: set_level_list)
qed (simp_all add: sorted_level_list)

lemma bitmap_begin_loop:
  assumes "ib_rep b S"
  shows "bitmap_loop b (bitmap_begin b) = Some (sorted_list_of_set S)"
proof -
  let ?t = "levels (ib_size b) - 1"
  let ?root = "masks b ! ?t ! 0" and ?it = "\<lparr>it_i = (\<lambda>_. 0), it_mask = (\<lambda>_. 0)(?t := masks b ! ?t ! 0)\<rparr>"
  have ok: "size_ok (ib_size b)" and shape: "ib_shape b" using assms by (simp_all add: ib_rep_def ib_upto_def ib_shape_def)
  have t: "?t < levels (ib_size b)" "Suc ?t = levels (ib_size b)" "?t \<le> 4" using levels_range [of "ib_size b"] by auto
  have len: "length (masks b ! ?t) = 1" using shape top_word [OF ok] t(3) by (simp add: ib_shape_def)
  have rem: "remaining b ?it ?t = level_list b ?t"
    using t len by (subst remaining.simps) (simp add: level_list_def)
  show ?thesis
  proof (cases "?root = 0")
    case True
    then have "level_list b ?t = []" using len by (simp add: level_list_def)
    then have "\<not> in_level b ?t n" for n using set_level_list [of b ?t] by auto
    then have "S = {}" using rep_level [OF assms t(1)] by auto
    then show ?thesis using True by (subst bitmap_loop.simps) (simp add: bitmap_begin_def iterator_more_def)
  next
    case False
    have "it_valid b ?it ?t" using False rem t by (subst it_valid.simps) (simp add: set_level_list)
    from descend_front [OF assms t(1) this rem] show ?thesis
      using False bitmap_loop_remaining [OF assms] descend_skip [OF ok, of 4 ?it] t(3)
      by (simp add: bitmap_begin_def Let_def level_list_0 [OF assms])
  qed
qed

text \<open>Sequences of operations on a bitmap, and the set they leave.\<close>

datatype bitmap_op = Set nat | Clear nat

fun bitmap_apply :: "bitmap_op \<Rightarrow> iterable_bitmap \<Rightarrow> iterable_bitmap" where
  "bitmap_apply (Set i) b = bitmap_set i b"
| "bitmap_apply (Clear i) b = bitmap_clear i b"

fun set_apply :: "bitmap_op \<Rightarrow> nat set \<Rightarrow> nat set" where
  "set_apply (Set i) S = insert i S"
| "set_apply (Clear i) S = S - {i}"

fun op_index :: "bitmap_op \<Rightarrow> nat" where
  "op_index (Set i) = i"
| "op_index (Clear i) = i"

lemma ib_size_apply [simp]: "ib_size (bitmap_apply oper b) = ib_size b"
  by (cases oper) (simp_all add: bitmap_set_def bitmap_clear_def set_level_def clear_level_def)

lemma bitmap_apply_rep:
  "ib_rep b S \<Longrightarrow> op_index oper < ib_size b \<Longrightarrow> ib_rep (bitmap_apply oper b) (set_apply oper S)"
  by (cases oper) (simp_all add: bitmap_set_rep bitmap_clear_rep)

lemma bitmap_fold_rep:
  "ib_rep b S \<Longrightarrow> \<forall>x \<in> set ops. op_index x < ib_size b \<Longrightarrow>
   ib_rep (fold bitmap_apply ops b) (fold set_apply ops S)"
  by (induction ops arbitrary: b S) (simp_all add: bitmap_apply_rep)

lemma bitmap_empty_rep: "size_ok sz \<Longrightarrow> ib_rep (bitmap_empty sz) {}"
  using levels_range(2) [of sz]
  by (auto simp: ib_rep_def ib_upto_def ib_shape_def bitmap_empty_def in_level_def nth_map)

lemma bitmap_get_rep:
  assumes "ib_rep b S" and "i < ib_size b"
  shows "bitmap_get i b \<longleftrightarrow> i \<in> S"
proof -
  have ok: "size_ok (ib_size b)" and shape: "ib_shape b" using assms(1) by (simp_all add: ib_rep_def ib_upto_def ib_shape_def)
  have "i div 64 < length (masks b ! 0)"
    using level_index [OF ok assms(2), of 0] levels_range(1) [of "ib_size b"] shape by (simp add: ib_shape_def)
  then show ?thesis
    using rep_level [OF assms(1), of 0 i] levels_range(1) [of "ib_size b"]
    by (auto simp: bitmap_get_def test_bit_def in_level_def)
qed

text \<open>
  C36. For every bitmap size from 1 to \<open>2\<^sup>3\<^sup>0\<close> and every sequence of \<open>set\<close> and \<open>clear\<close> calls with indices in
  range on an empty bitmap, \<open>get\<close> answers whether the index was last set, and the loop over the
  bitmap ends and visits exactly the set indices, each once and in ascending order.
\<close>

theorem bitmap_loop_visits_set:
  assumes "0 < sz" and "sz \<le> 2 ^ 30" and "\<forall>x \<in> set ops. op_index x < sz" and "i < sz"
  shows "let b = fold bitmap_apply ops (bitmap_empty sz); S = fold set_apply ops {}
    in bitmap_loop b (bitmap_begin b) = Some (sorted_list_of_set S) \<and> (bitmap_get i b \<longleftrightarrow> i \<in> S)"
proof -
  let ?b = "fold bitmap_apply ops (bitmap_empty sz)"
  have size: "ib_size (bitmap_empty sz) = sz" by (simp add: bitmap_empty_def)
  have rep: "ib_rep ?b (fold set_apply ops {})"
    using assms(1-3) size by (intro bitmap_fold_rep bitmap_empty_rep) (simp_all add: size_ok_def)
  have "ib_size (fold bitmap_apply ops b) = ib_size b" for b by (induction ops arbitrary: b) simp_all
  then show ?thesis using bitmap_begin_loop [OF rep] bitmap_get_rep [OF rep, of i] assms(4) size by simp
qed

theorem bitmap_loop_visits_set_witness:
  "let b = fold bitmap_apply [Set 4999, Set 70, Set 3, Clear 70] (bitmap_empty 5000)
   in bitmap_loop b (bitmap_begin b) = Some [3, 4999] \<and> \<not> bitmap_get 70 b"
proof -
  have "sorted_list_of_set ({3, 70, 4999} - {70}) = [3, 4999 :: nat]"
    by (rule strict_sorted_unique) auto
  then show ?thesis
    using bitmap_loop_visits_set [of 5000 "[Set 4999, Set 70, Set 3, Clear 70]" 70] by (simp add: Let_def insert_commute)
qed

end
