(* ===== verification/Pool_Allocator.thy ===== *)
theory Pool_Allocator
  imports Prelude
begin

text \<open>
  The pool allocator \<^verbatim>\<open>src/util/pool_allocator.{h,c}\<close>: a free list of element indices that is
  threaded through the free elements themselves.

  An element of the pool is a \<open>slot\<close>, the union \<open>poolable_type\<close> of \<^verbatim>\<open>src/util/pool.h\<close>: a constructed
  object, the index of the next free element, or the zero bytes that an allocation leaves. The
  offset of an element is computed in 32 bits as in the code (\<open>index * elem_size\<close> wraps); the
  invariant asks that the pool is at most \<open>2\<^sup>3\<^sup>2\<close> bytes long, so that distinct elements have distinct
  offsets. A failed assertion, an access outside the pool and reading a link from an element
  that holds none are the value \<^const>\<open>None\<close>.

  The contract is the locale \<open>id_allocator\<close>: the allocator represents the set of the ids in use,
  hands out an id below the capacity that is not in use as long as there is one, and takes back
  any id in use. Its client lemma follows an arbitrary sequence of operations.
\<close>

subsection \<open>The contract\<close>

datatype id_op = Alloc | Free u32

text \<open>Running operations, with the set of ids that the client holds: a \<open>Free\<close> of an id that is not
  held is a misuse and skipped. The answers to the allocations are returned in order.\<close>

fun id_run :: "('s \<Rightarrow> (u32 \<times> 's) option) \<Rightarrow> (u32 \<Rightarrow> 's \<Rightarrow> 's option) \<Rightarrow> u32 \<Rightarrow> id_op list \<Rightarrow> u32 set \<Rightarrow> 's
    \<Rightarrow> u32 list option" where
  "id_run alloc free null [] A s = Some []"
| "id_run alloc free null (Alloc # ops) A s =
     (case alloc s of
        None \<Rightarrow> None
      | Some (i, s') \<Rightarrow> map_option ((#) i) (id_run alloc free null ops (if i = null then A else insert i A) s'))"
| "id_run alloc free null (Free i # ops) A s =
     (if i \<in> A then
        (case free i s of
           None \<Rightarrow> None
         | Some s' \<Rightarrow> id_run alloc free null ops (A - {i}) s')
      else id_run alloc free null ops A s)"

text \<open>What the answers may be: \<open>null\<close> exactly when all \<open>n\<close> ids are held, and an id below \<open>n\<close> that is
  not held otherwise.\<close>

fun ids_ok :: "nat \<Rightarrow> u32 \<Rightarrow> id_op list \<Rightarrow> u32 set \<Rightarrow> u32 list \<Rightarrow> bool" where
  "ids_ok n null [] A rs \<longleftrightarrow> rs = []"
| "ids_ok n null (Alloc # ops) A [] \<longleftrightarrow> False"
| "ids_ok n null (Alloc # ops) A (i # rs) \<longleftrightarrow>
     (if card A = n then i = null \<and> ids_ok n null ops A rs
      else i \<noteq> null \<and> unat i < n \<and> i \<notin> A \<and> ids_ok n null ops (insert i A) rs)"
| "ids_ok n null (Free i # ops) A rs \<longleftrightarrow> ids_ok n null ops (if i \<in> A then A - {i} else A) rs"

locale id_allocator =
  fixes rep :: "'s \<Rightarrow> u32 set \<Rightarrow> bool"
    and cap :: "'s \<Rightarrow> nat"
    and null :: u32
    and alloc :: "'s \<Rightarrow> (u32 \<times> 's) option"
    and free :: "u32 \<Rightarrow> 's \<Rightarrow> 's option"
  assumes rep_bound: "rep s A \<Longrightarrow> i \<in> A \<Longrightarrow> unat i < cap s"
    and null_bound: "rep s A \<Longrightarrow> cap s \<le> unat null"
    and alloc_full: "rep s A \<Longrightarrow> card A = cap s \<Longrightarrow> alloc s = Some (null, s)"
    and alloc_fresh: "rep s A \<Longrightarrow> card A \<noteq> cap s \<Longrightarrow>
      \<exists>i s'. alloc s = Some (i, s') \<and> unat i < cap s \<and> i \<notin> A \<and> rep s' (insert i A) \<and> cap s' = cap s"
    and free_used: "rep s A \<Longrightarrow> i \<in> A \<Longrightarrow> \<exists>s'. free i s = Some s' \<and> rep s' (A - {i}) \<and> cap s' = cap s"
begin

lemma rep_finite: "rep s A \<Longrightarrow> finite A"
  by (rule finite_subset [of _ "UNIV"]) auto

lemma rep_card: "rep s A \<Longrightarrow> card A \<le> cap s"
proof -
  assume "rep s A"
  then have "unat ` A \<subseteq> {..<cap s}" using rep_bound by auto
  moreover have "inj_on unat A" by (simp add: inj_on_def word_unat_eq_iff)
  ultimately show ?thesis by (metis card_image card_lessThan card_mono finite_lessThan)
qed

lemma null_unused: "rep s A \<Longrightarrow> null \<notin> A"
  using rep_bound null_bound not_le by blast

text \<open>One operation after the other, the allocator never refuses a legal operation; it says that it
  is full exactly when it is, and an id is never handed out while it is held.\<close>

lemma run_ids:
  assumes "rep s A"
  shows "\<exists>rs. id_run alloc free null ops A s = Some rs \<and> ids_ok (cap s) null ops A rs"
  using assms
proof (induction ops arbitrary: A s)
  case (Cons oper ops)
  show ?case
  proof (cases oper)
    case Alloc
    show ?thesis
    proof (cases "card A = cap s")
      case True
      then show ?thesis using Cons.IH [OF Cons.prems] alloc_full [OF Cons.prems] Alloc by auto
    next
      case False
      then obtain i s' where a: "alloc s = Some (i, s')" "unat i < cap s" "i \<notin> A" "rep s' (insert i A)" "cap s' = cap s"
        using alloc_fresh [OF Cons.prems] by blast
      then have "i \<noteq> null" using null_bound [OF Cons.prems] by auto
      then show ?thesis using a Cons.IH [of s' "insert i A"] Alloc False by auto
    qed
  next
    case (Free i)
    show ?thesis
    proof (cases "i \<in> A")
      case True
      then obtain s' where "free i s = Some s'" "rep s' (A - {i})" "cap s' = cap s"
        using free_used [OF Cons.prems] by blast
      then show ?thesis using Cons.IH [of s' "A - {i}"] Free True by auto
    qed (use Cons Free in auto)
  qed
qed simp

end

subsection \<open>The allocator\<close>

datatype 't slot = Zeroed | Link u32 | Elem 't

record 't pool_allocator =
  pool :: "'t slot list"
  free_list :: u32
  alloc_end :: u32
  elem_size :: u32
  n_elems :: u32

definition POOL_ALLOCATOR_NULL_ELEM :: u32 where
  "POOL_ALLOCATOR_NULL_ELEM = - 1"

text \<open>\<open>__pool_allocator_elem\<close>: the element at the byte offset \<open>index * elem_size\<close>.\<close>

definition pool_allocator_elem :: "'t pool_allocator \<Rightarrow> u32 \<Rightarrow> nat" where
  "pool_allocator_elem pm index = unat (index * elem_size pm) div unat (elem_size pm)"

definition load_link :: "'t pool_allocator \<Rightarrow> u32 \<Rightarrow> u32 option" where
  "load_link pm index =
     (let k = pool_allocator_elem pm index
      in if k < length (pool pm) then (case pool pm ! k of Link v \<Rightarrow> Some v | _ \<Rightarrow> None) else None)"

definition store_slot :: "'t pool_allocator \<Rightarrow> u32 \<Rightarrow> 't slot \<Rightarrow> 't pool_allocator option" where
  "store_slot pm index v =
     (let k = pool_allocator_elem pm index
      in if k < length (pool pm) then Some (pm\<lparr>pool := (pool pm)[k := v]\<rparr>) else None)"

text \<open>\<open>memset\<close> of the element to zero is \<open>store_slot\<close> with \<^const>\<open>Zeroed\<close>.\<close>

definition pool_allocator_alloc :: "'t pool_allocator \<Rightarrow> (u32 \<times> 't pool_allocator) option" where
  "pool_allocator_alloc pm =
     (if \<not> free_list pm \<le> alloc_end pm then None
      else if free_list pm = POOL_ALLOCATOR_NULL_ELEM then Some (POOL_ALLOCATOR_NULL_ELEM, pm)
      else
        (let id = free_list pm
         in if id = alloc_end pm then
              (let next = (if id < n_elems pm - 1 then id + 1 else POOL_ALLOCATOR_NULL_ELEM)
               in map_option (Pair id)
                    (store_slot (pm\<lparr>alloc_end := next, free_list := next\<rparr>) id Zeroed))
            else
              (case load_link pm id of
                 None \<Rightarrow> None
               | Some next \<Rightarrow>
                   map_option (Pair id) (store_slot (pm\<lparr>free_list := next\<rparr>) id Zeroed))))"

definition pool_allocator_free :: "u32 \<Rightarrow> 't pool_allocator \<Rightarrow> 't pool_allocator option" where
  "pool_allocator_free i pm =
     (if \<not> i < n_elems pm then None
      else map_option (\<lambda>pm'. pm'\<lparr>free_list := i\<rparr>) (store_slot pm i (Link (free_list pm))))"

text \<open>The arguments that may be NULL are options; the returned state is the one of \<open>*map\<close>.\<close>

definition pool_allocator_init ::
  "'t pool_allocator option \<Rightarrow> 't slot list option \<Rightarrow> u32 \<Rightarrow> u32 \<Rightarrow> cint \<times> 't pool_allocator option" where
  "pool_allocator_init pm mem esize n =
     (case (pm, mem) of
        (Some m, Some p) \<Rightarrow>
          if n = 0 \<or> esize < 4 then (- EINVAL, pm)
          else (0, Some (m\<lparr>pool := p, elem_size := esize, n_elems := n, free_list := 0, alloc_end := 0\<rparr>))
      | _ \<Rightarrow> (- EINVAL, pm))"

subsection \<open>The free list\<close>

text \<open>The ids below \<open>pa_limit\<close> have been handed out at least once. The free list runs through the
  returned ids \<open>fs\<close> and ends in the first id that was never handed out.\<close>

definition pa_limit :: "'t pool_allocator \<Rightarrow> nat" where
  "pa_limit pm = (if alloc_end pm = POOL_ALLOCATOR_NULL_ELEM then unat (n_elems pm) else unat (alloc_end pm))"

fun free_chain :: "'t pool_allocator \<Rightarrow> u32 \<Rightarrow> u32 list \<Rightarrow> bool" where
  "free_chain pm h [] \<longleftrightarrow> h = alloc_end pm"
| "free_chain pm h (i # fs) \<longleftrightarrow> h = i \<and> (\<exists>next. load_link pm i = Some next \<and> free_chain pm next fs)"

definition pa_wf :: "'t pool_allocator \<Rightarrow> bool" where
  "pa_wf pm \<longleftrightarrow> 0 < n_elems pm \<and> 4 \<le> elem_size pm \<and>
     unat (n_elems pm) * unat (elem_size pm) \<le> 2 ^ 32 \<and> length (pool pm) = unat (n_elems pm) \<and>
     (alloc_end pm = POOL_ALLOCATOR_NULL_ELEM \<or> alloc_end pm < n_elems pm)"

definition pa_rep :: "'t pool_allocator \<Rightarrow> u32 set \<Rightarrow> bool" where
  "pa_rep pm A \<longleftrightarrow> pa_wf pm \<and> (\<exists>fs. free_chain pm (free_list pm) fs \<and> distinct fs \<and>
     A \<inter> set fs = {} \<and> A \<union> set fs = {i. unat i < pa_limit pm})"

lemma elem_id [simp]: "pa_wf pm \<Longrightarrow> unat i < unat (n_elems pm) \<Longrightarrow> pool_allocator_elem pm i = unat i"
proof -
  assume wf: "pa_wf pm" and i: "unat i < unat (n_elems pm)"
  have pos: "0 < unat (elem_size pm)" using wf by (auto simp: pa_wf_def word_le_nat_alt)
  then have "unat i * unat (elem_size pm) < unat (n_elems pm) * unat (elem_size pm)" using i by simp
  also have "\<dots> \<le> 2 ^ 32" using wf by (simp add: pa_wf_def)
  finally have "unat (i * elem_size pm) = unat i * unat (elem_size pm)" by (simp add: unat_word_ariths(2))
  then show ?thesis using pos by (simp add: pool_allocator_elem_def)
qed

lemma card_below: "m \<le> 2 ^ 32 \<Longrightarrow> card {i :: u32. unat i < m} = m"
proof -
  assume m: "m \<le> 2 ^ 32"
  have "inj_on (unat :: u32 \<Rightarrow> nat) {i. unat i < m}" by (simp add: inj_on_def word_unat_eq_iff)
  moreover have "unat ` {i :: u32. unat i < m} = {..<m}"
  proof (intro set_eqI iffI)
    fix k assume "k \<in> {..<m}"
    then have "unat (of_nat k :: u32) = k" using m by (simp add: unat_of_nat)
    then show "k \<in> unat ` {i :: u32. unat i < m}" using \<open>k \<in> {..<m}\<close> by (intro image_eqI [of _ _ "of_nat k"]) auto
  qed auto
  ultimately show ?thesis using card_image by fastforce
qed

lemma limit_le: "pa_wf pm \<Longrightarrow> pa_limit pm \<le> unat (n_elems pm)"
  by (auto simp: pa_limit_def pa_wf_def word_less_nat_alt)

lemma null_greatest: "i \<le> POOL_ALLOCATOR_NULL_ELEM" "unat POOL_ALLOCATOR_NULL_ELEM = 2 ^ 32 - 1"
  by (simp_all add: POOL_ALLOCATOR_NULL_ELEM_def unsigned_minus_1_eq_mask mask_eq_exp_minus_1)

lemma n_elems_null: "unat (n_elems pm) \<le> unat POOL_ALLOCATOR_NULL_ELEM"
  using null_greatest(1) word_le_nat_alt by blast

lemma below_limit:
  assumes "pa_wf pm" and "unat i < pa_limit pm"
  shows "i < alloc_end pm" and "i \<noteq> POOL_ALLOCATOR_NULL_ELEM" and "unat i < unat (n_elems pm)"
  using assms n_elems_null [of pm] limit_le [OF assms(1)]
  by (auto simp: pa_limit_def word_less_nat_alt split: if_splits)

lemma free_chain_cong:
  "alloc_end pm' = alloc_end pm \<Longrightarrow> (\<And>i. i \<in> set fs \<Longrightarrow> load_link pm' i = load_link pm i) \<Longrightarrow>
   free_chain pm' h fs = free_chain pm h fs"
  by (induction fs arbitrary: h) auto

text \<open>The effect of storing into an element.\<close>

definition with_slot :: "'t pool_allocator \<Rightarrow> u32 \<Rightarrow> 't slot \<Rightarrow> 't pool_allocator" where
  "with_slot pm i v = pm\<lparr>pool := (pool pm)[unat i := v]\<rparr>"

lemma store_slot_eq:
  "pa_wf pm \<Longrightarrow> unat i < unat (n_elems pm) \<Longrightarrow> store_slot pm i v = Some (with_slot pm i v)"
  by (simp add: store_slot_def with_slot_def) (simp add: pa_wf_def)

lemma with_slot_simps [simp]:
  "free_list (with_slot pm i v) = free_list pm" "alloc_end (with_slot pm i v) = alloc_end pm"
  "elem_size (with_slot pm i v) = elem_size pm" "n_elems (with_slot pm i v) = n_elems pm"
  "pa_limit (with_slot pm i v) = pa_limit pm" "pa_wf (with_slot pm i v) = pa_wf pm"
  by (simp_all add: with_slot_def pa_limit_def pa_wf_def)

lemma load_link_with_slot:
  assumes "pa_wf pm" and "unat j < unat (n_elems pm)" and "unat i < unat (n_elems pm)"
  shows "load_link (with_slot pm i v) j =
    (if j = i then (case v of Link l \<Rightarrow> Some l | _ \<Rightarrow> None) else load_link pm j)"
proof -
  have "length (pool pm) = unat (n_elems pm)" using assms(1) by (simp add: pa_wf_def)
  then show ?thesis
    using assms by (simp add: load_link_def Let_def) (simp add: with_slot_def nth_list_update word_unat_eq_iff)
qed

lemma load_link_update [simp]:
  "load_link (pm\<lparr>free_list := f\<rparr>) i = load_link pm i" "load_link (pm\<lparr>alloc_end := a\<rparr>) i = load_link pm i"
  by (simp_all add: load_link_def pool_allocator_elem_def Let_def)

subsection \<open>The allocator keeps its contract\<close>

lemma chain_store_other:
  assumes "pa_wf pm" and "i \<notin> set fs" and "unat i < unat (n_elems pm)"
    and "\<And>j. j \<in> set fs \<Longrightarrow> unat j < unat (n_elems pm)"
  shows "free_chain (with_slot pm i v) h fs = free_chain pm h fs"
  using assms by (intro free_chain_cong) (auto simp: load_link_with_slot)

lemma chain_head [simp]:
  "free_chain (pm\<lparr>free_list := f\<rparr>) h fs = free_chain pm h fs"
  by (rule free_chain_cong) simp_all

lemma pa_wf_update [simp]:
  "pa_wf (pm\<lparr>free_list := f\<rparr>) = pa_wf pm" "pa_limit (pm\<lparr>free_list := f\<rparr>) = pa_limit pm"
  by (simp_all add: pa_wf_def pa_limit_def)

lemma pa_repI:
  "pa_wf pm \<Longrightarrow> free_chain pm (free_list pm) fs \<Longrightarrow> distinct fs \<Longrightarrow> A \<inter> set fs = {} \<Longrightarrow>
   A \<union> set fs = {i. unat i < pa_limit pm} \<Longrightarrow> pa_rep pm A"
  unfolding pa_rep_def by blast

lemma pa_repE:
  assumes "pa_rep pm A"
  obtains fs where "pa_wf pm" "free_chain pm (free_list pm) fs" "distinct fs" "A \<inter> set fs = {}"
    "A \<union> set fs = {i. unat i < pa_limit pm}" "\<And>i. i \<in> A \<union> set fs \<Longrightarrow> unat i < unat (n_elems pm)"
proof -
  obtain fs where "pa_wf pm" "free_chain pm (free_list pm) fs" "distinct fs" "A \<inter> set fs = {}"
    "A \<union> set fs = {i. unat i < pa_limit pm}" using assms by (auto simp: pa_rep_def)
  moreover from this have "\<And>i. i \<in> A \<union> set fs \<Longrightarrow> unat i < unat (n_elems pm)"
    using limit_le [of pm] by auto
  ultimately show ?thesis using that by blast
qed

lemma alloc_returned:
  assumes "pa_rep pm A" and "free_list pm \<noteq> alloc_end pm"
  shows "\<exists>pm'. pool_allocator_alloc pm = Some (free_list pm, pm') \<and> unat (free_list pm) < unat (n_elems pm) \<and>
    free_list pm \<notin> A \<and> pa_rep pm' (insert (free_list pm) A) \<and> n_elems pm' = n_elems pm"
proof -
  obtain fs where wf: "pa_wf pm" and c: "free_chain pm (free_list pm) fs" "distinct fs"
    and d: "A \<inter> set fs = {}" "A \<union> set fs = {i. unat i < pa_limit pm}"
    and n: "\<And>i. i \<in> A \<union> set fs \<Longrightarrow> unat i < unat (n_elems pm)" using assms(1) by (rule pa_repE) blast
  obtain i fs' nx where fs: "fs = i # fs'" "free_list pm = i" "load_link pm i = Some nx" "free_chain pm nx fs'"
    using c assms(2) by (cases fs) auto
  let ?pm = "with_slot (pm\<lparr>free_list := nx\<rparr>) i Zeroed"
  have i: "unat i < pa_limit pm" using d(2) fs(1) by auto
  have "pool_allocator_alloc pm = Some (i, ?pm)"
    using assms(2) below_limit [OF wf i] fs store_slot_eq [of "pm\<lparr>free_list := nx\<rparr>" i Zeroed] wf
    by (simp add: pool_allocator_alloc_def Let_def less_imp_le)
  moreover have "free_chain ?pm nx fs' = free_chain (pm\<lparr>free_list := nx\<rparr>) nx fs'"
    using fs(1) c(2) n wf by (intro chain_store_other) auto
  then have "pa_rep ?pm (insert i A)"
    using fs c(2) d wf by (intro pa_repI [of _ fs']) auto
  ultimately show ?thesis using fs(1,2) d(1) n [of i] by auto
qed

lemma never_used_next:
  fixes e n :: u32
  assumes "e < n"
  shows "\<not> e < n - 1 \<Longrightarrow> unat n = unat e + 1" and "e < n - 1 \<Longrightarrow> unat (e + 1) = unat e + 1"
    and "e < n - 1 \<Longrightarrow> e + 1 < n" and "e < n - 1 \<Longrightarrow> e + 1 \<noteq> POOL_ALLOCATOR_NULL_ELEM"
proof -
  have "n \<noteq> 0" using assms by auto
  then have n: "unat (n - 1) = unat n - 1" "unat e < unat n" "unat n < 2 ^ 32"
    using assms null_greatest(1) [of n] null_greatest(2) unat_minus_one [of n]
    by (simp_all add: word_less_nat_alt word_le_nat_alt)
  show "unat n = unat e + 1" if "\<not> e < n - 1" using that n by (simp add: word_less_nat_alt)
  have e: "unat (e + 1) = unat e + 1" using n by (simp add: unat_word_ariths(1))
  then show "e < n - 1 \<Longrightarrow> unat (e + 1) = unat e + 1" .
  show "e < n - 1 \<Longrightarrow> e + 1 < n" using n e by (simp add: word_less_nat_alt)
  show "e < n - 1 \<Longrightarrow> e + 1 \<noteq> POOL_ALLOCATOR_NULL_ELEM"
    using n e null_greatest(2) by (auto simp: word_less_nat_alt)
qed

lemma alloc_never_used:
  assumes "pa_rep pm A" and "free_list pm = alloc_end pm" and "alloc_end pm \<noteq> POOL_ALLOCATOR_NULL_ELEM"
  shows "\<exists>pm'. pool_allocator_alloc pm = Some (alloc_end pm, pm') \<and> unat (alloc_end pm) < unat (n_elems pm) \<and>
    alloc_end pm \<notin> A \<and> pa_rep pm' (insert (alloc_end pm) A) \<and> n_elems pm' = n_elems pm"
proof -
  obtain fs where wf: "pa_wf pm" and c: "free_chain pm (free_list pm) fs" "distinct fs"
    and d: "A \<inter> set fs = {}" "A \<union> set fs = {i. unat i < pa_limit pm}"
    and n: "\<And>i. i \<in> A \<union> set fs \<Longrightarrow> unat i < unat (n_elems pm)" using assms(1) by (rule pa_repE) blast
  let ?e = "alloc_end pm"
  let ?nx = "if ?e < n_elems pm - 1 then ?e + 1 else POOL_ALLOCATOR_NULL_ELEM"
  let ?pm = "pm\<lparr>alloc_end := ?nx, free_list := ?nx\<rparr>"
  have e: "?e < n_elems pm" and lim: "pa_limit pm = unat ?e"
    using wf assms(3) by (auto simp: pa_wf_def pa_limit_def)
  have nil: "fs = []"
  proof (cases fs)
    case (Cons i fs')
    then have "i = ?e" using c(1) assms(2) by simp
    then show ?thesis using d(2) Cons lim by auto
  qed simp
  have lim': "pa_limit ?pm = unat ?e + 1" and wf': "pa_wf ?pm"
    using never_used_next [OF e] wf by (auto simp: pa_limit_def pa_wf_def)
  have "pool_allocator_alloc pm = Some (?e, with_slot ?pm ?e Zeroed)"
    using assms(2,3) store_slot_eq [OF wf', of ?e Zeroed] e
    by (simp add: pool_allocator_alloc_def Let_def word_less_nat_alt)
  moreover have "pa_rep (with_slot ?pm ?e Zeroed) (insert ?e A)"
    using wf' d nil lim lim' by (intro pa_repI [of _ "[]"]) (auto simp: less_Suc_eq word_unat_eq_iff)
  ultimately show ?thesis using e d(2) nil lim by (auto simp: word_less_nat_alt)
qed

lemma alloc_exhausted:
  assumes "pa_rep pm A"
  shows "card A = unat (n_elems pm) \<longleftrightarrow> free_list pm = POOL_ALLOCATOR_NULL_ELEM"
proof -
  obtain fs where wf: "pa_wf pm" and c: "free_chain pm (free_list pm) fs" "distinct fs"
    and d: "A \<inter> set fs = {}" "A \<union> set fs = {i. unat i < pa_limit pm}"
    and n: "\<And>i. i \<in> A \<union> set fs \<Longrightarrow> unat i < unat (n_elems pm)" using assms(1) by (rule pa_repE) blast
  have "pa_limit pm \<le> 2 ^ 32" using limit_le [OF wf] n_elems_null [of pm] null_greatest(2) by simp
  then have "card (A \<union> set fs) = pa_limit pm" using d(2) card_below by metis
  then have card: "card A + length fs = pa_limit pm"
    using card_Un_disjoint [of A "set fs"] d(1) c(2) distinct_card by fastforce
  show ?thesis
  proof (cases fs)
    case Nil
    then show ?thesis using c(1) card wf by (auto simp: pa_limit_def pa_wf_def word_less_nat_alt split: if_splits)
  next
    case (Cons i fs')
    then have "free_list pm \<noteq> POOL_ALLOCATOR_NULL_ELEM" using c(1) below_limit(2) [OF wf, of i] d(2) by auto
    then show ?thesis using card limit_le [OF wf] Cons by simp
  qed
qed

lemma free_id:
  assumes "pa_rep pm A" and "i \<in> A"
  shows "\<exists>pm'. pool_allocator_free i pm = Some pm' \<and> pa_rep pm' (A - {i}) \<and> n_elems pm' = n_elems pm"
proof -
  obtain fs where wf: "pa_wf pm" and c: "free_chain pm (free_list pm) fs" "distinct fs"
    and d: "A \<inter> set fs = {}" "A \<union> set fs = {i. unat i < pa_limit pm}"
    and n: "\<And>i. i \<in> A \<union> set fs \<Longrightarrow> unat i < unat (n_elems pm)" using assms(1) by (rule pa_repE) blast
  let ?pm = "with_slot pm i (Link (free_list pm))"
  have i: "unat i < unat (n_elems pm)" "i \<notin> set fs" using n assms(2) d(1) by auto
  have "free_chain ?pm (free_list pm) fs" using chain_store_other [OF wf i(2,1)] c(1) n by auto
  then have "pa_rep (?pm\<lparr>free_list := i\<rparr>) (A - {i})"
    using wf c(2) d i assms(2) by (intro pa_repI [of _ "i # fs"]) (auto simp: load_link_with_slot)
  moreover have "pool_allocator_free i pm = Some (?pm\<lparr>free_list := i\<rparr>)"
    using i store_slot_eq [OF wf i(1)] by (simp add: pool_allocator_free_def word_less_nat_alt)
  ultimately show ?thesis by simp
qed

interpretation pa: id_allocator pa_rep "\<lambda>pm. unat (n_elems pm)" POOL_ALLOCATOR_NULL_ELEM
  pool_allocator_alloc pool_allocator_free
proof
  fix s :: "'a pool_allocator" and A i
  assume rep: "pa_rep s A"
  show "unat (n_elems s) \<le> unat POOL_ALLOCATOR_NULL_ELEM" by (rule n_elems_null)
  show "i \<in> A \<Longrightarrow> unat i < unat (n_elems s)" using rep by (rule pa_repE) auto
  show "card A = unat (n_elems s) \<Longrightarrow> pool_allocator_alloc s = Some (POOL_ALLOCATOR_NULL_ELEM, s)"
    using alloc_returned [OF rep] alloc_exhausted [OF rep] n_elems_null [of s]
    by (cases "free_list s = alloc_end s") (auto simp: pool_allocator_alloc_def)
  show "\<exists>i s'. pool_allocator_alloc s = Some (i, s') \<and> unat i < unat (n_elems s) \<and> i \<notin> A \<and>
      pa_rep s' (insert i A) \<and> unat (n_elems s') = unat (n_elems s)" if "card A \<noteq> unat (n_elems s)"
    using alloc_returned [OF rep] alloc_never_used [OF rep] alloc_exhausted [OF rep] that
    by (cases "free_list s = alloc_end s") auto
  show "\<exists>s'. pool_allocator_free i s = Some s' \<and> pa_rep s' (A - {i}) \<and> unat (n_elems s') = unat (n_elems s)"
    if "i \<in> A" using free_id [OF rep that] by auto
qed

lemma init_rep:
  assumes "pool_allocator_init (Some m) (Some mem) esize n = (0, Some pm)"
    and "length mem = unat n" and "unat n * unat esize \<le> 2 ^ 32"
  shows "pa_rep pm {}" and "n_elems pm = n"
proof -
  have pm: "pm = m\<lparr>pool := mem, elem_size := esize, n_elems := n, free_list := 0, alloc_end := 0\<rparr>"
    and n: "n \<noteq> 0" "\<not> esize < 4" using assms(1) by (auto simp: pool_allocator_init_def errno_defs split: if_splits)
  show "n_elems pm = n" using pm by simp
  have "0 < n" using n(1) by (simp add: word_greater_zero_iff)
  then have wf: "pa_wf pm" using pm n assms(2,3) by (simp add: pa_wf_def not_less)
  have "(0 :: u32) \<noteq> POOL_ALLOCATOR_NULL_ELEM" by (simp add: POOL_ALLOCATOR_NULL_ELEM_def)
  then show "pa_rep pm {}" using wf pm by (intro pa_repI [of _ "[]"]) (auto simp: pa_limit_def)
qed

text \<open>What the allocator does to the elements: an allocation clears the one it hands out and a free
  overwrites the one it takes back; no other element changes.\<close>

lemma alloc_pool:
  assumes "pool_allocator_alloc pm = Some (i, pm')" and "i \<noteq> POOL_ALLOCATOR_NULL_ELEM"
  shows "pool pm' = (pool pm)[pool_allocator_elem pm i := Zeroed]"
  using assms
  by (auto simp: pool_allocator_alloc_def store_slot_def pool_allocator_elem_def Let_def
      split: if_splits option.splits)

lemma free_pool:
  assumes "pool_allocator_free i pm = Some pm'"
  shows "pool pm' = (pool pm)[pool_allocator_elem pm i := Link (free_list pm)]"
  using assms
  by (auto simp: pool_allocator_free_def store_slot_def pool_allocator_elem_def Let_def split: if_splits)

text \<open>The client owns the elements it holds: storing into one does not disturb the allocator.\<close>

lemma rep_with_slot:
  assumes "pa_rep pm A" and "i \<in> A"
  shows "pa_rep (with_slot pm i v) A"
proof -
  obtain fs where wf: "pa_wf pm" and c: "free_chain pm (free_list pm) fs" "distinct fs"
    and d: "A \<inter> set fs = {}" "A \<union> set fs = {i. unat i < pa_limit pm}"
    and n: "\<And>i. i \<in> A \<union> set fs \<Longrightarrow> unat i < unat (n_elems pm)" using assms(1) by (rule pa_repE) blast
  have "i \<notin> set fs" using d(1) assms(2) by auto
  then have "free_chain (with_slot pm i v) (free_list pm) fs"
    using chain_store_other [OF wf, of i fs] c(1) n assms(2) by auto
  then show ?thesis using wf c(2) d by (intro pa_repI [of _ fs]) auto
qed

text \<open>
  C35. On a pool of \<open>n\<close> elements of at least four bytes, at most \<open>2\<^sup>3\<^sup>2\<close> bytes in all, whatever the elements
  contain, every sequence of allocations and of frees of held elements runs without a failed
  assertion or an access outside the pool. An allocation answers \<open>~0\<close> exactly when all \<open>n\<close> elements
  are held, and otherwise the index of an element of the pool that is not held.
\<close>

theorem pool_allocator_ids:
  assumes "pool_allocator_init (Some m) (Some mem) esize n = (0, Some pm)"
    and "length mem = unat n" and "unat n * unat esize \<le> 2 ^ 32"
  shows "\<exists>rs. id_run pool_allocator_alloc pool_allocator_free POOL_ALLOCATOR_NULL_ELEM ops {} pm = Some rs \<and>
    ids_ok (unat n) POOL_ALLOCATOR_NULL_ELEM ops {} rs"
  using pa.run_ids [OF init_rep(1) [OF assms]] init_rep(2) [OF assms] by simp

theorem pool_allocator_ids_witness:
  "\<exists>rs. id_run pool_allocator_alloc pool_allocator_free POOL_ALLOCATOR_NULL_ELEM
      [Alloc, Alloc, Free 0, Alloc, Alloc] {}
      \<lparr>pool = [Elem True, Zeroed], free_list = 0, alloc_end = 0, elem_size = 8, n_elems = 2\<rparr> = Some rs \<and>
    ids_ok 2 POOL_ALLOCATOR_NULL_ELEM [Alloc, Alloc, Free 0, Alloc, Alloc] {} rs"
  using pool_allocator_ids [of "\<lparr>pool = [], free_list = 7, alloc_end = 7, elem_size = 7, n_elems = 7\<rparr>"
      "[Elem True, Zeroed]" 8 2 "\<lparr>pool = [Elem True, Zeroed], free_list = 0, alloc_end = 0, elem_size = 8, n_elems = 2\<rparr>"
      "[Alloc, Alloc, Free 0, Alloc, Alloc]"]
  by (simp add: pool_allocator_init_def)

end
