(* ===== verification/Table_Spec.thy ===== *)
theory Table_Spec
  imports Prelude
begin

text \<open>
  The contract of a bounded table of objects with stable indices, the one the fixed hash tables of
  \<^verbatim>\<open>src/util/fixed_hash.h\<close> give to their clients. A table represents a map from keys to an index and
  an object; it holds at most \<open>cap\<close> keys, gives a new key an index below \<open>cap\<close> that no other key has,
  and keeps the index of a key until the key is erased. A refused insertion answers \<open>null\<close>.
  \<^const>\<open>None\<close> as the outcome of an operation is a failed assertion.

  The client lemma follows an arbitrary sequence of operations and compares every answer with the
  represented map.
\<close>

datatype ('k, 't) table_op = Lookup 'k | Insert 'k 't | Erase 'k | Update 'k 't

text \<open>\<open>Found\<close> is the index and the object that a lookup gives, \<open>Placed\<close> the index of an insertion (\<^const>\<open>None\<close>
  when it is refused), \<open>Erased\<close> whether the key was there, \<open>Updated\<close> likewise.\<close>

datatype 't table_answer = Found "(u32 \<times> 't) option" | Placed "u32 option" | Erased bool | Updated bool

fun table_run ::
  "('k \<Rightarrow> 's \<Rightarrow> u32 option) \<Rightarrow> (u32 \<Rightarrow> 's \<Rightarrow> 't option) \<Rightarrow> (u32 \<Rightarrow> 't \<Rightarrow> 's \<Rightarrow> 's option) \<Rightarrow>
   ('k \<Rightarrow> 't option \<Rightarrow> 's \<Rightarrow> ((unit + u32) \<times> 's) option) \<Rightarrow> ('k \<Rightarrow> 's \<Rightarrow> (bool \<times> 's) option) \<Rightarrow> ('s \<Rightarrow> u32) \<Rightarrow>
   ('k, 't) table_op list \<Rightarrow> 's \<Rightarrow> 't table_answer list option" where
  "table_run fnd at assign ins del null [] s = Some []"
| "table_run fnd at assign ins del null (Lookup k # ops) s =
     (case fnd k s of
        None \<Rightarrow> None
      | Some i \<Rightarrow>
          if i = null s
          then map_option ((#) (Found None)) (table_run fnd at assign ins del null ops s)
          else
            (case at i s of
               None \<Rightarrow> None
             | Some t \<Rightarrow> map_option ((#) (Found (Some (i, t)))) (table_run fnd at assign ins del null ops s)))"
| "table_run fnd at assign ins del null (Insert k t # ops) s =
     (case ins k (Some t) s of
        Some (Inr i, s') \<Rightarrow>
          map_option ((#) (Placed (if i = null s then None else Some i))) (table_run fnd at assign ins del null ops s')
      | _ \<Rightarrow> None)"
| "table_run fnd at assign ins del null (Erase k # ops) s =
     (case del k s of
        None \<Rightarrow> None
      | Some (b, s') \<Rightarrow> map_option ((#) (Erased b)) (table_run fnd at assign ins del null ops s'))"
| "table_run fnd at assign ins del null (Update k t # ops) s =
     (case fnd k s of
        None \<Rightarrow> None
      | Some i \<Rightarrow>
          if i = null s
          then map_option ((#) (Updated False)) (table_run fnd at assign ins del null ops s)
          else
            (case assign i t s of
               None \<Rightarrow> None
             | Some s' \<Rightarrow> map_option ((#) (Updated True)) (table_run fnd at assign ins del null ops s')))"

text \<open>The answers that a table of capacity \<open>n\<close> which represents \<open>m\<close> may give.\<close>

fun table_ok :: "nat \<Rightarrow> ('k, 't) table_op list \<Rightarrow> ('k \<rightharpoonup> u32 \<times> 't) \<Rightarrow> 't table_answer list \<Rightarrow> bool" where
  "table_ok n [] m rs \<longleftrightarrow> rs = []"
| "table_ok n (Lookup k # ops) m rs \<longleftrightarrow> (\<exists>rs'. rs = Found (m k) # rs' \<and> table_ok n ops m rs')"
| "table_ok n (Insert k t # ops) m rs \<longleftrightarrow>
     (if card (dom m) = n \<or> m k \<noteq> None
      then (\<exists>rs'. rs = Placed None # rs' \<and> table_ok n ops m rs')
      else (\<exists>i rs'. rs = Placed (Some i) # rs' \<and> unat i < n \<and> i \<notin> fst ` ran m \<and>
              table_ok n ops (m(k \<mapsto> (i, t))) rs'))"
| "table_ok n (Erase k # ops) m rs \<longleftrightarrow>
     (\<exists>rs'. rs = Erased (m k \<noteq> None) # rs' \<and> table_ok n ops (m(k := None)) rs')"
| "table_ok n (Update k t # ops) m rs \<longleftrightarrow>
     (\<exists>rs'. rs = Updated (m k \<noteq> None) # rs' \<and>
        table_ok n ops (case m k of None \<Rightarrow> m | Some (i, _) \<Rightarrow> m(k \<mapsto> (i, t))) rs')"

locale index_table =
  fixes rep :: "'s \<Rightarrow> ('k \<rightharpoonup> u32 \<times> 't) \<Rightarrow> bool"
    and cap :: "'s \<Rightarrow> nat"
    and null :: "'s \<Rightarrow> u32"
    and fnd :: "'k \<Rightarrow> 's \<Rightarrow> u32 option"
    and at :: "u32 \<Rightarrow> 's \<Rightarrow> 't option"
    and assign :: "u32 \<Rightarrow> 't \<Rightarrow> 's \<Rightarrow> 's option"
    and ins :: "'k \<Rightarrow> 't option \<Rightarrow> 's \<Rightarrow> ((unit + u32) \<times> 's) option"
    and del :: "'k \<Rightarrow> 's \<Rightarrow> (bool \<times> 's) option"
  assumes index_bound: "rep s m \<Longrightarrow> m k = Some (i, t) \<Longrightarrow> unat i < cap s"
    and index_inj: "rep s m \<Longrightarrow> m k = Some (i, t) \<Longrightarrow> m k' = Some (i, t') \<Longrightarrow> k = k'"
    and null_bound: "rep s m \<Longrightarrow> unat i < cap s \<Longrightarrow> i \<noteq> null s"
    and find_rep: "rep s m \<Longrightarrow> fnd k s = Some (case m k of None \<Rightarrow> null s | Some (i, t) \<Rightarrow> i)"
    and at_rep: "rep s m \<Longrightarrow> m k = Some (i, t) \<Longrightarrow> at i s = Some t"
    and assign_rep: "rep s m \<Longrightarrow> m k = Some (i, u) \<Longrightarrow>
      \<exists>s'. assign i t s = Some s' \<and> rep s' (m(k \<mapsto> (i, t))) \<and> cap s' = cap s \<and> null s' = null s"
    and ins_refused: "rep s m \<Longrightarrow> card (dom m) = cap s \<or> m k \<noteq> None \<Longrightarrow>
      \<exists>s'. ins k x s = Some (Inr (null s), s') \<and> rep s' m \<and> cap s' = cap s \<and> null s' = null s"
    and ins_new: "rep s m \<Longrightarrow> card (dom m) \<noteq> cap s \<Longrightarrow> m k = None \<Longrightarrow>
      \<exists>i s'. ins k (Some t) s = Some (Inr i, s') \<and> unat i < cap s \<and> i \<notin> fst ` ran m \<and>
        rep s' (m(k \<mapsto> (i, t))) \<and> cap s' = cap s \<and> null s' = null s"
    and ins_throws: "rep s m \<Longrightarrow> card (dom m) \<noteq> cap s \<Longrightarrow> m k = None \<Longrightarrow>
      \<exists>s'. ins k None s = Some (Inl (), s') \<and> rep s' m \<and> cap s' = cap s \<and> null s' = null s"
    and del_rep: "rep s m \<Longrightarrow>
      \<exists>s'. del k s = Some (m k \<noteq> None, s') \<and> rep s' (m(k := None)) \<and> cap s' = cap s \<and> null s' = null s"
begin

lemma find_Some: "rep s m \<Longrightarrow> m k = Some (i, t) \<Longrightarrow> fnd k s = Some i \<and> i \<noteq> null s \<and> at i s = Some t"
  using find_rep [of s m k] index_bound [of s m k i t] null_bound [of s m i] at_rep [of s m k i t] by simp

lemma find_None: "rep s m \<Longrightarrow> m k = None \<Longrightarrow> fnd k s = Some (null s)"
  using find_rep [of s m k] by simp

lemma run_table:
  assumes "rep s m"
  shows "\<exists>rs. table_run fnd at assign ins del null ops s = Some rs \<and> table_ok (cap s) ops m rs"
  using assms
proof (induction ops arbitrary: s m)
  case (Cons oper ops)
  show ?case
  proof (cases oper)
    case (Lookup k)
    then show ?thesis
      using Cons.IH [OF Cons.prems] find_None [OF Cons.prems, of k] find_Some [OF Cons.prems, of k]
      by (cases "m k") auto
  next
    case (Insert k t)
    show ?thesis
    proof (cases "card (dom m) = cap s \<or> m k \<noteq> None")
      case True
      then obtain s' where "ins k (Some t) s = Some (Inr (null s), s')" "rep s' m" "cap s' = cap s"
        using ins_refused [OF Cons.prems] by blast
      then show ?thesis using Cons.IH [of s' m] True Insert by auto
    next
      case False
      then obtain i s' where "ins k (Some t) s = Some (Inr i, s')" "unat i < cap s" "i \<notin> fst ` ran m"
        "rep s' (m(k \<mapsto> (i, t)))" "cap s' = cap s" using ins_new [OF Cons.prems] by blast
      then show ?thesis using Cons.IH [of s' "m(k \<mapsto> (i, t))"] null_bound [OF Cons.prems] False Insert
        by (auto simp del: fun_upd_apply)
    qed
  next
    case (Erase k)
    obtain s' where "del k s = Some (m k \<noteq> None, s')" "rep s' (m(k := None))" "cap s' = cap s"
      using del_rep [OF Cons.prems] by blast
    then show ?thesis using Cons.IH [of s' "m(k := None)"] Erase by (auto simp del: fun_upd_apply)
  next
    case (Update k t)
    show ?thesis
    proof (cases "m k")
      case None
      then show ?thesis using Cons.IH [OF Cons.prems] find_None [OF Cons.prems] Update by auto
    next
      case (Some x)
      then obtain i u where x: "m k = Some (i, u)" by (cases x) auto
      then obtain s' where "assign i t s = Some s'" "rep s' (m(k \<mapsto> (i, t)))" "cap s' = cap s"
        using assign_rep [OF Cons.prems] by blast
      then show ?thesis using Cons.IH [of s' "m(k \<mapsto> (i, t))"] find_Some [OF Cons.prems x] x Update
        by (auto simp del: fun_upd_apply)
    qed
  qed
qed simp

end

end
