(* ===== verification/Fixed_Hash.thy ===== *)
theory Fixed_Hash
  imports Pool_Allocator Iterable_Bitmap Table_Spec
begin

text \<open>
  The object pool \<^verbatim>\<open>src/util/pool.h\<close> and the bounded hash table \<^verbatim>\<open>src/util/fixed_hash.h\<close> built on
  the pool allocator, the iterable bitmap and a hash map.

  A \<open>Pool\<close> keeps its objects in the memory of its allocator: \<open>elements_[index]\<close> is a slot of the
  allocator's pool, holding an object while the index is allocated and a link while it is free.
  A failed assertion, an access to a slot that holds no object included, is the value
  \<^const>\<open>None\<close>; an exception thrown by the constructor of an element is an outcome of its own.

  The hash map that gives the index of a key is \<^verbatim>\<open>absl::flat_hash_map\<close>, which is not part of the
  repository. Its operations are the record \<open>hash_ops\<close>, a parameter of the definitions, and
  \<open>hash_ops_ok\<close> states what Abseil documents of them.

  Shown: a \<open>FixedHash\<close> never fails an assertion, refines a map with at most as many keys as the pool
  has elements, and the index of a key stays the same, and is no other key's, until it is erased.
\<close>

subsection \<open>Pool\<close>

record 't object_pool =
  pool_alloc :: "'t pool_allocator"
  allocated :: iterable_bitmap
  elem_count :: nat
  max_elem_count :: nat
  pool_size :: nat

text \<open>\<open>index_type\<close> is \<open>u32\<close> for pools of at least 65535 elements and \<open>u16\<close> for smaller ones; here an
  index is a \<^typ>\<open>u32\<close> and \<open>to_index\<close> the conversion to \<open>index_type\<close>.\<close>

definition index_mask :: "nat \<Rightarrow> u32" where
  "index_mask sz = (if sz \<ge> 2 ^ 16 - 1 then - 1 else 0xffff)"

definition to_index :: "nat \<Rightarrow> u32 \<Rightarrow> u32" where
  "to_index sz i = i AND index_mask sz"

definition invalid :: "nat \<Rightarrow> u32" where
  "invalid sz = index_mask sz"

text \<open>The constructor, for elements of \<open>esize\<close> bytes in the fresh memory \<open>mem\<close>.\<close>

definition pool_new :: "nat \<Rightarrow> u32 \<Rightarrow> 't slot list \<Rightarrow> 't object_pool" where
  "pool_new sz esize mem =
     \<lparr>pool_alloc = the (snd (pool_allocator_init
        (Some \<lparr>pool = [], free_list = 0, alloc_end = 0, elem_size = 0, n_elems = 0\<rparr>) (Some mem) esize (of_nat sz))),
      allocated = bitmap_empty sz, elem_count = 0, max_elem_count = 0, pool_size = sz\<rparr>"

definition pool_full :: "'t object_pool \<Rightarrow> bool" where
  "pool_full p \<longleftrightarrow> elem_count p = pool_size p"

definition pool_empty :: "'t object_pool \<Rightarrow> bool" where
  "pool_empty p \<longleftrightarrow> elem_count p = 0"

definition pool_at :: "'t object_pool \<Rightarrow> u32 \<Rightarrow> 't option" where
  "pool_at p index =
     (if \<not> unat index < pool_size p then None
      else if \<not> bitmap_get (unat index) (allocated p) then None
      else (case pool (pool_alloc p) ! unat index of Elem t \<Rightarrow> Some t | _ \<Rightarrow> None))"

text \<open>Assigning through the reference that \<open>operator[]\<close> or a \<open>position\<close> gives.\<close>

definition pool_assign :: "u32 \<Rightarrow> 't \<Rightarrow> 't object_pool \<Rightarrow> 't object_pool option" where
  "pool_assign index t p =
     (case pool_at p index of
        None \<Rightarrow> None
      | Some _ \<Rightarrow> Some (p\<lparr>pool_alloc := (pool_alloc p)\<lparr>pool := (pool (pool_alloc p))[unat index := Elem t]\<rparr>\<rparr>))"

text \<open>\<open>emplace\<close> with a constructor that makes the object \<open>t\<close> or throws (\<^const>\<open>None\<close>). The result is the
  index of the position (with \<open>invalid\<close> the entry is \<open>nullptr\<close>), or \<open>Inl ()\<close> for an exception; \<open>pool_guard\<close>
  then returns the index to the allocator.\<close>

definition pool_emplace :: "'t option \<Rightarrow> 't object_pool \<Rightarrow> ((unit + u32) \<times> 't object_pool) option" where
  "pool_emplace t p =
     (if pool_full p then Some (Inr (invalid (pool_size p)), p)
      else
        (case pool_allocator_alloc (pool_alloc p) of
           None \<Rightarrow> None
         | Some (index, pa) \<Rightarrow>
             if index = POOL_ALLOCATOR_NULL_ELEM then None
             else
               (case t of
                  None \<Rightarrow>
                    map_option (\<lambda>pa'. (Inl (), p\<lparr>pool_alloc := pa'\<rparr>)) (pool_allocator_free index pa)
                | Some t' \<Rightarrow>
                    Some (Inr (to_index (pool_size p) index),
                      p\<lparr>pool_alloc := pa\<lparr>pool := (pool pa)[unat index := Elem t']\<rparr>,
                        elem_count := elem_count p + 1,
                        allocated := bitmap_set (unat index) (allocated p),
                        max_elem_count := max (max_elem_count p) (elem_count p + 1)\<rparr>))))"

definition pool_remove :: "u32 \<Rightarrow> 't object_pool \<Rightarrow> 't object_pool option" where
  "pool_remove index p =
     (case pool_at p index of
        None \<Rightarrow> None
      | Some _ \<Rightarrow>
          (case pool_allocator_free index (pool_alloc p) of
             None \<Rightarrow> None
           | Some pa \<Rightarrow>
               Some (p\<lparr>pool_alloc := pa, elem_count := elem_count p - 1,
                       allocated := bitmap_clear (unat index) (allocated p)\<rparr>)))"

subsection \<open>FixedHash\<close>

text \<open>The operations of the hash map: \<open>find\<close>, \<open>insert\<close> of a pair, which says whether the key was
  new, assignment to the value that an iterator points to, and \<open>erase\<close>.\<close>

record ('m, 'k) hash_ops =
  hm_empty :: 'm
  hm_find :: "'k \<Rightarrow> 'm \<Rightarrow> u32 option"
  hm_insert :: "'k \<Rightarrow> u32 \<Rightarrow> 'm \<Rightarrow> 'm \<times> bool"
  hm_assign :: "'k \<Rightarrow> u32 \<Rightarrow> 'm \<Rightarrow> 'm"
  hm_erase :: "'k \<Rightarrow> 'm \<Rightarrow> 'm"

definition hash_ops_ok :: "('m, 'k) hash_ops \<Rightarrow> bool" where
  "hash_ops_ok F \<longleftrightarrow>
     (\<forall>k. hm_find F k (hm_empty F) = None) \<and>
     (\<forall>k v m. snd (hm_insert F k v m) = (hm_find F k m = None)) \<and>
     (\<forall>k v m x. hm_find F x (fst (hm_insert F k v m)) =
        (if x = k \<and> hm_find F k m = None then Some v else hm_find F x m)) \<and>
     (\<forall>k v m x. hm_find F k m \<noteq> None \<longrightarrow> hm_find F x (hm_assign F k v m) =
        (if x = k then Some v else hm_find F x m)) \<and>
     (\<forall>k m x. hm_find F x (hm_erase F k m) = (if x = k then None else hm_find F x m))"

record ('m, 't) fixed_hash =
  fh_map :: 'm
  fh_pool :: "'t object_pool"

definition fh_new :: "('m, 'k) hash_ops \<Rightarrow> nat \<Rightarrow> u32 \<Rightarrow> 't slot list \<Rightarrow> ('m, 't) fixed_hash" where
  "fh_new F sz esize mem = \<lparr>fh_map = hm_empty F, fh_pool = pool_new sz esize mem\<rparr>"

definition fh_full :: "('m, 't) fixed_hash \<Rightarrow> bool" where
  "fh_full h = pool_full (fh_pool h)"

definition fh_invalid :: "('m, 't) fixed_hash \<Rightarrow> u32" where
  "fh_invalid h = invalid (pool_size (fh_pool h))"

definition fh_contains :: "('m, 'k) hash_ops \<Rightarrow> 'k \<Rightarrow> ('m, 't) fixed_hash \<Rightarrow> bool" where
  "fh_contains F k h \<longleftrightarrow> hm_find F k (fh_map h) \<noteq> None"

definition fh_at :: "u32 \<Rightarrow> ('m, 't) fixed_hash \<Rightarrow> 't option" where
  "fh_at index h = pool_at (fh_pool h) index"

definition fh_find :: "('m, 'k) hash_ops \<Rightarrow> 'k \<Rightarrow> ('m, 't) fixed_hash \<Rightarrow> u32 option" where
  "fh_find F k h =
     (case hm_find F k (fh_map h) of
        None \<Rightarrow> Some (fh_invalid h)
      | Some index \<Rightarrow>
          (case pool_at (fh_pool h) index of
             None \<Rightarrow> None
           | Some _ \<Rightarrow> Some (to_index (pool_size (fh_pool h)) index)))"

definition fh_assign :: "u32 \<Rightarrow> 't \<Rightarrow> ('m, 't) fixed_hash \<Rightarrow> ('m, 't) fixed_hash option" where
  "fh_assign index t h = map_option (\<lambda>p. h\<lparr>fh_pool := p\<rparr>) (pool_assign index t (fh_pool h))"

text \<open>\<open>map_guard\<close> erases the key again when the element could not be added.\<close>

definition fh_insert ::
  "('m, 'k) hash_ops \<Rightarrow> 'k \<Rightarrow> 't option \<Rightarrow> ('m, 't) fixed_hash \<Rightarrow> ((unit + u32) \<times> ('m, 't) fixed_hash) option" where
  "fh_insert F k t h =
     (if fh_full h then Some (Inr (fh_invalid h), h)
      else
        (case hm_insert F k (fh_invalid h) (fh_map h) of (m, new) \<Rightarrow>
           if \<not> new then Some (Inr (fh_invalid h), h\<lparr>fh_map := m\<rparr>)
           else
             (case pool_emplace t (fh_pool h) of
                None \<Rightarrow> None
              | Some (Inl _, p) \<Rightarrow> Some (Inl (), h\<lparr>fh_map := hm_erase F k m, fh_pool := p\<rparr>)
              | Some (Inr index, p) \<Rightarrow>
                  if index = fh_invalid h
                  then Some (Inr index, h\<lparr>fh_map := hm_erase F k m, fh_pool := p\<rparr>)
                  else Some (Inr index, h\<lparr>fh_map := hm_assign F k index m, fh_pool := p\<rparr>))))"

definition fh_erase :: "('m, 'k) hash_ops \<Rightarrow> 'k \<Rightarrow> ('m, 't) fixed_hash \<Rightarrow> (bool \<times> ('m, 't) fixed_hash) option" where
  "fh_erase F k h =
     (case hm_find F k (fh_map h) of
        None \<Rightarrow> Some (False, h)
      | Some index \<Rightarrow>
          map_option (\<lambda>p. (True, h\<lparr>fh_map := hm_erase F k (fh_map h), fh_pool := p\<rparr>))
            (pool_remove index (fh_pool h)))"

subsection \<open>The pool as a map from indices to objects\<close>

definition pool_rep :: "'t object_pool \<Rightarrow> (u32 \<rightharpoonup> 't) \<Rightarrow> bool" where
  "pool_rep p M \<longleftrightarrow> pa_rep (pool_alloc p) (dom M) \<and> unat (n_elems (pool_alloc p)) = pool_size p \<and>
     ib_rep (allocated p) (unat ` dom M) \<and> ib_size (allocated p) = pool_size p \<and>
     elem_count p = card (dom M) \<and> (\<forall>i t. M i = Some t \<longrightarrow> pool (pool_alloc p) ! unat i = Elem t)"

lemma pool_rep_bound: "pool_rep p M \<Longrightarrow> i \<in> dom M \<Longrightarrow> unat i < pool_size p"
  using pa.rep_bound by (fastforce simp: pool_rep_def)

lemma inj_unat32: "inj (unat :: u32 \<Rightarrow> nat)"
  by (simp add: inj_def word_unat_eq_iff)

lemma unat_image_iff [simp]: "unat i \<in> unat ` A \<longleftrightarrow> i \<in> A" for i :: u32
  by (rule inj_image_mem_iff [OF inj_unat32])

lemma pool_at_rep: "pool_rep p M \<Longrightarrow> pool_at p i = M i"
proof -
  assume rep: "pool_rep p M"
  have get: "bitmap_get (unat i) (allocated p) \<longleftrightarrow> i \<in> dom M" if "unat i < pool_size p"
    using rep that bitmap_get_rep [of "allocated p" "unat ` dom M" "unat i"] by (simp add: pool_rep_def)
  show ?thesis
  proof (cases "M i")
    case None
    then show ?thesis using get by (auto simp: pool_at_def)
  next
    case (Some t)
    then have "unat i < pool_size p" using pool_rep_bound [OF rep] by blast
    then show ?thesis using get Some rep by (auto simp: pool_at_def pool_rep_def)
  qed
qed

lemma to_index_id: "unat i < sz \<Longrightarrow> to_index sz i = i"
proof (cases "sz \<ge> 2 ^ 16 - 1")
  case False
  assume "unat i < sz"
  have "(0xffff :: u32) = mask 16" by (simp add: mask_eq_exp_minus_1)
  moreover have "unat i < 2 ^ 16" using False \<open>unat i < sz\<close> by simp
  then have "take_bit 16 i = i" by (intro word_unat_eq_iff [THEN iffD2]) (simp add: unsigned_take_bit_eq take_bit_nat_eq_self)
  ultimately show ?thesis using False by (simp add: to_index_def index_mask_def take_bit_eq_mask)
qed (simp add: to_index_def index_mask_def)

lemma valid_index: "unat i < sz \<Longrightarrow> sz \<le> 2 ^ 30 \<Longrightarrow> i \<noteq> invalid sz"
  by (auto simp: invalid_def index_mask_def unsigned_minus_1_eq_mask mask_eq_exp_minus_1 split: if_splits)

lemma pool_rep_size: "pool_rep p M \<Longrightarrow> pool_size p \<le> 2 ^ 30"
  by (auto simp: pool_rep_def ib_rep_def ib_upto_def ib_shape_def size_ok_def)

lemma pool_full_rep: "pool_rep p M \<Longrightarrow> pool_full p \<longleftrightarrow> card (dom M) = pool_size p"
  by (simp add: pool_full_def pool_rep_def)

lemma elem_slot:
  assumes "pa_rep pa A" and "i \<in> A"
  shows "pool_allocator_elem pa i = unat i" and "unat i < length (pool pa)"
  using assms pa.rep_bound [OF assms] by (simp_all add: pa_rep_def) (simp add: pa_wf_def)

lemma pool_emplace_rep:
  assumes rep: "pool_rep p M" and room: "card (dom M) \<noteq> pool_size p"
  shows "\<exists>i p'. unat i < pool_size p \<and> M i = None \<and> pool_emplace (Some t) p = Some (Inr i, p') \<and>
    pool_rep p' (M(i \<mapsto> t)) \<and> pool_size p' = pool_size p"
proof -
  have pa: "pa_rep (pool_alloc p) (dom M)" and n: "unat (n_elems (pool_alloc p)) = pool_size p"
    and ib: "ib_rep (allocated p) (unat ` dom M)" "ib_size (allocated p) = pool_size p"
    using rep by (simp_all add: pool_rep_def)
  obtain i pa' where a: "pool_allocator_alloc (pool_alloc p) = Some (i, pa')" "unat i < pool_size p" "M i = None"
    and rep': "pa_rep pa' (insert i (dom M))" "unat (n_elems pa') = pool_size p"
    using pa.alloc_fresh [OF pa] room n by auto
  have null: "i \<noteq> POOL_ALLOCATOR_NULL_ELEM" using a(2) n n_elems_null [of "pool_alloc p"] by auto
  let ?pa = "with_slot pa' i (Elem t)"
  let ?p = "p\<lparr>pool_alloc := ?pa, elem_count := elem_count p + 1,
    allocated := bitmap_set (unat i) (allocated p), max_elem_count := max (max_elem_count p) (elem_count p + 1)\<rparr>"
  have "pool_allocator_elem (pool_alloc p) i = unat i" using pa a(2) n by (simp add: pa_rep_def)
  then have slots: "pool pa' = (pool (pool_alloc p))[unat i := Zeroed]" using alloc_pool [OF a(1) null] by simp
  have len: "unat i < length (pool pa')" using elem_slot [OF rep'(1), of i] by simp
  have "pool_emplace (Some t) p = Some (Inr i, ?p)"
    using a null room rep to_index_id [OF a(2)]
    by (simp add: pool_emplace_def pool_full_rep with_slot_def)
  moreover have "pool_rep ?p (M(i \<mapsto> t))"
  proof -
    have "pool ?pa ! unat j = Elem u" if "(M(i \<mapsto> t)) j = Some u" for j u
      using that rep len slots by (auto simp: with_slot_def pool_rep_def nth_list_update word_unat_eq_iff split: if_splits)
    moreover have "ib_size (bitmap_set (unat i) (allocated p)) = pool_size p"
      using ib(2) ib_size_apply [of "Set (unat i)" "allocated p"] by simp
    moreover have "finite (dom M)" by (rule pa.rep_finite [OF pa])
    ultimately show ?thesis
      using rep rep_with_slot [OF rep'(1), of i "Elem t"] rep'(2) bitmap_set_rep [OF ib(1), of "unat i"] a(2,3) ib(2)
      by (auto simp: pool_rep_def domIff)
  qed
  ultimately show ?thesis using a(2,3) by auto
qed

lemma pool_emplace_throw:
  assumes rep: "pool_rep p M" and room: "card (dom M) \<noteq> pool_size p"
  shows "\<exists>p'. pool_emplace None p = Some (Inl (), p') \<and> pool_rep p' M \<and> pool_size p' = pool_size p"
proof -
  have pa: "pa_rep (pool_alloc p) (dom M)" and n: "unat (n_elems (pool_alloc p)) = pool_size p"
    using rep by (simp_all add: pool_rep_def)
  obtain i pa' where a: "pool_allocator_alloc (pool_alloc p) = Some (i, pa')" "unat i < pool_size p" "M i = None"
    and rep': "pa_rep pa' (insert i (dom M))" "unat (n_elems pa') = pool_size p"
    using pa.alloc_fresh [OF pa] room n by auto
  have null: "i \<noteq> POOL_ALLOCATOR_NULL_ELEM" using a(2) n n_elems_null [of "pool_alloc p"] by auto
  obtain pa'' where f: "pool_allocator_free i pa' = Some pa''" "pa_rep pa'' (insert i (dom M) - {i})"
    "unat (n_elems pa'') = pool_size p" using pa.free_used [OF rep'(1), of i] rep'(2) by auto
  have same: "pool pa'' ! unat j = pool (pool_alloc p) ! unat j" if "j \<noteq> i" for j
    using that alloc_pool [OF a(1) null] free_pool [OF f(1)] pa a(2) n elem_slot(1) [OF rep'(1), of i]
    by (simp add: pa_rep_def word_unat_eq_iff)
  have "insert i (dom M) - {i} = dom M" using a(3) by auto
  moreover have "pool pa'' ! unat j = Elem u" if "M j = Some u" for j u
  proof -
    have "j \<noteq> i" using that a(3) by auto
    then show ?thesis using same that rep by (simp add: pool_rep_def)
  qed
  ultimately have "pool_rep (p\<lparr>pool_alloc := pa''\<rparr>) M" using rep f by (simp add: pool_rep_def)
  then show ?thesis using a null room rep f(1) by (simp add: pool_emplace_def pool_full_rep)
qed

lemma pool_remove_rep:
  assumes rep: "pool_rep p M" and i: "M i = Some t"
  shows "\<exists>p'. pool_remove i p = Some p' \<and> pool_rep p' (M(i := None)) \<and> pool_size p' = pool_size p"
proof -
  have pa: "pa_rep (pool_alloc p) (dom M)" and n: "unat (n_elems (pool_alloc p)) = pool_size p"
    and ib: "ib_rep (allocated p) (unat ` dom M)" "ib_size (allocated p) = pool_size p"
    using rep by (simp_all add: pool_rep_def)
  obtain pa' where f: "pool_allocator_free i (pool_alloc p) = Some pa'" "pa_rep pa' (dom M - {i})"
    "unat (n_elems pa') = pool_size p" using pa.free_used [OF pa, of i] i n by auto
  have bound: "unat i < pool_size p" using pool_rep_bound [OF rep] i by blast
  have same: "pool pa' ! unat j = pool (pool_alloc p) ! unat j" if "j \<noteq> i" for j
    using that free_pool [OF f(1)] elem_slot(1) [OF pa, of i] i by (simp add: word_unat_eq_iff domIff)
  have "unat ` dom M - {unat i} = unat ` (dom M - {i})" by (simp add: image_set_diff [OF inj_unat32])
  then have "ib_rep (bitmap_clear (unat i) (allocated p)) (unat ` (dom M - {i}))"
    using bitmap_clear_rep [OF ib(1), of "unat i"] bound ib(2) by simp
  moreover have "card (dom M - {i}) = card (dom M) - 1"
    using i pa.rep_finite [OF pa] by (simp add: card_Diff_singleton domI)
  ultimately have "pool_rep (p\<lparr>pool_alloc := pa', elem_count := elem_count p - 1,
      allocated := bitmap_clear (unat i) (allocated p)\<rparr>) (M(i := None))"
    using rep f same ib_size_apply [of "Clear (unat i)" "allocated p"] by (simp add: pool_rep_def)
  then show ?thesis using f(1) pool_at_rep [OF rep, of i] i by (simp add: pool_remove_def)
qed

lemma pool_assign_rep:
  assumes "pool_rep p M" and "M i = Some u"
  shows "\<exists>p'. pool_assign i t p = Some p' \<and> pool_rep p' (M(i \<mapsto> t)) \<and> pool_size p' = pool_size p"
proof -
  have pa: "pa_rep (pool_alloc p) (dom M)" using assms(1) by (simp add: pool_rep_def)
  have dom: "dom (M(i \<mapsto> t)) = dom M" using assms(2) by auto
  have "unat i < length (pool (pool_alloc p))" using elem_slot(2) [OF pa, of i] assms(2) by auto
  then have "pool_rep (p\<lparr>pool_alloc := with_slot (pool_alloc p) i (Elem t)\<rparr>) (M(i \<mapsto> t))"
    using assms rep_with_slot [OF pa, of i "Elem t"] unfolding pool_rep_def dom
    by (auto simp: with_slot_def nth_list_update word_unat_eq_iff)
  then show ?thesis using assms pool_at_rep [OF assms(1), of i] by (simp add: pool_assign_def with_slot_def)
qed

lemma pool_new_rep:
  assumes "0 < sz" and "sz \<le> 2 ^ 30" and "4 \<le> esize" and "sz * unat esize \<le> 2 ^ 32" and "length mem = sz"
  shows "pool_rep (pool_new sz esize mem) Map.empty" and "pool_size (pool_new sz esize mem) = sz"
proof -
  have n: "unat (of_nat sz :: u32) = sz" using assms(2) by (simp add: unat_of_nat)
  then have "of_nat sz \<noteq> (0 :: u32)" using assms(1) by (metis unsigned_0 less_numeral_extra(3))
  then have init: "pool_allocator_init (Some \<lparr>pool = [], free_list = 0, alloc_end = 0, elem_size = 0, n_elems = 0\<rparr>) (Some mem)
      esize (of_nat sz) = (0, Some (pool_alloc (pool_new sz esize mem)))"
    using assms(3) by (auto simp: pool_allocator_init_def pool_new_def dest: leD)
  show "pool_size (pool_new sz esize mem) = sz" by (simp add: pool_new_def)
  show "pool_rep (pool_new sz esize mem) Map.empty"
    using init_rep [OF init] n assms bitmap_empty_rep [of sz]
    by (simp add: pool_rep_def) (simp add: pool_new_def size_ok_def bitmap_empty_def)
qed

subsection \<open>The hash table keeps its contract\<close>

definition fh_rel :: "('m, 'k) hash_ops \<Rightarrow> ('m, 't) fixed_hash \<Rightarrow> ('k \<rightharpoonup> u32 \<times> 't) \<Rightarrow> (u32 \<rightharpoonup> 't) \<Rightarrow> bool" where
  "fh_rel F h m M \<longleftrightarrow> hash_ops_ok F \<and> pool_rep (fh_pool h) M \<and>
     (\<forall>k. hm_find F k (fh_map h) = map_option fst (m k)) \<and>
     (\<forall>k i t. m k = Some (i, t) \<longrightarrow> M i = Some t) \<and>
     (\<forall>k k' i t t'. m k = Some (i, t) \<longrightarrow> m k' = Some (i, t') \<longrightarrow> k = k') \<and>
     dom M \<subseteq> fst ` ran m"

definition fh_rep :: "('m, 'k) hash_ops \<Rightarrow> ('m, 't) fixed_hash \<Rightarrow> ('k \<rightharpoonup> u32 \<times> 't) \<Rightarrow> bool" where
  "fh_rep F h m \<longleftrightarrow> (\<exists>M. fh_rel F h m M)"

lemma hash_laws:
  assumes "hash_ops_ok F"
  shows "hm_find F k (hm_empty F) = None" "snd (hm_insert F k v m) = (hm_find F k m = None)"
    "hm_find F x (fst (hm_insert F k v m)) = (if x = k \<and> hm_find F k m = None then Some v else hm_find F x m)"
    "hm_find F k m \<noteq> None \<Longrightarrow> hm_find F x (hm_assign F k v m) = (if x = k then Some v else hm_find F x m)"
    "hm_find F x (hm_erase F k m) = (if x = k then None else hm_find F x m)"
  using assms unfolding hash_ops_ok_def by blast+

lemma fh_rel_dom:
  assumes "fh_rel F h m M"
  shows "dom M = fst ` ran m" and "card (dom M) = card (dom m)"
proof -
  have M: "\<And>k i t. m k = Some (i, t) \<Longrightarrow> M i = Some t"
    "\<And>k k' i t t'. m k = Some (i, t) \<Longrightarrow> m k' = Some (i, t') \<Longrightarrow> k = k'" "dom M \<subseteq> fst ` ran m"
    using assms unfolding fh_rel_def by blast+
  then show dom: "dom M = fst ` ran m" by (fastforce simp: ran_def)
  have "inj_on (\<lambda>k. fst (the (m k))) (dom m)" using M(2) by (fastforce simp: inj_on_def dom_def)
  moreover have "(\<lambda>k. fst (the (m k))) ` dom m = dom M"
    unfolding dom by (force simp: ran_def dom_def image_iff)
  ultimately show "card (dom M) = card (dom m)" using card_image by metis
qed

lemma fh_rel_find:
  assumes "fh_rel F h m M"
  shows "hm_find F k (fh_map h) = map_option fst (m k)" and "m k = Some (i, t) \<Longrightarrow> M i = Some t"
    and "pool_rep (fh_pool h) M" and "hash_ops_ok F" and "fh_full h \<longleftrightarrow> card (dom m) = pool_size (fh_pool h)"
  using assms fh_rel_dom(2) [OF assms] pool_full_rep [of "fh_pool h" M] unfolding fh_rel_def fh_full_def by auto

text \<open>The same table behind a hash map that finds the same indices.\<close>

lemma fh_rel_map:
  "fh_rel F h m M \<Longrightarrow> pool_rep p M \<Longrightarrow> (\<And>k. hm_find F k g = map_option fst (m k)) \<Longrightarrow>
   fh_rel F (h\<lparr>fh_map := g, fh_pool := p\<rparr>) m M"
  by (simp add: fh_rel_def)

lemma fh_insert_refused:
  assumes "fh_rel F h m M" and "card (dom m) = pool_size (fh_pool h) \<or> m k \<noteq> None"
  shows "\<exists>h'. fh_insert F k t h = Some (Inr (fh_invalid h), h') \<and> fh_rel F h' m M \<and> fh_pool h' = fh_pool h"
proof (cases "fh_full h")
  case True
  then show ?thesis using assms(1) by (simp add: fh_insert_def)
next
  case False
  note r = fh_rel_find [OF assms(1)]
  obtain g new where g: "hm_insert F k (fh_invalid h) (fh_map h) = (g, new)" by fastforce
  have "\<not> new" "\<And>x. hm_find F x g = map_option fst (m x)"
    using False assms(2) r hash_laws(2) [OF r(4), of k "fh_invalid h" "fh_map h"]
      hash_laws(3) [OF r(4), of _ k "fh_invalid h" "fh_map h"] g by auto
  moreover from this(2) have "fh_rel F (h\<lparr>fh_map := g\<rparr>) m M" using assms(1) by (simp add: fh_rel_def)
  ultimately show ?thesis using False g by (simp add: fh_insert_def)
qed

lemma fh_insert_new:
  assumes rel: "fh_rel F h m M" and room: "card (dom m) \<noteq> pool_size (fh_pool h)" and new: "m k = None"
  shows "\<exists>i h' M'. fh_insert F k (Some t) h = Some (Inr i, h') \<and> unat i < pool_size (fh_pool h) \<and> i \<notin> fst ` ran m \<and>
    fh_rel F h' (m(k \<mapsto> (i, t))) M' \<and> pool_size (fh_pool h') = pool_size (fh_pool h)"
proof -
  note r = fh_rel_find [OF rel]
  obtain g b where g: "hm_insert F k (fh_invalid h) (fh_map h) = (g, b)" by fastforce
  have b: b "\<And>x. hm_find F x g = (if x = k then Some (fh_invalid h) else map_option fst (m x))"
    using new r(1) hash_laws(2) [OF r(4), of k "fh_invalid h" "fh_map h"]
      hash_laws(3) [OF r(4), of _ k "fh_invalid h" "fh_map h"] g by auto
  obtain i p where p: "unat i < pool_size (fh_pool h)" "M i = None" "pool_emplace (Some t) (fh_pool h) = Some (Inr i, p)"
    "pool_rep p (M(i \<mapsto> t))" "pool_size p = pool_size (fh_pool h)"
    using pool_emplace_rep [OF r(3), of t] room fh_rel_dom(2) [OF rel] by auto
  have i: "i \<notin> fst ` ran m" using p(2) fh_rel_dom(1) [OF rel] by auto
  have valid: "i \<noteq> fh_invalid h" using valid_index [OF p(1) pool_rep_size [OF r(3)]] by (simp add: fh_invalid_def)
  let ?h = "h\<lparr>fh_map := hm_assign F k i g, fh_pool := p\<rparr>"
  have res: "fh_insert F k (Some t) h = Some (Inr i, ?h)"
    using r(5) room g b(1) p(3) valid by (simp add: fh_insert_def)
  have find: "hm_find F x (hm_assign F k i g) = map_option fst ((m(k \<mapsto> (i, t))) x)" for x
    using b(2) hash_laws(4) [OF r(4), of k g x i] by auto
  have ran: "ran (m(k \<mapsto> (i, t))) = insert (i, t) (ran m)" using new by (rule ran_map_upd)
  have old: "j \<noteq> i \<and> M j = Some u" if "m k' = Some (j, u)" for k' j u
  proof -
    have "(j, u) \<in> ran m" using that by (rule ranI)
    then have "j \<in> fst ` ran m" by (metis fst_conv image_eqI)
    then show ?thesis using i r(2) [OF that] by auto
  qed
  have inj: "k1 = k2" if "m k1 = Some (j, t1)" "m k2 = Some (j, t2)" for k1 k2 j t1 t2
    using that rel unfolding fh_rel_def by blast
  have "fh_rel F ?h (m(k \<mapsto> (i, t))) (M(i \<mapsto> t))"
    unfolding fh_rel_def
  proof (intro conjI allI impI)
    fix k' j u assume "(m(k \<mapsto> (i, t))) k' = Some (j, u)"
    then show "(M(i \<mapsto> t)) j = Some u" using old by (cases "k' = k") auto
  next
    fix k1 k2 j t1 t2 assume "(m(k \<mapsto> (i, t))) k1 = Some (j, t1)" "(m(k \<mapsto> (i, t))) k2 = Some (j, t2)"
    then show "k1 = k2" using old inj by (cases "k1 = k"; cases "k2 = k") auto
  next
    show "dom (M(i \<mapsto> t)) \<subseteq> fst ` ran (m(k \<mapsto> (i, t)))" using fh_rel_dom(1) [OF rel] ran by auto
  qed (use r(4) p(4) find in simp_all)
  then show ?thesis using res p(1,5) i by auto
qed

lemma fh_insert_throws:
  assumes rel: "fh_rel F h m M" and room: "card (dom m) \<noteq> pool_size (fh_pool h)" and new: "m k = None"
  shows "\<exists>h'. fh_insert F k None h = Some (Inl (), h') \<and> fh_rel F h' m M \<and>
    pool_size (fh_pool h') = pool_size (fh_pool h)"
proof -
  note r = fh_rel_find [OF rel]
  obtain g b where g: "hm_insert F k (fh_invalid h) (fh_map h) = (g, b)" by fastforce
  have b: b "\<And>x. hm_find F x (hm_erase F k g) = map_option fst (m x)"
    using new r(1) hash_laws(2) [OF r(4), of k "fh_invalid h" "fh_map h"]
      hash_laws(3) [OF r(4), of _ k "fh_invalid h" "fh_map h"] hash_laws(5) [OF r(4), of _ k g] g by auto
  obtain p where p: "pool_emplace None (fh_pool h) = Some (Inl (), p)" "pool_rep p M" "pool_size p = pool_size (fh_pool h)"
    using pool_emplace_throw [OF r(3)] room fh_rel_dom(2) [OF rel] by auto
  then show ?thesis
    using r(5) room g b(1) fh_rel_map [OF rel p(2) b(2)] by (simp add: fh_insert_def)
qed

lemma fh_erase_rel:
  assumes rel: "fh_rel F h m M"
  shows "\<exists>h' M'. fh_erase F k h = Some (m k \<noteq> None, h') \<and> fh_rel F h' (m(k := None)) M' \<and>
    pool_size (fh_pool h') = pool_size (fh_pool h)"
proof (cases "m k")
  case None
  then have "m(k := None) = m" by auto
  then show ?thesis using None rel fh_rel_find(1) [OF rel, of k] by (auto simp: fh_erase_def)
next
  case (Some x)
  then obtain i t where x: "m k = Some (i, t)" by (cases x) auto
  note r = fh_rel_find [OF rel]
  obtain p where p: "pool_remove i (fh_pool h) = Some p" "pool_rep p (M(i := None))" "pool_size p = pool_size (fh_pool h)"
    using pool_remove_rep [OF r(3) r(2) [OF x]] by blast
  have inj: "k1 = k2" if "m k1 = Some (j, t1)" "m k2 = Some (j, t2)" for k1 k2 j t1 t2
    using that rel unfolding fh_rel_def by blast
  have "fh_rel F (h\<lparr>fh_map := hm_erase F k (fh_map h), fh_pool := p\<rparr>) (m(k := None)) (M(i := None))"
    unfolding fh_rel_def
  proof (intro conjI allI impI)
    show "dom (M(i := None)) \<subseteq> fst ` ran (m(k := None))"
    proof
      fix j assume "j \<in> dom (M(i := None))"
      then have "j \<noteq> i" "j \<in> fst ` ran m" using fh_rel_dom(1) [OF rel] by auto
      then obtain k' u where k': "m k' = Some (j, u)" by (auto simp: ran_def)
      then have "k' \<noteq> k" using x \<open>j \<noteq> i\<close> by auto
      then have "(j, u) \<in> ran (m(k := None))" using k' by (intro ranI [of _ k']) simp
      then show "j \<in> fst ` ran (m(k := None))" by force
    qed
  next
    fix k' j u assume "(m(k := None)) k' = Some (j, u)"
    then show "(M(i := None)) j = Some u" using r(2) inj [OF _ x] by (auto split: if_splits)
  next
    fix k1 k2 j t1 t2 assume "(m(k := None)) k1 = Some (j, t1)" "(m(k := None)) k2 = Some (j, t2)"
    then show "k1 = k2" using inj by (auto split: if_splits)
  qed (use r(1,4) hash_laws(5) [OF r(4)] p(2) in auto)
  then show ?thesis using x r(1) [of k] p(1,3) by (auto simp: fh_erase_def)
qed

lemma fh_assign_rel:
  assumes rel: "fh_rel F h m M" and x: "m k = Some (i, u)"
  shows "\<exists>h'. fh_assign i t h = Some h' \<and> fh_rel F h' (m(k \<mapsto> (i, t))) (M(i \<mapsto> t)) \<and>
    pool_size (fh_pool h') = pool_size (fh_pool h)"
proof -
  note r = fh_rel_find [OF rel]
  obtain p where p: "pool_assign i t (fh_pool h) = Some p" "pool_rep p (M(i \<mapsto> t))" "pool_size p = pool_size (fh_pool h)"
    using pool_assign_rep [OF r(3) r(2) [OF x]] by blast
  have inj: "k1 = k2" if "m k1 = Some (j, t1)" "m k2 = Some (j, t2)" for k1 k2 j t1 t2
    using that rel unfolding fh_rel_def by blast
  have "fh_rel F (h\<lparr>fh_pool := p\<rparr>) (m(k \<mapsto> (i, t))) (M(i \<mapsto> t))"
    unfolding fh_rel_def
  proof (intro conjI allI impI)
    show "dom (M(i \<mapsto> t)) \<subseteq> fst ` ran (m(k \<mapsto> (i, t)))"
    proof
      fix j assume "j \<in> dom (M(i \<mapsto> t))"
      then consider "j = i" | "j \<noteq> i" "j \<in> fst ` ran m" using fh_rel_dom(1) [OF rel] by auto
      then show "j \<in> fst ` ran (m(k \<mapsto> (i, t)))"
      proof cases
        case 1
        have "(i, t) \<in> ran (m(k \<mapsto> (i, t)))" by (rule ranI [of _ k]) simp
        then show ?thesis using 1 by force
      next
        case 2
        then obtain k' u' where k': "m k' = Some (j, u')" by (auto simp: ran_def)
        then have "k' \<noteq> k" using x 2 by auto
        then have "(j, u') \<in> ran (m(k \<mapsto> (i, t)))" using k' by (intro ranI [of _ k']) simp
        then show ?thesis by force
      qed
    qed
  next
    fix k' j u' assume "(m(k \<mapsto> (i, t))) k' = Some (j, u')"
    then show "(M(i \<mapsto> t)) j = Some u'" using r(2) inj [OF _ x] by (auto split: if_splits)
  next
    fix k1 k2 j t1 t2 assume "(m(k \<mapsto> (i, t))) k1 = Some (j, t1)" "(m(k \<mapsto> (i, t))) k2 = Some (j, t2)"
    then show "k1 = k2" using inj x by (auto split: if_splits)
  qed (use r(1,4) x p(2) in auto)
  then show ?thesis using p(1,3) by (auto simp: fh_assign_def)
qed

lemma fh_index:
  assumes "fh_rel F h m M" and "m k = Some (i, t)"
  shows "unat i < pool_size (fh_pool h)" and "fh_at i h = Some t" and "fh_find F k h = Some i"
proof -
  note r = fh_rel_find [OF assms(1)]
  show i: "unat i < pool_size (fh_pool h)" using pool_rep_bound [OF r(3), of i] r(2) [OF assms(2)] by auto
  show "fh_at i h = Some t" using pool_at_rep [OF r(3)] r(2) [OF assms(2)] by (simp add: fh_at_def)
  then show "fh_find F k h = Some i" using r(1) [of k] assms(2) to_index_id [OF i] by (simp add: fh_find_def fh_at_def)
qed

interpretation fh: index_table "fh_rep F" "\<lambda>h. pool_size (fh_pool h)" fh_invalid "fh_find F" fh_at fh_assign
  "fh_insert F" "fh_erase F" for F :: "('m, 'k) hash_ops"
proof
  fix s :: "('m, 't) fixed_hash" and m k i t k' t' u x
  assume "fh_rep F s m"
  then obtain M where rel: "fh_rel F s m M" by (auto simp: fh_rep_def)
  note r = fh_rel_find [OF rel]
  show "m k = Some (i, t) \<Longrightarrow> unat i < pool_size (fh_pool s)" using fh_index(1) [OF rel] .
  show "m k = Some (i, t) \<Longrightarrow> m k' = Some (i, t') \<Longrightarrow> k = k'" using rel unfolding fh_rel_def by blast
  show "unat i < pool_size (fh_pool s) \<Longrightarrow> i \<noteq> fh_invalid s"
    using valid_index pool_rep_size [OF r(3)] by (simp add: fh_invalid_def)
  show "fh_find F k s = Some (case m k of None \<Rightarrow> fh_invalid s | Some (i, t) \<Rightarrow> i)"
  proof (cases "m k")
    case None
    then show ?thesis using r(1) [of k] by (simp add: fh_find_def)
  next
    case (Some x)
    then show ?thesis using fh_index(3) [OF rel, of k "fst x" "snd x"] by (simp add: case_prod_beta)
  qed
  show "m k = Some (i, t) \<Longrightarrow> fh_at i s = Some t" using fh_index(2) [OF rel] .
  show "\<exists>s'. fh_assign i t s = Some s' \<and> fh_rep F s' (m(k \<mapsto> (i, t))) \<and>
      pool_size (fh_pool s') = pool_size (fh_pool s) \<and> fh_invalid s' = fh_invalid s" if "m k = Some (i, u)"
    using fh_assign_rel [OF rel that, of t] by (auto simp: fh_rep_def fh_invalid_def)
  show "\<exists>s'. fh_insert F k x s = Some (Inr (fh_invalid s), s') \<and> fh_rep F s' m \<and>
      pool_size (fh_pool s') = pool_size (fh_pool s) \<and> fh_invalid s' = fh_invalid s"
    if "card (dom m) = pool_size (fh_pool s) \<or> m k \<noteq> None"
    using fh_insert_refused [OF rel that, of x] by (auto simp: fh_rep_def fh_invalid_def)
  show "\<exists>i s'. fh_insert F k (Some t) s = Some (Inr i, s') \<and> unat i < pool_size (fh_pool s) \<and> i \<notin> fst ` ran m \<and>
      fh_rep F s' (m(k \<mapsto> (i, t))) \<and> pool_size (fh_pool s') = pool_size (fh_pool s) \<and> fh_invalid s' = fh_invalid s"
    if "card (dom m) \<noteq> pool_size (fh_pool s)" "m k = None"
    using fh_insert_new [OF rel that, of t] unfolding fh_rep_def fh_invalid_def by metis
  show "\<exists>s'. fh_insert F k None s = Some (Inl (), s') \<and> fh_rep F s' m \<and>
      pool_size (fh_pool s') = pool_size (fh_pool s) \<and> fh_invalid s' = fh_invalid s"
    if "card (dom m) \<noteq> pool_size (fh_pool s)" "m k = None"
    using fh_insert_throws [OF rel that] by (auto simp: fh_rep_def fh_invalid_def)
  show "\<exists>s'. fh_erase F k s = Some (m k \<noteq> None, s') \<and> fh_rep F s' (m(k := None)) \<and>
      pool_size (fh_pool s') = pool_size (fh_pool s) \<and> fh_invalid s' = fh_invalid s"
    using fh_erase_rel [OF rel, of k] unfolding fh_rep_def fh_invalid_def by metis
qed

lemma fh_new_rep:
  assumes "hash_ops_ok F" and "0 < sz" and "sz \<le> 2 ^ 30" and "4 \<le> esize" and "sz * unat esize \<le> 2 ^ 32"
    and "length mem = sz"
  shows "fh_rep F (fh_new F sz esize mem) Map.empty" and "pool_size (fh_pool (fh_new F sz esize mem)) = sz"
  using pool_new_rep [OF assms(2-6)] assms(1) hash_laws(1) [OF assms(1)]
  by (auto simp: fh_rep_def fh_rel_def fh_new_def)

text \<open>
  C37. On a new hash table for \<open>sz\<close> elements, with a hash map that keeps its documented laws, every
  sequence of lookups, insertions, erasures and updates runs without a failed assertion. Each answer is
  that of a map: a lookup finds exactly the keys that are in the table, with the object last stored
  and the index of its insertion; an insertion is refused exactly when the table holds \<open>sz\<close> keys or has
  the key already, and otherwise gives an index below \<open>sz\<close> that no key of the table has.
\<close>

theorem fixed_hash_is_map:
  assumes "hash_ops_ok F" and "0 < sz" and "sz \<le> 2 ^ 30" and "4 \<le> esize" and "sz * unat esize \<le> 2 ^ 32"
    and "length mem = sz"
  shows "\<exists>rs. table_run (fh_find F) fh_at fh_assign (fh_insert F) (fh_erase F) fh_invalid ops
      (fh_new F sz esize mem) = Some rs \<and> table_ok sz ops Map.empty rs"
  using fh.run_table [OF fh_new_rep(1) [OF assms], of ops] fh_new_rep(2) [OF assms] by simp

text \<open>A hash map that keeps the laws: the map itself.\<close>

definition map_ops :: "('k \<rightharpoonup> u32, 'k) hash_ops" where
  "map_ops = \<lparr>hm_empty = Map.empty, hm_find = (\<lambda>k m. m k),
     hm_insert = (\<lambda>k v m. if m k = None then (m(k \<mapsto> v), True) else (m, False)),
     hm_assign = (\<lambda>k v m. m(k \<mapsto> v)), hm_erase = (\<lambda>k m. m(k := None))\<rparr>"

lemma map_ops_ok: "hash_ops_ok map_ops"
  by (simp add: hash_ops_ok_def map_ops_def)

theorem fixed_hash_is_map_witness:
  "\<exists>rs. table_run (fh_find map_ops) fh_at fh_assign (fh_insert map_ops) (fh_erase map_ops) fh_invalid
      [Insert (7 :: u64) True, Insert 9 False, Insert 8 True, Erase 7, Lookup 9]
      (fh_new map_ops 2 8 [Zeroed, Link 5]) = Some rs \<and>
    table_ok 2 [Insert (7 :: u64) True, Insert 9 False, Insert 8 True, Erase 7, Lookup 9] Map.empty rs"
  using fixed_hash_is_map [OF map_ops_ok, of 2 8 "[Zeroed, Link 5]"
      "[Insert (7 :: u64) True, Insert 9 False, Insert 8 True, Erase 7, Lookup 9]"]
  by (simp del: table_run.simps table_ok.simps)

end
