(* ===== verification/Nat_Handler.thy ===== *)
theory Nat_Handler
  imports Render_State
begin

text \<open>
  The NAT handler of the collector, \<^verbatim>\<open>src/collector/kernel/nat_handler.{h,cc}\<close> with the connection tuples of
  \<^verbatim>\<open>src/collector/kernel/hostport_tuple.h\<close>.  It learns from the kernel which connections are translated
  and from the socket messages which socket has which addresses, and tells the server the translated
  addresses of a socket.

  The handler keeps each of its two relations in a pair of hash maps, one per direction.  The maps are
  \<^verbatim>\<open>absl::flat_hash_map\<close>, which is not part of the repository: their operations are the record
  \<open>flat_map\<close>, a parameter of the definitions, and \<open>flat_map_ok\<close> is what Abseil documents of them.  The
  failed assertion of \<^verbatim>\<open>remove_sk\<close> is the value \<^const>\<open>None\<close>.  Messages are the events of the BPF programs.

  Shown: for every sequence of messages the assertion never fails, the two maps of a pair are inverse to
  each other, and the remappings sent are those of an abstract handler that keeps two injective maps.
\<close>

section \<open>Connection tuples\<close>

record hostport_tuple =
  src_ip :: u32
  dst_ip :: u32
  src_port :: u16
  dst_port :: u16
  proto :: u32

definition reversed :: "hostport_tuple \<Rightarrow> hostport_tuple" where
  "reversed t = \<lparr>src_ip = dst_ip t, dst_ip = src_ip t, src_port = dst_port t, dst_port = src_port t,
     proto = proto t\<rparr>"

definition htons :: "u16 \<Rightarrow> u16" where
  "htons x = push_bit 8 x OR drop_bit 8 x"

text \<open>\<^verbatim>\<open>src/util/ip_address.cc\<close>: an IPv6 address as its eight 16-bit parts in memory order, on a
  little-endian machine.\<close>

definition hextets :: "in6_addr \<Rightarrow> u16 list" where
  "hextets a = concat (map (\<lambda>w. [ucast w, ucast (drop_bit 16 w)]) [s6_0 a, s6_1 a, s6_2 a, s6_3 a])"

definition is_ipv4 :: "in6_addr \<Rightarrow> bool" where
  "is_ipv4 a \<longleftrightarrow> (\<forall>i \<in> {0..<5}. hextets a ! i = 0) \<and> hextets a ! 5 = 0xffff"

definition to_ipv4 :: "in6_addr \<Rightarrow> u32 option" where
  "to_ipv4 a = (if \<not> is_ipv4 a then None else Some (s6_3 a))"

section \<open>Hash maps\<close>

record ('m, 'k, 'v) flat_map =
  fm_empty :: 'm
  fm_find :: "'k \<Rightarrow> 'm \<Rightarrow> 'v option"
  fm_store :: "'k \<Rightarrow> 'v \<Rightarrow> 'm \<Rightarrow> 'm"
  fm_erase :: "'k \<Rightarrow> 'm \<Rightarrow> 'm"

definition flat_map_ok :: "('m, 'k, 'v) flat_map \<Rightarrow> bool" where
  "flat_map_ok F \<longleftrightarrow> (\<forall>k. fm_find F k (fm_empty F) = None) \<and>
     (\<forall>k v m x. fm_find F x (fm_store F k v m) = (if x = k then Some v else fm_find F x m)) \<and>
     (\<forall>k m x. fm_find F x (fm_erase F k m) = (if x = k then None else fm_find F x m))"

lemma flat_map_okD:
  assumes "flat_map_ok F"
  shows "fm_find F k (fm_empty F) = None"
    and "fm_find F x (fm_store F k v m) = (if x = k then Some v else fm_find F x m)"
    and "fm_find F x (fm_erase F k m) = (if x = k then None else fm_find F x m)"
  using assms unfolding flat_map_ok_def by blast+

text \<open>The operations of the four kinds of map that the handler uses.\<close>

record ('n, 'c, 's, 'r) nat_maps =
  nat_ops :: "('n, hostport_tuple, hostport_tuple) flat_map"
  ct_ops :: "('c, u64, hostport_tuple) flat_map"
  sk_ops :: "('s, hostport_tuple, u64) flat_map"
  sk_rev_ops :: "('r, u64, hostport_tuple) flat_map"

definition nat_maps_ok :: "('n, 'c, 's, 'r) nat_maps \<Rightarrow> bool" where
  "nat_maps_ok M \<longleftrightarrow> flat_map_ok (nat_ops M) \<and> flat_map_ok (ct_ops M) \<and> flat_map_ok (sk_ops M) \<and>
     flat_map_ok (sk_rev_ops M)"

section \<open>The handler\<close>

text \<open>\<open>nat_sent\<close> is what has been written with \<^verbatim>\<open>nat_remapping_tstamp\<close>: time, socket and tuple;
  \<open>nat_errors\<close> counts the messages \<^verbatim>\<open>existing conntrack not found\<close>.\<close>

type_synonym nat_remapping = "u64 \<times> u64 \<times> hostport_tuple"

record ('n, 'c, 's, 'r) nat_handler =
  nat_table :: 'n
  nat_table_rev :: 'n
  existing_conntrack_table :: 'c
  existing_sk_table :: 's
  existing_sk_table_rev :: 'r
  nat_sent :: "nat_remapping list"
  nat_errors :: nat

definition nat_new :: "('n, 'c, 's, 'r) nat_maps \<Rightarrow> ('n, 'c, 's, 'r) nat_handler" where
  "nat_new M = \<lparr>nat_table = fm_empty (nat_ops M), nat_table_rev = fm_empty (nat_ops M),
     existing_conntrack_table = fm_empty (ct_ops M), existing_sk_table = fm_empty (sk_ops M),
     existing_sk_table_rev = fm_empty (sk_rev_ops M), nat_sent = [], nat_errors = 0\<rparr>"

definition SIZEOF_STRUCT_NF_CONNTRACK_TUPLE_HASH :: u64 where
  "SIZEOF_STRUCT_NF_CONNTRACK_TUPLE_HASH = 56"

definition send_nat_remapping ::
    "u64 \<Rightarrow> u64 \<Rightarrow> hostport_tuple \<Rightarrow> ('n, 'c, 's, 'r) nat_handler \<Rightarrow> ('n, 'c, 's, 'r) nat_handler" where
  "send_nat_remapping timestamp sk ft h = h\<lparr>nat_sent := nat_sent h @ [(timestamp, sk, ft)]\<rparr>"

definition remove_sk ::
    "('n, 'c, 's, 'r) nat_maps \<Rightarrow> u64 \<Rightarrow> ('n, 'c, 's, 'r) nat_handler \<Rightarrow> ('n, 'c, 's, 'r) nat_handler option" where
  "remove_sk M sk h =
     (case fm_find (sk_rev_ops M) sk (existing_sk_table_rev h) of
        None \<Rightarrow> Some h
      | Some ft \<Rightarrow>
          (case fm_find (sk_ops M) ft (existing_sk_table h) of
             None \<Rightarrow> None
           | Some _ \<Rightarrow>
               Some (h\<lparr>existing_sk_table_rev := fm_erase (sk_rev_ops M) sk (existing_sk_table_rev h),
                       existing_sk_table := fm_erase (sk_ops M) ft (existing_sk_table h)\<rparr>)))"

definition record_sk ::
    "('n, 'c, 's, 'r) nat_maps \<Rightarrow> u64 \<Rightarrow> hostport_tuple \<Rightarrow> ('n, 'c, 's, 'r) nat_handler \<Rightarrow>
     ('n, 'c, 's, 'r) nat_handler option" where
  "record_sk M sk ft h =
     (case (case fm_find (sk_ops M) ft (existing_sk_table h) of
              None \<Rightarrow> Some h
            | Some existing_sk \<Rightarrow> remove_sk M existing_sk h) of
        None \<Rightarrow> None
      | Some h1 \<Rightarrow>
          (case (case fm_find (sk_rev_ops M) sk (existing_sk_table_rev h1) of
                   None \<Rightarrow> Some h1
                 | Some _ \<Rightarrow> remove_sk M sk h1) of
             None \<Rightarrow> None
           | Some h2 \<Rightarrow>
               Some (h2\<lparr>existing_sk_table := fm_store (sk_ops M) ft sk (existing_sk_table h2),
                        existing_sk_table_rev := fm_store (sk_rev_ops M) sk ft (existing_sk_table_rev h2)\<rparr>)))"

definition record_nat ::
    "('n, 'c, 's, 'r) nat_maps \<Rightarrow> hostport_tuple \<Rightarrow> hostport_tuple \<Rightarrow> ('n, 'c, 's, 'r) nat_handler \<Rightarrow>
     ('n, 'c, 's, 'r) nat_handler" where
  "record_nat M map_from map_to h =
     (let N = nat_ops M;
          h1 = (case fm_find N map_from (nat_table h) of
                  None \<Rightarrow> h
                | Some some_to \<Rightarrow> h\<lparr>nat_table_rev := fm_erase N some_to (nat_table_rev h)\<rparr>);
          h2 = (case fm_find N map_to (nat_table_rev h1) of
                  None \<Rightarrow> h1
                | Some some_from \<Rightarrow> h1\<lparr>nat_table := fm_erase N some_from (nat_table h1)\<rparr>)
      in h2\<lparr>nat_table := fm_store N map_from map_to (nat_table h2),
            nat_table_rev := fm_store N map_to map_from (nat_table_rev h2)\<rparr>)"

definition remove_nat ::
    "('n, 'c, 's, 'r) nat_maps \<Rightarrow> hostport_tuple \<Rightarrow> ('n, 'c, 's, 'r) nat_handler \<Rightarrow> ('n, 'c, 's, 'r) nat_handler" where
  "remove_nat M map_from h =
     (case fm_find (nat_ops M) map_from (nat_table h) of
        None \<Rightarrow> h
      | Some map_to \<Rightarrow> h\<lparr>nat_table_rev := fm_erase (nat_ops M) map_to (nat_table_rev h),
                         nat_table := fm_erase (nat_ops M) map_from (nat_table h)\<rparr>)"

definition get_nat_mapping ::
    "('n, 'c, 's, 'r) nat_maps \<Rightarrow> u32 \<Rightarrow> u32 \<Rightarrow> u16 \<Rightarrow> u16 \<Rightarrow> u32 \<Rightarrow> ('n, 'c, 's, 'r) nat_handler \<Rightarrow> hostport_tuple option" where
  "get_nat_mapping M src dst sport dport pr h =
     fm_find (nat_ops M) \<lparr>src_ip = src, dst_ip = dst, src_port = htons sport, dst_port = htons dport, proto = pr\<rparr>
       (nat_table h)"

definition handle_nf_nat_cleanup_conntrack ::
    "('n, 'c, 's, 'r) nat_maps \<Rightarrow> u32 \<Rightarrow> u16 \<Rightarrow> u32 \<Rightarrow> u16 \<Rightarrow> u8 \<Rightarrow> ('n, 'c, 's, 'r) nat_handler \<Rightarrow>
     ('n, 'c, 's, 'r) nat_handler" where
  "handle_nf_nat_cleanup_conntrack M sip sport dip dport pr h =
     remove_nat M \<lparr>src_ip = sip, dst_ip = dip, src_port = sport, dst_port = dport, proto = ucast pr\<rparr> h"

text \<open>Both tuples take the protocol of the original direction; \<^verbatim>\<open>nat_proto\<close> is only logged.\<close>

definition handle_nf_conntrack_alter_reply ::
    "('n, 'c, 's, 'r) nat_maps \<Rightarrow> u64 \<Rightarrow> u32 \<Rightarrow> u16 \<Rightarrow> u32 \<Rightarrow> u16 \<Rightarrow> u8 \<Rightarrow> u32 \<Rightarrow> u16 \<Rightarrow> u32 \<Rightarrow> u16 \<Rightarrow>
     ('n, 'c, 's, 'r) nat_handler \<Rightarrow> ('n, 'c, 's, 'r) nat_handler" where
  "handle_nf_conntrack_alter_reply M timestamp sip sport dip dport pr nsip nsport ndip ndport h =
     (let map_from = \<lparr>src_ip = sip, dst_ip = dip, src_port = sport, dst_port = dport, proto = ucast pr\<rparr>;
          map_to = \<lparr>src_ip = nsip, dst_ip = ndip, src_port = nsport, dst_port = ndport, proto = ucast pr\<rparr>;
          h' = record_nat M map_from map_to h
      in case fm_find (sk_ops M) map_from (existing_sk_table h') of
           None \<Rightarrow> h'
         | Some sk \<Rightarrow> send_nat_remapping timestamp sk map_to h')"

definition handle_existing_conntrack_tuple ::
    "('n, 'c, 's, 'r) nat_maps \<Rightarrow> u64 \<Rightarrow> u32 \<Rightarrow> u16 \<Rightarrow> u32 \<Rightarrow> u16 \<Rightarrow> u8 \<Rightarrow> u8 \<Rightarrow>
     ('n, 'c, 's, 'r) nat_handler \<Rightarrow> ('n, 'c, 's, 'r) nat_handler" where
  "handle_existing_conntrack_tuple M ct sip sport dip dport pr dir h =
     (let ft = \<lparr>src_ip = sip, dst_ip = dip, src_port = sport, dst_port = dport, proto = ucast pr\<rparr> in
      if dir = 0 then h\<lparr>existing_conntrack_table := fm_store (ct_ops M) ct ft (existing_conntrack_table h)\<rparr>
      else
        (case fm_find (ct_ops M) ct (existing_conntrack_table h) of
           None \<Rightarrow> h\<lparr>nat_errors := nat_errors h + 1\<rparr>
         | Some map_from \<Rightarrow>
             if map_from = ft then h
             else
               (let h' = record_nat M map_from ft h;
                    rev_ct = ct - SIZEOF_STRUCT_NF_CONNTRACK_TUPLE_HASH
                in case fm_find (ct_ops M) rev_ct (existing_conntrack_table h') of
                     None \<Rightarrow> h'
                   | Some _ \<Rightarrow> h'\<lparr>existing_conntrack_table := fm_erase (ct_ops M) rev_ct (existing_conntrack_table h')\<rparr>)))"

text \<open>The part of the two \<^verbatim>\<open>set_state\<close> handlers that follows the construction of the tuple.\<close>

definition nat_set_state ::
    "('n, 'c, 's, 'r) nat_maps \<Rightarrow> u64 \<Rightarrow> u64 \<Rightarrow> hostport_tuple \<Rightarrow> ('n, 'c, 's, 'r) nat_handler \<Rightarrow>
     ('n, 'c, 's, 'r) nat_handler option" where
  "nat_set_state M timestamp sk ft h =
     (case record_sk M sk ft h of
        None \<Rightarrow> None
      | Some h0 \<Rightarrow>
          (let h1 = (case fm_find (nat_ops M) ft (nat_table h0) of
                       None \<Rightarrow> h0
                     | Some mapping \<Rightarrow> send_nat_remapping timestamp sk mapping h0)
           in Some (case fm_find (nat_ops M) (reversed ft) (nat_table_rev h1) of
                      None \<Rightarrow> h1
                    | Some rev_mapping \<Rightarrow> send_nat_remapping timestamp sk (reversed rev_mapping) h1)))"

definition nat_set_state_ipv4 ::
    "('n, 'c, 's, 'r) nat_maps \<Rightarrow> u64 \<Rightarrow> u32 \<Rightarrow> u32 \<Rightarrow> u16 \<Rightarrow> u16 \<Rightarrow> u64 \<Rightarrow> ('n, 'c, 's, 'r) nat_handler \<Rightarrow>
     ('n, 'c, 's, 'r) nat_handler option" where
  "nat_set_state_ipv4 M timestamp dest src dport sport sk h =
     nat_set_state M timestamp sk
       \<lparr>src_ip = src, dst_ip = dest, src_port = htons sport, dst_port = htons dport, proto = ucast IPPROTO_TCP\<rparr> h"

definition nat_set_state_ipv6 ::
    "('n, 'c, 's, 'r) nat_maps \<Rightarrow> u64 \<Rightarrow> in6_addr \<Rightarrow> in6_addr \<Rightarrow> u16 \<Rightarrow> u16 \<Rightarrow> u64 \<Rightarrow> ('n, 'c, 's, 'r) nat_handler \<Rightarrow>
     ('n, 'c, 's, 'r) nat_handler option" where
  "nat_set_state_ipv6 M timestamp dest src dport sport sk h =
     (case (to_ipv4 src, to_ipv4 dest) of
        (Some s, Some d) \<Rightarrow>
          nat_set_state M timestamp sk
            \<lparr>src_ip = s, dst_ip = d, src_port = htons sport, dst_port = htons dport, proto = ucast IPPROTO_TCP\<rparr> h
      | _ \<Rightarrow> Some h)"

definition nat_close_socket ::
    "('n, 'c, 's, 'r) nat_maps \<Rightarrow> u64 \<Rightarrow> ('n, 'c, 's, 'r) nat_handler \<Rightarrow> ('n, 'c, 's, 'r) nat_handler option" where
  "nat_close_socket M sk h = remove_sk M sk h"

text \<open>The messages that reach the handler; the others leave it as it is.\<close>

fun nat_step ::
    "('n, 'c, 's, 'r) nat_maps \<Rightarrow> bpf_event \<Rightarrow> ('n, 'c, 's, 'r) nat_handler \<Rightarrow> ('n, 'c, 's, 'r) nat_handler option" where
  "nat_step M (Ev_nf_nat_cleanup_conntrack t ct sip sp dip dp pr) h =
     Some (handle_nf_nat_cleanup_conntrack M sip sp dip dp pr h)"
| "nat_step M (Ev_nf_conntrack_alter_reply t ct sip sp dip dp pr nsip nsp ndip ndp npr) h =
     Some (handle_nf_conntrack_alter_reply M t sip sp dip dp pr nsip nsp ndip ndp h)"
| "nat_step M (Ev_existing_conntrack_tuple t ct sip sp dip dp pr dir) h =
     Some (handle_existing_conntrack_tuple M ct sip sp dip dp pr dir h)"
| "nat_step M (Ev_set_state_ipv4 t dest src dport sport sk tx_rx) h = nat_set_state_ipv4 M t dest src dport sport sk h"
| "nat_step M (Ev_set_state_ipv6 t dest src dport sport sk tx_rx) h = nat_set_state_ipv6 M t dest src dport sport sk h"
| "nat_step M (Ev_close_sock_info t sk) h = nat_close_socket M sk h"
| "nat_step M _ h = Some h"

fun nat_run ::
    "('n, 'c, 's, 'r) nat_maps \<Rightarrow> bpf_event list \<Rightarrow> ('n, 'c, 's, 'r) nat_handler \<Rightarrow> ('n, 'c, 's, 'r) nat_handler option" where
  "nat_run M [] h = Some h"
| "nat_run M (ev # evs) h = Option.bind (nat_step M ev h) (nat_run M evs)"

section \<open>The abstract handler\<close>

text \<open>It keeps one map from original to translated tuples and one from tuples to their socket.  A new
  pair replaces every pair with the same left or the same right side.\<close>

record nat_spec =
  ns_nat :: "hostport_tuple \<rightharpoonup> hostport_tuple"
  ns_owner :: "hostport_tuple \<rightharpoonup> u64"
  ns_pending :: "u64 \<rightharpoonup> hostport_tuple"

definition nat_spec0 :: nat_spec where
  "nat_spec0 = \<lparr>ns_nat = Map.empty, ns_owner = Map.empty, ns_pending = Map.empty\<rparr>"

definition unbind :: "('a \<rightharpoonup> 'b) \<Rightarrow> 'b \<Rightarrow> ('a \<rightharpoonup> 'b)" where
  "unbind m y = (\<lambda>x. if m x = Some y then None else m x)"

definition bind_pair :: "('a \<rightharpoonup> 'b) \<Rightarrow> 'a \<Rightarrow> 'b \<Rightarrow> ('a \<rightharpoonup> 'b)" where
  "bind_pair m x y = (unbind m y)(x \<mapsto> y)"

definition inj_map :: "('a \<rightharpoonup> 'b) \<Rightarrow> bool" where
  "inj_map m \<longleftrightarrow> (\<forall>x x' y. m x = Some y \<longrightarrow> m x' = Some y \<longrightarrow> x = x')"

text \<open>What a socket with the tuple \<open>ft\<close> is told: the translation of its own tuple, and when its peer is the
  translated side of a connection, the original tuple seen from its end.\<close>

definition remappings :: "(hostport_tuple \<rightharpoonup> hostport_tuple) \<Rightarrow> u64 \<Rightarrow> u64 \<Rightarrow> hostport_tuple \<Rightarrow> nat_remapping list \<Rightarrow> bool" where
  "remappings m t sk ft out \<longleftrightarrow>
     (\<exists>back. out = (case m ft of None \<Rightarrow> [] | Some to \<Rightarrow> [(t, sk, to)]) @ back \<and>
        ((\<forall>f. m f \<noteq> Some (reversed ft)) \<and> back = [] \<or>
         (\<exists>f. m f = Some (reversed ft) \<and> back = [(t, sk, reversed f)])))"

abbreviation conn :: "u32 \<Rightarrow> u16 \<Rightarrow> u32 \<Rightarrow> u16 \<Rightarrow> u32 \<Rightarrow> hostport_tuple" where
  "conn sip sp dip dp pr \<equiv> \<lparr>src_ip = sip, dst_ip = dip, src_port = sp, dst_port = dp, proto = pr\<rparr>"

fun nat_event :: "bpf_event \<Rightarrow> bool" where
  "nat_event (Ev_nf_nat_cleanup_conntrack t ct sip sp dip dp pr) = True"
| "nat_event (Ev_nf_conntrack_alter_reply t ct sip sp dip dp pr nsip nsp ndip ndp npr) = True"
| "nat_event (Ev_existing_conntrack_tuple t ct sip sp dip dp pr dir) = True"
| "nat_event (Ev_set_state_ipv4 t dest src dport sport sk tx_rx) = True"
| "nat_event (Ev_set_state_ipv6 t dest src dport sport sk tx_rx) = True"
| "nat_event (Ev_close_sock_info t sk) = True"
| "nat_event _ = False"

inductive nat_spec_step :: "bpf_event \<Rightarrow> nat_spec \<Rightarrow> nat_remapping list \<Rightarrow> nat_spec \<Rightarrow> bool" where
  cleanup: "nat_spec_step (Ev_nf_nat_cleanup_conntrack t ct sip sp dip dp pr) S []
     (S\<lparr>ns_nat := (ns_nat S)(conn sip sp dip dp (ucast pr) := None)\<rparr>)"
| alter: "orig = conn sip sp dip dp (ucast pr) \<Longrightarrow> reply = conn nsip nsp ndip ndp (ucast pr) \<Longrightarrow>
   nat_spec_step (Ev_nf_conntrack_alter_reply t ct sip sp dip dp pr nsip nsp ndip ndp npr) S
     (case ns_owner S orig of None \<Rightarrow> [] | Some sk \<Rightarrow> [(t, sk, reply)])
     (S\<lparr>ns_nat := bind_pair (ns_nat S) orig reply\<rparr>)"
| original: "nat_spec_step (Ev_existing_conntrack_tuple t ct sip sp dip dp pr 0) S []
     (S\<lparr>ns_pending := (ns_pending S)(ct \<mapsto> conn sip sp dip dp (ucast pr))\<rparr>)"
| unpaired: "dir \<noteq> 0 \<Longrightarrow> ns_pending S ct = None \<Longrightarrow>
   nat_spec_step (Ev_existing_conntrack_tuple t ct sip sp dip dp pr dir) S [] S"
| untranslated: "dir \<noteq> 0 \<Longrightarrow> ns_pending S ct = Some (conn sip sp dip dp (ucast pr)) \<Longrightarrow>
   nat_spec_step (Ev_existing_conntrack_tuple t ct sip sp dip dp pr dir) S [] S"
| translated: "dir \<noteq> 0 \<Longrightarrow> ns_pending S ct = Some orig \<Longrightarrow> reply = conn sip sp dip dp (ucast pr) \<Longrightarrow> orig \<noteq> reply \<Longrightarrow>
   nat_spec_step (Ev_existing_conntrack_tuple t ct sip sp dip dp pr dir) S []
     (S\<lparr>ns_nat := bind_pair (ns_nat S) orig reply, ns_pending := (ns_pending S)(ct - 56 := None)\<rparr>)"
| state4: "ft = conn src (htons sport) dest (htons dport) 6 \<Longrightarrow> remappings (ns_nat S) t sk ft out \<Longrightarrow>
   nat_spec_step (Ev_set_state_ipv4 t dest src dport sport sk tx_rx) S out
     (S\<lparr>ns_owner := bind_pair (ns_owner S) ft sk\<rparr>)"
| state6: "is_ipv4 src \<Longrightarrow> is_ipv4 dest \<Longrightarrow> ft = conn (s6_3 src) (htons sport) (s6_3 dest) (htons dport) 6 \<Longrightarrow>
   remappings (ns_nat S) t sk ft out \<Longrightarrow>
   nat_spec_step (Ev_set_state_ipv6 t dest src dport sport sk tx_rx) S out
     (S\<lparr>ns_owner := bind_pair (ns_owner S) ft sk\<rparr>)"
| state6_other: "\<not> (is_ipv4 src \<and> is_ipv4 dest) \<Longrightarrow>
   nat_spec_step (Ev_set_state_ipv6 t dest src dport sport sk tx_rx) S [] S"
| close: "nat_spec_step (Ev_close_sock_info t sk) S [] (S\<lparr>ns_owner := unbind (ns_owner S) sk\<rparr>)"
| other: "\<not> nat_event ev \<Longrightarrow> nat_spec_step ev S [] S"

inductive nat_spec_run :: "bpf_event list \<Rightarrow> nat_spec \<Rightarrow> nat_remapping list \<Rightarrow> nat_spec \<Rightarrow> bool" where
  no_more: "nat_spec_run [] S [] S"
| more: "nat_spec_step ev S out1 S1 \<Longrightarrow> nat_spec_run evs S1 out2 S2 \<Longrightarrow> nat_spec_run (ev # evs) S (out1 @ out2) S2"

section \<open>The handler implements the abstract one\<close>

definition inverse_maps :: "('a \<rightharpoonup> 'b) \<Rightarrow> ('b \<rightharpoonup> 'a) \<Rightarrow> bool" where
  "inverse_maps m m' \<longleftrightarrow> (\<forall>x y. m x = Some y \<longleftrightarrow> m' y = Some x)"

lemma inverse_maps_inj: "inverse_maps m m' \<Longrightarrow> inj_map m"
  unfolding inverse_maps_def inj_map_def by (metis option.inject)

lemma inverse_maps_empty: "inverse_maps Map.empty Map.empty"
  by (simp add: inverse_maps_def)

lemma inverse_maps_unbind: "inverse_maps m m' \<Longrightarrow> inverse_maps (unbind m y) (m'(y := None))"
  unfolding inverse_maps_def unbind_def by (auto split: if_splits) (metis option.inject)+

lemma inverse_maps_erase: "inverse_maps m m' \<Longrightarrow> m x = Some y \<Longrightarrow> unbind m y = m(x := None)"
  unfolding inverse_maps_def unbind_def by (rule ext) (metis fun_upd_apply option.inject)

lemma inverse_maps_bind:
  assumes "inverse_maps m m'"
  shows "inverse_maps (bind_pair m x y) ((unbind m' x)(y \<mapsto> x))"
  using assms unfolding inverse_maps_def bind_pair_def unbind_def by (auto split: if_splits) (metis option.inject)+

lemma unbind_none: "(\<And>x. m x \<noteq> Some y) \<Longrightarrow> unbind m y = m"
  unfolding unbind_def by auto

text \<open>The handler's tables hold the maps of the abstract handler and their inverses.\<close>

definition nat_rel :: "('n, 'c, 's, 'r) nat_maps \<Rightarrow> ('n, 'c, 's, 'r) nat_handler \<Rightarrow> nat_spec \<Rightarrow> bool" where
  "nat_rel M h S \<longleftrightarrow>
     (\<lambda>x. fm_find (nat_ops M) x (nat_table h)) = ns_nat S \<and>
     inverse_maps (ns_nat S) (\<lambda>x. fm_find (nat_ops M) x (nat_table_rev h)) \<and>
     (\<lambda>x. fm_find (sk_ops M) x (existing_sk_table h)) = ns_owner S \<and>
     inverse_maps (ns_owner S) (\<lambda>x. fm_find (sk_rev_ops M) x (existing_sk_table_rev h)) \<and>
     (\<lambda>x. fm_find (ct_ops M) x (existing_conntrack_table h)) = ns_pending S"

lemma nat_relD:
  assumes "nat_rel M h S"
  shows "fm_find (nat_ops M) x (nat_table h) = ns_nat S x"
    and "fm_find (sk_ops M) y (existing_sk_table h) = ns_owner S y"
    and "fm_find (ct_ops M) z (existing_conntrack_table h) = ns_pending S z"
  using assms unfolding nat_rel_def by metis+

lemma nat_maps_okD [simp]:
  assumes "nat_maps_ok M"
  shows "flat_map_ok (nat_ops M)" "flat_map_ok (ct_ops M)" "flat_map_ok (sk_ops M)" "flat_map_ok (sk_rev_ops M)"
  using assms by (simp_all add: nat_maps_ok_def)

lemma inverse_maps_sym: "inverse_maps m m' \<Longrightarrow> inverse_maps m' m"
  unfolding inverse_maps_def by blast

lemma unbind_case:
  assumes "inverse_maps m m'"
  shows "unbind m y = (case m' y of None \<Rightarrow> m | Some x \<Rightarrow> m(x := None))"
proof (cases "m' y")
  case None
  then have "m x \<noteq> Some y" for x using assms by (simp add: inverse_maps_def)
  then show ?thesis using None by (simp add: unbind_none)
next
  case (Some x)
  then have "m x = Some y" using assms by (simp add: inverse_maps_def)
  then show ?thesis using Some inverse_maps_erase [OF assms] by simp
qed

lemma find_fun:
  assumes "flat_map_ok F"
  shows "(\<lambda>x. fm_find F x (fm_store F k v m)) = (\<lambda>x. fm_find F x m)(k \<mapsto> v)"
    and "(\<lambda>x. fm_find F x (fm_erase F k m)) = (\<lambda>x. fm_find F x m)(k := None)"
  using assms by (auto simp: fun_eq_iff flat_map_okD)

lemma record_nat_rel:
  assumes ok: "nat_maps_ok M" and rel: "nat_rel M h S"
  shows "nat_rel M (record_nat M x y h) (S\<lparr>ns_nat := bind_pair (ns_nat S) x y\<rparr>)"
proof -
  let ?f = "\<lambda>m z. fm_find (nat_ops M) z m"
  let ?n = "?f (nat_table h)" and ?r = "?f (nat_table_rev h)"
  have inv: "inverse_maps ?n ?r" and n: "ns_nat S = ?n" using rel by (auto simp: nat_rel_def)
  define h1 where "h1 = (case ?n x of None \<Rightarrow> h | Some t \<Rightarrow> h\<lparr>nat_table_rev := fm_erase (nat_ops M) t (nat_table_rev h)\<rparr>)"
  define h2 where "h2 = (case ?f (nat_table_rev h1) y of None \<Rightarrow> h1
    | Some f \<Rightarrow> h1\<lparr>nat_table := fm_erase (nat_ops M) f (nat_table h1)\<rparr>)"
  have h1: "?f (nat_table_rev h1) = unbind ?r x" "nat_table h1 = nat_table h"
    using ok unbind_case [OF inverse_maps_sym [OF inv], of x]
    by (simp_all add: h1_def find_fun split: option.split)
  have h2: "(?f (nat_table h2))(x \<mapsto> y) = bind_pair ?n x y" "nat_table_rev h2 = nat_table_rev h1"
    using ok h1 unbind_case [OF inv, of y]
    by (auto simp: h2_def flat_map_okD bind_pair_def unbind_def fun_eq_iff split: option.split if_splits)
  have r: "record_nat M x y h = h2\<lparr>nat_table := fm_store (nat_ops M) x y (nat_table h2),
      nat_table_rev := fm_store (nat_ops M) y x (nat_table_rev h2)\<rparr>"
    unfolding record_nat_def Let_def h2_def h1_def by (rule refl)
  have same: "existing_sk_table h2 = existing_sk_table h" "existing_sk_table_rev h2 = existing_sk_table_rev h"
    "existing_conntrack_table h2 = existing_conntrack_table h"
    by (simp_all add: h1_def h2_def split: option.split)
  show ?thesis using rel ok inverse_maps_bind [OF inv, of x y]
    by (simp add: nat_rel_def r find_fun h2 h1 same n)
qed

lemma record_nat_same [simp]:
  "existing_sk_table (record_nat M x y h) = existing_sk_table h" "nat_sent (record_nat M x y h) = nat_sent h"
  "existing_conntrack_table (record_nat M x y h) = existing_conntrack_table h"
  by (simp_all add: record_nat_def Let_def split: option.split)

lemma remove_nat_rel:
  assumes ok: "nat_maps_ok M" and rel: "nat_rel M h S"
  shows "nat_rel M (remove_nat M x h) (S\<lparr>ns_nat := (ns_nat S)(x := None)\<rparr>)"
proof (cases "ns_nat S x")
  case None
  then have "remove_nat M x h = h" using nat_relD(1) [OF rel, of x] by (simp add: remove_nat_def)
  then show ?thesis using rel None by (simp add: fun_upd_idem)
next
  case (Some y)
  let ?r = "\<lambda>x. fm_find (nat_ops M) x (nat_table_rev h)"
  have inv: "inverse_maps (ns_nat S) ?r" and n: "fm_find (nat_ops M) x (nat_table h) = Some y"
    using rel Some nat_relD(1) [OF rel, of x] by (simp_all add: nat_rel_def)
  have "inverse_maps ((ns_nat S)(x := None)) (?r(y := None))"
    using inverse_maps_unbind [OF inv, of y] inverse_maps_erase [OF inv Some] by simp
  then show ?thesis using rel ok n by (simp add: remove_nat_def nat_rel_def find_fun)
qed

lemma remove_sk_rel:
  assumes ok: "nat_maps_ok M" and rel: "nat_rel M h S"
  shows "\<exists>h'. remove_sk M sk h = Some h' \<and> nat_rel M h' (S\<lparr>ns_owner := unbind (ns_owner S) sk\<rparr>) \<and> nat_sent h' = nat_sent h"
proof -
  let ?r = "\<lambda>x. fm_find (sk_rev_ops M) x (existing_sk_table_rev h)"
  have inv: "inverse_maps (ns_owner S) ?r" using rel by (simp add: nat_rel_def)
  show ?thesis
  proof (cases "?r sk")
    case None
    then show ?thesis using unbind_case [OF inv, of sk] rel by (simp add: remove_sk_def)
  next
    case (Some ft)
    then have "ns_owner S ft = Some sk" using inv by (simp add: inverse_maps_def)
    then have "fm_find (sk_ops M) ft (existing_sk_table h) = Some sk" by (simp add: nat_relD [OF rel])
    then show ?thesis using Some ok rel inverse_maps_unbind [OF inv, of sk] unbind_case [OF inv, of sk]
      by (simp add: remove_sk_def nat_rel_def find_fun)
  qed
qed

lemma record_sk_rel:
  assumes ok: "nat_maps_ok M" and rel: "nat_rel M h S"
  shows "\<exists>h'. record_sk M sk ft h = Some h' \<and> nat_rel M h' (S\<lparr>ns_owner := bind_pair (ns_owner S) ft sk\<rparr>) \<and>
    nat_sent h' = nat_sent h"
proof -
  have upd: "\<exists>h'. (case x of None \<Rightarrow> Some h | Some k \<Rightarrow> remove_sk M k h) = Some h' \<and>
      nat_rel M h' (case x of None \<Rightarrow> S | Some k \<Rightarrow> S\<lparr>ns_owner := unbind (ns_owner S) k\<rparr>) \<and> nat_sent h' = nat_sent h"
    if "nat_rel M h S" for x h S using remove_sk_rel [OF ok that] that by (cases x) auto
  define S1 where "S1 = (case ns_owner S ft of None \<Rightarrow> S | Some k \<Rightarrow> S\<lparr>ns_owner := unbind (ns_owner S) k\<rparr>)"
  have o: "ns_owner S ft = fm_find (sk_ops M) ft (existing_sk_table h)" by (simp add: nat_relD [OF rel])
  obtain h1 where h1: "(case fm_find (sk_ops M) ft (existing_sk_table h) of None \<Rightarrow> Some h | Some k \<Rightarrow> remove_sk M k h) = Some h1"
    "nat_rel M h1 S1" "nat_sent h1 = nat_sent h" using upd [OF rel, of "ns_owner S ft"] by (auto simp: S1_def o)
  let ?rev = "fm_find (sk_rev_ops M) sk (existing_sk_table_rev h1)"
  define S2 where "S2 = S1\<lparr>ns_owner := unbind (ns_owner S1) sk\<rparr>"
  obtain h2 where h2: "(case ?rev of None \<Rightarrow> Some h1 | Some _ \<Rightarrow> remove_sk M sk h1) = Some h2"
    "nat_rel M h2 S2" "nat_sent h2 = nat_sent h"
    using remove_sk_rel [OF ok h1(2), of sk] h1(3) unfolding S2_def
    by (cases ?rev) (auto simp: remove_sk_def)
  have "ns_owner S2 ft = None" and S: "S2\<lparr>ns_owner := (ns_owner S2)(ft \<mapsto> sk)\<rparr> = S\<lparr>ns_owner := bind_pair (ns_owner S) ft sk\<rparr>"
    using inverse_maps_inj [of "ns_owner S"] rel
    by (auto simp: S2_def S1_def bind_pair_def unbind_def nat_rel_def inj_map_def fun_eq_iff split: option.split)
  moreover have "ns_owner S2 x \<noteq> Some sk" for x by (simp add: S2_def unbind_def)
  ultimately have "bind_pair (ns_owner S2) ft sk = (ns_owner S2)(ft \<mapsto> sk)"
    "unbind (\<lambda>x. fm_find (sk_rev_ops M) x (existing_sk_table_rev h2)) ft = (\<lambda>x. fm_find (sk_rev_ops M) x (existing_sk_table_rev h2))"
    using h2(2) unbind_case [OF inverse_maps_sym, of "ns_owner S2" _ ft] by (simp_all add: bind_pair_def nat_rel_def unbind_none)
  then have "nat_rel M (h2\<lparr>existing_sk_table := fm_store (sk_ops M) ft sk (existing_sk_table h2),
      existing_sk_table_rev := fm_store (sk_rev_ops M) sk ft (existing_sk_table_rev h2)\<rparr>)
      (S2\<lparr>ns_owner := (ns_owner S2)(ft \<mapsto> sk)\<rparr>)"
    using ok h2(2) inverse_maps_bind [of "ns_owner S2" "\<lambda>x. fm_find (sk_rev_ops M) x (existing_sk_table_rev h2)" ft sk]
    by (simp add: nat_rel_def find_fun)
  then show ?thesis using h1(1) h2(1,3) S by (simp add: record_sk_def)
qed

lemma nat_rel_sent: "nat_rel M (send_nat_remapping t sk ft h) S = nat_rel M h S"
  by (simp add: nat_rel_def send_nat_remapping_def)

lemma set_state_rel:
  assumes ok: "nat_maps_ok M" and rel: "nat_rel M h S"
  shows "\<exists>h' out. nat_set_state M t sk ft h = Some h' \<and> nat_sent h' = nat_sent h @ out \<and>
    remappings (ns_nat S) t sk ft out \<and> nat_rel M h' (S\<lparr>ns_owner := bind_pair (ns_owner S) ft sk\<rparr>)"
proof -
  obtain h0 where h0: "record_sk M sk ft h = Some h0" "nat_sent h0 = nat_sent h"
    "nat_rel M h0 (S\<lparr>ns_owner := bind_pair (ns_owner S) ft sk\<rparr>)" using record_sk_rel [OF ok rel] by blast
  let ?rev = "fm_find (nat_ops M) (reversed ft) (nat_table_rev h0)"
  have rev_iff: "ns_nat S x = Some (reversed ft) \<longleftrightarrow> ?rev = Some x" for x
    using h0(3) by (simp add: nat_rel_def inverse_maps_def)
  have sent: "nat_sent (send_nat_remapping t k x g) = nat_sent g @ [(t, k, x)]"
    "nat_table_rev (send_nat_remapping t k x g) = nat_table_rev g" for t k x and g :: "('a, 'b, 'c, 'd) nat_handler"
    by (simp_all add: send_nat_remapping_def)
  show ?thesis using h0 nat_relD(1) [OF h0(3), of ft]
    by (cases "ns_nat S ft"; cases ?rev)
      (auto simp: nat_set_state_def Let_def sent nat_rel_sent remappings_def rev_iff)
qed

lemma existing_rel:
  assumes ok: "nat_maps_ok M" and rel: "nat_rel M h S"
  shows "\<exists>S'. nat_spec_step (Ev_existing_conntrack_tuple t ct sip sp dip dp pr dir) S [] S' \<and>
    nat_rel M (handle_existing_conntrack_tuple M ct sip sp dip dp pr dir h) S' \<and>
    nat_sent (handle_existing_conntrack_tuple M ct sip sp dip dp pr dir h) = nat_sent h"
proof -
  let ?ft = "conn sip sp dip dp (ucast pr)" and ?h = "handle_existing_conntrack_tuple M ct sip sp dip dp pr dir h"
  note find = nat_relD(3) [OF rel]
  consider "dir = 0" | "dir \<noteq> 0" "ns_pending S ct = None" | "dir \<noteq> 0" "ns_pending S ct = Some ?ft"
    | orig where "dir \<noteq> 0" "ns_pending S ct = Some orig" "orig \<noteq> ?ft" by (cases "ns_pending S ct") auto
  then show ?thesis
  proof cases
    case 1
    then have "nat_rel M ?h (S\<lparr>ns_pending := (ns_pending S)(ct \<mapsto> ?ft)\<rparr>) \<and> nat_sent ?h = nat_sent h"
      using ok rel by (simp add: handle_existing_conntrack_tuple_def nat_rel_def find_fun)
    then show ?thesis unfolding 1 using nat_spec_step.original by blast
  next
    case 2
    then have "nat_rel M ?h S \<and> nat_sent ?h = nat_sent h"
      using rel by (simp add: handle_existing_conntrack_tuple_def find) (simp add: nat_rel_def)
    then show ?thesis using nat_spec_step.unpaired [OF 2] by blast
  next
    case 3
    then have "nat_rel M ?h S \<and> nat_sent ?h = nat_sent h"
      using rel by (simp add: handle_existing_conntrack_tuple_def find)
    then show ?thesis using nat_spec_step.untranslated [OF 3] by blast
  next
    case 4
    let ?r = "record_nat M orig ?ft h" and ?c = "ct - SIZEOF_STRUCT_NF_CONNTRACK_TUPLE_HASH"
    have r: "nat_rel M ?r (S\<lparr>ns_nat := bind_pair (ns_nat S) orig ?ft\<rparr>)" by (rule record_nat_rel [OF ok rel])
    have "nat_rel M ?h (S\<lparr>ns_nat := bind_pair (ns_nat S) orig ?ft, ns_pending := (ns_pending S)(ct - 56 := None)\<rparr>) \<and>
        nat_sent ?h = nat_sent h"
      using 4 ok r nat_relD(3) [OF r, of ?c]
      by (cases "ns_pending S ?c") (auto simp: handle_existing_conntrack_tuple_def find Let_def
          SIZEOF_STRUCT_NF_CONNTRACK_TUPLE_HASH_def nat_rel_def find_fun fun_upd_idem)
    then show ?thesis using nat_spec_step.translated [OF 4(1,2) refl 4(3)] by blast
  qed
qed

lemma alter_rel:
  assumes ok: "nat_maps_ok M" and rel: "nat_rel M h S"
    and orig: "orig = conn sip sp dip dp (ucast pr)" and reply: "reply = conn nsip nsp ndip ndp (ucast pr)"
    and h': "h' = handle_nf_conntrack_alter_reply M t sip sp dip dp pr nsip nsp ndip ndp h"
  shows "nat_rel M h' (S\<lparr>ns_nat := bind_pair (ns_nat S) orig reply\<rparr>)"
    and "nat_sent h' = nat_sent h @ (case ns_owner S orig of None \<Rightarrow> [] | Some sk \<Rightarrow> [(t, sk, reply)])"
proof -
  have r: "nat_rel M (record_nat M orig reply h) (S\<lparr>ns_nat := bind_pair (ns_nat S) orig reply\<rparr>)"
    by (rule record_nat_rel [OF ok rel])
  show "nat_rel M h' (S\<lparr>ns_nat := bind_pair (ns_nat S) orig reply\<rparr>)"
    using r by (auto simp: h' handle_nf_conntrack_alter_reply_def Let_def orig reply nat_rel_sent split: option.split)
  show "nat_sent h' = nat_sent h @ (case ns_owner S orig of None \<Rightarrow> [] | Some sk \<Rightarrow> [(t, sk, reply)])"
    by (simp add: h' handle_nf_conntrack_alter_reply_def Let_def orig reply nat_relD [OF rel] send_nat_remapping_def
        split: option.split)
qed

lemma nat_step_rel:
  assumes ok: "nat_maps_ok M" and rel: "nat_rel M h S"
  shows "\<exists>h' out S'. nat_step M ev h = Some h' \<and> nat_spec_step ev S out S' \<and> nat_rel M h' S' \<and> nat_sent h' = nat_sent h @ out"
proof (cases "nat_event ev")
  case False
  then have "nat_step M ev h = Some h" by (cases ev) simp_all
  then show ?thesis using nat_spec_step.other [OF False] rel by fastforce
next
  case True
  have sent: "nat_sent (remove_nat M x h) = nat_sent h" for x by (simp add: remove_nat_def split: option.split)
  from True show ?thesis
  proof (cases ev)
    case (Ev_nf_nat_cleanup_conntrack t ct sip sp dip dp pr)
    then show ?thesis using remove_nat_rel [OF ok rel] nat_spec_step.cleanup
      by (fastforce simp: handle_nf_nat_cleanup_conntrack_def sent)
  next
    case (Ev_nf_conntrack_alter_reply t ct sip sp dip dp pr nsip nsp ndip ndp npr)
    then show ?thesis using alter_rel [OF ok rel refl refl refl] nat_spec_step.alter [OF refl refl] by fastforce
  next
    case (Ev_existing_conntrack_tuple t ct sip sp dip dp pr dir)
    then show ?thesis using existing_rel [OF ok rel] by fastforce
  next
    case (Ev_set_state_ipv4 t dest src dport sport sk tx_rx)
    let ?ft = "conn src (htons sport) dest (htons dport) 6"
    have "nat_step M ev h = nat_set_state M t sk ?ft h"
      by (simp add: Ev_set_state_ipv4 nat_set_state_ipv4_def IPPROTO_TCP_def)
    then show ?thesis using set_state_rel [OF ok rel, of t sk ?ft] nat_spec_step.state4 [OF refl] Ev_set_state_ipv4 by metis
  next
    case (Ev_set_state_ipv6 t dest src dport sport sk tx_rx)
    show ?thesis
    proof (cases "is_ipv4 src \<and> is_ipv4 dest")
      case v4: True
      let ?ft = "conn (s6_3 src) (htons sport) (s6_3 dest) (htons dport) 6"
      have "nat_step M ev h = nat_set_state M t sk ?ft h"
        using v4 by (simp add: Ev_set_state_ipv6 nat_set_state_ipv6_def to_ipv4_def IPPROTO_TCP_def)
      then show ?thesis using set_state_rel [OF ok rel, of t sk ?ft] nat_spec_step.state6 [OF _ _ refl] v4 Ev_set_state_ipv6
        by metis
    next
      case False
      then have "nat_step M ev h = Some h"
        by (auto simp: Ev_set_state_ipv6 nat_set_state_ipv6_def to_ipv4_def)
      then show ?thesis using nat_spec_step.state6_other [OF False] rel Ev_set_state_ipv6 by fastforce
    qed
  next
    case (Ev_close_sock_info t sk)
    then show ?thesis using remove_sk_rel [OF ok rel, of sk] nat_spec_step.close
      by (fastforce simp: nat_close_socket_def)
  qed simp_all
qed

lemma nat_run_rel:
  assumes "nat_maps_ok M" and "nat_rel M h S"
  shows "\<exists>h' out S'. nat_run M evs h = Some h' \<and> nat_spec_run evs S out S' \<and> nat_rel M h' S' \<and> nat_sent h' = nat_sent h @ out"
  using assms(2)
proof (induction evs arbitrary: h S)
  case Nil
  then show ?case using nat_spec_run.no_more by fastforce
next
  case (Cons ev evs)
  obtain h1 out1 S1 where 1: "nat_step M ev h = Some h1" "nat_spec_step ev S out1 S1" "nat_rel M h1 S1"
    "nat_sent h1 = nat_sent h @ out1" using nat_step_rel [OF assms(1) Cons.prems] by blast
  obtain h2 out2 S2 where "nat_run M evs h1 = Some h2" "nat_spec_run evs S1 out2 S2" "nat_rel M h2 S2"
    "nat_sent h2 = nat_sent h1 @ out2" using Cons.IH [OF 1(3)] by blast
  then show ?case using 1 nat_spec_run.more [OF 1(2)] by fastforce
qed

lemma nat_new_rel: "nat_maps_ok M \<Longrightarrow> nat_rel M (nat_new M) nat_spec0"
  by (simp add: nat_rel_def nat_new_def nat_spec0_def flat_map_okD inverse_maps_empty)

text \<open>
  C38. Whatever messages a new NAT handler receives, in whatever order, the assertion of \<^verbatim>\<open>remove_sk\<close> never
  fails, its two NAT tables hold a map and its inverse and its two socket tables likewise, so no tuple has
  two translations or two sockets and no socket two tuples, and the remappings written are those of the
  abstract handler.  This rests on the hash maps behaving as maps.
\<close>

theorem nat_handler_refines:
  assumes "nat_maps_ok M"
  shows "\<exists>h S. nat_run M evs (nat_new M) = Some h \<and> nat_spec_run evs nat_spec0 (nat_sent h) S \<and> nat_rel M h S \<and>
    inj_map (ns_nat S) \<and> inj_map (ns_owner S)"
proof -
  obtain h out S where *: "nat_run M evs (nat_new M) = Some h" "nat_spec_run evs nat_spec0 out S" "nat_rel M h S"
    "nat_sent h = nat_sent (nat_new M) @ out" using nat_run_rel [OF assms nat_new_rel [OF assms]] by blast
  then have "nat_sent h = out" by (simp add: nat_new_def)
  with * show ?thesis by (auto simp: nat_rel_def dest: inverse_maps_inj)
qed

text \<open>Maps that keep the laws, and a run: a translated connection is announced, then the socket with its
  original tuple, which is told the translation, and the socket is closed.\<close>

definition map_flat :: "('k \<rightharpoonup> 'v, 'k, 'v) flat_map" where
  "map_flat = \<lparr>fm_empty = Map.empty, fm_find = (\<lambda>k m. m k), fm_store = (\<lambda>k v m. m(k \<mapsto> v)),
     fm_erase = (\<lambda>k m. m(k := None))\<rparr>"

definition map_nat :: "(hostport_tuple \<rightharpoonup> hostport_tuple, u64 \<rightharpoonup> hostport_tuple, hostport_tuple \<rightharpoonup> u64, u64 \<rightharpoonup> hostport_tuple) nat_maps" where
  "map_nat = \<lparr>nat_ops = map_flat, ct_ops = map_flat, sk_ops = map_flat, sk_rev_ops = map_flat\<rparr>"

lemma map_nat_ok: "nat_maps_ok map_nat"
  by (simp add: nat_maps_ok_def map_nat_def map_flat_def flat_map_ok_def)

definition nat_life :: "bpf_event list" where
  "nat_life = [Ev_nf_conntrack_alter_reply 1 9 10 (htons 20) 11 (htons 21) 6 12 22 13 23 6,
     Ev_set_state_ipv4 2 11 10 21 20 5 1, Ev_close_sock_info 3 5]"

theorem nat_handler_refines_witness:
  "\<exists>h S. nat_run map_nat nat_life (nat_new map_nat) = Some h \<and> nat_spec_run nat_life nat_spec0 (nat_sent h) S \<and>
    nat_rel map_nat h S \<and> inj_map (ns_nat S) \<and> inj_map (ns_owner S)"
  by (rule nat_handler_refines [OF map_nat_ok])

lemma nat_life_sent:
  "map_option nat_sent (nat_run map_nat nat_life (nat_new map_nat)) = Some [(2, 5, conn 12 22 13 23 6)]"
  by code_simp

text \<open>The clean-up at the end of \<^verbatim>\<open>handle_existing_conntrack_tuple\<close> subtracts the offset of the reply
  tuple once more, although the message already carries the address of the original one: the entry that
  the original direction left in the table stays there.\<close>

lemma existing_conntrack_kept:
  assumes "nat_maps_ok M" and "dir \<noteq> 0"
    and "fm_find (ct_ops M) ct (existing_conntrack_table h) = Some orig"
  shows "fm_find (ct_ops M) ct
      (existing_conntrack_table (handle_existing_conntrack_tuple M ct sip sp dip dp pr dir h)) = Some orig"
proof -
  have "ct \<noteq> ct - 56" by (simp add: diff_eq_eq)
  then show ?thesis using assms
    by (simp add: handle_existing_conntrack_tuple_def Let_def flat_map_okD SIZEOF_STRUCT_NF_CONNTRACK_TUPLE_HASH_def
        split: option.split)
qed

end
