(* ===== verification/Dns_Requests.thy ===== *)
theory Dns_Requests
  imports Prelude "HOL-Library.Multiset"
begin

text \<open>
  The table of pending DNS requests, \<^verbatim>\<open>src/collector/kernel/dns_requests.{h,cc}\<close>: a list in order of arrival
  and two \<^verbatim>\<open>std::unordered_multimap\<close>s into it, by question and by socket.

  An iterator of the list is modelled by the identity of its node, a number that no other node has; an
  access through an iterator whose node has been erased is \<^const>\<open>None\<close>.  A multimap is a list of its
  elements; \<^verbatim>\<open>equal_range\<close> gives those with an equal key.  The standard leaves their order open, and
  nothing below depends on it.

  Shown: for every sequence of the operations the collector performs, no erased node is accessed and the
  three containers act as one list of requests.
\<close>

section \<open>Data\<close>

record dns_request_key =
  rq_qid :: u16
  rq_type :: u16
  rq_name :: "u8 list"
  rq_is_rx :: bool

record dns_request_value =
  timestamp_ns :: u64
  rq_sk :: u64

type_synonym request = nat

record dns_requests =
  requests :: "(request \<times> dns_request_key \<times> dns_request_value) list"
  requests_by_key :: "(dns_request_key \<times> request) list"
  requests_by_sock :: "(u64 \<times> request) list"
  next_node :: nat

definition dns_requests_new :: dns_requests where
  "dns_requests_new = \<lparr>requests = [], requests_by_key = [], requests_by_sock = [], next_node = 0\<rparr>"

text \<open>\<^verbatim>\<open>dns_request_key_equal_to\<close>: the direction is not compared.\<close>

definition key_equal :: "dns_request_key \<Rightarrow> dns_request_key \<Rightarrow> bool" where
  "key_equal k k2 \<longleftrightarrow> rq_qid k = rq_qid k2 \<and> rq_type k = rq_type k2 \<and> rq_name k = rq_name k2"

definition deref :: "request \<Rightarrow> dns_requests \<Rightarrow> (dns_request_key \<times> dns_request_value) option" where
  "deref req d = map_of (requests d) req"

text \<open>A loop over an equal range that erases the first element satisfying the test and stops.\<close>

fun erase_first :: "('a \<Rightarrow> bool) \<Rightarrow> 'a list \<Rightarrow> 'a list" where
  "erase_first P [] = []"
| "erase_first P (x # xs) = (if P x then xs else x # erase_first P xs)"

section \<open>Operations\<close>

definition dns_add :: "dns_request_key \<Rightarrow> dns_request_value \<Rightarrow> dns_requests \<Rightarrow> dns_requests" where
  "dns_add key val d =
     (let iter = next_node d in
      d\<lparr>requests := requests d @ [(iter, key, val)], requests_by_key := requests_by_key d @ [(key, iter)],
        requests_by_sock := requests_by_sock d @ [(rq_sk val, iter)], next_node := iter + 1\<rparr>)"

definition dns_lookup :: "dns_request_key \<Rightarrow> dns_requests \<Rightarrow> request list" where
  "dns_lookup key d = map snd (filter (\<lambda>(k, _). key_equal k key) (requests_by_key d))"

definition lookup_older_than :: "u64 \<Rightarrow> dns_requests \<Rightarrow> request list" where
  "lookup_older_than t d = map fst (takeWhile (\<lambda>(_, _, v). \<not> timestamp_ns v \<ge> t) (requests d))"

definition lookup_socket :: "u64 \<Rightarrow> dns_requests \<Rightarrow> request list" where
  "lookup_socket sk d = map snd (filter (\<lambda>(s, _). s = sk) (requests_by_sock d))"

definition dns_remove :: "request \<Rightarrow> dns_requests \<Rightarrow> dns_requests option" where
  "dns_remove req d =
     (case deref req d of
        None \<Rightarrow> None
      | Some (key, val) \<Rightarrow>
          Some (d\<lparr>requests_by_key := erase_first (\<lambda>(k, r). key_equal k key \<and> r = req) (requests_by_key d),
                  requests_by_sock := erase_first (\<lambda>(s, r). s = rq_sk val \<and> r = req) (requests_by_sock d),
                  requests := filter (\<lambda>(r, _). r \<noteq> req) (requests d)\<rparr>))"

text \<open>The loop of \<^verbatim>\<open>remove_all_with_key\<close> over the range of the key, element by element.\<close>

fun remove_range :: "dns_request_key \<Rightarrow> request list \<Rightarrow> dns_requests \<Rightarrow> dns_requests option" where
  "remove_range key [] d = Some d"
| "remove_range key (req # reqs) d =
     (case deref req d of
        None \<Rightarrow> None
      | Some (_, val) \<Rightarrow>
          remove_range key reqs
            (d\<lparr>requests_by_sock := erase_first (\<lambda>(s, r). s = rq_sk val \<and> r = req) (requests_by_sock d),
               requests := filter (\<lambda>(r, _). r \<noteq> req) (requests d),
               requests_by_key := erase_first (\<lambda>(k, r). key_equal k key \<and> r = req) (requests_by_key d)\<rparr>))"

definition remove_all_with_key :: "dns_request_key \<Rightarrow> dns_requests \<Rightarrow> dns_requests option" where
  "remove_all_with_key key d = remove_range key (dns_lookup key d) d"

section \<open>The indices agree with the list\<close>

definition key_node :: "request \<times> dns_request_key \<times> dns_request_value \<Rightarrow> dns_request_key \<times> request" where
  "key_node x = (case x of (r, k, v) \<Rightarrow> (k, r))"

definition sock_node :: "request \<times> dns_request_key \<times> dns_request_value \<Rightarrow> u64 \<times> request" where
  "sock_node x = (case x of (r, k, v) \<Rightarrow> (rq_sk v, r))"

definition dns_inv :: "dns_requests \<Rightarrow> bool" where
  "dns_inv d \<longleftrightarrow> distinct (map fst (requests d)) \<and>
     mset (requests_by_key d) = image_mset key_node (mset (requests d)) \<and>
     mset (requests_by_sock d) = image_mset sock_node (mset (requests d)) \<and>
     (\<forall>x \<in> set (requests d). fst x < next_node d)"

lemma dns_inv_new: "dns_inv dns_requests_new"
  by (simp add: dns_inv_def dns_requests_new_def)

lemma dns_inv_add: "dns_inv d \<Longrightarrow> dns_inv (dns_add k v d)"
  by (fastforce simp: dns_inv_def dns_add_def Let_def key_node_def sock_node_def)

lemma deref_iff: "dns_inv d \<Longrightarrow> deref r d = Some (k, v) \<longleftrightarrow> (r, k, v) \<in> set (requests d)"
  by (simp add: deref_def dns_inv_def)

lemma erase_first_unique:
  "x \<in> set xs \<Longrightarrow> P x \<Longrightarrow> (\<And>y. y \<in> set xs \<Longrightarrow> P y \<Longrightarrow> y = x) \<Longrightarrow> erase_first P xs = remove1 x xs"
proof (induction xs)
  case (Cons y ys)
  show ?case
  proof (cases "y = x")
    case True
    then show ?thesis using Cons.prems(2) by simp
  next
    case False
    then have "\<not> P y" using Cons.prems(3) [of y] by (simp only: list.set_intros) blast
    moreover have "erase_first P ys = remove1 x ys"
      using Cons.prems False by (intro Cons.IH) simp_all
    ultimately show ?thesis using False by simp
  qed
qed simp

lemma filter_node:
  "distinct (map fst xs) \<Longrightarrow> (r, x) \<in> set xs \<Longrightarrow> filter (\<lambda>(r', _). r' \<noteq> r) xs = remove1 (r, x) xs"
proof (induction xs)
  case (Cons y ys)
  show ?case
  proof (cases "fst y = r")
    case True
    then have "y = (r, x)" "\<forall>z \<in> set ys. fst z \<noteq> r" using Cons.prems by (force simp: image_iff)+
    then show ?thesis by (auto intro!: filter_True)
  next
    case False
    then show ?thesis using Cons by (cases y) auto
  qed
qed simp

lemma index_elem:
  assumes "dns_inv d" "(r, k, v) \<in> set (requests d)"
  shows "(k, r) \<in> set (requests_by_key d)" "(rq_sk v, r) \<in> set (requests_by_sock d)"
    and "(k', r) \<in> set (requests_by_key d) \<Longrightarrow> k' = k" "(s', r) \<in> set (requests_by_sock d) \<Longrightarrow> s' = rq_sk v"
proof -
  have "set (requests_by_key d) = key_node ` set (requests d)" "set (requests_by_sock d) = sock_node ` set (requests d)"
    using assms(1) unfolding dns_inv_def by (metis set_image_mset set_mset_mset)+
  moreover have "(r, x) \<in> set (requests d) \<Longrightarrow> x = (k, v)" for x
    using assms by (auto simp: dns_inv_def dest: eq_key_imp_eq_value)
  ultimately show "(k, r) \<in> set (requests_by_key d)" "(rq_sk v, r) \<in> set (requests_by_sock d)"
    "(k', r) \<in> set (requests_by_key d) \<Longrightarrow> k' = k" "(s', r) \<in> set (requests_by_sock d) \<Longrightarrow> s' = rq_sk v"
    using image_eqI [OF _ assms(2), of _ key_node] image_eqI [OF _ assms(2), of _ sock_node]
    by (auto simp: key_node_def sock_node_def split: prod.splits)
qed

text \<open>Erasing one node from all three containers.\<close>

definition without :: "request \<times> dns_request_key \<times> dns_request_value \<Rightarrow> dns_requests \<Rightarrow> dns_requests" where
  "without x d = d\<lparr>requests := remove1 x (requests d), requests_by_key := remove1 (key_node x) (requests_by_key d),
     requests_by_sock := remove1 (sock_node x) (requests_by_sock d)\<rparr>"

lemma erase_elem:
  assumes "dns_inv d" "(r, k, v) \<in> set (requests d)" and "key_equal k key"
  shows "erase_first (\<lambda>(k', r'). key_equal k' key \<and> r' = r) (requests_by_key d) = remove1 (k, r) (requests_by_key d)"
    and "erase_first (\<lambda>(s, r'). s = rq_sk v \<and> r' = r) (requests_by_sock d) = remove1 (rq_sk v, r) (requests_by_sock d)"
    and "filter (\<lambda>(r', _). r' \<noteq> r) (requests d) = remove1 (r, k, v) (requests d)"
proof -
  note i = index_elem [OF assms(1,2)]
  show "erase_first (\<lambda>(k', r'). key_equal k' key \<and> r' = r) (requests_by_key d) = remove1 (k, r) (requests_by_key d)"
    by (rule erase_first_unique [OF i(1)]) (use assms(3) in \<open>auto dest: i(3)\<close>)
  show "erase_first (\<lambda>(s, r'). s = rq_sk v \<and> r' = r) (requests_by_sock d) = remove1 (rq_sk v, r) (requests_by_sock d)"
    by (rule erase_first_unique [OF i(2)]) auto
  show "filter (\<lambda>(r', _). r' \<noteq> r) (requests d) = remove1 (r, k, v) (requests d)"
    using filter_node [OF _ assms(2)] assms(1) by (simp add: dns_inv_def)
qed

lemma dns_inv_without:
  assumes "dns_inv d" "x \<in> set (requests d)"
  shows "dns_inv (without x d)"
proof -
  have sub: "{#x#} \<subseteq># mset (requests d)" using assms(2) by simp
  show ?thesis using assms(1) image_mset_Diff [OF sub, of key_node] image_mset_Diff [OF sub, of sock_node]
    by (auto simp: dns_inv_def without_def distinct_map inj_on_def dest: notin_set_remove1)
qed

lemma dns_remove_live:
  assumes "dns_inv d" "(r, k, v) \<in> set (requests d)"
  shows "dns_remove r d = Some (without (r, k, v) d)"
  using assms erase_elem [OF assms, of k] deref_iff [OF assms(1), of r k v]
  by (cases d) (simp add: dns_remove_def without_def key_equal_def key_node_def sock_node_def)

lemma remove_range_live:
  assumes "dns_inv d" "distinct rs" "\<And>r. r \<in> set rs \<Longrightarrow> \<exists>k v. (r, k, v) \<in> set (requests d) \<and> key_equal k key"
  shows "\<exists>d'. remove_range key rs d = Some d' \<and> dns_inv d' \<and> requests d' = filter (\<lambda>(r, _). r \<notin> set rs) (requests d)"
  using assms
proof (induction rs arbitrary: d)
  case Nil
  then show ?case by (simp add: case_prod_beta)
next
  case (Cons r rs)
  obtain k v where kv: "(r, k, v) \<in> set (requests d)" "key_equal k key" using Cons.prems(3) [of r] by auto
  let ?d = "without (r, k, v) d"
  have step: "remove_range key (r # rs) d = remove_range key rs ?d"
    using deref_iff [OF Cons.prems(1), of r k v] kv erase_elem [OF Cons.prems(1) kv]
    by (cases d) (simp add: without_def key_node_def sock_node_def)
  have reqs: "requests ?d = filter (\<lambda>(r', _). r' \<noteq> r) (requests d)"
    using erase_elem(3) [OF Cons.prems(1) kv] by (simp add: without_def)
  have "\<exists>d'. remove_range key rs ?d = Some d' \<and> dns_inv d' \<and> requests d' = filter (\<lambda>(r, _). r \<notin> set rs) (requests ?d)"
  proof (rule Cons.IH [OF dns_inv_without [OF Cons.prems(1) kv(1)]])
    show "distinct rs" using Cons.prems(2) by simp
    fix q assume q: "q \<in> set rs"
    then have "q \<noteq> r" using Cons.prems(2) by auto
    with q Cons.prems(3) [of q] show "\<exists>k v. (q, k, v) \<in> set (requests ?d) \<and> key_equal k key" unfolding reqs by auto
  qed
  then show ?case unfolding step reqs by (simp add: case_prod_beta conj_commute)
qed

section \<open>Lookups\<close>

lemma mset_lookup:
  assumes "dns_inv d"
  shows "mset (dns_lookup key d) = mset (map fst (filter (\<lambda>(r, k, v). key_equal k key) (requests d)))"
    and "mset (lookup_socket sk d) = mset (map fst (filter (\<lambda>(r, k, v). rq_sk v = sk) (requests d)))"
proof -
  have k: "mset (requests_by_key d) = image_mset key_node (mset (requests d))"
    "mset (requests_by_sock d) = image_mset sock_node (mset (requests d))" using assms by (simp_all add: dns_inv_def)
  show "mset (dns_lookup key d) = mset (map fst (filter (\<lambda>(r, k, v). key_equal k key) (requests d)))"
    by (simp add: dns_lookup_def k image_mset_filter_mset_swap [symmetric] multiset.map_comp comp_def key_node_def case_prod_beta)
  show "mset (lookup_socket sk d) = mset (map fst (filter (\<lambda>(r, k, v). rq_sk v = sk) (requests d)))"
    by (simp add: lookup_socket_def k image_mset_filter_mset_swap [symmetric] multiset.map_comp comp_def sock_node_def case_prod_beta)
qed

lemma distinct_filter_fst: "distinct (map fst xs) \<Longrightarrow> distinct (map fst (filter P xs))"
  by (rule distinct_map_filter)

lemma lookup_live:
  assumes "dns_inv d" and "mset rs = mset (map fst (filter P (requests d)))"
  shows "distinct rs" and "set rs = fst ` {x \<in> set (requests d). P x}"
    and "filter (\<lambda>(r, _). r \<notin> set rs) (requests d) = filter (\<lambda>x. \<not> P x) (requests d)"
proof -
  have d: "distinct (map fst (requests d))" using assms(1) by (simp add: dns_inv_def)
  show "distinct rs" using mset_eq_imp_distinct_iff [OF assms(2)] distinct_filter_fst [OF d] by simp
  show s: "set rs = fst ` {x \<in> set (requests d). P x}" using mset_eq_setD [OF assms(2)] by simp
  have "fst x \<in> set rs \<longleftrightarrow> P x" if x: "x \<in> set (requests d)" for x
  proof
    assume "fst x \<in> set rs"
    then obtain y where "y \<in> set (requests d)" "P y" "fst y = fst x" unfolding s by auto
    moreover have "y = x" using d x calculation by (simp add: distinct_map inj_on_def)
    ultimately show "P x" by simp
  qed (use x s in auto)
  then show "filter (\<lambda>(r, _). r \<notin> set rs) (requests d) = filter (\<lambda>x. \<not> P x) (requests d)"
    by (auto simp: case_prod_beta intro!: filter_cong)
qed

lemma remove_all_rel:
  assumes "dns_inv d"
  shows "\<exists>d'. remove_all_with_key key d = Some d' \<and> dns_inv d' \<and>
    requests d' = filter (\<lambda>(r, k, v). \<not> key_equal k key) (requests d)"
proof -
  note l = lookup_live [OF assms mset_lookup(1) [OF assms, of key]]
  have "\<exists>k v. (r, k, v) \<in> set (requests d) \<and> key_equal k key" if "r \<in> set (dns_lookup key d)" for r
    using that unfolding l(2) by fastforce
  from remove_range_live [OF assms l(1) this] show ?thesis
    unfolding l(3) remove_all_with_key_def by (simp add: case_prod_unfold)
qed

text \<open>The loops that time requests out: read a request, then remove it.\<close>

fun take_each :: "request list \<Rightarrow> dns_requests \<Rightarrow> ((dns_request_key \<times> dns_request_value) list \<times> dns_requests) option" where
  "take_each [] d = Some ([], d)"
| "take_each (r # rs) d =
     (case deref r d of
        None \<Rightarrow> None
      | Some x \<Rightarrow>
          (case dns_remove r d of
             None \<Rightarrow> None
           | Some d' \<Rightarrow> map_option (\<lambda>(xs, d''). (x # xs, d'')) (take_each rs d')))"

lemma map_of_filter_ne: "x \<noteq> r \<Longrightarrow> map_of (filter (\<lambda>(r', _). r' \<noteq> r) xs) x = map_of xs x"
  by (induction xs) auto

lemma take_each_live:
  assumes "dns_inv d" "distinct rs" "set rs \<subseteq> fst ` set (requests d)"
  shows "\<exists>d'. take_each rs d = Some (map (the \<circ> map_of (requests d)) rs, d') \<and> dns_inv d' \<and>
    requests d' = filter (\<lambda>(r, _). r \<notin> set rs) (requests d)"
  using assms
proof (induction rs arbitrary: d)
  case Nil
  then show ?case by (simp add: case_prod_beta)
next
  case (Cons r rs)
  obtain k v where kv: "(r, k, v) \<in> set (requests d)" using Cons.prems(3) by auto
  let ?d = "without (r, k, v) d"
  have reqs: "requests ?d = filter (\<lambda>(r', _). r' \<noteq> r) (requests d)"
    using erase_elem(3) [OF Cons.prems(1) kv, of k] by (simp add: without_def key_equal_def)
  have sub: "set rs \<subseteq> fst ` set (requests ?d)"
    using Cons.prems(2,3) unfolding reqs by (fastforce simp: image_iff)
  have same: "map (the \<circ> map_of (requests ?d)) rs = map (the \<circ> map_of (requests d)) rs"
    using Cons.prems(2) unfolding reqs by (auto intro!: arg_cong [where f = the] map_of_filter_ne)
  obtain d' where "take_each rs ?d = Some (map (the \<circ> map_of (requests d)) rs, d')" "dns_inv d'"
    "requests d' = filter (\<lambda>(r, _). r \<notin> set rs) (requests ?d)"
    using Cons.IH [OF dns_inv_without [OF Cons.prems(1) kv] _ sub] Cons.prems(2) same by auto
  then show ?case using deref_iff [OF Cons.prems(1), of r k v] dns_remove_live [OF Cons.prems(1) kv] kv
    unfolding reqs by (simp add: deref_def case_prod_beta conj_commute)
qed

section \<open>Requests as one list\<close>

text \<open>How the collector uses the table: a request is added, a response looks up the requests with its
  question and removes them all, a slow poll times out the old ones, and the requests of a socket are timed
  out when it is destroyed.  Each operation gives the requests it has read.\<close>

datatype dns_op = Request dns_request_key dns_request_value | Response dns_request_key | Timeout u64 | Destroyed u64

fun dns_do :: "dns_op \<Rightarrow> dns_requests \<Rightarrow> ((dns_request_key \<times> dns_request_value) list \<times> dns_requests) option" where
  "dns_do (Request k v) d = Some ([], dns_add k v d)"
| "dns_do (Response k) d =
     (case those (map (\<lambda>r. deref r d) (dns_lookup k d)) of
        None \<Rightarrow> None
      | Some xs \<Rightarrow> map_option (Pair xs) (remove_all_with_key k d))"
| "dns_do (Timeout t) d = take_each (lookup_older_than t d) d"
| "dns_do (Destroyed sk) d = take_each (lookup_socket sk d) d"

fun dns_do_list :: "dns_op \<Rightarrow> (dns_request_key \<times> dns_request_value) list \<Rightarrow>
    (dns_request_key \<times> dns_request_value) list \<times> (dns_request_key \<times> dns_request_value) list" where
  "dns_do_list (Request k v) L = ([], L @ [(k, v)])"
| "dns_do_list (Response k) L = (filter (\<lambda>(k', v). key_equal k' k) L, filter (\<lambda>(k', v). \<not> key_equal k' k) L)"
| "dns_do_list (Timeout t) L = (takeWhile (\<lambda>(k, v). timestamp_ns v < t) L, dropWhile (\<lambda>(k, v). timestamp_ns v < t) L)"
| "dns_do_list (Destroyed sk) L = (filter (\<lambda>(k, v). rq_sk v = sk) L, filter (\<lambda>(k, v). rq_sk v \<noteq> sk) L)"

fun dns_run :: "dns_op list \<Rightarrow> dns_requests \<Rightarrow> ((dns_request_key \<times> dns_request_value) list list \<times> dns_requests) option" where
  "dns_run [] d = Some ([], d)"
| "dns_run (p # ps) d =
     (case dns_do p d of None \<Rightarrow> None
      | Some (xs, d') \<Rightarrow> map_option (\<lambda>(ys, d''). (xs # ys, d'')) (dns_run ps d'))"

fun dns_run_list :: "dns_op list \<Rightarrow> (dns_request_key \<times> dns_request_value) list \<Rightarrow> (dns_request_key \<times> dns_request_value) list list" where
  "dns_run_list [] L = []"
| "dns_run_list (p # ps) L = fst (dns_do_list p L) # dns_run_list ps (snd (dns_do_list p L))"

lemma mset_read:
  assumes "dns_inv d" and "mset rs = mset (map fst (filter P (requests d)))"
  shows "mset (map (the \<circ> map_of (requests d)) rs) = mset (map snd (filter P (requests d)))"
proof -
  have "the (map_of (requests d) (fst x)) = snd x" if "x \<in> set (requests d)" for x
    using assms(1) that by (metis dns_inv_def map_of_eq_Some_iff option.sel prod.collapse)
  then have "map (the \<circ> map_of (requests d)) (map fst (filter P (requests d))) = map snd (filter P (requests d))" by auto
  then show ?thesis using assms(2) by (metis mset_map)
qed

lemma those_read:
  assumes "dns_inv d" "set rs \<subseteq> fst ` set (requests d)"
  shows "those (map (\<lambda>r. deref r d) rs) = Some (map (the \<circ> map_of (requests d)) rs)"
  using assms(2)
proof (induction rs)
  case (Cons r rs)
  then obtain x where "map_of (requests d) r = Some x" by (metis imageE list.set_intros(1) map_of_eq_None_iff option.exhaust subset_eq image_eqI)
  then show ?case using Cons by (simp add: deref_def)
qed simp

lemma map_snd_filter: "map snd (filter (\<lambda>x. Q (snd x)) xs) = filter Q (map snd xs)"
  by (simp add: filter_map comp_def)

lemma take_rel:
  assumes "dns_inv d" and "mset rs = mset (map fst (filter (\<lambda>x. Q (snd x)) (requests d)))"
  shows "\<exists>xs d'. take_each rs d = Some (xs, d') \<and> mset xs = mset (filter Q (map snd (requests d))) \<and> dns_inv d' \<and>
    map snd (requests d') = filter (\<lambda>y. \<not> Q y) (map snd (requests d))"
proof -
  note l = lookup_live [OF assms]
  have "set rs \<subseteq> fst ` set (requests d)" unfolding l(2) by auto
  then show ?thesis using take_each_live [OF assms(1) l(1)] mset_read [OF assms]
    unfolding l(3) map_snd_filter map_snd_filter [of "\<lambda>y. \<not> Q y", symmetric] by auto
qed

lemma take_prefix:
  assumes "dns_inv d"
  shows "\<exists>d'. take_each (map fst (takeWhile (\<lambda>x. Q (snd x)) (requests d))) d = Some (takeWhile Q (map snd (requests d)), d') \<and>
    dns_inv d' \<and> map snd (requests d') = dropWhile Q (map snd (requests d))"
proof -
  let ?tw = "takeWhile (\<lambda>x. Q (snd x)) (requests d)" and ?dw = "dropWhile (\<lambda>x. Q (snd x)) (requests d)"
  let ?rs = "map fst ?tw"
  have d: "distinct (map fst (requests d))" using assms by (simp add: dns_inv_def)
  then have "distinct (map fst (?tw @ ?dw))" by simp
  then have dis: "distinct ?rs" "\<forall>x \<in> set ?dw. fst x \<notin> set ?rs" unfolding map_append distinct_append by auto
  then have "filter (\<lambda>x. fst x \<notin> set ?rs) (?tw @ ?dw) = ?dw" unfolding filter_append by simp
  then have f: "filter (\<lambda>(r, _). r \<notin> set ?rs) (requests d) = ?dw" by (simp add: case_prod_unfold)
  have sub: "set ?rs \<subseteq> fst ` set (requests d)" by (auto dest: set_takeWhileD)
  have "the (map_of (requests d) (fst x)) = snd x" if "x \<in> set ?tw" for x
    using d set_takeWhileD [OF that] by (metis map_of_eq_Some_iff option.sel prod.collapse)
  then have "map (the \<circ> map_of (requests d)) ?rs = map snd ?tw" by auto
  with take_each_live [OF assms dis(1) sub] show ?thesis unfolding f
    by (auto simp: takeWhile_map dropWhile_map comp_def)
qed

lemma dns_do_rel:
  assumes "dns_inv d"
  shows "\<exists>xs d'. dns_do p d = Some (xs, d') \<and> dns_inv d' \<and> mset xs = mset (fst (dns_do_list p (map snd (requests d)))) \<and>
    map snd (requests d') = snd (dns_do_list p (map snd (requests d)))"
proof (cases p)
  case (Request k v)
  then show ?thesis using dns_inv_add [OF assms] by (simp add: dns_add_def Let_def)
next
  case (Response k)
  let ?P = "\<lambda>x :: request \<times> dns_request_key \<times> dns_request_value. key_equal (fst (snd x)) k"
  have m: "mset (dns_lookup k d) = mset (map fst (filter ?P (requests d)))"
    using mset_lookup(1) [OF assms] by (simp add: case_prod_unfold)
  have "set (dns_lookup k d) \<subseteq> fst ` set (requests d)" unfolding lookup_live(2) [OF assms m] by auto
  moreover obtain d' where "remove_all_with_key k d = Some d'" "dns_inv d'"
    "requests d' = filter (\<lambda>x. \<not> ?P x) (requests d)" using remove_all_rel [OF assms, of k] by (auto simp: case_prod_unfold)
  ultimately show ?thesis using those_read [OF assms, of "dns_lookup k d"] mset_read [OF assms m] Response
    by (simp add: case_prod_unfold filter_map comp_def)
next
  case (Timeout t)
  then show ?thesis using take_prefix [OF assms, of "\<lambda>(k, v). timestamp_ns v < t"]
    by (auto simp: lookup_older_than_def case_prod_unfold not_le)
next
  case (Destroyed sk)
  have "mset (lookup_socket sk d) = mset (map fst (filter (\<lambda>x. (\<lambda>(k, v). rq_sk v = sk) (snd x)) (requests d)))"
    using mset_lookup(2) [OF assms] by (simp add: case_prod_unfold)
  from take_rel [OF assms this] show ?thesis using Destroyed by (auto simp: case_prod_unfold)
qed

text \<open>
  C39. For every sequence of additions, responses, time-outs and socket removals on an empty table, no
  iterator of an erased request is used, and the requests read by each operation and those left are the
  ones of a single list: a response reads and removes exactly the requests with its transaction, type and
  name, a time-out the requests at the front that are older, and the removal of a socket those it sent.
\<close>

theorem dns_requests_refine:
  "\<exists>ys d. dns_run ps dns_requests_new = Some (ys, d) \<and> map mset ys = map mset (dns_run_list ps [])"
proof -
  have "\<exists>ys d'. dns_run ps d = Some (ys, d') \<and> map mset ys = map mset (dns_run_list ps (map snd (requests d)))"
    if "dns_inv d" for d using that
  proof (induction ps arbitrary: d)
    case (Cons p ps)
    from dns_do_rel [OF Cons.prems, of p] obtain xs d' where "dns_do p d = Some (xs, d')" "dns_inv d'"
      "mset xs = mset (fst (dns_do_list p (map snd (requests d))))"
      "map snd (requests d') = snd (dns_do_list p (map snd (requests d)))" by blast
    then show ?case using Cons.IH [of d'] by fastforce
  qed simp
  from this [OF dns_inv_new] show ?thesis by (simp add: dns_requests_new_def)
qed

end
