(* ===== verification/Metric_Store.thy ===== *)
theory Metric_Store
  imports Iterable_Bitmap
begin

text \<open>
  The store of statistics that the collector reports periodically, \<^verbatim>\<open>src/util/metric_store.h\<close>, with what it is
  built from: \<^verbatim>\<open>src/util/fast_div.h\<close>, \<^verbatim>\<open>src/util/histogram.h\<close> and \<^verbatim>\<open>src/util/lazy_array.h\<close>.

  For every index and every epoch the store has a metric; the indices with a metric to report in an epoch
  are in the queue of that epoch, a list threaded through the elements.  A failed assertion or an access
  outside the array is \<^const>\<open>None\<close>.  The constructor of \<^verbatim>\<open>fast_div\<close> from a floating-point number and the slot
  duration are left out: the multiplier and the shift are given.

  Shown: the queues hold each index at most once, the operations act on the metrics and the queues as on
  a function and a list per epoch, and the slot of a time is its distance from the current slot, clamped.
\<close>

section \<open>Approximate division and bins\<close>

record fast_div =
  fd_mul :: u32
  fd_shift :: u32

definition fast_divide :: "u64 \<Rightarrow> fast_div \<Rightarrow> u32" where
  "fast_divide x d = ucast (drop_bit (unat (fd_shift d)) (x * ucast (fd_mul d)))"

text \<open>\<^verbatim>\<open>item\<close> is an \<^verbatim>\<open>int\<close>; its right shift by 31 is arithmetic.\<close>

definition histogram_bin :: "u32 \<Rightarrow> u32 \<Rightarrow> u32" where
  "histogram_bin n_bins item =
     (let msk = n_bins - 1;
          overflow_mask = signed_drop_bit 31 (msk - item);
          neg_mask = signed_drop_bit 31 item;
          clasped = (item AND NOT neg_mask) OR overflow_mask
      in clasped AND msk)"

section \<open>Lazily constructed arrays\<close>

text \<open>The storage of an element that has not been constructed is arbitrary; \<open>la_ref\<close> is \<^verbatim>\<open>operator[]\<close>, which
  constructs the element on its first use, and \<open>la_at\<close> the value it then refers to.\<close>

record 't lazy_array =
  la_constructed :: iterable_bitmap
  la_array :: "nat \<Rightarrow> 't"

definition la_new :: "nat \<Rightarrow> (nat \<Rightarrow> 't) \<Rightarrow> 't lazy_array" where
  "la_new sz mem = \<lparr>la_constructed = bitmap_empty sz, la_array = mem\<rparr>"

definition la_ref :: "'t \<Rightarrow> nat \<Rightarrow> 't lazy_array \<Rightarrow> 't lazy_array" where
  "la_ref t0 i a =
     (if \<not> bitmap_get i (la_constructed a)
      then a\<lparr>la_array := (la_array a)(i := t0), la_constructed := bitmap_set i (la_constructed a)\<rparr>
      else a)"

definition la_at :: "'t \<Rightarrow> nat \<Rightarrow> 't lazy_array \<Rightarrow> 't" where
  "la_at t0 i a = la_array (la_ref t0 i a) i"

definition la_assign :: "'t \<Rightarrow> nat \<Rightarrow> 't \<Rightarrow> 't lazy_array \<Rightarrow> 't lazy_array" where
  "la_assign t0 i t a = (let a' = la_ref t0 i a in a'\<lparr>la_array := (la_array a')(i := t)\<rparr>)"

section \<open>The store\<close>

definition ms_invalid :: "nat \<Rightarrow> u32" where
  "ms_invalid sz = (if sz \<ge> 2 ^ 16 - 2 then - 1 else 0xffff)"

definition list_end :: "nat \<Rightarrow> u32" where
  "list_end sz = ms_invalid sz - 1"

definition ms_index :: "nat \<Rightarrow> u32 \<Rightarrow> u32" where
  "ms_index sz i = i AND ms_invalid sz"

record 'm element =
  el_m :: "'m list"
  el_next :: "u32 list"

text \<open>\<open>queue_head\<close> holds the heads of the queues; \<open>ms_metric0\<close> is the initial value of a metric.\<close>

record 'm metric_store =
  arr :: "'m element lazy_array"
  queue_head :: "u32 list"
  t_to_timeslot :: fast_div
  current_timeslot :: "u16 option"
  current_queue :: u32
  ms_size :: nat
  ms_epochs :: u32
  ms_metric0 :: 'm

definition element0 :: "'m metric_store \<Rightarrow> 'm element" where
  "element0 s = \<lparr>el_m = replicate (unat (ms_epochs s)) (ms_metric0 s),
     el_next = replicate (unat (ms_epochs s)) (ms_invalid (ms_size s))\<rparr>"

definition metric_store_new :: "nat \<Rightarrow> u32 \<Rightarrow> 'm \<Rightarrow> fast_div \<Rightarrow> (nat \<Rightarrow> 'm element) \<Rightarrow> 'm metric_store" where
  "metric_store_new sz n m0 d mem =
     \<lparr>arr = la_new sz mem, queue_head = replicate (unat n) (list_end sz), t_to_timeslot = d, current_timeslot = None,
      current_queue = 0, ms_size = sz, ms_epochs = n, ms_metric0 = m0\<rparr>"

definition elem_at :: "nat \<Rightarrow> 'm metric_store \<Rightarrow> 'm element" where
  "elem_at i s = la_at (element0 s) i (arr s)"

definition elem_assign :: "nat \<Rightarrow> 'm element \<Rightarrow> 'm metric_store \<Rightarrow> 'm metric_store" where
  "elem_assign i x s = s\<lparr>arr := la_assign (element0 s) i x (arr s)\<rparr>"

text \<open>The difference of the slots is converted to \<^verbatim>\<open>s16\<close>; it is kept as a 16-bit word.\<close>

definition relative_timeslot :: "u64 \<Rightarrow> 'm metric_store \<Rightarrow> u16 \<times> 'm metric_store" where
  "relative_timeslot t s =
     (let timeslot = ucast (fast_divide t (t_to_timeslot s)) :: u16;
          current = (case current_timeslot s of None \<Rightarrow> timeslot | Some c \<Rightarrow> c)
      in (timeslot - current, s\<lparr>current_timeslot := Some current\<rparr>))"

text \<open>The reference to a metric that a lookup returns is the pair of its index and its epoch.\<close>

definition lookup_relative ::
    "u32 \<Rightarrow> u32 \<Rightarrow> bool \<Rightarrow> 'm metric_store \<Rightarrow> ((bool \<times> (nat \<times> nat)) \<times> 'm metric_store) option" where
  "lookup_relative index bin enqueue s =
     (if \<not> unat index < ms_size s then None
      else if \<not> bin < ms_epochs s then None
      else
        (let epoch = unat ((bin + current_queue s) AND (ms_epochs s - 1));
             elem = elem_at (unat index) s;
             s1 = s\<lparr>arr := la_ref (element0 s) (unat index) (arr s)\<rparr>;
             was_queued = (el_next elem ! epoch \<noteq> ms_invalid (ms_size s))
         in Some ((was_queued, (unat index, epoch)),
              if enqueue \<and> \<not> was_queued
              then (elem_assign (unat index) (elem\<lparr>el_next := (el_next elem)[epoch := queue_head s1 ! epoch]\<rparr>) s1)
                     \<lparr>queue_head := (queue_head s1)[epoch := ms_index (ms_size s) index]\<rparr>
              else s1)))"

definition ms_lookup ::
    "u32 \<Rightarrow> u64 \<Rightarrow> bool \<Rightarrow> 'm metric_store \<Rightarrow> ((bool \<times> (nat \<times> nat)) \<times> 'm metric_store) option" where
  "ms_lookup index t enqueue s =
     (case relative_timeslot t s of (rel, s1) \<Rightarrow>
        lookup_relative index (histogram_bin (ms_epochs s) (scast rel)) enqueue s1)"

definition metric_at :: "nat \<times> nat \<Rightarrow> 'm metric_store \<Rightarrow> 'm" where
  "metric_at r s = el_m (elem_at (fst r) s) ! snd r"

definition metric_assign :: "nat \<times> nat \<Rightarrow> 'm \<Rightarrow> 'm metric_store \<Rightarrow> 'm metric_store" where
  "metric_assign r m s =
     (let x = elem_at (fst r) s in elem_assign (fst r) (x\<lparr>el_m := (el_m x)[snd r := m]\<rparr>) s)"

definition ms_advance :: "'m metric_store \<Rightarrow> 'm metric_store" where
  "ms_advance s = s\<lparr>current_queue := (current_queue s + 1) AND (ms_epochs s - 1),
     current_timeslot := map_option (\<lambda>c. c + 1) (current_timeslot s)\<rparr>"

text \<open>The operations of \<^verbatim>\<open>queue_type\<close>, for the queue with the given index.\<close>

definition queue_empty :: "nat \<Rightarrow> 'm metric_store \<Rightarrow> bool" where
  "queue_empty q s \<longleftrightarrow> queue_head s ! q = list_end (ms_size s)"

definition queue_peek :: "nat \<Rightarrow> 'm metric_store \<Rightarrow> u32 option" where
  "queue_peek q s = (if queue_empty q s then None else Some (queue_head s ! q))"

definition queue_pop :: "nat \<Rightarrow> 'm metric_store \<Rightarrow> 'm metric_store option" where
  "queue_pop q s =
     (if queue_empty q s then None
      else if \<not> unat (queue_head s ! q) < ms_size s then None
      else
        (let dequeued = unat (queue_head s ! q);
             elem = elem_at dequeued s;
             nxt = el_next elem ! q
         in Some ((elem_assign dequeued (elem\<lparr>el_next := (el_next elem)[q := ms_invalid (ms_size s)]\<rparr>) s)
                    \<lparr>queue_head := (queue_head s)[q := nxt]\<rparr>)))"

text \<open>
  The loop by which both kinds of statistics are reported (\<^verbatim>\<open>send_stats_from_queue\<close> and
  \<^verbatim>\<open>udp_send_stats_from_queue\<close> of \<^verbatim>\<open>src/collector/kernel/buffered_poller.cc\<close>): while the current queue is not
  empty, take the metric of the index at its head, act on it, and pop.  \<open>body\<close> gives the new value of the
  metric and the new state of the client; its failure is a failure of the loop.
\<close>

partial_function (option) drain_queue ::
    "(u32 \<Rightarrow> 'm \<Rightarrow> 'c \<Rightarrow> ('m \<times> 'c) option) \<Rightarrow> 'm metric_store \<Rightarrow> 'c \<Rightarrow> ('m metric_store \<times> 'c) option" where
  "drain_queue body s c =
     (if queue_empty (unat (current_queue s)) s then Some (s, c)
      else
        Option.bind (queue_peek (unat (current_queue s)) s) (\<lambda>index.
        Option.bind (lookup_relative index 0 False s) (\<lambda>l.
        Option.bind (body index (metric_at (snd (fst l)) (snd l)) c) (\<lambda>mc.
        Option.bind (queue_pop (unat (current_queue s)) (metric_assign (snd (fst l)) (fst mc) (snd l))) (\<lambda>s'.
        drain_queue body s' (snd mc))))))"

section \<open>Bins\<close>

lemma signed_drop_31: "signed_drop_bit 31 (x :: u32) = (if sint x < 0 then - 1 else 0)"
proof -
  have "bit x 31 \<longleftrightarrow> sint x < 0" using bit_last_iff [of x] by simp
  then show ?thesis by (intro bit_word_eqI) (auto simp: bit_signed_drop_bit_iff min_def not_le)
qed

lemma unat_pow2: "k < LENGTH('a::len) \<Longrightarrow> unat (2 ^ k :: 'a word) = 2 ^ k"
  using unat_of_nat [where 'a = 'a, of "2 ^ k"] by simp

lemma bin_bound:
  assumes "n = 2 ^ k" "k < 32"
  shows "histogram_bin n item < n"
proof -
  have n: "n - 1 = (mask k :: u32)" using assms by (simp add: mask_eq_decr_exp)
  have "unat (x AND (mask k :: u32)) < 2 ^ k" for x by (simp add: unat_and_mask)
  moreover have "unat n = 2 ^ k"
    using assms by (simp add: unat_pow2)
  ultimately show ?thesis by (simp add: histogram_bin_def Let_def n word_less_nat_alt)
qed

lemma histogram_bin_clamps:
  assumes n: "n = 2 ^ k" "k < 16"
  shows "unat (histogram_bin n (scast (item :: u16))) = nat (max 0 (min (2 ^ k - 1) (sint item)))"
proof -
  let ?w = "scast item :: u32"
  have m: "n - 1 = (mask k :: u32)" using n by (simp add: mask_eq_decr_exp)
  have w: "sint ?w = sint item" by (rule sint_up_scast) (simp add: is_up)
  have r: "- 32768 \<le> sint item" "sint item < 32768"
    using sint_ge [of item] sint_lt [of item] by simp_all
  have p: "(2 :: int) ^ k \<le> 32768" using n(2) power_increasing [of k 15 "2 :: int"] by simp
  have um: "unat (mask k :: u32) = 2 ^ k - 1" using n(2) by (simp add: unat_mask)
  have "of_nat (unat (mask k :: u32)) = (mask k :: u32)" by simp
  then have mk: "(mask k :: u32) = of_nat (2 ^ k - 1)" unfolding um by (rule sym)
  have "(2 :: nat) ^ k \<le> 2 ^ 15" using n(2) by (intro power_increasing) simp_all
  then have sm: "sint (mask k :: u32) = 2 ^ k - 1"
    unfolding mk by (subst sint_of_nat32) (simp_all add: of_nat_diff del: of_nat_power)
  have d: "sint ((mask k :: u32) - ?w) = 2 ^ k - 1 - sint item"
  proof -
    have "(1 :: int) \<le> 2 ^ k" by simp
    then have "- 2147483648 \<le> 2 ^ k - 1 - sint item" "2 ^ k - 1 - sint item < 2147483648" using r p by linarith+
    then show ?thesis by (simp add: sint_word_diff sm w signed_take_bit_int_eq_self)
  qed
  show ?thesis
  proof (cases "sint item < 0")
    case True
    have "(1 :: int) \<le> 2 ^ k" by simp
    then have "\<not> 2 ^ k - 1 - sint item < 0" using True by linarith
    then show ?thesis using True by (simp add: histogram_bin_def Let_def m signed_drop_31 w d)
  next
    case False
    have "uint ?w = sint item" using False r
      unfolding scast_eq by (subst uint_word_of_int_eq) (rule take_bit_int_eq_self, simp_all)
    then have u: "unat ?w = nat (sint item)" by (metis nat_uint_eq)
    show ?thesis
    proof (cases "sint item \<le> 2 ^ k - 1")
      case True
      then have "nat (sint item) < 2 ^ k" using False by (simp add: nat_less_iff)
      then have "unat (?w AND mask k) = nat (sint item)" by (simp add: unat_and_mask u)
      moreover have "histogram_bin n ?w = ?w AND mask k" using True False
        unfolding histogram_bin_def Let_def m signed_drop_31 w d by simp
      ultimately show ?thesis using True False by simp
    next
      case big: False
      have "histogram_bin n ?w = mask k" using big False
        unfolding histogram_bin_def Let_def m signed_drop_31 w d by simp
      moreover have "nat (2 ^ k - 1) = 2 ^ k - 1" by (simp add: nat_diff_distrib nat_power_eq)
      ultimately show ?thesis using big False um by simp
    qed
  qed
qed

section \<open>Arrays\<close>

definition la_ok :: "'t lazy_array \<Rightarrow> nat \<Rightarrow> bool" where
  "la_ok a sz \<longleftrightarrow> ib_size (la_constructed a) = sz \<and> (\<exists>S. ib_rep (la_constructed a) S)"

lemma bitmap_get_set:
  assumes "ib_rep b S" "i < ib_size b" "j < ib_size b"
  shows "bitmap_get j (bitmap_set i b) \<longleftrightarrow> j = i \<or> bitmap_get j b"
proof -
  have "ib_size (bitmap_set i b) = ib_size b" using ib_size_apply [of "Set i" b] by simp
  then show ?thesis using bitmap_get_rep [OF bitmap_set_rep [OF assms(1,2)], of j] bitmap_get_rep [OF assms(1,3)] assms(3)
    by simp
qed

lemma la_ref_ok:
  assumes "la_ok a sz" "i < sz"
  shows "la_ok (la_ref t0 i a) sz"
proof -
  obtain S where "ib_rep (la_constructed a) S" "ib_size (la_constructed a) = sz" using assms(1) by (auto simp: la_ok_def)
  then show ?thesis using assms bitmap_set_rep [of _ S i] ib_size_apply [of "Set i" "la_constructed a"]
    by (auto simp: la_ok_def la_ref_def)
qed

lemma la_at_ref:
  assumes "la_ok a sz" "i < sz" "j < sz"
  shows "la_at t0 j (la_ref t0 i a) = la_at t0 j a"
  using assms by (auto simp: la_ok_def la_at_def la_ref_def bitmap_get_set)

lemma la_assign_ok: "la_ok a sz \<Longrightarrow> i < sz \<Longrightarrow> la_ok (la_assign t0 i t a) sz"
  using la_ref_ok [of a sz i t0] by (simp add: la_assign_def la_ok_def Let_def)

lemma la_at_assign:
  assumes "la_ok a sz" "i < sz" "j < sz"
  shows "la_at t0 j (la_assign t0 i t a) = (if j = i then t else la_at t0 j a)"
  using assms by (auto simp: la_ok_def la_at_def la_assign_def la_ref_def bitmap_get_set Let_def)

lemma la_new_ok: "size_ok sz \<Longrightarrow> la_ok (la_new sz mem) sz"
  using bitmap_empty_rep [of sz] by (auto simp: la_ok_def la_new_def bitmap_empty_def)

lemma la_at_new:
  assumes "size_ok sz" "i < sz"
  shows "la_at t0 i (la_new sz mem) = t0"
  using assms bitmap_get_rep [OF bitmap_empty_rep [OF assms(1)], of i]
  by (simp add: la_at_def la_ref_def la_new_def) (simp add: bitmap_empty_def)

section \<open>Metrics and queues\<close>

fun chain :: "(nat \<Rightarrow> u32) \<Rightarrow> u32 \<Rightarrow> u32 \<Rightarrow> u32 list \<Rightarrow> bool" where
  "chain nxt e h [] \<longleftrightarrow> h = e"
| "chain nxt e h (i # is) \<longleftrightarrow> h = i \<and> chain nxt e (nxt (unat i)) is"

definition ms_next :: "'m metric_store \<Rightarrow> nat \<Rightarrow> nat \<Rightarrow> u32" where
  "ms_next s e i = el_next (elem_at i s) ! e"

definition ms_n :: "'m metric_store \<Rightarrow> nat" where
  "ms_n s = unat (ms_epochs s)"

definition ms_shape :: "'m metric_store \<Rightarrow> bool" where
  "ms_shape s \<longleftrightarrow> la_ok (arr s) (ms_size s) \<and> size_ok (ms_size s) \<and> (\<exists>k < 32. ms_epochs s = 2 ^ k) \<and>
     current_queue s < ms_epochs s \<and> length (queue_head s) = ms_n s \<and>
     (\<forall>i < ms_size s. length (el_m (elem_at i s)) = ms_n s \<and> length (el_next (elem_at i s)) = ms_n s)"

definition queue_ok :: "'m metric_store \<Rightarrow> nat \<Rightarrow> u32 list \<Rightarrow> bool" where
  "queue_ok s e q \<longleftrightarrow> chain (ms_next s e) (list_end (ms_size s)) (queue_head s ! e) q \<and> distinct q \<and>
     (\<forall>i \<in> set q. unat i < ms_size s) \<and>
     (\<forall>i < ms_size s. ms_next s e i \<noteq> ms_invalid (ms_size s) \<longleftrightarrow> of_nat i \<in> set q)"

text \<open>The store holds the metrics \<open>V\<close>, by index and epoch, and the queues \<open>Q\<close>, by epoch.\<close>

definition ms_rep :: "'m metric_store \<Rightarrow> (nat \<Rightarrow> nat \<Rightarrow> 'm) \<Rightarrow> (nat \<Rightarrow> u32 list) \<Rightarrow> bool" where
  "ms_rep s V Q \<longleftrightarrow> ms_shape s \<and> (\<forall>e < ms_n s. queue_ok s e (Q e)) \<and>
     (\<forall>i < ms_size s. \<forall>e < ms_n s. V i e = metric_at (i, e) s)"

definition ms_same :: "'m metric_store \<Rightarrow> 'm metric_store \<Rightarrow> bool" where
  "ms_same s s' \<longleftrightarrow> ms_size s' = ms_size s \<and> ms_epochs s' = ms_epochs s \<and> current_queue s' = current_queue s \<and>
     ms_metric0 s' = ms_metric0 s \<and> t_to_timeslot s' = t_to_timeslot s"

lemma index_range:
  assumes "size_ok sz" "i < sz"
  shows "unat (of_nat i :: u32) = i"
proof -
  have "i < 2 ^ 32" using assms by (simp add: size_ok_def)
  then show ?thesis by (simp add: unat_of_nat)
qed

lemma list_end_range:
  assumes "size_ok sz"
  shows "sz \<le> unat (list_end sz)" "unat (list_end sz) < unat (ms_invalid sz)"
proof -
  have "unat (- 1 - 1 :: u32) = 2 ^ 32 - 2" "unat (- 1 :: u32) = 2 ^ 32 - 1" "unat (0xffff - 1 :: u32) = 65534"
    by (simp_all add: unsigned_minus_1_eq_mask mask_eq_exp_minus_1)
  then show "sz \<le> unat (list_end sz)" "unat (list_end sz) < unat (ms_invalid sz)"
    using assms by (auto simp: list_end_def ms_invalid_def size_ok_def)
qed

lemma ms_index_id:
  assumes "size_ok sz" "unat i < sz"
  shows "ms_index sz i = i"
proof (cases "sz \<ge> 2 ^ 16 - 2")
  case False
  then have "unat i < 2 ^ 16" using assms by simp
  then have "take_bit 16 i = i" by (intro word_unat_eq_iff [THEN iffD2]) (simp add: unsigned_take_bit_eq take_bit_nat_eq_self)
  moreover have "(0xffff :: u32) = mask 16" by (simp add: mask_eq_exp_minus_1)
  ultimately show ?thesis using False by (simp add: ms_index_def ms_invalid_def take_bit_eq_mask)
qed (simp add: ms_index_def ms_invalid_def)

lemma index_distinct:
  assumes "size_ok sz" "unat i < sz"
  shows "i \<noteq> list_end sz" "i \<noteq> ms_invalid sz"
  using list_end_range [OF assms(1)] assms(2) by auto

lemma element0_cong [simp]:
  "element0 (s\<lparr>arr := a\<rparr>) = element0 s" "element0 (s\<lparr>queue_head := h\<rparr>) = element0 s"
  "element0 (s\<lparr>current_timeslot := c\<rparr>) = element0 s" "element0 (s\<lparr>current_queue := q\<rparr>) = element0 s"
  by (simp_all add: element0_def)

lemma elem_at_cong [simp]:
  "elem_at i (s\<lparr>queue_head := h\<rparr>) = elem_at i s" "elem_at i (s\<lparr>current_timeslot := c\<rparr>) = elem_at i s"
  "elem_at i (s\<lparr>current_queue := q\<rparr>) = elem_at i s"
  by (simp_all add: elem_at_def)

lemma elem_assign_sel [simp]:
  "queue_head (elem_assign i x s) = queue_head s" "ms_size (elem_assign i x s) = ms_size s"
  "ms_epochs (elem_assign i x s) = ms_epochs s" "current_queue (elem_assign i x s) = current_queue s"
  "ms_metric0 (elem_assign i x s) = ms_metric0 s" "t_to_timeslot (elem_assign i x s) = t_to_timeslot s"
  "current_timeslot (elem_assign i x s) = current_timeslot s"
  by (simp_all add: elem_assign_def)

lemma elem_at_assign:
  assumes "ms_shape s" "i < ms_size s" "j < ms_size s"
  shows "elem_at j (elem_assign i x s) = (if j = i then x else elem_at j s)"
  using assms la_at_assign [of "arr s" "ms_size s" i j] by (simp add: elem_at_def elem_assign_def ms_shape_def)

lemma chain_cong: "(\<And>i. i \<in> set q \<Longrightarrow> nxt (unat i) = nxt' (unat i)) \<Longrightarrow> chain nxt e h q = chain nxt' e h q"
  by (induction q arbitrary: h) simp_all

lemma queue_ok_cong:
  assumes "queue_ok s e q" "ms_size s' = ms_size s" "queue_head s' ! e = queue_head s ! e"
    and "\<And>i. i < ms_size s \<Longrightarrow> ms_next s' e i = ms_next s e i"
  shows "queue_ok s' e q"
  using assms chain_cong [of q "ms_next s' e" "ms_next s e"] by (auto simp: queue_ok_def)

text \<open>Replacing the element of one index, all its links but those of the epochs in \<open>E\<close> kept.\<close>

lemma elem_assign_rep:
  assumes rep: "ms_rep s V Q" and i: "i < ms_size s" and len: "length (el_m x) = ms_n s" "length (el_next x) = ms_n s"
    and keep: "\<And>e. e < ms_n s \<Longrightarrow> el_next x ! e = ms_next s e i"
  shows "ms_rep (elem_assign i x s) (V(i := (\<lambda>e. el_m x ! e))) Q \<and> ms_same s (elem_assign i x s)"
proof -
  let ?s = "elem_assign i x s"
  have sh: "ms_shape s" using rep by (simp add: ms_rep_def)
  have at: "elem_at j ?s = (if j = i then x else elem_at j s)" if "j < ms_size s" for j
    by (rule elem_at_assign [OF sh i that])
  have la: "la_ok (arr ?s) (ms_size s)" using sh i by (simp add: elem_assign_def la_assign_ok ms_shape_def)
  have n: "ms_n ?s = ms_n s" by (simp add: ms_n_def)
  have shape: "ms_shape ?s" using sh la len by (simp add: ms_shape_def at n)
  have "queue_ok ?s e (Q e)" if "e < ms_n s" for e
    by (rule queue_ok_cong [of s]) (use rep that keep [OF that] in \<open>simp_all add: ms_rep_def ms_next_def at\<close>)
  then show ?thesis using shape rep by (simp add: ms_rep_def ms_same_def n metric_at_def at)
qed

lemma ms_rep_cong:
  "ms_rep s V Q \<Longrightarrow> (\<And>i e. i < ms_size s \<Longrightarrow> e < ms_n s \<Longrightarrow> V' i e = V i e) \<Longrightarrow> ms_rep s V' Q"
  by (simp add: ms_rep_def)

lemma metric_assign_rep:
  assumes "ms_rep s V Q" and "i < ms_size s" and "e < ms_n s"
  shows "ms_rep (metric_assign (i, e) m s) (V(i := (V i)(e := m))) Q" "ms_same s (metric_assign (i, e) m s)"
proof -
  let ?x = "(elem_at i s)\<lparr>el_m := (el_m (elem_at i s))[e := m]\<rparr>"
  have len: "length (el_m (elem_at i s)) = ms_n s" "length (el_next (elem_at i s)) = ms_n s"
    using assms by (simp_all add: ms_rep_def ms_shape_def)
  have V: "V i e' = el_m (elem_at i s) ! e'" if "e' < ms_n s" for e'
    using assms that by (simp add: ms_rep_def metric_at_def)
  have *: "ms_rep (elem_assign i ?x s) (V(i := (\<lambda>e'. el_m ?x ! e'))) Q \<and> ms_same s (elem_assign i ?x s)"
    using len by (intro elem_assign_rep [OF assms(1,2)]) (simp_all add: ms_next_def)
  then show "ms_same s (metric_assign (i, e) m s)" by (simp add: metric_assign_def Let_def)
  show "ms_rep (metric_assign (i, e) m s) (V(i := (V i)(e := m))) Q"
    unfolding metric_assign_def Let_def fst_conv snd_conv
    using len(1) assms(3) V by (intro ms_rep_cong [OF * [THEN conjunct1]]) (simp add: ms_n_def nth_list_update)
qed

lemma metric_at_rep: "ms_rep s V Q \<Longrightarrow> i < ms_size s \<Longrightarrow> e < ms_n s \<Longrightarrow> metric_at (i, e) s = V i e"
  by (simp add: ms_rep_def)

lemma ref_rep:
  assumes rep: "ms_rep s V Q" and i: "i < ms_size s"
  shows "ms_rep (s\<lparr>arr := la_ref (element0 s) i (arr s)\<rparr>) V Q"
proof -
  let ?s = "s\<lparr>arr := la_ref (element0 s) i (arr s)\<rparr>"
  have sh: "ms_shape s" using rep by (simp add: ms_rep_def)
  then have ok: "la_ok (arr s) (ms_size s)" by (simp add: ms_shape_def)
  have at: "elem_at j ?s = elem_at j s" if "j < ms_size s" for j
    using la_at_ref [OF ok i that] by (simp add: elem_at_def)
  have n: "ms_n ?s = ms_n s" by (simp add: ms_n_def)
  have shape: "ms_shape ?s" using sh la_ref_ok [OF ok i] by (simp add: ms_shape_def n at)
  have "queue_ok ?s e (Q e)" if "e < ms_n s" for e
    by (rule queue_ok_cong [of s]) (use rep that in \<open>simp_all add: ms_rep_def ms_next_def at\<close>)
  then show ?thesis using shape rep by (simp add: ms_rep_def n metric_at_def at)
qed

text \<open>Putting an index at the front of the queue of an epoch, and taking it off.\<close>

lemma enqueue_rep:
  assumes rep: "ms_rep s V Q" and i: "unat i < ms_size s" and e: "e < ms_n s" and new: "i \<notin> set (Q e)"
    and s': "s' = (elem_assign (unat i) ((elem_at (unat i) s)\<lparr>el_next := (el_next (elem_at (unat i) s))[e := queue_head s ! e]\<rparr>) s)
      \<lparr>queue_head := (queue_head s)[e := i]\<rparr>"
  shows "ms_rep s' V (Q(e := i # Q e))"
proof -
  have sh: "ms_shape s" using rep by (simp add: ms_rep_def)
  have len: "length (el_next (elem_at (unat i) s)) = ms_n s" "length (queue_head s) = ms_n s"
    and sz: "size_ok (ms_size s)" using sh i by (simp_all add: ms_shape_def)
  have at: "elem_at j s' = (if j = unat i then (elem_at j s)\<lparr>el_next := (el_next (elem_at j s))[e := queue_head s ! e]\<rparr>
      else elem_at j s)" if "j < ms_size s" for j using elem_at_assign [OF sh i that] by (simp add: s')
  have nx: "ms_next s' e' j = (if j = unat i \<and> e' = e then queue_head s ! e else ms_next s e' j)"
    if "j < ms_size s" "e' < ms_n s" for j e' using at [OF that(1)] that len by (auto simp: ms_next_def)
  have sel: "ms_size s' = ms_size s" "ms_n s' = ms_n s" "ms_epochs s' = ms_epochs s" "current_queue s' = current_queue s"
    "queue_head s' = (queue_head s)[e := i]" by (simp_all add: s' ms_n_def)
  have "la_ok (arr s') (ms_size s)" using sh i by (simp add: s' elem_assign_def la_assign_ok ms_shape_def)
  then have shape: "ms_shape s'" using sh by (simp add: ms_shape_def sel at)
  have old: "queue_ok s e (Q e)" using rep e by (simp add: ms_rep_def)
  have head: "queue_head s ! e \<noteq> ms_invalid (ms_size s)"
    using old index_distinct [OF sz] list_end_range [OF sz] by (cases "Q e") (auto simp: queue_ok_def)
  have "ms_next s' e (unat j) = ms_next s e (unat j)" if "j \<in> set (Q e)" for j
  proof -
    have "unat j \<noteq> unat i" using that new by (auto simp: word_unat_eq_iff [symmetric])
    then show ?thesis using nx [of "unat j" e] e old that by (simp add: queue_ok_def)
  qed
  then have "chain (ms_next s' e) (list_end (ms_size s)) (queue_head s ! e) (Q e)"
    using old chain_cong [of "Q e" "ms_next s' e" "ms_next s e"] by (simp add: queue_ok_def)
  moreover have "of_nat j = i \<longleftrightarrow> j = unat i" if "j < ms_size s" for j using index_range [OF sz that] by auto
  ultimately have "queue_ok s' e (i # Q e)" using old nx e new i head len(2)
    by (simp add: queue_ok_def sel)
  moreover have "queue_ok s' e' (Q e')" if "e' < ms_n s" "e' \<noteq> e" for e'
    by (rule queue_ok_cong [of s]) (use rep that nx in \<open>simp_all add: ms_rep_def sel\<close>)
  ultimately show ?thesis using shape rep by (simp add: ms_rep_def metric_at_def sel at)
qed

lemma pop_rep:
  assumes rep: "ms_rep s V Q" and e: "e < ms_n s" and q: "Q e = i # is"
  shows "\<exists>s'. queue_pop e s = Some s' \<and> ms_rep s' V (Q(e := is)) \<and> ms_same s s' \<and> current_timeslot s' = current_timeslot s"
proof -
  have sh: "ms_shape s" using rep by (simp add: ms_rep_def)
  have old: "queue_ok s e (i # is)" using rep e q by (simp add: ms_rep_def flip: q)
  then have i: "unat i < ms_size s" "queue_head s ! e = i" by (simp_all add: queue_ok_def)
  have len: "length (el_next (elem_at (unat i) s)) = ms_n s" "length (queue_head s) = ms_n s"
    and sz: "size_ok (ms_size s)" using sh i by (simp_all add: ms_shape_def)
  let ?x = "(elem_at (unat i) s)\<lparr>el_next := (el_next (elem_at (unat i) s))[e := ms_invalid (ms_size s)]\<rparr>"
  define s' where "s' = (elem_assign (unat i) ?x s)\<lparr>queue_head := (queue_head s)[e := ms_next s e (unat i)]\<rparr>"
  have pop: "queue_pop e s = Some s'"
    using i index_distinct(1) [OF sz i(1)] by (simp add: queue_pop_def queue_empty_def Let_def s'_def ms_next_def)
  have at: "elem_at j s' = (if j = unat i then ?x else elem_at j s)" if "j < ms_size s" for j
    using elem_at_assign [OF sh i(1) that] by (simp add: s'_def)
  have nx: "ms_next s' e' j = (if j = unat i \<and> e' = e then ms_invalid (ms_size s) else ms_next s e' j)"
    if "j < ms_size s" "e' < ms_n s" for j e' using at [OF that(1)] that len by (auto simp: ms_next_def)
  have sel: "ms_size s' = ms_size s" "ms_n s' = ms_n s" "ms_epochs s' = ms_epochs s" "current_queue s' = current_queue s"
    "queue_head s' = (queue_head s)[e := ms_next s e (unat i)]" by (simp_all add: s'_def ms_n_def)
  have "la_ok (arr s') (ms_size s)" using sh i by (simp add: s'_def elem_assign_def la_assign_ok ms_shape_def)
  then have shape: "ms_shape s'" using sh i by (simp add: ms_shape_def sel at)
  have ne: "unat j \<noteq> unat i" if "j \<in> set is" for j using old that by (auto simp: queue_ok_def word_unat_eq_iff [symmetric])
  have "ms_next s' e (unat j) = ms_next s e (unat j)" if "j \<in> set is" for j
    using nx [of "unat j" e] e old that ne [OF that] by (simp add: queue_ok_def)
  then have "chain (ms_next s' e) (list_end (ms_size s)) (ms_next s e (unat i)) is"
    using old chain_cong [of "is" "ms_next s' e" "ms_next s e"] by (simp add: queue_ok_def)
  moreover have "of_nat j = i \<longleftrightarrow> j = unat i" if "j < ms_size s" for j using index_range [OF sz that] by auto
  moreover have "of_nat (unat i) = i" by simp
  ultimately have "queue_ok s' e is" using old nx e len(2) by (auto simp: queue_ok_def sel)
  moreover have "queue_ok s' e' (Q e')" if "e' < ms_n s" "e' \<noteq> e" for e'
    by (rule queue_ok_cong [of s]) (use rep that nx in \<open>simp_all add: ms_rep_def sel\<close>)
  ultimately have "ms_rep s' V (Q(e := is))" using shape rep by (simp add: ms_rep_def metric_at_def sel at)
  then show ?thesis using pop by (simp add: ms_same_def s'_def)
qed

lemma queue_empty_rep:
  assumes "ms_rep s V Q" "e < ms_n s"
  shows "queue_empty e s \<longleftrightarrow> Q e = []" and "queue_peek e s = (case Q e of [] \<Rightarrow> None | i # is \<Rightarrow> Some i)"
proof -
  have sz: "size_ok (ms_size s)" using assms(1) by (simp add: ms_rep_def ms_shape_def)
  have q: "queue_ok s e (Q e)" using assms by (simp add: ms_rep_def)
  then show 1: "queue_empty e s \<longleftrightarrow> Q e = []"
    using index_distinct(1) [OF sz] by (cases "Q e") (auto simp: queue_ok_def queue_empty_def)
  show "queue_peek e s = (case Q e of [] \<Rightarrow> None | i # is \<Rightarrow> Some i)"
    using q by (cases "Q e") (simp_all add: queue_peek_def 1 queue_ok_def)
qed

text \<open>The epoch that is \<open>b\<close> slots ahead of the current one.\<close>

definition ms_slot :: "'m metric_store \<Rightarrow> nat \<Rightarrow> nat" where
  "ms_slot s b = (b + unat (current_queue s)) mod ms_n s"

lemma ms_epochs_pow:
  assumes "ms_shape s"
  obtains k where "k < 32" "ms_epochs s = 2 ^ k" "ms_n s = 2 ^ k"
  using assms unat_pow2 [where 'a = 32] by (auto simp: ms_shape_def ms_n_def)

lemma epoch_slot:
  assumes "ms_shape s"
  shows "unat ((bin + current_queue s) AND (ms_epochs s - 1)) = ms_slot s (unat bin)"
proof -
  obtain k where k: "k < 32" "ms_epochs s = 2 ^ k" "ms_n s = 2 ^ k" using assms by (rule ms_epochs_pow)
  have "(2 :: nat) ^ k dvd 2 ^ 32" using k(1) by (intro le_imp_power_dvd) simp
  moreover have "ms_epochs s - 1 = mask k" using k by (simp add: mask_eq_decr_exp)
  ultimately show ?thesis using k by (simp add: unat_and_mask ms_slot_def unat_word_ariths mod_mod_cancel)
qed

lemma ms_slot_less: "ms_shape s \<Longrightarrow> ms_slot s b < ms_n s"
  using ms_epochs_pow [of s] by (metis ms_slot_def mod_less_divisor zero_less_numeral zero_less_power)

lemma lookup_relative_rep:
  assumes rep: "ms_rep s V Q" and i: "unat i < ms_size s" and b: "bin < ms_epochs s"
    and e: "e = ms_slot s (unat bin)"
  shows "\<exists>s'. lookup_relative i bin enq s = Some ((i \<in> set (Q e), (unat i, e)), s') \<and>
    ms_rep s' V (if enq \<and> i \<notin> set (Q e) then Q(e := i # Q e) else Q) \<and> ms_same s s' \<and> current_timeslot s' = current_timeslot s"
proof -
  let ?s = "s\<lparr>arr := la_ref (element0 s) (unat i) (arr s)\<rparr>"
  have sh: "ms_shape s" using rep by (simp add: ms_rep_def)
  have sz: "size_ok (ms_size s)" and ok: "la_ok (arr s) (ms_size s)" using sh by (simp_all add: ms_shape_def)
  have el: "e < ms_n s" using ms_slot_less [OF sh] e by simp
  have r: "ms_rep ?s V Q" by (rule ref_rep [OF rep i])
  have at: "elem_at (unat i) ?s = elem_at (unat i) s"
    using la_at_ref [OF ok i i] by (simp add: elem_at_def)
  have "of_nat (unat i) = i" by simp
  then have was: "el_next (elem_at (unat i) s) ! e \<noteq> ms_invalid (ms_size s) \<longleftrightarrow> i \<in> set (Q e)"
    using rep el i by (auto simp: ms_rep_def queue_ok_def ms_next_def)
  note enqd = enqueue_rep [OF r _ _ _ refl, of i e]
  show ?thesis
  proof (cases "enq \<and> i \<notin> set (Q e)")
    case True
    then show ?thesis using i b el enqd was
      by (simp add: lookup_relative_def epoch_slot [OF sh] e [symmetric] Let_def ms_index_id [OF sz i] at ms_same_def ms_n_def)
  next
    case False
    then show ?thesis using i b r was
      by (auto simp: lookup_relative_def epoch_slot [OF sh] e [symmetric] Let_def ms_same_def)
  qed
qed

lemma ms_same_slot: "ms_same s s' \<Longrightarrow> ms_slot s' b = ms_slot s b \<and> ms_n s' = ms_n s \<and> ms_size s' = ms_size s"
  by (simp add: ms_same_def ms_slot_def ms_n_def)

lemma ms_same_trans: "ms_same s t \<Longrightarrow> ms_same t u \<Longrightarrow> ms_same s u"
  by (simp add: ms_same_def)

lemma ms_next_cong [simp]:
  "ms_next (s\<lparr>current_timeslot := c\<rparr>) = ms_next s" "ms_next (s\<lparr>current_queue := q\<rparr>) = ms_next s"
  by (simp_all add: fun_eq_iff ms_next_def)

lemma rep_timeslot: "ms_rep (s\<lparr>current_timeslot := c\<rparr>) V Q = ms_rep s V Q"
  by (simp add: ms_rep_def ms_shape_def queue_ok_def ms_n_def metric_at_def)

text \<open>A lookup by time: the slot is the distance from the current slot, clamped to the slots kept.\<close>

definition bin_of :: "'m metric_store \<Rightarrow> u64 \<Rightarrow> nat" where
  "bin_of s t = unat (histogram_bin (ms_epochs s) (scast (fst (relative_timeslot t s))))"

lemma ms_lookup_rep:
  assumes rep: "ms_rep s V Q" and i: "unat i < ms_size s" and e: "e = ms_slot s (bin_of s t)"
  shows "\<exists>s'. ms_lookup i t enq s = Some ((i \<in> set (Q e), (unat i, e)), s') \<and>
    ms_rep s' V (if enq \<and> i \<notin> set (Q e) then Q(e := i # Q e) else Q) \<and> ms_same s s' \<and> e < ms_n s"
proof -
  obtain rel s1 where r: "relative_timeslot t s = (rel, s1)" by (cases "relative_timeslot t s")
  then obtain c where s1: "s1 = s\<lparr>current_timeslot := c\<rparr>" by (auto simp: relative_timeslot_def Let_def)
  let ?b = "histogram_bin (ms_epochs s) (scast rel)"
  have sh: "ms_shape s" using rep by (simp add: ms_rep_def)
  obtain k where "k < 32" "ms_epochs s = 2 ^ k" using sh by (rule ms_epochs_pow)
  then have b: "?b < ms_epochs s1" using bin_bound by (simp add: s1)
  have "e = ms_slot s1 (unat ?b)" "unat i < ms_size s1" "ms_rep s1 V Q"
    using e i rep by (simp_all add: bin_of_def r s1 ms_slot_def ms_n_def rep_timeslot)
  with lookup_relative_rep [OF this(3,2) b this(1), of enq] show ?thesis using ms_slot_less [OF sh, of "bin_of s t"] e
    by (auto simp: ms_lookup_def r ms_same_def s1)
qed

lemma advance_rep:
  assumes "ms_rep s V Q"
  shows "ms_rep (ms_advance s) V Q" and "ms_slot (ms_advance s) b = ms_slot s (Suc b)"
proof -
  have sh: "ms_shape s" using assms by (simp add: ms_rep_def)
  obtain k where k: "k < 32" "ms_epochs s = 2 ^ k" "ms_n s = 2 ^ k" using sh by (rule ms_epochs_pow)
  have n: "ms_n (ms_advance s) = ms_n s" by (simp add: ms_advance_def ms_n_def)
  have c: "unat (current_queue (ms_advance s)) = ms_slot s 1"
    using epoch_slot [OF sh, of 1] by (simp add: ms_advance_def add.commute)
  then have "current_queue (ms_advance s) < ms_epochs s"
    using ms_slot_less [OF sh, of 1] by (simp add: word_less_nat_alt ms_n_def)
  then show "ms_rep (ms_advance s) V Q" using assms
    by (simp add: ms_rep_def ms_shape_def queue_ok_def ms_n_def metric_at_def ms_advance_def)
  show "ms_slot (ms_advance s) b = ms_slot s (Suc b)"
    by (simp add: ms_slot_def c n mod_add_right_eq)
qed

lemma metric_store_new_rep:
  assumes "size_ok sz" "n = 2 ^ k" "k < 32"
  shows "ms_rep (metric_store_new sz n m0 d mem) (\<lambda>i e. m0) (\<lambda>e. [])"
proof -
  let ?s = "metric_store_new sz n m0 d mem"
  have sel: "ms_size ?s = sz" "ms_epochs ?s = n" "current_queue ?s = 0" "queue_head ?s = replicate (unat n) (list_end sz)"
    "arr ?s = la_new sz mem" "ms_n ?s = unat n" by (simp_all add: metric_store_new_def ms_n_def)
  have "unat n = 2 ^ k" using assms(2,3) by (simp add: unat_pow2)
  then have pos: "0 < n" by (simp add: word_less_nat_alt)
  have at: "elem_at i ?s = \<lparr>el_m = replicate (unat n) m0, el_next = replicate (unat n) (ms_invalid sz)\<rparr>" if "i < sz" for i
    using la_at_new [OF assms(1) that] by (simp add: elem_at_def sel) (simp add: element0_def metric_store_new_def)
  have "\<exists>k < 32. n = 2 ^ k" using assms(2,3) by blast
  then have "ms_shape ?s" using assms(1) pos la_new_ok [OF assms(1)] by (simp add: ms_shape_def sel at)
  then show ?thesis by (simp add: ms_rep_def queue_ok_def sel ms_next_def metric_at_def at)
qed

section \<open>Draining a queue\<close>

fun drain_list :: "(u32 \<Rightarrow> 'm \<Rightarrow> 'c \<Rightarrow> ('m \<times> 'c) option) \<Rightarrow> nat \<Rightarrow> u32 list \<Rightarrow> (nat \<Rightarrow> nat \<Rightarrow> 'm) \<Rightarrow> 'c \<Rightarrow>
    ((nat \<Rightarrow> nat \<Rightarrow> 'm) \<times> 'c) option" where
  "drain_list body e [] V c = Some (V, c)"
| "drain_list body e (i # is) V c =
     Option.bind (body i (V (unat i) e) c) (\<lambda>mc. drain_list body e is (V(unat i := (V (unat i))(e := fst mc))) (snd mc))"

text \<open>The loop ends and visits the indices of the queue in order.\<close>

lemma drain_queue_rep:
  assumes "ms_rep s V Q" and "e = ms_slot s 0"
  shows "case drain_list body e (Q e) V c of
      None \<Rightarrow> drain_queue body s c = None
    | Some (V', c') \<Rightarrow> \<exists>s'. drain_queue body s c = Some (s', c') \<and> ms_rep s' V' (Q(e := [])) \<and> ms_same s s' \<and>
        current_timeslot s' = current_timeslot s"
  using assms
proof (induction "Q e" arbitrary: s V Q c)
  case Nil
  have e: "e = unat (current_queue s)" "e < ms_n s"
    using Nil.prems ms_slot_less [of s 0] by (auto simp: ms_rep_def ms_slot_def ms_shape_def ms_n_def word_less_nat_alt)
  have "queue_empty e s" using queue_empty_rep(1) [OF Nil.prems(1) e(2)] Nil.hyps by simp
  then have "drain_queue body s c = Some (s, c)" by (subst drain_queue.simps) (simp flip: e(1))
  moreover have "Q(e := []) = Q" using Nil.hyps by auto
  ultimately show ?case using Nil.prems(1) by (simp add: Nil.hyps [symmetric] ms_same_def)
next
  case (Cons i "is")
  note q = Cons.hyps(2) [symmetric] and rep = Cons.prems(1)
  have sh: "ms_shape s" using rep by (simp add: ms_rep_def)
  have e: "e = unat (current_queue s)" "e < ms_n s"
    using Cons.prems(2) ms_slot_less [OF sh, of 0] sh by (auto simp: ms_slot_def ms_shape_def ms_n_def word_less_nat_alt)
  have i: "unat i < ms_size s" using rep e(2) q by (auto simp: ms_rep_def queue_ok_def)
  have b0: "(0 :: u32) < ms_epochs s" using sh by (auto simp: ms_shape_def intro: le_less_trans [of _ "current_queue s"])
  obtain s1 where s1: "lookup_relative i 0 False s = Some ((True, (unat i, e)), s1)" "ms_rep s1 V Q" "ms_same s s1"
    "current_timeslot s1 = current_timeslot s"
    using lookup_relative_rep [OF rep i b0 refl, of False] Cons.prems(2) q by auto
  have m: "metric_at (unat i, e) s1 = V (unat i) e"
    using metric_at_rep [OF s1(2), of "unat i" e] i e(2) ms_same_slot [OF s1(3)] by simp
  have unfold: "drain_queue body s c = Option.bind (body i (V (unat i) e) c) (\<lambda>mc.
      Option.bind (queue_pop e (metric_assign (unat i, e) (fst mc) s1)) (\<lambda>s'. drain_queue body s' (snd mc)))"
    using queue_empty_rep [OF rep e(2)] q s1(1) m by (subst drain_queue.simps) (simp flip: e(1))
  show ?case
  proof (cases "body i (V (unat i) e) c")
    case None
    then show ?thesis by (simp add: q unfold)
  next
    case (Some mc)
    let ?V = "V(unat i := (V (unat i))(e := fst mc))" and ?s2 = "metric_assign (unat i, e) (fst mc) s1"
    have s2: "ms_rep ?s2 ?V Q" "ms_same s1 ?s2" "current_timeslot ?s2 = current_timeslot s1"
      using metric_assign_rep [OF s1(2), of "unat i" e] i e(2) ms_same_slot [OF s1(3)]
      by (simp_all) (simp add: metric_assign_def Let_def)
    have "e < ms_n ?s2" using e(2) ms_same_slot [OF s1(3)] ms_same_slot [OF s2(2)] by simp
    then obtain s3 where s3: "queue_pop e ?s2 = Some s3" "ms_rep s3 ?V (Q(e := is))" "ms_same ?s2 s3"
      "current_timeslot s3 = current_timeslot ?s2" using pop_rep [OF s2(1) _ q] by blast
    have same: "ms_same s s3" using ms_same_trans [OF ms_same_trans [OF s1(3) s2(2)] s3(3)] .
    have dl: "drain_list body e (Q e) V c = drain_list body e is ?V (snd mc)" by (simp add: q Some)
    have dq: "drain_queue body s c = drain_queue body s3 (snd mc)" by (simp add: unfold Some s3(1))
    have e3: "e = ms_slot s3 0" using ms_same_slot [OF same, of 0] Cons.prems(2) by simp
    have "is = (Q(e := is)) e" by simp
    from Cons.hyps(1) [OF this s3(2) e3, of "snd mc"] show ?thesis
      unfolding dl dq s3(4) s2(3) s1(4) using ms_same_trans [OF same] by (simp split: option.splits prod.splits) blast
  qed
qed

end
