(* ===== verification/Buffered_Poller.thy ===== *)
theory Buffered_Poller
  imports Fixed_Hash Metric_Store Dns_Parse Dns_Requests Nat_Handler
begin

text \<open>
  The user-space side of the collector, \<^verbatim>\<open>src/collector/kernel/buffered_poller.{h,cc}\<close> with the entries of
  \<^verbatim>\<open>src/collector/kernel/socket_table.h\<close>: it reads the messages of the BPF programs, keeps a table of the
  TCP and one of the UDP sockets, accumulates their statistics in metric stores, follows DNS requests, and
  writes the messages for the server.

  Messages come as the events of the BPF programs (the type \<^typ>\<open>bpf_event\<close> of \<^verbatim>\<open>Bpf_Env\<close>), messages to the
  server are the type \<open>ingest\<close>; \<open>p_writer\<close> is what the handlers modelled here have written, except for the
  NAT remappings, which the NAT handler keeps.  \<open>p_errors\<close> and \<open>p_warnings\<close> are the lines logged at these levels.
  \<^const>\<open>None\<close> is a failed assertion, a null pointer or an index out of range, or a thrown \<^verbatim>\<open>std::runtime_error\<close>.

  The handlers of processes, control groups, captured TCP data, BPF log lines and stack traces, which hand
  their messages to components of their own, leave the state modelled here unchanged.  The hashing of
  message types to handlers, the checks of message lengths, the merging of the perf rings by time, the
  dump file, the debugging switch that simulates a loss and the final flush of the writer are left out: the
  poller is given a list of records in the order in which it reads them.
\<close>

section \<open>Socket tables\<close>

record tcp_statistics =
  ts_bytes_acked :: u64
  ts_delivered :: u32
  ts_retrans :: u32
  ts_max_srtt :: u32
  ts_rcv_holes :: u32
  ts_bytes_received :: u64
  ts_rcv_delivered :: u32
  ts_max_rcv_rtt :: u32
  ts_valid :: bool

record tcp_socket_entry =
  te_bytes_acked :: u64
  te_packets_delivered :: u32
  te_packets_retrans :: u32
  te_bytes_received :: u64
  te_rcv_holes :: u32
  te_rcv_delivered :: u32

record udp_statistics =
  us_valid :: bool
  us_packets :: u32
  us_bytes :: u64
  us_drops :: u32

record udp_remote_endpoint =
  ue_addr :: in6_addr
  ue_port :: u16
  ue_changed_af :: u8

record udp_socket_entry =
  un_laddr :: in6_addr
  un_lport :: u16
  un_reported :: bool
  un_pid :: u32
  un_sk :: u64
  un_addrs :: "udp_remote_endpoint list"

definition tcp_statistics0 :: tcp_statistics where
  "tcp_statistics0 = \<lparr>ts_bytes_acked = 0, ts_delivered = 0, ts_retrans = 0, ts_max_srtt = 0, ts_rcv_holes = 0,
     ts_bytes_received = 0, ts_rcv_delivered = 0, ts_max_rcv_rtt = 0, ts_valid = False\<rparr>"

definition tcp_socket_entry0 :: tcp_socket_entry where
  "tcp_socket_entry0 = \<lparr>te_bytes_acked = 0, te_packets_delivered = 0, te_packets_retrans = 0, te_bytes_received = 0,
     te_rcv_holes = 0, te_rcv_delivered = 0\<rparr>"

definition udp_statistics0 :: udp_statistics where
  "udp_statistics0 = \<lparr>us_valid = False, us_packets = 0, us_bytes = 0, us_drops = 0\<rparr>"

definition udp_remote_endpoint0 :: udp_remote_endpoint where
  "udp_remote_endpoint0 = \<lparr>ue_addr = In6 0 0 0 0, ue_port = 0, ue_changed_af = 0\<rparr>"

definition udp_socket_entry0 :: udp_socket_entry where
  "udp_socket_entry0 = \<lparr>un_laddr = In6 0 0 0 0, un_lport = 0, un_reported = False, un_pid = 0, un_sk = 0,
     un_addrs = [udp_remote_endpoint0, udp_remote_endpoint0]\<rparr>"

section \<open>State\<close>

datatype (plugins only: code) ingest =
  In_new_sock_info u64 u32 u64
| In_set_state_ipv4 u64 u32 u32 u16 u16 u64 u32
| In_set_state_ipv6 u64 in6_addr in6_addr u16 u16 u64 u32
| In_close_sock_info u64 u64
| In_socket_stats u64 u64 u64 u32 u32 u32 u8
| In_syn_timeout u64 u64
| In_tcp_reset u64 u64 u8
| In_http_response u64 u64 u32 u16 u64 u8
| In_udp_new_socket u64 u32 u32 in6_addr u16
| In_udp_destroy_socket u64 u32
| In_udp_stats_addr_changed_v4 u64 u32 u8 u32 u32 u32 u16
| In_udp_stats_addr_changed_v6 u64 u32 u8 u32 u32 in6_addr u16
| In_udp_stats_addr_unchanged u64 u32 u8 u32 u32
| In_udp_stats_drops_changed u64 u32 u32
| In_dns_response u64 u32 u16 "u8 list" "u8 list" "u8 list" u64 u8
| In_dns_timeout u64 u32 u16 "u8 list" u64
| In_bpf_lost_samples u64

text \<open>The code outside the repository that the poller uses, the hash maps and the field macros of c-ares, and
  the contents of the uninitialised buffers on the stack of \<^verbatim>\<open>handle_dns_message\<close> and its callees.\<close>

record ('m, 'n, 'c, 's, 'r) poller_env =
  pe_hash :: "('m, u64) hash_ops"
  pe_nat :: "('n, 'c, 's, 'r) nat_maps"
  pe_dns :: ares_dns
  pe_hostname :: "u8 list"
  pe_rr_name :: "u8 list"
  pe_rr_data :: "u8 list"
  pe_ipv4 :: "u8 list list"
  pe_ipv6 :: "u8 list list"

record ('m, 'n, 'c, 's, 'r) poller =
  tcp_table :: "('m, tcp_socket_entry) fixed_hash"
  tcp_table_ever_full :: bool
  tcp_stats :: "tcp_statistics metric_store"
  tcp_index_to_sk :: "u64 list"
  udp_table :: "('m, udp_socket_entry) fixed_hash"
  udp_table_ever_full :: bool
  udp_stats :: "udp_statistics metric_store list"
  p_dns :: dns_requests
  p_nat :: "('n, 'c, 's, 'r) nat_handler"
  all_probes_loaded :: bool
  lost_count :: u64
  notified_lost_count :: u64
  restart_requested :: bool
  p_writer :: "ingest list"
  p_errors :: "string list"
  p_warnings :: "string list"

definition say :: "ingest list \<Rightarrow> ('m, 'n, 'c, 's, 'r) poller \<Rightarrow> ('m, 'n, 'c, 's, 'r) poller" where
  "say ms p = p\<lparr>p_writer := p_writer p @ ms\<rparr>"

definition log_error :: "string \<Rightarrow> ('m, 'n, 'c, 's, 'r) poller \<Rightarrow> ('m, 'n, 'c, 's, 'r) poller" where
  "log_error x p = p\<lparr>p_errors := p_errors p @ [x]\<rparr>"

definition log_warn :: "string \<Rightarrow> ('m, 'n, 'c, 's, 'r) poller \<Rightarrow> ('m, 'n, 'c, 's, 'r) poller" where
  "log_warn x p = p\<lparr>p_warnings := p_warnings p @ [x]\<rparr>"

text \<open>The error lines that are suppressed once a table has been full or while probes are being loaded.\<close>

definition tcp_missing :: "string \<Rightarrow> ('m, 'n, 'c, 's, 'r) poller \<Rightarrow> ('m, 'n, 'c, 's, 'r) poller" where
  "tcp_missing x p = (if \<not> tcp_table_ever_full p \<and> all_probes_loaded p then log_error x p else p)"

definition udp_missing :: "string \<Rightarrow> ('m, 'n, 'c, 's, 'r) poller \<Rightarrow> ('m, 'n, 'c, 's, 'r) poller" where
  "udp_missing x p = (if \<not> udp_table_ever_full p \<and> all_probes_loaded p then log_error x p else p)"

definition n_epochs :: u32 where
  "n_epochs = 2"

section \<open>TCP\<close>

text \<open>The insertion shared by \<^verbatim>\<open>handle_new_socket\<close> and \<^verbatim>\<open>handle_reset_tcp_counters\<close>, from the test for a full
  table to the store into \<^verbatim>\<open>tcp_index_to_sk_\<close>; the second component is the index, if one was taken.\<close>

definition tcp_insert ::
    "('m, 'n, 'c, 's, 'r) poller_env \<Rightarrow> string \<Rightarrow> u64 \<Rightarrow> ('m, 'n, 'c, 's, 'r) poller \<Rightarrow>
     (('m, 'n, 'c, 's, 'r) poller \<times> u32 option) option" where
  "tcp_insert E who sk p =
     (if fh_full (tcp_table p)
      then Some (log_warn (who @ '': tcp socket table is full! dropping socket'') (p\<lparr>tcp_table_ever_full := True\<rparr>), None)
      else
        (case fh_insert (pe_hash E) sk (Some tcp_socket_entry0) (tcp_table p) of
           Some (Inr index, tbl) \<Rightarrow>
             (let p1 = p\<lparr>tcp_table := tbl\<rparr> in
              if index \<noteq> fh_invalid tbl
              then (if unat index < length (tcp_index_to_sk p1)
                    then Some (p1\<lparr>tcp_index_to_sk := (tcp_index_to_sk p1)[unat index := sk]\<rparr>, Some index)
                    else None)
              else Some (log_error (who @ '': duplicate tcp socket'') p1, None))
         | _ \<Rightarrow> None))"

definition handle_new_socket ::
    "('m, 'n, 'c, 's, 'r) poller_env \<Rightarrow> u64 \<Rightarrow> u32 \<Rightarrow> u64 \<Rightarrow> ('m, 'n, 'c, 's, 'r) poller \<Rightarrow> ('m, 'n, 'c, 's, 'r) poller option" where
  "handle_new_socket E t pid sk p =
     (case tcp_insert E ''handle_new_socket'' sk p of
        None \<Rightarrow> None
      | Some (p1, None) \<Rightarrow> Some p1
      | Some (p1, Some _) \<Rightarrow> Some (say [In_new_sock_info t pid sk] p1))"

definition handle_reset_tcp_counters ::
    "('m, 'n, 'c, 's, 'r) poller_env \<Rightarrow> u64 \<Rightarrow> u64 \<Rightarrow> u64 \<Rightarrow> u32 \<Rightarrow> u32 \<Rightarrow> u64 \<Rightarrow> u32 \<Rightarrow>
     ('m, 'n, 'c, 's, 'r) poller \<Rightarrow> ('m, 'n, 'c, 's, 'r) poller option" where
  "handle_reset_tcp_counters E t sk acked delivered retrans received pid p =
     (case tcp_insert E ''handle_reset_tcp_counters'' sk (say [In_new_sock_info t pid sk] p) of
        None \<Rightarrow> None
      | Some (p1, None) \<Rightarrow> Some p1
      | Some (p1, Some index) \<Rightarrow>
          (case fh_at index (tcp_table p1) of
             None \<Rightarrow> None
           | Some entry \<Rightarrow>
               map_option (\<lambda>tbl. p1\<lparr>tcp_table := tbl\<rparr>)
                 (fh_assign index (entry\<lparr>te_bytes_acked := acked, te_packets_delivered := delivered,
                    te_packets_retrans := retrans, te_bytes_received := received\<rparr>) (tcp_table p1))))"

definition poller_set_state_ipv4 ::
    "('m, 'n, 'c, 's, 'r) poller_env \<Rightarrow> u64 \<Rightarrow> u32 \<Rightarrow> u32 \<Rightarrow> u16 \<Rightarrow> u16 \<Rightarrow> u64 \<Rightarrow> u32 \<Rightarrow>
     ('m, 'n, 'c, 's, 'r) poller \<Rightarrow> ('m, 'n, 'c, 's, 'r) poller option" where
  "poller_set_state_ipv4 E t dest src dport sport sk tx_rx p =
     (case fh_find (pe_hash E) sk (tcp_table p) of
        None \<Rightarrow> None
      | Some index \<Rightarrow>
          if index = fh_invalid (tcp_table p) then Some (tcp_missing ''handle_set_state_ipv4: socket not tracked'' p)
          else
            map_option (\<lambda>h. (say [In_set_state_ipv4 t dest src dport sport sk tx_rx] p)\<lparr>p_nat := h\<rparr>)
              (nat_set_state_ipv4 (pe_nat E) t dest src dport sport sk (p_nat p)))"

definition poller_set_state_ipv6 ::
    "('m, 'n, 'c, 's, 'r) poller_env \<Rightarrow> u64 \<Rightarrow> in6_addr \<Rightarrow> in6_addr \<Rightarrow> u16 \<Rightarrow> u16 \<Rightarrow> u64 \<Rightarrow> u32 \<Rightarrow>
     ('m, 'n, 'c, 's, 'r) poller \<Rightarrow> ('m, 'n, 'c, 's, 'r) poller option" where
  "poller_set_state_ipv6 E t dest src dport sport sk tx_rx p =
     (case fh_find (pe_hash E) sk (tcp_table p) of
        None \<Rightarrow> None
      | Some index \<Rightarrow>
          if index = fh_invalid (tcp_table p) then Some (tcp_missing ''handle_set_state_ipv6: socket not tracked'' p)
          else
            map_option (\<lambda>h. (say [In_set_state_ipv6 t dest src dport sport sk tx_rx] p)\<lparr>p_nat := h\<rparr>)
              (nat_set_state_ipv6 (pe_nat E) t dest src dport sport sk (p_nat p)))"

text \<open>\<^verbatim>\<open>send_socket_stats\<close>: what it writes, and the statistics afterwards.\<close>

definition socket_stats_messages :: "u64 \<Rightarrow> u64 \<Rightarrow> tcp_statistics \<Rightarrow> ingest list" where
  "socket_stats_messages t sk st =
     (if ts_bytes_acked st > 0 \<or> ts_retrans st > 0
      then [In_socket_stats t sk (ts_bytes_acked st) (ts_delivered st) (ts_retrans st) (ts_max_srtt st) 0] else []) @
     (if ts_bytes_received st > 0 \<or> ts_rcv_holes st > 0
      then [In_socket_stats t sk (ts_bytes_received st) (ts_rcv_delivered st) (ts_rcv_holes st) (ts_max_rcv_rtt st) 1] else [])"

definition send_socket_stats :: "u64 \<Rightarrow> u64 \<Rightarrow> tcp_statistics \<Rightarrow> tcp_statistics \<times> ingest list" where
  "send_socket_stats t sk st = (st\<lparr>ts_valid := False\<rparr>, socket_stats_messages t sk st)"

text \<open>One pass of the loop over the epochs in \<^verbatim>\<open>handle_close_socket\<close>.\<close>

definition close_epoch ::
    "u64 \<Rightarrow> u64 \<Rightarrow> u32 \<Rightarrow> u32 \<Rightarrow> ('m, 'n, 'c, 's, 'r) poller \<Rightarrow> ('m, 'n, 'c, 's, 'r) poller option" where
  "close_epoch t sk index epoch p =
     (case lookup_relative index epoch False (tcp_stats p) of
        None \<Rightarrow> None
      | Some ((_, r), s) \<Rightarrow>
          if ts_valid (metric_at r s)
          then (case send_socket_stats t sk (metric_at r s) of (st, ms) \<Rightarrow>
                  Some (say ms (p\<lparr>tcp_stats := metric_assign r st s\<rparr>)))
          else Some (p\<lparr>tcp_stats := s\<rparr>))"

definition handle_close_socket ::
    "('m, 'n, 'c, 's, 'r) poller_env \<Rightarrow> u64 \<Rightarrow> u64 \<Rightarrow> ('m, 'n, 'c, 's, 'r) poller \<Rightarrow> ('m, 'n, 'c, 's, 'r) poller option" where
  "handle_close_socket E t sk p =
     (case fh_find (pe_hash E) sk (tcp_table p) of
        None \<Rightarrow> None
      | Some index \<Rightarrow>
          if index = fh_invalid (tcp_table p) then Some (tcp_missing ''handle_close_socket: socket not found'' p)
          else
            Option.bind (close_epoch t sk index 0 p) (\<lambda>p0.
            Option.bind (close_epoch t sk index 1 p0) (\<lambda>p1.
            case fh_erase (pe_hash E) sk (tcp_table p1) of
              Some (True, tbl) \<Rightarrow>
                map_option (\<lambda>h. (say [In_close_sock_info t sk] (p1\<lparr>tcp_table := tbl\<rparr>))\<lparr>p_nat := h\<rparr>)
                  (nat_close_socket (pe_nat E) sk (p_nat p1))
            | _ \<Rightarrow> None)))"

text \<open>Differences that are negative when read as signed numbers count as zero.\<close>

definition nonneg :: "'a::len word \<Rightarrow> 'a word" where
  "nonneg x = (if sint x < 0 then 0 else x)"

text \<open>The statistics after a report with the given differences.\<close>

definition add_tcp_stats ::
    "u64 \<Rightarrow> u32 \<Rightarrow> u32 \<Rightarrow> u32 \<Rightarrow> u64 \<Rightarrow> u32 \<Rightarrow> u32 \<Rightarrow> u32 \<Rightarrow> tcp_statistics \<Rightarrow> tcp_statistics" where
  "add_tcp_stats acked delivered retrans srtt received holes rdelivered rcv_rtt st =
     (if \<not> ts_valid st
      then st\<lparr>ts_bytes_acked := acked, ts_delivered := delivered, ts_retrans := retrans, ts_max_srtt := srtt,
              ts_bytes_received := received, ts_rcv_holes := holes, ts_rcv_delivered := rdelivered,
              ts_max_rcv_rtt := rcv_rtt, ts_valid := True\<rparr>
      else st\<lparr>ts_bytes_acked := ts_bytes_acked st + acked, ts_delivered := ts_delivered st + delivered,
              ts_retrans := ts_retrans st + retrans, ts_max_srtt := max (ts_max_srtt st) srtt,
              ts_bytes_received := ts_bytes_received st + received, ts_rcv_holes := ts_rcv_holes st + holes,
              ts_rcv_delivered := ts_rcv_delivered st + rdelivered, ts_max_rcv_rtt := max (ts_max_rcv_rtt st) rcv_rtt\<rparr>)"

definition handle_rtt_estimator ::
    "('m, 'n, 'c, 's, 'r) poller_env \<Rightarrow> u64 \<Rightarrow> u32 \<Rightarrow> u64 \<Rightarrow> u64 \<Rightarrow> u32 \<Rightarrow> u32 \<Rightarrow> u32 \<Rightarrow> u64 \<Rightarrow> u32 \<Rightarrow> u32 \<Rightarrow>
     ('m, 'n, 'c, 's, 'r) poller \<Rightarrow> ('m, 'n, 'c, 's, 'r) poller option" where
  "handle_rtt_estimator E t srtt acked sk delivered retrans holes received rdelivered rcv_rtt p =
     (case fh_find (pe_hash E) sk (tcp_table p) of
        None \<Rightarrow> None
      | Some index \<Rightarrow>
          if index = fh_invalid (tcp_table p) then Some p
          else
            (case fh_at index (tcp_table p) of
               None \<Rightarrow> None
             | Some entry \<Rightarrow>
                 Option.bind
                   (fh_assign index (entry\<lparr>te_bytes_acked := acked, te_packets_delivered := delivered,
                      te_packets_retrans := retrans, te_bytes_received := received, te_rcv_holes := holes,
                      te_rcv_delivered := rdelivered\<rparr>) (tcp_table p)) (\<lambda>tbl.
                 case ms_lookup index t True (tcp_stats p) of
                   None \<Rightarrow> None
                 | Some ((_, r), s) \<Rightarrow>
                     Some (p\<lparr>tcp_table := tbl,
                       tcp_stats := metric_assign r
                         (add_tcp_stats (nonneg (acked - te_bytes_acked entry)) (nonneg (delivered - te_packets_delivered entry))
                            (nonneg (retrans - te_packets_retrans entry)) srtt
                            (nonneg (received - te_bytes_received entry)) (nonneg (holes - te_rcv_holes entry))
                            (nonneg (rdelivered - te_rcv_delivered entry)) rcv_rtt (metric_at r s)) s\<rparr>))))"

text \<open>\<^verbatim>\<open>send_stats_from_queue\<close>.  The body of its loop looks the socket of an index up in \<^verbatim>\<open>tcp_index_to_sk_\<close>.\<close>

definition tcp_drain_body :: "u64 \<Rightarrow> u64 list \<Rightarrow> u32 \<Rightarrow> tcp_statistics \<Rightarrow> ingest list \<Rightarrow> (tcp_statistics \<times> ingest list) option" where
  "tcp_drain_body t index_to_sk index st w =
     (if ts_valid st
      then (if unat index < length index_to_sk
            then (case send_socket_stats t (index_to_sk ! unat index) st of (st', ms) \<Rightarrow> Some (st', w @ ms))
            else None)
      else Some (st, w))"

definition send_stats_from_queue :: "u64 \<Rightarrow> ('m, 'n, 'c, 's, 'r) poller \<Rightarrow> ('m, 'n, 'c, 's, 'r) poller option" where
  "send_stats_from_queue t p =
     (case relative_timeslot t (tcp_stats p) of (rel, s) \<Rightarrow>
        if rel = 0 then Some (p\<lparr>tcp_stats := s\<rparr>)
        else
          map_option (\<lambda>(s', w). p\<lparr>tcp_stats := ms_advance s', p_writer := w\<rparr>)
            (drain_queue (tcp_drain_body t (tcp_index_to_sk p)) s (p_writer p)))"

section \<open>UDP\<close>

definition udp_send_new_socket :: "u64 \<Rightarrow> udp_socket_entry \<Rightarrow> u32 \<Rightarrow> udp_socket_entry \<times> ingest list" where
  "udp_send_new_socket t entry index =
     (if un_lport entry \<noteq> 0
      then (entry\<lparr>un_reported := True\<rparr>, [In_udp_new_socket t (un_pid entry) index (un_laddr entry) (un_lport entry)])
      else (entry, []))"

text \<open>The byte count of the messages has 32 bits, that of the statistics 64.\<close>

definition udp_stats_message :: "u64 \<Rightarrow> u32 \<Rightarrow> u8 \<Rightarrow> udp_remote_endpoint \<Rightarrow> udp_statistics \<Rightarrow> ingest" where
  "udp_stats_message t sk_id is_rx addr st =
     (if ucast (ue_changed_af addr) = AF_INET
      then In_udp_stats_addr_changed_v4 t sk_id is_rx (us_packets st) (ucast (us_bytes st)) (s6_3 (ue_addr addr)) (ue_port addr)
      else if ucast (ue_changed_af addr) = AF_INET6
      then In_udp_stats_addr_changed_v6 t sk_id is_rx (us_packets st) (ucast (us_bytes st)) (ue_addr addr) (ue_port addr)
      else In_udp_stats_addr_unchanged t sk_id is_rx (us_packets st) (ucast (us_bytes st)))"

definition udp_send_stats ::
    "u64 \<Rightarrow> u32 \<Rightarrow> u8 \<Rightarrow> udp_socket_entry \<Rightarrow> udp_statistics \<Rightarrow> (udp_socket_entry \<times> udp_statistics \<times> ingest list) option" where
  "udp_send_stats t sk_id is_rx entry st =
     (if \<not> unat is_rx < length (un_addrs entry) then None
      else
        (case (if \<not> un_reported entry then udp_send_new_socket t entry sk_id else (entry, [])) of (e1, ms) \<Rightarrow>
           let addr = un_addrs e1 ! unat is_rx
           in Some (e1\<lparr>un_addrs := (un_addrs e1)[unat is_rx := addr\<lparr>ue_changed_af := 0\<rparr>]\<rparr>,
                    st\<lparr>us_valid := False\<rparr>,
                    ms @ [udp_stats_message t sk_id is_rx addr st] @
                      (if is_rx \<noteq> 0 \<and> us_drops st > 0 then [In_udp_stats_drops_changed t sk_id (us_drops st)] else []))))"

definition handle_udp_new_socket ::
    "('m, 'n, 'c, 's, 'r) poller_env \<Rightarrow> u64 \<Rightarrow> u32 \<Rightarrow> u64 \<Rightarrow> in6_addr \<Rightarrow> u16 \<Rightarrow>
     ('m, 'n, 'c, 's, 'r) poller \<Rightarrow> ('m, 'n, 'c, 's, 'r) poller option" where
  "handle_udp_new_socket E t pid sk laddr lport p =
     (if fh_full (udp_table p)
      then Some (log_warn ''handle_udp_new_socket: udp socket table full! dropping socket'' (p\<lparr>udp_table_ever_full := True\<rparr>))
      else
        (case fh_insert (pe_hash E) sk (Some udp_socket_entry0) (udp_table p) of
           Some (Inr index, tbl) \<Rightarrow>
             (if index = fh_invalid tbl
              then Some (log_error ''handle_udp_new_socket: duplicate udp socket'' (p\<lparr>udp_table := tbl\<rparr>))
              else
                (case fh_at index tbl of
                   None \<Rightarrow> None
                 | Some entry \<Rightarrow>
                     (case udp_send_new_socket t
                        (entry\<lparr>un_pid := pid, un_sk := sk, un_laddr := laddr, un_lport := lport\<rparr>) index of (entry', ms) \<Rightarrow>
                        map_option (\<lambda>tbl'. say ms (p\<lparr>udp_table := tbl'\<rparr>)) (fh_assign index entry' tbl))))
         | _ \<Rightarrow> None))"

text \<open>\<^verbatim>\<open>timeout_dns_request\<close>; a name of 256 bytes or more is cut to its last 256.\<close>

definition cut_name :: "u8 list \<Rightarrow> u8 list" where
  "cut_name n = (if length n < DNS_NAME_MAX_LENGTH then n else drop (length n - DNS_NAME_MAX_LENGTH) n)"

definition timeout_dns_request ::
    "('m, 'n, 'c, 's, 'r) poller_env \<Rightarrow> u64 \<Rightarrow> request \<Rightarrow> ('m, 'n, 'c, 's, 'r) poller \<Rightarrow> ('m, 'n, 'c, 's, 'r) poller option" where
  "timeout_dns_request E t req p =
     (case deref req (p_dns p) of
        None \<Rightarrow> None
      | Some (key, val) \<Rightarrow>
          (case fh_find (pe_hash E) (rq_sk val) (udp_table p) of
             None \<Rightarrow> None
           | Some index \<Rightarrow>
               (let p1 = (if index = fh_invalid (udp_table p) then p
                          else say [In_dns_timeout t index (of_nat (length (rq_name key))) (cut_name (rq_name key))
                                 (t - timestamp_ns val)] p)
                in map_option (\<lambda>d. p1\<lparr>p_dns := d\<rparr>) (dns_remove req (p_dns p1)))))"

fun timeout_each ::
    "('m, 'n, 'c, 's, 'r) poller_env \<Rightarrow> u64 \<Rightarrow> request list \<Rightarrow> ('m, 'n, 'c, 's, 'r) poller \<Rightarrow> ('m, 'n, 'c, 's, 'r) poller option" where
  "timeout_each E t [] p = Some p"
| "timeout_each E t (req # reqs) p = Option.bind (timeout_dns_request E t req p) (timeout_each E t reqs)"

text \<open>One pass of the loops over directions and epochs in \<^verbatim>\<open>handle_udp_destroy_socket\<close>.\<close>

definition udp_close_epoch ::
    "u64 \<Rightarrow> u32 \<Rightarrow> u8 \<Rightarrow> u32 \<Rightarrow> ('m, 'n, 'c, 's, 'r) poller \<Rightarrow> ('m, 'n, 'c, 's, 'r) poller option" where
  "udp_close_epoch t index is_rx epoch p =
     (case lookup_relative index epoch False (udp_stats p ! unat is_rx) of
        None \<Rightarrow> None
      | Some ((_, r), s) \<Rightarrow>
          if us_valid (metric_at r s)
          then
            (case fh_at index (udp_table p) of
               None \<Rightarrow> None
             | Some entry \<Rightarrow>
                 (case udp_send_stats t index is_rx entry (metric_at r s) of
                    None \<Rightarrow> None
                  | Some (entry', st, ms) \<Rightarrow>
                      map_option (\<lambda>tbl. say ms (p\<lparr>udp_table := tbl,
                          udp_stats := (udp_stats p)[unat is_rx := metric_assign r st s]\<rparr>))
                        (fh_assign index entry' (udp_table p))))
          else Some (p\<lparr>udp_stats := (udp_stats p)[unat is_rx := s]\<rparr>))"

definition handle_udp_destroy_socket ::
    "('m, 'n, 'c, 's, 'r) poller_env \<Rightarrow> u64 \<Rightarrow> u64 \<Rightarrow> ('m, 'n, 'c, 's, 'r) poller \<Rightarrow> ('m, 'n, 'c, 's, 'r) poller option" where
  "handle_udp_destroy_socket E t sk p =
     (case fh_find (pe_hash E) sk (udp_table p) of
        None \<Rightarrow> None
      | Some index \<Rightarrow>
          if index = fh_invalid (udp_table p) then Some p
          else
            Option.bind (timeout_each E t (lookup_socket sk (p_dns p)) p) (\<lambda>p0.
            case fh_at index (udp_table p0) of
              None \<Rightarrow> None
            | Some entry \<Rightarrow>
                Option.bind
                  (if un_reported entry
                   then map_option (say [In_udp_destroy_socket t index])
                     (Option.bind (udp_close_epoch t index 0 0 p0) (\<lambda>p1.
                      Option.bind (udp_close_epoch t index 0 1 p1) (\<lambda>p2.
                      Option.bind (udp_close_epoch t index 1 0 p2) (udp_close_epoch t index 1 1))))
                   else Some p0) (\<lambda>p4.
                map_option (\<lambda>(success, tbl).
                    let p5 = p4\<lparr>udp_table := tbl\<rparr>
                    in if \<not> success then log_error ''handle_udp_destroy_socket: removing socket from table failed'' p5 else p5)
                  (fh_erase (pe_hash E) sk (udp_table p4)))))"

text \<open>The part of \<^verbatim>\<open>handle_udp_stats\<close> for a message with a changed address: pending statistics are sent, the
  addresses are replaced, and the statistics are sent again with the new address.\<close>

definition udp_new_address ::
    "hostport_tuple option \<Rightarrow> u8 \<Rightarrow> u8 \<Rightarrow> in6_addr \<Rightarrow> u16 \<Rightarrow> in6_addr \<Rightarrow> u16 \<Rightarrow> udp_socket_entry \<Rightarrow> udp_socket_entry" where
  "udp_new_address ft is_rx af raddr rport laddr lport entry =
     (case ft of
        Some f \<Rightarrow>
          entry\<lparr>un_laddr := In6 0 0 0xffff0000 (src_ip f), un_lport := htons (src_port f),
                un_addrs := (un_addrs entry)[unat is_rx := \<lparr>ue_addr = In6 0 0 0xffff0000 (dst_ip f),
                  ue_port = htons (dst_port f), ue_changed_af = af\<rparr>]\<rparr>
      | None \<Rightarrow>
          entry\<lparr>un_laddr := laddr, un_lport := htons lport,
                un_addrs := (un_addrs entry)[unat is_rx := \<lparr>ue_addr = raddr, ue_port = htons rport, ue_changed_af = af\<rparr>]\<rparr>)"

definition udp_address_changed ::
    "('m, 'n, 'c, 's, 'r) poller_env \<Rightarrow> ('n, 'c, 's, 'r) nat_handler \<Rightarrow> u64 \<Rightarrow> u32 \<Rightarrow> u8 \<Rightarrow> u8 \<Rightarrow> in6_addr \<Rightarrow> u16 \<Rightarrow>
     in6_addr \<Rightarrow> u16 \<Rightarrow> udp_socket_entry \<Rightarrow> udp_statistics \<Rightarrow> (udp_socket_entry \<times> udp_statistics \<times> ingest list) option" where
  "udp_address_changed E h t index is_rx af raddr rport laddr lport entry st =
     (case (if us_valid st then udp_send_stats t index is_rx entry st else Some (entry, st, [])) of
        None \<Rightarrow> None
      | Some (e0, st0, ms0) \<Rightarrow>
          (let ft = (if ucast af = AF_INET
                     then get_nat_mapping (pe_nat E) (s6_3 laddr) (s6_3 raddr) (htons lport) (htons rport) (ucast IPPROTO_UDP) h
                     else None)
           in map_option (\<lambda>(e2, st2, ms2). (e2, st2, ms0 @ ms2))
                (udp_send_stats t index is_rx (udp_new_address ft is_rx af raddr rport laddr lport e0) st0)))"

definition add_udp_stats :: "u32 \<Rightarrow> u32 \<Rightarrow> u32 \<Rightarrow> udp_statistics \<Rightarrow> udp_statistics" where
  "add_udp_stats packets bytes drops st =
     (if \<not> us_valid st
      then st\<lparr>us_packets := packets, us_bytes := ucast bytes, us_drops := drops, us_valid := True\<rparr>
      else st\<lparr>us_packets := us_packets st + packets, us_bytes := us_bytes st + ucast bytes, us_drops := us_drops st + drops\<rparr>)"

definition handle_udp_stats ::
    "('m, 'n, 'c, 's, 'r) poller_env \<Rightarrow> u64 \<Rightarrow> u64 \<Rightarrow> in6_addr \<Rightarrow> u32 \<Rightarrow> u32 \<Rightarrow> u8 \<Rightarrow> u16 \<Rightarrow> u8 \<Rightarrow> in6_addr \<Rightarrow> u16 \<Rightarrow> u32 \<Rightarrow>
     ('m, 'n, 'c, 's, 'r) poller \<Rightarrow> ('m, 'n, 'c, 's, 'r) poller option" where
  "handle_udp_stats E t sk raddr packets bytes af rport is_rx laddr lport drops p =
     (case fh_find (pe_hash E) sk (udp_table p) of
        None \<Rightarrow> None
      | Some index \<Rightarrow>
          if index = fh_invalid (udp_table p) then Some (udp_missing ''handle_udp_stats: stats for missing socket'' p)
          else if \<not> unat is_rx < length (udp_stats p) then None
          else
            (case (fh_at index (udp_table p), ms_lookup index t True (udp_stats p ! unat is_rx)) of
               (Some entry, Some ((_, r), s)) \<Rightarrow>
                 (case (if af \<noteq> 0
                        then udp_address_changed E (p_nat p) t index is_rx af raddr rport laddr lport entry (metric_at r s)
                        else Some (entry, metric_at r s, [])) of
                    None \<Rightarrow> None
                  | Some (entry', st, ms) \<Rightarrow>
                      map_option (\<lambda>tbl. say ms (p\<lparr>udp_table := tbl,
                          udp_stats := (udp_stats p)[unat is_rx := metric_assign r (add_udp_stats packets bytes drops st) s]\<rparr>))
                        (fh_assign index entry' (udp_table p)))
             | _ \<Rightarrow> None))"

text \<open>\<^verbatim>\<open>udp_send_stats_from_queue\<close>, for one direction and for both.\<close>

definition udp_drain_body ::
    "u64 \<Rightarrow> u8 \<Rightarrow> u32 \<Rightarrow> udp_statistics \<Rightarrow> ('m, udp_socket_entry) fixed_hash \<times> ingest list \<Rightarrow>
     (udp_statistics \<times> ('m, udp_socket_entry) fixed_hash \<times> ingest list) option" where
  "udp_drain_body t is_rx index st c =
     (case c of (tbl, w) \<Rightarrow>
        if us_valid st
        then
          (case fh_at index tbl of
             None \<Rightarrow> None
           | Some entry \<Rightarrow>
               (case udp_send_stats t index is_rx entry st of
                  None \<Rightarrow> None
                | Some (entry', st', ms) \<Rightarrow> map_option (\<lambda>tbl'. (st', tbl', w @ ms)) (fh_assign index entry' tbl)))
        else Some (st, tbl, w))"

definition udp_drain :: "u64 \<Rightarrow> u8 \<Rightarrow> ('m, 'n, 'c, 's, 'r) poller \<Rightarrow> ('m, 'n, 'c, 's, 'r) poller option" where
  "udp_drain t is_rx p =
     (case relative_timeslot t (udp_stats p ! unat is_rx) of (rel, s) \<Rightarrow>
        if rel = 0 then Some (p\<lparr>udp_stats := (udp_stats p)[unat is_rx := s]\<rparr>)
        else
          map_option (\<lambda>(s', tbl, w). p\<lparr>udp_stats := (udp_stats p)[unat is_rx := ms_advance s'], udp_table := tbl, p_writer := w\<rparr>)
            (drain_queue (udp_drain_body t is_rx) s (udp_table p, p_writer p)))"

definition udp_send_stats_from_queue :: "u64 \<Rightarrow> ('m, 'n, 'c, 's, 'r) poller \<Rightarrow> ('m, 'n, 'c, 's, 'r) poller option" where
  "udp_send_stats_from_queue t p = Option.bind (udp_drain t 0 p) (udp_drain t 1)"

section \<open>DNS\<close>

definition MAX_ENCODED_IP_ADDRS :: nat where
  "MAX_ENCODED_IP_ADDRS = 16"

definition DNS_TIMEOUT_TIME_NS :: u64 where
  "DNS_TIMEOUT_TIME_NS = 10000000000"

text \<open>Whether request and response belong to one process is only logged, but the test reads both entries.\<close>

definition dns_match ::
    "('m, 'n, 'c, 's, 'r) poller_env \<Rightarrow> u64 \<Rightarrow> u64 \<Rightarrow> ('m, 'n, 'c, 's, 'r) poller \<Rightarrow> ('m, 'n, 'c, 's, 'r) poller option" where
  "dns_match E sk sk2 p =
     (if sk = sk2 then Some p
      else
        (case (fh_find (pe_hash E) sk (udp_table p), fh_find (pe_hash E) sk2 (udp_table p)) of
           (Some i1, Some i2) \<Rightarrow>
             if i1 = fh_invalid (udp_table p) \<or> i2 = fh_invalid (udp_table p) then None else Some p
         | _ \<Rightarrow> None))"

text \<open>The loop over the requests that a response answers.  \<open>answer\<close> is \<^const>\<open>None\<close> when nothing is to be sent,
  otherwise the name with its length and the addresses.\<close>

fun dns_respond ::
    "('m, 'n, 'c, 's, 'r) poller_env \<Rightarrow> u64 \<Rightarrow> u64 \<Rightarrow> u32 \<Rightarrow> u8 \<Rightarrow> (u16 \<times> u8 list \<times> u8 list \<times> u8 list) option \<Rightarrow>
     request list \<Rightarrow> ('m, 'n, 'c, 's, 'r) poller \<Rightarrow> ('m, 'n, 'c, 's, 'r) poller option" where
  "dns_respond E t sk sk_id is_rx answer [] p = Some p"
| "dns_respond E t sk sk_id is_rx answer (req # reqs) p =
     (case deref req (p_dns p) of
        None \<Rightarrow> None
      | Some (key, val) \<Rightarrow>
          (case answer of
             None \<Rightarrow> dns_respond E t sk sk_id is_rx answer reqs p
           | Some (len, name, ipv4, ipv6) \<Rightarrow>
               Option.bind (dns_match E sk (rq_sk val) p) (\<lambda>p1.
                 dns_respond E t sk sk_id is_rx answer reqs
                   (say [In_dns_response t sk_id len name ipv4 ipv6 (t - timestamp_ns val) (if is_rx \<noteq> 0 then 0 else 1)] p1))))"

definition dns_handle_response ::
    "('m, 'n, 'c, 's, 'r) poller_env \<Rightarrow> u64 \<Rightarrow> u64 \<Rightarrow> u32 \<Rightarrow> u8 \<Rightarrow> u8 list \<Rightarrow> dns_request_key \<Rightarrow> query_out \<Rightarrow>
     ('m, 'n, 'c, 's, 'r) poller \<Rightarrow> ('m, 'n, 'c, 's, 'r) poller option" where
  "dns_handle_response E t sk sk_id is_rx pkt key q p =
     (case dns_parse_a_aaaa_reply (pe_dns E) (pe_rr_name E) (pe_rr_data E) pkt
          \<lparr>hostname_out = question_out q, hostname_len = question_len q,
           in_addrs_out = Some (pe_ipv4 E), num_in_addrs = Some (int MAX_ENCODED_IP_ADDRS),
           in6_addrs_out = Some (pe_ipv6 E), num_in6_addrs = Some (int MAX_ENCODED_IP_ADDRS)\<rparr> of
        None \<Rightarrow> None
      | Some (ret, out) \<Rightarrow>
          (let hlen = the (hostname_len out); n4 = the (num_in_addrs out); n6 = the (num_in6_addrs out);
               answer = (if hlen = 0 \<or> n4 + n6 = 0 then None
                         else Some (word_of_int hlen, cut_name (take (nat hlen) (hostname_out out)),
                           concat (take (nat n4) (the (in_addrs_out out))), concat (take (nat n6) (the (in6_addrs_out out)))));
               reqs = dns_lookup key (p_dns p)
           in if length reqs > 0
              then Option.bind (dns_respond E t sk sk_id is_rx answer reqs p) (\<lambda>p1.
                     map_option (\<lambda>d. p1\<lparr>p_dns := d\<rparr>) (remove_all_with_key key (p_dns p1)))
              else Some p))"

text \<open>\<open>buf\<close> is what the message carries after its fixed part, \<open>pkt_len\<close> the length it states.\<close>

definition handle_dns_message ::
    "('m, 'n, 'c, 's, 'r) poller_env \<Rightarrow> u64 \<Rightarrow> u64 \<Rightarrow> nat \<Rightarrow> u8 list \<Rightarrow> u8 \<Rightarrow>
     ('m, 'n, 'c, 's, 'r) poller \<Rightarrow> ('m, 'n, 'c, 's, 'r) poller option" where
  "handle_dns_message E t sk pkt_len buf is_rx p =
     (if pkt_len > length buf then None
      else
        (case fh_find (pe_hash E) sk (udp_table p) of
           None \<Rightarrow> None
         | Some sk_id \<Rightarrow>
             if sk_id = fh_invalid (udp_table p) then Some (udp_missing ''handle_dns_message - sk not found'' p)
             else
               (case dns_parse_query (pe_dns E) (take pkt_len buf)
                    \<lparr>is_response = Some 0, type_out = Some 0, qid_out = Some 0, question_out = pe_hostname E, question_len = Some 0\<rparr> of
                  None \<Rightarrow> None
                | Some (ret, q) \<Rightarrow>
                    if ret \<noteq> ARES_SUCCESS then Some p
                    else
                      (let key = \<lparr>rq_qid = the (qid_out q), rq_type = the (type_out q),
                           rq_name = take (nat (the (question_len q))) (question_out q), rq_is_rx = (is_rx \<noteq> 0)\<rparr>
                       in if is_response q = Some 0
                          then Some (p\<lparr>p_dns := dns_add key \<lparr>timestamp_ns = t, rq_sk = sk\<rparr> (p_dns p)\<rparr>)
                          else dns_handle_response E t sk sk_id is_rx (take pkt_len buf) (key\<lparr>rq_is_rx := (is_rx = 0)\<rparr>) q p))))"

definition process_dns_timeouts ::
    "('m, 'n, 'c, 's, 'r) poller_env \<Rightarrow> u64 \<Rightarrow> ('m, 'n, 'c, 's, 'r) poller \<Rightarrow> ('m, 'n, 'c, 's, 'r) poller option" where
  "process_dns_timeouts E t p = timeout_each E t (lookup_older_than (t - DNS_TIMEOUT_TIME_NS) (p_dns p)) p"

section \<open>Reading the perf rings\<close>

definition send_report_if_recent_loss :: "('m, 'n, 'c, 's, 'r) poller \<Rightarrow> ('m, 'n, 'c, 's, 'r) poller" where
  "send_report_if_recent_loss p =
     (if lost_count p = notified_lost_count p then p
      else (say [In_bpf_lost_samples (lost_count p - notified_lost_count p)] p)\<lparr>notified_lost_count := lost_count p\<rparr>)"

text \<open>The handlers registered in the constructor.  A debugging event has none.\<close>

fun handle_message ::
    "('m, 'n, 'c, 's, 'r) poller_env \<Rightarrow> bpf_event \<Rightarrow> ('m, 'n, 'c, 's, 'r) poller \<Rightarrow> ('m, 'n, 'c, 's, 'r) poller option" where
  "handle_message E (Ev_dns_packet t sk pkt total_len is_rx) p = handle_dns_message E t sk (length pkt) pkt is_rx p"
| "handle_message E (Ev_new_sock_created t pid sk) p = handle_new_socket E t pid sk p"
| "handle_message E (Ev_set_state_ipv4 t dest src dport sport sk tx_rx) p = poller_set_state_ipv4 E t dest src dport sport sk tx_rx p"
| "handle_message E (Ev_set_state_ipv6 t dest src dport sport sk tx_rx) p = poller_set_state_ipv6 E t dest src dport sport sk tx_rx p"
| "handle_message E (Ev_close_sock_info t sk) p = handle_close_socket E t sk p"
| "handle_message E (Ev_rtt_estimator t srtt cwnd acked ca sk pif delivered retrans holes received rdelivered rcv_rtt) p =
     handle_rtt_estimator E t srtt acked sk delivered retrans holes received rdelivered rcv_rtt p"
| "handle_message E (Ev_reset_tcp_counters t sk acked delivered retrans received pid) p =
     handle_reset_tcp_counters E t sk acked delivered retrans received (ucast pid) p"
| "handle_message E (Ev_tcp_syn_timeout t sk) p = Some (say [In_syn_timeout t sk] p)"
| "handle_message E (Ev_tcp_reset t sk is_rx) p = Some (say [In_tcp_reset t sk is_rx] p)"
| "handle_message E (Ev_http_response t sk pid code latency client_server) p =
     Some (say [In_http_response t sk pid code latency client_server] p)"
| "handle_message E (Ev_udp_new_socket t pid sk laddr lport) p = handle_udp_new_socket E t pid sk laddr lport p"
| "handle_message E (Ev_udp_destroy_socket t sk) p = handle_udp_destroy_socket E t sk p"
| "handle_message E (Ev_udp_stats t sk raddr packets bytes af rport is_rx laddr lport drops) p =
     handle_udp_stats E t sk raddr packets bytes af rport is_rx laddr lport drops p"
| "handle_message E (Ev_nf_nat_cleanup_conntrack t ct sip sp dip dp pr) p =
     Some (p\<lparr>p_nat := handle_nf_nat_cleanup_conntrack (pe_nat E) sip sp dip dp pr (p_nat p)\<rparr>)"
| "handle_message E (Ev_nf_conntrack_alter_reply t ct sip sp dip dp pr nsip nsp ndip ndp npr) p =
     Some (p\<lparr>p_nat := handle_nf_conntrack_alter_reply (pe_nat E) t sip sp dip dp pr nsip nsp ndip ndp (p_nat p)\<rparr>)"
| "handle_message E (Ev_existing_conntrack_tuple t ct sip sp dip dp pr dir) p =
     Some (p\<lparr>p_nat := handle_existing_conntrack_tuple (pe_nat E) ct sip sp dip dp pr dir (p_nat p)\<rparr>)"
| "handle_message E _ p = Some p"

text \<open>A record of a perf ring: a message, with whether the connection to the server was writable when it was
  read, or a count of lost messages.\<close>

datatype perf_record = Sample bpf_event bool | Lost u64

text \<open>The loop of \<^verbatim>\<open>process_samples\<close>; the second component says whether it read all records, since a lost
  record ends the call.  Without a connection a message is read and dropped.\<close>

fun has_handler :: "bpf_event \<Rightarrow> bool" where
  "has_handler (Ev_report_debug_event t a b) = False"
| "has_handler _ = True"

fun process_records ::
    "('m, 'n, 'c, 's, 'r) poller_env \<Rightarrow> perf_record list \<Rightarrow> ('m, 'n, 'c, 's, 'r) poller \<Rightarrow>
     (('m, 'n, 'c, 's, 'r) poller \<times> bool) option" where
  "process_records E [] p = Some (p, True)"
| "process_records E (Sample ev writable # rs) p =
     (if \<not> has_handler ev then None
      else if writable then Option.bind (handle_message E ev p) (process_records E rs)
      else process_records E rs p)"
| "process_records E (Lost n # rs) p =
     Some ((log_warn ''Lost bpf samples - restarting kernel collector.''
        (send_report_if_recent_loss (p\<lparr>lost_count := lost_count p + n\<rparr>)))\<lparr>restart_requested := True\<rparr>, False)"

definition process_samples ::
    "('m, 'n, 'c, 's, 'r) poller_env \<Rightarrow> u64 \<Rightarrow> perf_record list \<Rightarrow> ('m, 'n, 'c, 's, 'r) poller \<Rightarrow>
     ('m, 'n, 'c, 's, 'r) poller option" where
  "process_samples E t rs p =
     (case process_records E rs p of
        None \<Rightarrow> None
      | Some (p1, False) \<Rightarrow> Some p1
      | Some (p1, True) \<Rightarrow>
          (case relative_timeslot t (tcp_stats p1) of (rel, s) \<Rightarrow>
             let p2 = p1\<lparr>tcp_stats := s\<rparr>
             in if rel \<noteq> 0
                then map_option send_report_if_recent_loss
                  (Option.bind (send_stats_from_queue t p2) (udp_send_stats_from_queue t))
                else Some p2))"

definition set_all_probes_loaded :: "('m, 'n, 'c, 's, 'r) poller \<Rightarrow> ('m, 'n, 'c, 's, 'r) poller" where
  "set_all_probes_loaded p = p\<lparr>all_probes_loaded := True\<rparr>"

text \<open>The constructor, for tables of the given sizes in the given fresh memory and slots of the given length.\<close>

definition poller_new ::
    "('m, 'n, 'c, 's, 'r) poller_env \<Rightarrow> nat \<Rightarrow> nat \<Rightarrow> u32 \<Rightarrow> u32 \<Rightarrow> tcp_socket_entry slot list \<Rightarrow> udp_socket_entry slot list \<Rightarrow>
     u64 list \<Rightarrow> (nat \<Rightarrow> tcp_statistics element) \<Rightarrow> (nat \<Rightarrow> udp_statistics element) \<Rightarrow> fast_div \<Rightarrow> ('m, 'n, 'c, 's, 'r) poller" where
  "poller_new E tcp_size udp_size tcp_esize udp_esize tcp_mem udp_mem index_mem tcp_stat_mem udp_stat_mem tslot =
     \<lparr>tcp_table = fh_new (pe_hash E) tcp_size tcp_esize tcp_mem, tcp_table_ever_full = False,
      tcp_stats = metric_store_new tcp_size n_epochs tcp_statistics0 tslot tcp_stat_mem, tcp_index_to_sk = index_mem,
      udp_table = fh_new (pe_hash E) udp_size udp_esize udp_mem, udp_table_ever_full = False,
      udp_stats = replicate 2 (metric_store_new udp_size n_epochs udp_statistics0 tslot udp_stat_mem),
      p_dns = dns_requests_new, p_nat = nat_new (pe_nat E), all_probes_loaded = False, lost_count = 0,
      notified_lost_count = 0, restart_requested = False, p_writer = [], p_errors = [], p_warnings = []\<rparr>"

end
