(* ===== verification/Poller_Tcp.thy ===== *)
theory Poller_Tcp
  imports Buffered_Poller
begin

text \<open>
  The TCP side of the poller of \<^verbatim>\<open>src/collector/kernel/buffered_poller.cc\<close>: its table of sockets, the index of
  sockets and the store of statistics agree, and what it reports is what the kernel reported.

  The books are the abstract machine: for every open socket the last counters, and for every socket the sum of
  all increases that were not negative.  For each of the four counters (bytes and losses, sent and
  received) the sums in the messages written so far and the statistics not yet sent add up to the books.
  The locale \<open>tcp_counter\<close> is what that argument needs of a counter; it is interpreted for the four of them.
\<close>

section \<open>The state of the TCP side\<close>

abbreviation cap :: "('m, 't) fixed_hash \<Rightarrow> nat" where
  "cap h \<equiv> pool_size (fh_pool h)"

text \<open>The table holds \<open>T\<close>, the store the statistics \<open>V\<close> and the queues \<open>Q\<close>; a statistic that is to be sent is
  queued and belongs to a socket of the table.\<close>

definition tcp_rel ::
    "('m, 'n, 'c, 's, 'r) poller_env \<Rightarrow> nat \<Rightarrow> ('m, 'n, 'c, 's, 'r) poller \<Rightarrow> (u64 \<rightharpoonup> u32 \<times> tcp_socket_entry) \<Rightarrow>
     (nat \<Rightarrow> nat \<Rightarrow> tcp_statistics) \<Rightarrow> (nat \<Rightarrow> u32 list) \<Rightarrow> bool" where
  "tcp_rel E n p T V Q \<longleftrightarrow>
     fh_rep (pe_hash E) (tcp_table p) T \<and> cap (tcp_table p) = n \<and> length (tcp_index_to_sk p) = n \<and>
     (\<forall>sk i x. T sk = Some (i, x) \<longrightarrow> tcp_index_to_sk p ! unat i = sk) \<and>
     ms_rep (tcp_stats p) V Q \<and> ms_size (tcp_stats p) = n \<and> ms_epochs (tcp_stats p) = n_epochs \<and>
     (\<forall>i e. unat i < n \<longrightarrow> e < 2 \<longrightarrow> ts_valid (V (unat i) e) \<longrightarrow> i \<in> set (Q e) \<and> i \<in> fst ` ran T)"

lemma tcp_relD:
  assumes "tcp_rel E n p T V Q"
  shows "fh_rep (pe_hash E) (tcp_table p) T" "cap (tcp_table p) = n" "length (tcp_index_to_sk p) = n"
    "T sk = Some (i, x) \<Longrightarrow> tcp_index_to_sk p ! unat i = sk" "T sk = Some (i, x) \<Longrightarrow> unat i < n"
    "ms_rep (tcp_stats p) V Q" "ms_size (tcp_stats p) = n" "ms_epochs (tcp_stats p) = n_epochs" "ms_n (tcp_stats p) = 2"
    "unat i < n \<Longrightarrow> e < 2 \<Longrightarrow> ts_valid (V (unat i) e) \<Longrightarrow> i \<in> set (Q e) \<and> i \<in> fst ` ran T"
  using assms fh.index_bound [of "pe_hash E" "tcp_table p" T sk i x]
  by (simp_all add: tcp_rel_def ms_n_def n_epochs_def)

text \<open>The components that the UDP side uses, and those of the TCP side.\<close>

definition udp_view :: "('m, 'n, 'c, 's, 'r) poller \<Rightarrow> ('m, udp_socket_entry) fixed_hash \<times> udp_statistics metric_store list \<times> dns_requests" where
  "udp_view p = (udp_table p, udp_stats p, p_dns p)"

definition tcp_view :: "('m, 'n, 'c, 's, 'r) poller \<Rightarrow> ('m, tcp_socket_entry) fixed_hash \<times> tcp_statistics metric_store \<times> u64 list" where
  "tcp_view p = (tcp_table p, tcp_stats p, tcp_index_to_sk p)"

lemma tcp_rel_view: "tcp_view p' = tcp_view p \<Longrightarrow> tcp_rel E n p' T V Q = tcp_rel E n p T V Q"
  by (simp add: tcp_view_def tcp_rel_def)

definition complaints :: "('m, 'n, 'c, 's, 'r) poller \<Rightarrow> string list \<times> string list" where
  "complaints p = (p_errors p, p_warnings p)"

lemma say_sel [simp]:
  "p_writer (say ms p) = p_writer p @ ms" "udp_view (say ms p) = udp_view p" "tcp_view (say ms p) = tcp_view p"
  "complaints (say ms p) = complaints p" "p_nat (say ms p) = p_nat p" "p_dns (say ms p) = p_dns p"
  "tcp_table (say ms p) = tcp_table p" "udp_table (say ms p) = udp_table p"
  "tcp_stats (say ms p) = tcp_stats p" "udp_stats (say ms p) = udp_stats p" "tcp_index_to_sk (say ms p) = tcp_index_to_sk p"
  by (simp_all add: say_def udp_view_def tcp_view_def complaints_def)

lemma log_sel [simp]:
  "p_writer (log_error x p) = p_writer p" "udp_view (log_error x p) = udp_view p" "tcp_view (log_error x p) = tcp_view p"
  "p_nat (log_error x p) = p_nat p"
  "p_writer (log_warn x p) = p_writer p" "udp_view (log_warn x p) = udp_view p" "tcp_view (log_warn x p) = tcp_view p"
  "p_nat (log_warn x p) = p_nat p"
  by (simp_all add: log_error_def log_warn_def udp_view_def tcp_view_def)

lemma missing_sel [simp]:
  "p_writer (tcp_missing x p) = p_writer p" "udp_view (tcp_missing x p) = udp_view p" "tcp_view (tcp_missing x p) = tcp_view p"
  "p_nat (tcp_missing x p) = p_nat p"
  "p_writer (udp_missing x p) = p_writer p" "udp_view (udp_missing x p) = udp_view p" "tcp_view (udp_missing x p) = tcp_view p"
  "p_nat (udp_missing x p) = p_nat p"
  by (simp_all add: tcp_missing_def udp_missing_def)

lemma fh_full_rep: "fh_rep F h m \<Longrightarrow> fh_full h \<longleftrightarrow> card (dom m) = cap h"
  using fh_rel_find(5) by (auto simp: fh_rep_def)

lemma index_unat_inj [simp]: "unat i = unat j \<longleftrightarrow> i = j" for i j :: u32
  by (simp add: word_unat_eq_iff)

text \<open>The two slots of a store.\<close>

lemma two_slots:
  assumes "ms_n s = 2"
  shows "ms_slot s 0 < 2" "ms_slot s 1 < 2" "e < 2 \<Longrightarrow> e = ms_slot s 0 \<or> e = ms_slot s 1" "ms_slot s 0 \<noteq> ms_slot s 1"
  using assms by (auto simp: ms_slot_def) presburger+

section \<open>The handlers\<close>

lemma tcp_insert_rel:
  assumes rel: "tcp_rel E n p T V Q"
  shows "\<exists>p'. udp_view p' = udp_view p \<and> p_nat p' = p_nat p \<and> p_writer p' = p_writer p \<and>
    (if card (dom T) = n \<or> T sk \<noteq> None then tcp_insert E who sk p = Some (p', None) \<and> tcp_rel E n p' T V Q
     else complaints p' = complaints p \<and>
       (\<exists>i. tcp_insert E who sk p = Some (p', Some i) \<and> i \<notin> fst ` ran T \<and>
          tcp_rel E n p' (T(sk \<mapsto> (i, tcp_socket_entry0))) V Q))"
proof -
  note r = tcp_relD [OF rel]
  note full = fh_full_rep [OF r(1)]
  consider "card (dom T) = n" | "card (dom T) \<noteq> n" "T sk \<noteq> None" | "card (dom T) \<noteq> n" "T sk = None" by blast
  then show ?thesis
  proof cases
    case 1
    then show ?thesis using r(2) rel
      by (auto simp: tcp_insert_def full tcp_rel_def udp_view_def log_warn_def)
  next
    case 2
    then obtain h' where "fh_insert (pe_hash E) sk (Some tcp_socket_entry0) (tcp_table p) = Some (Inr (fh_invalid (tcp_table p)), h')"
      "fh_rep (pe_hash E) h' T" "cap h' = cap (tcp_table p)" "fh_invalid h' = fh_invalid (tcp_table p)"
      using fh.ins_refused [OF r(1), of sk "Some tcp_socket_entry0"] by auto
    then show ?thesis using 2 r(2) rel
      by (auto simp: tcp_insert_def full tcp_rel_def udp_view_def log_error_def Let_def)
  next
    case 3
    then obtain i h' where ins: "fh_insert (pe_hash E) sk (Some tcp_socket_entry0) (tcp_table p) = Some (Inr i, h')"
      "unat i < n" "i \<notin> fst ` ran T" "fh_rep (pe_hash E) h' (T(sk \<mapsto> (i, tcp_socket_entry0)))" "cap h' = n"
      "fh_invalid h' = fh_invalid (tcp_table p)"
      using fh.ins_new [OF r(1), of sk tcp_socket_entry0] r(2) by auto
    have inv: "i \<noteq> fh_invalid h'" using fh.null_bound [OF ins(4)] ins(2,5) by simp
    have ne: "j \<noteq> i" if "T k = Some (j, x)" for k j x using ins(3) that by (force intro: ranI)
    have ran: "fst ` ran (T(sk \<mapsto> (i, tcp_socket_entry0))) = insert i (fst ` ran T)" using 3(2) by simp
    let ?p = "p\<lparr>tcp_table := h', tcp_index_to_sk := (tcp_index_to_sk p)[unat i := sk]\<rparr>"
    have idx: "(tcp_index_to_sk p)[unat i := sk] ! unat j = k" if "(T(sk \<mapsto> (i, tcp_socket_entry0))) k = Some (j, x)" for k j x
      using that ne [of k j x] ins(2) r(3) r(4) [of k j x] by (auto split: if_splits simp: nth_list_update)
    have "tcp_rel E n ?p (T(sk \<mapsto> (i, tcp_socket_entry0))) V Q"
      using rel ins r(3) idx unfolding tcp_rel_def ran by auto
    then show ?thesis using 3 r(2,3) ins inv
      by (intro exI [of _ ?p]) (auto simp: tcp_insert_def full udp_view_def Let_def complaints_def)
  qed
qed

lemma handle_new_socket_rel:
  assumes rel: "tcp_rel E n p T V Q"
  shows "\<exists>p' ms. handle_new_socket E t pid sk p = Some p' \<and> udp_view p' = udp_view p \<and> p_nat p' = p_nat p \<and>
    p_writer p' = p_writer p @ ms \<and> set ms \<subseteq> {In_new_sock_info t pid sk} \<and>
    (if card (dom T) = n \<or> T sk \<noteq> None then tcp_rel E n p' T V Q
     else complaints p' = complaints p \<and>
       (\<exists>i. i \<notin> fst ` ran T \<and> tcp_rel E n p' (T(sk \<mapsto> (i, tcp_socket_entry0))) V Q))"
proof -
  obtain p' where p': "udp_view p' = udp_view p" "p_nat p' = p_nat p" "p_writer p' = p_writer p"
    "if card (dom T) = n \<or> T sk \<noteq> None then tcp_insert E ''handle_new_socket'' sk p = Some (p', None) \<and> tcp_rel E n p' T V Q
     else complaints p' = complaints p \<and> (\<exists>i. tcp_insert E ''handle_new_socket'' sk p = Some (p', Some i) \<and> i \<notin> fst ` ran T \<and>
          tcp_rel E n p' (T(sk \<mapsto> (i, tcp_socket_entry0))) V Q)" using tcp_insert_rel [OF rel] by blast
  show ?thesis
  proof (cases "card (dom T) = n \<or> T sk \<noteq> None")
    case True
    then show ?thesis using p' by (intro exI [of _ p'] exI [of _ "[]"]) (simp add: handle_new_socket_def)
  next
    case False
    then show ?thesis using p'
      by (intro exI [of _ "say [In_new_sock_info t pid sk] p'"] exI [of _ "[In_new_sock_info t pid sk]"])
        (auto simp: handle_new_socket_def tcp_rel_view [of "say _ _"] simp del: ran_map_upd)
  qed
qed

text \<open>Replacing the entry of a socket, and the store.\<close>

lemma ran_assign: "T sk = Some (i, x) \<Longrightarrow> fst ` ran (T(sk \<mapsto> (i, y))) = fst ` ran T"
  unfolding set_eq_iff image_iff ran_def Bex_def by (auto split: if_splits) (metis option.inject prod.inject)+

lemma tcp_assign_rel:
  assumes rel: "tcp_rel E n p T V Q" and x: "T sk = Some (i, x)"
  shows "\<exists>h'. fh_assign i y (tcp_table p) = Some h' \<and> tcp_rel E n (p\<lparr>tcp_table := h'\<rparr>) (T(sk \<mapsto> (i, y))) V Q"
proof -
  note r = tcp_relD [OF rel]
  obtain h' where "fh_assign i y (tcp_table p) = Some h'" "fh_rep (pe_hash E) h' (T(sk \<mapsto> (i, y)))" "cap h' = n"
    using fh.assign_rep [OF r(1) x, of y] r(2) by auto
  then show ?thesis using rel x r(4) [OF x] unfolding tcp_rel_def ran_assign [of T, OF x] by auto
qed

lemma tcp_store_rel:
  assumes "tcp_rel E n p T V Q" and "ms_rep s' V' Q'" and "ms_same (tcp_stats p) s'"
    and "\<And>i e. unat i < n \<Longrightarrow> e < 2 \<Longrightarrow> ts_valid (V' (unat i) e) \<Longrightarrow> i \<in> set (Q' e) \<and> i \<in> fst ` ran T"
  shows "tcp_rel E n (p\<lparr>tcp_stats := s'\<rparr>) T V' Q'"
  using assms by (simp add: tcp_rel_def ms_same_def)

lemma handle_reset_rel:
  assumes rel: "tcp_rel E n p T V Q"
  shows "\<exists>p'. handle_reset_tcp_counters E t sk acked delivered retrans received pid p = Some p' \<and>
    udp_view p' = udp_view p \<and> p_nat p' = p_nat p \<and> p_writer p' = p_writer p @ [In_new_sock_info t pid sk] \<and>
    (if card (dom T) = n \<or> T sk \<noteq> None then tcp_rel E n p' T V Q
     else complaints p' = complaints p \<and>
       (\<exists>i. i \<notin> fst ` ran T \<and> tcp_rel E n p' (T(sk \<mapsto> (i, tcp_socket_entry0\<lparr>te_bytes_acked := acked,
          te_packets_delivered := delivered, te_packets_retrans := retrans, te_bytes_received := received\<rparr>))) V Q))"
proof -
  let ?p = "say [In_new_sock_info t pid sk] p" and ?who = "''handle_reset_tcp_counters''"
  have "tcp_rel E n ?p T V Q" using rel by (simp add: tcp_rel_view [of "say _ _"])
  then obtain p1 where p1: "udp_view p1 = udp_view p" "p_nat p1 = p_nat p" "p_writer p1 = p_writer p @ [In_new_sock_info t pid sk]"
    "if card (dom T) = n \<or> T sk \<noteq> None then tcp_insert E ?who sk ?p = Some (p1, None) \<and> tcp_rel E n p1 T V Q
     else complaints p1 = complaints p \<and> (\<exists>i. tcp_insert E ?who sk ?p = Some (p1, Some i) \<and> i \<notin> fst ` ran T \<and>
          tcp_rel E n p1 (T(sk \<mapsto> (i, tcp_socket_entry0))) V Q)" using tcp_insert_rel [of E n ?p T V Q sk ?who] by auto
  show ?thesis
  proof (cases "card (dom T) = n \<or> T sk \<noteq> None")
    case True
    then show ?thesis using p1 by (simp add: handle_reset_tcp_counters_def)
  next
    case False
    then obtain i where i: "tcp_insert E ?who sk ?p = Some (p1, Some i)" "i \<notin> fst ` ran T"
      "tcp_rel E n p1 (T(sk \<mapsto> (i, tcp_socket_entry0))) V Q" "complaints p1 = complaints p" using p1(4) by auto
    let ?y = "tcp_socket_entry0\<lparr>te_bytes_acked := acked, te_packets_delivered := delivered, te_packets_retrans := retrans,
       te_bytes_received := received\<rparr>"
    have at: "fh_at i (tcp_table p1) = Some tcp_socket_entry0" using fh.find_Some [OF tcp_relD(1) [OF i(3)], of sk i] by simp
    obtain h' where h': "fh_assign i ?y (tcp_table p1) = Some h'" "tcp_rel E n (p1\<lparr>tcp_table := h'\<rparr>) (T(sk \<mapsto> (i, ?y))) V Q"
      using tcp_assign_rel [OF i(3), of sk i tcp_socket_entry0 ?y] by auto
    show ?thesis using False p1(1-3) i at h'
      by (intro exI [of _ "p1\<lparr>tcp_table := h'\<rparr>"]) (auto simp: handle_reset_tcp_counters_def udp_view_def complaints_def simp del: ran_map_upd)
  qed
qed

lemma set_state_tcp_rel:
  assumes rel: "tcp_rel E n p T V Q"
  shows "nat_set_state_ipv4 (pe_nat E) t dest src dport sport sk (p_nat p) = Some h \<Longrightarrow>
    \<exists>p' ms. poller_set_state_ipv4 E t dest src dport sport sk tx_rx p = Some p' \<and> udp_view p' = udp_view p \<and>
      p_nat p' \<in> {p_nat p, h} \<and> p_writer p' = p_writer p @ ms \<and> set ms \<subseteq> {In_set_state_ipv4 t dest src dport sport sk tx_rx} \<and>
      tcp_rel E n p' T V Q \<and> (T sk \<noteq> None \<longrightarrow> complaints p' = complaints p)"
    and "nat_set_state_ipv6 (pe_nat E) t dest6 src6 dport sport sk (p_nat p) = Some h \<Longrightarrow>
    \<exists>p' ms. poller_set_state_ipv6 E t dest6 src6 dport sport sk tx_rx p = Some p' \<and> udp_view p' = udp_view p \<and>
      p_nat p' \<in> {p_nat p, h} \<and> p_writer p' = p_writer p @ ms \<and> set ms \<subseteq> {In_set_state_ipv6 t dest6 src6 dport sport sk tx_rx} \<and>
      tcp_rel E n p' T V Q \<and> (T sk \<noteq> None \<longrightarrow> complaints p' = complaints p)"
proof -
  note r = tcp_relD [OF rel]
  have view: "tcp_rel E n (q\<lparr>p_nat := h\<rparr>) T V Q = tcp_rel E n q T V Q" for q by (simp add: tcp_rel_def)
  have u: "udp_view (q\<lparr>p_nat := h\<rparr>) = udp_view q" "complaints (q\<lparr>p_nat := h\<rparr>) = complaints q" for q :: "('a, 'b, 'c, 'd, 'e) poller"
    by (simp_all add: udp_view_def complaints_def)
  consider (none) "T sk = None" "fh_find (pe_hash E) sk (tcp_table p) = Some (fh_invalid (tcp_table p))"
    | (some) i where "T sk \<noteq> None" "fh_find (pe_hash E) sk (tcp_table p) = Some i" "i \<noteq> fh_invalid (tcp_table p)"
    using fh.find_None [OF r(1), of sk] fh.find_Some [OF r(1), of sk] by (cases "T sk") auto
  note cs = this
  show "\<exists>p' ms. poller_set_state_ipv4 E t dest src dport sport sk tx_rx p = Some p' \<and> udp_view p' = udp_view p \<and>
      p_nat p' \<in> {p_nat p, h} \<and> p_writer p' = p_writer p @ ms \<and> set ms \<subseteq> {In_set_state_ipv4 t dest src dport sport sk tx_rx} \<and>
      tcp_rel E n p' T V Q \<and> (T sk \<noteq> None \<longrightarrow> complaints p' = complaints p)"
    if "nat_set_state_ipv4 (pe_nat E) t dest src dport sport sk (p_nat p) = Some h"
    using cs by cases (use rel that in \<open>auto simp: poller_set_state_ipv4_def tcp_rel_view [of "tcp_missing _ _"] view u
      tcp_rel_view [of "say _ _"]\<close>)
  show "\<exists>p' ms. poller_set_state_ipv6 E t dest6 src6 dport sport sk tx_rx p = Some p' \<and> udp_view p' = udp_view p \<and>
      p_nat p' \<in> {p_nat p, h} \<and> p_writer p' = p_writer p @ ms \<and> set ms \<subseteq> {In_set_state_ipv6 t dest6 src6 dport sport sk tx_rx} \<and>
      tcp_rel E n p' T V Q \<and> (T sk \<noteq> None \<longrightarrow> complaints p' = complaints p)"
    if "nat_set_state_ipv6 (pe_nat E) t dest6 src6 dport sport sk (p_nat p) = Some h"
    using cs by cases (use rel that in \<open>auto simp: poller_set_state_ipv6_def tcp_rel_view [of "tcp_missing _ _"] view u
      tcp_rel_view [of "say _ _"]\<close>)
qed

subsection \<open>Statistics\<close>

abbreviation unsent :: "tcp_statistics \<Rightarrow> tcp_statistics" where
  "unsent st \<equiv> st\<lparr>ts_valid := False\<rparr>"

text \<open>What is written for a statistic: nothing unless it is to be sent.\<close>

definition stats_messages :: "u64 \<Rightarrow> u64 \<Rightarrow> tcp_statistics \<Rightarrow> ingest list" where
  "stats_messages t sk st = (if ts_valid st then socket_stats_messages t sk st else [])"

lemma unsent_id: "\<not> ts_valid st \<Longrightarrow> unsent st = st"
  by (cases st) simp

lemma close_epoch_rel:
  assumes rel: "tcp_rel E n p T V Q" and x: "unat i < n" and b: "b < 2"
    and e: "e = ms_slot (tcp_stats p) (unat b)"
  shows "\<exists>p'. close_epoch t sk i b p = Some p' \<and> udp_view p' = udp_view p \<and> p_nat p' = p_nat p \<and>
    complaints p' = complaints p \<and> p_writer p' = p_writer p @ stats_messages t sk (V (unat i) e) \<and>
    tcp_rel E n p' T (V(unat i := (V (unat i))(e := unsent (V (unat i) e)))) Q \<and> ms_same (tcp_stats p) (tcp_stats p') \<and>
    tcp_table p' = tcp_table p"
proof -
  note r = tcp_relD [OF rel]
  have e2: "e < 2" using two_slots(1,2) [OF r(9)] ms_slot_less [of "tcp_stats p" "unat b"] r(6,9) e by (simp add: ms_rep_def)
  have b': "b < ms_epochs (tcp_stats p)" using r(8) b by (simp add: n_epochs_def)
  obtain s1 where s1: "lookup_relative i b False (tcp_stats p) = Some ((i \<in> set (Q e), (unat i, e)), s1)"
    "ms_rep s1 V Q" "ms_same (tcp_stats p) s1"
    using lookup_relative_rep [OF r(6) _ b' e, of i False] x r(7) by auto
  note sl = ms_same_slot [OF s1(3)]
  have m: "metric_at (unat i, e) s1 = V (unat i) e"
    using metric_at_rep [OF s1(2), of "unat i" e] x r(7,9) sl e2 by simp
  let ?m = "unsent (V (unat i) e)" and ?V = "V(unat i := (V (unat i))(e := unsent (V (unat i) e)))"
  note a = metric_assign_rep [OF s1(2), of "unat i" e ?m]
  have a: "ms_rep (metric_assign (unat i, e) ?m s1) ?V Q" "ms_same (tcp_stats p) (metric_assign (unat i, e) ?m s1)"
    using a ms_same_trans [OF s1(3)] x r(7,9) sl e2 by auto
  have valid: "j \<in> set (Q e') \<and> j \<in> fst ` ran T" if "unat j < n" "e' < 2" "ts_valid (?V (unat j) e')" for j e'
    using that r(10) [of j e'] by (auto split: if_splits)
  show ?thesis
  proof (cases "ts_valid (V (unat i) e)")
    case True
    then show ?thesis using s1(1) m a tcp_store_rel [OF rel a valid]
      by (simp add: close_epoch_def send_socket_stats_def stats_messages_def tcp_rel_view [of "say _ _"])
        (simp add: udp_view_def complaints_def)
  next
    case False
    then have "?V = V" by (simp add: unsent_id)
    then show ?thesis using False s1 m tcp_store_rel [OF rel s1(2,3)] r(10)
      by (simp add: close_epoch_def stats_messages_def) (simp add: udp_view_def complaints_def)
  qed
qed

text \<open>The statistics of an index after both epochs have been sent.\<close>

definition both_sent :: "nat \<Rightarrow> (nat \<Rightarrow> nat \<Rightarrow> tcp_statistics) \<Rightarrow> nat \<Rightarrow> nat \<Rightarrow> tcp_statistics" where
  "both_sent i V = (\<lambda>j e. if j = i \<and> e < 2 then unsent (V j e) else V j e)"

lemma handle_close_rel:
  assumes rel: "tcp_rel E n p T V Q" and h: "nat_close_socket (pe_nat E) sk (p_nat p) = Some h"
  shows "\<exists>p'. handle_close_socket E t sk p = Some p' \<and> udp_view p' = udp_view p \<and>
    (case T sk of
       None \<Rightarrow> p_nat p' = p_nat p \<and> p_writer p' = p_writer p \<and> tcp_rel E n p' T V Q
     | Some (i, x) \<Rightarrow> p_nat p' = h \<and> complaints p' = complaints p \<and>
         (\<exists>e e'. (e = 0 \<and> e' = 1 \<or> e = 1 \<and> e' = 0) \<and> p_writer p' = p_writer p @ stats_messages t sk (V (unat i) e) @
            stats_messages t sk (V (unat i) e') @ [In_close_sock_info t sk]) \<and>
         tcp_rel E n p' (T(sk := None)) (both_sent (unat i) V) Q)"
proof -
  note r = tcp_relD [OF rel]
  show ?thesis
  proof (cases "T sk")
    case None
    then show ?thesis using fh.find_None [OF r(1), of sk] rel
      by (simp add: handle_close_socket_def tcp_rel_view [of "tcp_missing _ _"])
  next
    case (Some ix)
    then obtain i x where x: "T sk = Some (i, x)" by (cases ix) auto
    have i: "unat i < n" using r(5) [OF x] .
    define e where "e = ms_slot (tcp_stats p) (unat (0 :: u32))"
    define e' where "e' = ms_slot (tcp_stats p) (unat (1 :: u32))"
    have ee: "e < 2" "e' < 2" "e \<noteq> e'" "\<And>f. f < 2 \<Longrightarrow> f = e \<or> f = e'"
      using two_slots [OF r(9)] unfolding e_def e'_def by simp_all
    then have sl: "e = 0 \<and> e' = 1 \<or> e = 1 \<and> e' = 0" by auto
    let ?V0 = "V(unat i := (V (unat i))(e := unsent (V (unat i) e)))"
    obtain p0 where p0: "close_epoch t sk i 0 p = Some p0" "udp_view p0 = udp_view p" "p_nat p0 = p_nat p"
      "complaints p0 = complaints p" "p_writer p0 = p_writer p @ stats_messages t sk (V (unat i) e)"
      "tcp_rel E n p0 T ?V0 Q" "ms_same (tcp_stats p) (tcp_stats p0)" "tcp_table p0 = tcp_table p"
      using close_epoch_rel [OF rel i _ e_def, of t sk] by auto
    have e1: "e' = ms_slot (tcp_stats p0) (unat (1 :: u32))" using ms_same_slot [OF p0(7)] e'_def by simp
    have "?V0 (unat i) e' = V (unat i) e'" using ee(3) by simp
    then obtain p1 where p1: "close_epoch t sk i 1 p0 = Some p1" "udp_view p1 = udp_view p" "p_nat p1 = p_nat p"
      "complaints p1 = complaints p" "p_writer p1 = p_writer p @ stats_messages t sk (V (unat i) e) @ stats_messages t sk (V (unat i) e')"
      "tcp_rel E n p1 T (?V0(unat i := (?V0 (unat i))(e' := unsent (V (unat i) e')))) Q" "tcp_table p1 = tcp_table p"
      using close_epoch_rel [OF p0(6) i _ e1, of t sk] p0 by auto
    have V: "(?V0(unat i := (?V0 (unat i))(e' := unsent (V (unat i) e')))) j f = both_sent (unat i) V j f" if "f < 2" for j f
      using ee(4) [OF that] ee(1-3) by (auto simp: both_sent_def)
    obtain h' where h': "fh_erase (pe_hash E) sk (tcp_table p1) = Some (True, h')" "fh_rep (pe_hash E) h' (T(sk := None))" "cap h' = n"
      using fh.del_rep [OF r(1), of sk] x r(2) p1(7) by auto
    let ?p = "(say [In_close_sock_info t sk] (p1\<lparr>tcp_table := h'\<rparr>))\<lparr>p_nat := h\<rparr>"
    have own: "j \<in> fst ` ran (T(sk := None))" if j: "j \<in> fst ` ran T" "j \<noteq> i" for j
      using j x by (force simp: ran_def image_iff)
    note r1 = tcp_relD [OF p1(6)]
    have "ms_rep (tcp_stats p1) (both_sent (unat i) V) Q" by (rule ms_rep_cong [OF r1(6)]) (use V r1(9) in simp)
    moreover have "j \<in> set (Q f) \<and> j \<in> fst ` ran (T(sk := None))"
      if "unat j < n" "f < 2" "ts_valid (both_sent (unat i) V (unat j) f)" for j f
      using that r(10) [of j f] own [of j] by (simp add: both_sent_def split: if_splits)
    ultimately have "tcp_rel E n ?p (T(sk := None)) (both_sent (unat i) V) Q"
      using p1(6) h'(2,3) by (simp add: tcp_rel_def)
    moreover have "handle_close_socket E t sk p = Some ?p"
      using p0(1) p1(1,3) h'(1) h fh.find_Some [OF r(1) x] by (simp add: handle_close_socket_def)
    moreover have "udp_view ?p = udp_view p" "complaints ?p = complaints p"
      using p1(2,4) by (simp_all add: udp_view_def complaints_def say_def)
    moreover have "p_writer ?p = p_writer p @ stats_messages t sk (V (unat i) e) @ stats_messages t sk (V (unat i) e') @
        [In_close_sock_info t sk]" using p1(5) by simp
    ultimately show ?thesis using x sl by (intro exI [of _ ?p]) (simp, blast)
  qed
qed

text \<open>A report of counters \<open>y\<close> for a socket whose last counters were \<open>x\<close>.\<close>

definition rtt_counters :: "u64 \<Rightarrow> u32 \<Rightarrow> u32 \<Rightarrow> u32 \<Rightarrow> u64 \<Rightarrow> u32 \<Rightarrow> tcp_socket_entry" where
  "rtt_counters acked delivered retrans holes received rdelivered =
     \<lparr>te_bytes_acked = acked, te_packets_delivered = delivered, te_packets_retrans = retrans,
      te_bytes_received = received, te_rcv_holes = holes, te_rcv_delivered = rdelivered\<rparr>"

definition add_report :: "tcp_socket_entry \<Rightarrow> tcp_socket_entry \<Rightarrow> u32 \<Rightarrow> u32 \<Rightarrow> tcp_statistics \<Rightarrow> tcp_statistics" where
  "add_report x y srtt rcv_rtt st =
     add_tcp_stats (nonneg (te_bytes_acked y - te_bytes_acked x)) (nonneg (te_packets_delivered y - te_packets_delivered x))
       (nonneg (te_packets_retrans y - te_packets_retrans x)) srtt (nonneg (te_bytes_received y - te_bytes_received x))
       (nonneg (te_rcv_holes y - te_rcv_holes x)) (nonneg (te_rcv_delivered y - te_rcv_delivered x)) rcv_rtt st"

lemma handle_rtt_rel:
  assumes rel: "tcp_rel E n p T V Q" and y: "y = rtt_counters acked delivered retrans holes received rdelivered"
  shows "\<exists>p'. handle_rtt_estimator E t srtt acked sk delivered retrans holes received rdelivered rcv_rtt p = Some p' \<and>
    udp_view p' = udp_view p \<and> p_nat p' = p_nat p \<and> complaints p' = complaints p \<and> p_writer p' = p_writer p \<and>
    (case T sk of
       None \<Rightarrow> tcp_rel E n p' T V Q
     | Some (i, x) \<Rightarrow> \<exists>e Q'. e < 2 \<and> tcp_rel E n p' (T(sk \<mapsto> (i, y)))
         (V(unat i := (V (unat i))(e := add_report x y srtt rcv_rtt (V (unat i) e)))) Q')"
proof -
  note r = tcp_relD [OF rel]
  show ?thesis
  proof (cases "T sk")
    case None
    then show ?thesis using fh.find_None [OF r(1), of sk] rel by (simp add: handle_rtt_estimator_def)
  next
    case (Some ix)
    then obtain i x where x: "T sk = Some (i, x)" by (cases ix) auto
    have i: "unat i < n" using r(5) [OF x] .
    have y': "x\<lparr>te_bytes_acked := acked, te_packets_delivered := delivered, te_packets_retrans := retrans,
      te_bytes_received := received, te_rcv_holes := holes, te_rcv_delivered := rdelivered\<rparr> = y"
      by (cases x) (simp add: y rtt_counters_def)
    obtain h' where h': "fh_assign i y (tcp_table p) = Some h'" "tcp_rel E n (p\<lparr>tcp_table := h'\<rparr>) (T(sk \<mapsto> (i, y))) V Q"
      using tcp_assign_rel [OF rel x] by blast
    define e where "e = ms_slot (tcp_stats p) (bin_of (tcp_stats p) t)"
    let ?Q = "if i \<notin> set (Q e) then Q(e := i # Q e) else Q"
    obtain s1 where s1: "ms_lookup i t True (tcp_stats p) = Some ((i \<in> set (Q e), (unat i, e)), s1)"
      "ms_rep s1 V ?Q" "ms_same (tcp_stats p) s1" "e < 2"
      using ms_lookup_rep [OF r(6) _ e_def, of i True] i r(7,9) by auto
    note sl = ms_same_slot [OF s1(3)]
    have m: "metric_at (unat i, e) s1 = V (unat i) e"
      using metric_at_rep [OF s1(2), of "unat i" e] i r(7,9) sl s1(4) by simp
    let ?m = "add_report x y srtt rcv_rtt (V (unat i) e)"
    let ?V = "V(unat i := (V (unat i))(e := ?m))" and ?s = "metric_assign (unat i, e) ?m s1"
    have a: "ms_rep ?s ?V ?Q" "ms_same (tcp_stats p) ?s"
      using metric_assign_rep [OF s1(2), of "unat i" e ?m] ms_same_trans [OF s1(3)] i r(7,9) sl s1(4) by auto
    have own: "i \<in> fst ` ran T" using x by (force intro: ranI)
    have "j \<in> set (?Q f) \<and> j \<in> fst ` ran (T(sk \<mapsto> (i, y)))" if "unat j < n" "f < 2" "ts_valid (?V (unat j) f)" for j f
      using that r(10) [of j f] own unfolding ran_assign [of T, OF x] by (cases "j = i") (auto split: if_splits)
    from tcp_store_rel [OF h'(2), of ?s ?V ?Q, OF a(1) _ this]
    have "tcp_rel E n (p\<lparr>tcp_table := h', tcp_stats := ?s\<rparr>) (T(sk \<mapsto> (i, y))) ?V ?Q" using a(2) by simp
    moreover have "handle_rtt_estimator E t srtt acked sk delivered retrans holes received rdelivered rcv_rtt p =
        Some (p\<lparr>tcp_table := h', tcp_stats := ?s\<rparr>)"
      using fh.find_Some [OF r(1) x] h'(1) s1(1) m
      by (simp add: handle_rtt_estimator_def y' add_report_def) (simp add: y rtt_counters_def)
    ultimately show ?thesis using x s1(4) by (simp add: udp_view_def complaints_def) blast
  qed
qed

lemma tcp_drain_list:
  assumes "distinct is" and "\<And>i. i \<in> set is \<Longrightarrow> unat i < length idx"
  shows "drain_list (tcp_drain_body t idx) e is V w =
    Some (\<lambda>j f. if f = e \<and> j \<in> unat ` set is then unsent (V j f) else V j f,
      w @ concat (map (\<lambda>i. stats_messages t (idx ! unat i) (V (unat i) e)) is))"
  using assms
proof (induction "is" arbitrary: V w)
  case (Cons i "is")
  let ?V = "V(unat i := (V (unat i))(e := unsent (V (unat i) e)))"
  have step: "drain_list (tcp_drain_body t idx) e (i # is) V w =
      drain_list (tcp_drain_body t idx) e is ?V (w @ stats_messages t (idx ! unat i) (V (unat i) e))"
    using Cons.prems(2) [of i] by (simp add: tcp_drain_body_def send_socket_stats_def stats_messages_def unsent_id)
  have same: "concat (map (\<lambda>j. stats_messages t (idx ! unat j) (?V (unat j) e)) is) =
      concat (map (\<lambda>j. stats_messages t (idx ! unat j) (V (unat j) e)) is)"
    using Cons.prems(1) by (auto intro!: arg_cong [where f = concat])
  have ih: "drain_list (tcp_drain_body t idx) e is ?V w' = Some (\<lambda>j f. if f = e \<and> j \<in> unat ` set is then unsent (?V j f) else ?V j f,
      w' @ concat (map (\<lambda>i. stats_messages t (idx ! unat i) (?V (unat i) e)) is))" for w'
    by (rule Cons.IH) (use Cons.prems in auto)
  show ?case unfolding step ih same by (auto simp: fun_eq_iff)
qed simp

lemma relative_timeslot_store: "\<exists>c. snd (relative_timeslot t s) = s\<lparr>current_timeslot := c\<rparr>"
  by (simp add: relative_timeslot_def Let_def) blast

lemma tcp_rel_timeslot: "tcp_rel E n p T V Q \<Longrightarrow> tcp_rel E n (p\<lparr>tcp_stats := snd (relative_timeslot t (tcp_stats p))\<rparr>) T V Q"
  using relative_timeslot_store [of t "tcp_stats p"] by (auto simp: tcp_rel_def rep_timeslot)

text \<open>After the statistics of the current slot have been sent, none of it is left to be sent.\<close>

lemma send_stats_rel:
  assumes rel: "tcp_rel E n p T V Q" and e: "e = ms_slot (tcp_stats p) 0"
  shows "\<exists>p'. send_stats_from_queue t p = Some p' \<and> udp_view p' = udp_view p \<and> p_nat p' = p_nat p \<and> complaints p' = complaints p \<and>
    (if fst (relative_timeslot t (tcp_stats p)) = 0 then p_writer p' = p_writer p \<and> tcp_rel E n p' T V Q
     else p_writer p' = p_writer p @ concat (map (\<lambda>i. stats_messages t (tcp_index_to_sk p ! unat i) (V (unat i) e)) (Q e)) \<and>
       tcp_rel E n p' T (\<lambda>j f. if f = e \<and> j \<in> unat ` set (Q e) then unsent (V j f) else V j f) (Q(e := [])) \<and>
       ms_slot (tcp_stats p') 0 = ms_slot (tcp_stats p) 1)"
proof -
  note r = tcp_relD [OF rel]
  obtain rl s1 where rs: "relative_timeslot t (tcp_stats p) = (rl, s1)" by (cases "relative_timeslot t (tcp_stats p)")
  have rel1: "tcp_rel E n (p\<lparr>tcp_stats := s1\<rparr>) T V Q" using tcp_rel_timeslot [OF rel, of t] by (simp add: rs)
  note r1 = tcp_relD [OF rel1]
  have s1: "ms_slot s1 = ms_slot (tcp_stats p)"
    using relative_timeslot_store [of t "tcp_stats p"] by (auto simp: rs ms_slot_def ms_n_def)
  show ?thesis
  proof (cases "rl = 0")
    case True
    then show ?thesis using rel1 by (simp add: send_stats_from_queue_def rs udp_view_def complaints_def)
  next
    case False
    let ?V = "\<lambda>j f. if f = e \<and> j \<in> unat ` set (Q e) then unsent (V j f) else V j f"
    let ?w = "p_writer p @ concat (map (\<lambda>i. stats_messages t (tcp_index_to_sk p ! unat i) (V (unat i) e)) (Q e))"
    have e2: "e < 2" using two_slots(1) [OF r(9)] e by simp
    have q: "distinct (Q e)" "i \<in> set (Q e) \<Longrightarrow> unat i < n" for i
      using r1(6,7,9) e2 by (auto simp: ms_rep_def queue_ok_def)
    have dl: "drain_list (tcp_drain_body t (tcp_index_to_sk p)) e (Q e) V (p_writer p) = Some (?V, ?w)"
      using tcp_drain_list [OF q(1)] q(2) r(3) by simp
    obtain s2 where s2: "drain_queue (tcp_drain_body t (tcp_index_to_sk p)) s1 (p_writer p) = Some (s2, ?w)"
      "ms_rep s2 ?V (Q(e := []))" "ms_same s1 s2"
      using drain_queue_rep [OF r1(6), of e "tcp_drain_body t (tcp_index_to_sk p)" "p_writer p"] e s1 dl by auto
    let ?p = "p\<lparr>tcp_stats := ms_advance s2, p_writer := ?w\<rparr>"
    have sz: "ms_size (ms_advance s2) = n" "ms_epochs (ms_advance s2) = n_epochs"
      using s2(3) r1(7,8) by (simp_all add: ms_advance_def ms_same_def)
    have "j \<in> set ((Q(e := [])) f) \<and> j \<in> fst ` ran T" if "unat j < n" "f < 2" "ts_valid (?V (unat j) f)" for j f
      using that r(10) [of j f] by (auto split: if_splits)
    then have "tcp_rel E n ?p T ?V (Q(e := []))"
      using rel advance_rep(1) [OF s2(2)] sz by (simp add: tcp_rel_def)
    moreover have "ms_slot (ms_advance s2) 0 = ms_slot (tcp_stats p) 1"
      using advance_rep(2) [OF s2(2), of 0] ms_same_slot [OF s2(3), of 1] s1 by simp
    ultimately show ?thesis using False s2(1) rs by (simp add: send_stats_from_queue_def udp_view_def complaints_def)
  qed
qed

section \<open>What is reported\<close>

fun foreign :: "ingest \<Rightarrow> bool" where
  "foreign (In_socket_stats t sk bytes delivered lost rtt dir) = False"
| "foreign _ = True"

text \<open>What the messages written report of a socket, and what its statistics still hold.\<close>

definition sum_reported :: "(u64 \<Rightarrow> ingest \<Rightarrow> 'a::len word) \<Rightarrow> u64 \<Rightarrow> ingest list \<Rightarrow> 'a word" where
  "sum_reported msg sk w = sum_list (map (msg sk) w)"

definition owed :: "(tcp_statistics \<Rightarrow> 'a::len word) \<Rightarrow> tcp_statistics \<Rightarrow> 'a word" where
  "owed stat st = (if ts_valid st then stat st else 0)"

definition outstanding ::
    "(tcp_statistics \<Rightarrow> 'a::len word) \<Rightarrow> (u64 \<rightharpoonup> u32 \<times> tcp_socket_entry) \<Rightarrow> (nat \<Rightarrow> nat \<Rightarrow> tcp_statistics) \<Rightarrow> u64 \<Rightarrow> 'a word" where
  "outstanding stat T V sk =
     (case T sk of None \<Rightarrow> 0 | Some (i, x) \<Rightarrow> owed stat (V (unat i) 0) + owed stat (V (unat i) 1))"

definition balanced ::
    "(u64 \<Rightarrow> ingest \<Rightarrow> 'a::len word) \<Rightarrow> (tcp_statistics \<Rightarrow> 'a word) \<Rightarrow> ingest list \<Rightarrow> (u64 \<rightharpoonup> u32 \<times> tcp_socket_entry) \<Rightarrow>
     (nat \<Rightarrow> nat \<Rightarrow> tcp_statistics) \<Rightarrow> (u64 \<Rightarrow> 'a word) \<Rightarrow> bool" where
  "balanced msg stat w T V G \<longleftrightarrow> (\<forall>sk. sum_reported msg sk w + outstanding stat T V sk = G sk)"

lemma sum_reported_append [simp]: "sum_reported msg sk (v @ w) = sum_reported msg sk v + sum_reported msg sk w"
  by (simp add: sum_reported_def)

lemma sum_reported_Nil [simp]: "sum_reported msg sk [] = 0"
  by (simp add: sum_reported_def)

lemma owed_unsent [simp]: "owed stat (unsent st) = 0"
  by (simp add: owed_def)

lemma add_report_valid: "ts_valid (add_report x y srtt rcv_rtt st)"
  by (simp add: add_report_def add_tcp_stats_def)

lemma sum_list_single:
  "distinct xs \<Longrightarrow> (\<And>x. x \<in> set xs \<Longrightarrow> x \<noteq> i \<Longrightarrow> f x = 0) \<Longrightarrow> sum_list (map f xs) = (if i \<in> set xs then f i else 0 :: 'a::len word)"
  by (induction xs) (auto simp: sum_list_0)

locale tcp_counter =
  fixes msg :: "u64 \<Rightarrow> ingest \<Rightarrow> 'a::len word"
    and stat :: "tcp_statistics \<Rightarrow> 'a word"
    and entry :: "tcp_socket_entry \<Rightarrow> 'a word"
  assumes sent: "sum_reported msg sk (socket_stats_messages t k st) = (if k = sk then stat st else 0)"
    and foreign_msg: "foreign m \<Longrightarrow> msg sk m = 0"
    and grows: "stat (add_report x y srtt rcv_rtt st) = owed stat st + nonneg (entry y - entry x)"
begin

lemma sum_reported_foreign: "list_all foreign ms \<Longrightarrow> sum_reported msg sk ms = 0"
  by (induction ms) (simp_all add: sum_reported_def foreign_msg)

lemma bal_foreign: "balanced msg stat w T V G \<Longrightarrow> list_all foreign ms \<Longrightarrow> balanced msg stat (w @ ms) T V G"
  by (simp add: balanced_def sum_reported_foreign)

lemma sum_reported_stats: "sum_reported msg sk (stats_messages t k st) = (if k = sk then owed stat st else 0)"
  by (simp add: stats_messages_def owed_def sent)

lemma bal_open:
  assumes "balanced msg stat w T V G" "tcp_rel E n p T V Q" "i \<notin> fst ` ran T" "unat i < n" "T sk = None"
  shows "balanced msg stat w (T(sk \<mapsto> (i, x))) V G"
proof -
  have "\<not> ts_valid (V (unat i) e)" if "e < 2" for e using tcp_relD(10) [OF assms(2,4) that] assms(3) by blast
  then have "outstanding stat (T(sk \<mapsto> (i, x))) V k = outstanding stat T V k" for k
    using assms(5) by (simp add: outstanding_def owed_def)
  then show ?thesis using assms(1) by (simp add: balanced_def)
qed

lemma bal_close:
  assumes bal: "balanced msg stat w T V G" and rel: "tcp_rel E n p T V Q" and x: "T sk = Some (i, x)"
    and e: "e = 0 \<and> e' = 1 \<or> e = 1 \<and> e' = 0"
  shows "balanced msg stat (w @ stats_messages t sk (V (unat i) e) @ stats_messages t sk (V (unat i) e') @ [In_close_sock_info t sk])
    (T(sk := None)) (both_sent (unat i) V) G"
  unfolding balanced_def
proof
  fix k
  have r: "sum_reported msg k [In_close_sock_info t sk] = 0" by (rule sum_reported_foreign) simp
  have "outstanding stat (T(sk := None)) (both_sent (unat i) V) k = outstanding stat T V k" if "k \<noteq> sk"
    using that fh.index_inj [OF tcp_relD(1) [OF rel] x, of k]
    by (auto simp: outstanding_def both_sent_def split: option.split)
  moreover have "sum_reported msg k w + outstanding stat T V k = G k" using bal by (simp add: balanced_def)
  ultimately show "sum_reported msg k (w @ stats_messages t sk (V (unat i) e) @ stats_messages t sk (V (unat i) e') @
      [In_close_sock_info t sk]) + outstanding stat (T(sk := None)) (both_sent (unat i) V) k = G k"
    unfolding sum_reported_append r sum_reported_stats
    using x e by (cases "k = sk") (auto simp: outstanding_def ac_simps)
qed

lemma bal_grow:
  assumes bal: "balanced msg stat w T V G" and rel: "tcp_rel E n p T V Q" and x: "T sk = Some (i, x)" and e: "e < 2"
  shows "balanced msg stat w (T(sk \<mapsto> (i, y))) (V(unat i := (V (unat i))(e := add_report x y srtt rcv_rtt (V (unat i) e))))
    (G(sk := G sk + nonneg (entry y - entry x)))"
  unfolding balanced_def
proof
  fix k
  let ?T = "T(sk \<mapsto> (i, y))" and ?V = "V(unat i := (V (unat i))(e := add_report x y srtt rcv_rtt (V (unat i) e)))"
  have 1: "outstanding stat ?T ?V k = outstanding stat T V k" if "k \<noteq> sk"
    using that fh.index_inj [OF tcp_relD(1) [OF rel] x, of k] by (auto simp: outstanding_def split: option.split)
  have "e = 0 \<or> e = 1" using e by auto
  then have 2: "outstanding stat ?T ?V sk = outstanding stat T V sk + nonneg (entry y - entry x)"
    using x by (auto simp: outstanding_def owed_def [of stat "add_report _ _ _ _ _"] add_report_valid grows)
  have "sum_reported msg k w + outstanding stat T V k = G k" using bal by (simp add: balanced_def)
  then show "sum_reported msg k w + outstanding stat ?T ?V k = (G(sk := G sk + nonneg (entry y - entry x))) k"
    using 1 2 by (cases "k = sk") (auto simp: add.assoc [symmetric])
qed

lemma sum_reported_drain:
  "sum_reported msg sk (concat (map (\<lambda>i. stats_messages t (idx ! unat i) (V (unat i) e)) is)) =
    sum_list (map (\<lambda>i. if idx ! unat i = sk then owed stat (V (unat i) e) else 0) is)"
  by (induction "is") (simp_all add: sum_reported_stats)

lemma bal_drain:
  assumes bal: "balanced msg stat w T V G" and rel: "tcp_rel E n p T V Q" and e: "e < 2"
    and idx: "idx = tcp_index_to_sk p"
  shows "balanced msg stat (w @ concat (map (\<lambda>i. stats_messages t (idx ! unat i) (V (unat i) e)) (Q e))) T
    (\<lambda>j f. if f = e \<and> j \<in> unat ` set (Q e) then unsent (V j f) else V j f) G"
  unfolding balanced_def
proof
  fix sk
  note r = tcp_relD [OF rel]
  let ?V = "\<lambda>j f. if f = e \<and> j \<in> unat ` set (Q e) then unsent (V j f) else V j f"
  let ?f = "\<lambda>i. if idx ! unat i = sk then owed stat (V (unat i) e) else 0"
  have q: "distinct (Q e)" "i \<in> set (Q e) \<Longrightarrow> unat i < n" for i
    using r(6,7,9) e by (auto simp: ms_rep_def queue_ok_def)
  have own: "\<exists>x. T sk = Some (i, x)" if "i \<in> set (Q e)" "?f i \<noteq> 0" for i
  proof -
    have v: "ts_valid (V (unat i) e)" "idx ! unat i = sk" using that(2) by (auto simp: owed_def split: if_splits)
    have "i \<in> fst ` ran T" using r(10) [OF q(2) [OF that(1)] e v(1)] by simp
    then obtain k x where "T k = Some (i, x)" by (auto simp: ran_def)
    then show ?thesis using r(4) [of k i x] v(2) idx by auto
  qed
  have "sum_reported msg sk w + outstanding stat T V sk = G sk" using bal by (simp add: balanced_def)
  moreover have "sum_list (map ?f (Q e)) + outstanding stat T ?V sk = outstanding stat T V sk"
  proof (cases "T sk")
    case None
    then have "?f i = 0" if "i \<in> set (Q e)" for i using own [OF that] by fastforce
    then have "map ?f (Q e) = map (\<lambda>_. 0) (Q e)" by (intro map_cong) simp_all
    then have "sum_list (map ?f (Q e)) = 0" by (simp only: sum_list_0)
    then show ?thesis using None by (simp add: outstanding_def)
  next
    case (Some ix)
    then obtain i x where x: "T sk = Some (i, x)" by (cases ix) auto
    have i: "unat i < n" "idx ! unat i = sk" using r(4,5) [OF x] idx by simp_all
    have "?f j = 0" if "j \<in> set (Q e)" "j \<noteq> i" for j using own [OF that(1)] x that(2) by fastforce
    then have "sum_list (map ?f (Q e)) = (if i \<in> set (Q e) then owed stat (V (unat i) e) else 0)"
      using sum_list_single [OF q(1), of i ?f] i(2) by simp
    moreover have "owed stat (V (unat i) e) = 0" if "i \<notin> set (Q e)"
      using r(10) [OF i(1) e] that by (auto simp: owed_def)
    moreover have "e = 0 \<or> e = 1" using e by auto
    ultimately show ?thesis using x by (auto simp: outstanding_def)
  qed
  ultimately show "sum_reported msg sk (w @ concat (map (\<lambda>i. stats_messages t (idx ! unat i) (V (unat i) e)) (Q e))) +
      outstanding stat T ?V sk = G sk" unfolding sum_reported_append sum_reported_drain by (simp add: add.assoc)
qed

end

subsection \<open>The four counters\<close>

fun msg_bytes :: "u8 \<Rightarrow> u64 \<Rightarrow> ingest \<Rightarrow> u64" where
  "msg_bytes d k (In_socket_stats t sk bytes delivered lost rtt dir) = (if k = sk \<and> d = dir then bytes else 0)"
| "msg_bytes d k _ = 0"

fun msg_lost :: "u8 \<Rightarrow> u64 \<Rightarrow> ingest \<Rightarrow> u32" where
  "msg_lost d k (In_socket_stats t sk bytes delivered lost rtt dir) = (if k = sk \<and> d = dir then lost else 0)"
| "msg_lost d k _ = 0"

lemma foreign_zero: "foreign m \<Longrightarrow> msg_bytes d k m = 0 \<and> msg_lost d k m = 0"
  by (cases m) simp_all

interpretation ab: tcp_counter "msg_bytes 0" ts_bytes_acked te_bytes_acked
  by unfold_locales (auto simp: sum_reported_def socket_stats_messages_def foreign_zero add_report_def add_tcp_stats_def owed_def
    word_gt_0)

interpretation rt: tcp_counter "msg_lost 0" ts_retrans te_packets_retrans
  by unfold_locales (auto simp: sum_reported_def socket_stats_messages_def foreign_zero add_report_def add_tcp_stats_def owed_def
    word_gt_0)

interpretation rb: tcp_counter "msg_bytes 1" ts_bytes_received te_bytes_received
  by unfold_locales (auto simp: sum_reported_def socket_stats_messages_def foreign_zero add_report_def add_tcp_stats_def owed_def
    word_gt_0)

interpretation rh: tcp_counter "msg_lost 1" ts_rcv_holes te_rcv_holes
  by unfold_locales (auto simp: sum_reported_def socket_stats_messages_def foreign_zero add_report_def add_tcp_stats_def owed_def
    word_gt_0)

section \<open>The books\<close>

text \<open>The counters of the open sockets, as the messages of the kernel give them: a table of \<open>n\<close> entries takes a
  socket unless it is full or has it.\<close>

definition open_at :: "nat \<Rightarrow> u64 \<Rightarrow> tcp_socket_entry \<Rightarrow> (u64 \<rightharpoonup> tcp_socket_entry) \<Rightarrow> (u64 \<rightharpoonup> tcp_socket_entry)" where
  "open_at n sk x C = (if card (dom C) = n \<or> C sk \<noteq> None then C else C(sk \<mapsto> x))"

fun book_open :: "nat \<Rightarrow> bpf_event \<Rightarrow> (u64 \<rightharpoonup> tcp_socket_entry) \<Rightarrow> (u64 \<rightharpoonup> tcp_socket_entry)" where
  "book_open n (Ev_new_sock_created t pid sk) C = open_at n sk tcp_socket_entry0 C"
| "book_open n (Ev_reset_tcp_counters t sk acked delivered retrans received pid) C =
     open_at n sk (tcp_socket_entry0\<lparr>te_bytes_acked := acked, te_packets_delivered := delivered,
       te_packets_retrans := retrans, te_bytes_received := received\<rparr>) C"
| "book_open n (Ev_close_sock_info t sk) C = C(sk := None)"
| "book_open n (Ev_rtt_estimator t srtt cwnd acked ca sk pif delivered retrans holes received rdelivered rcv_rtt) C =
     (if C sk = None then C else C(sk \<mapsto> rtt_counters acked delivered retrans holes received rdelivered))"
| "book_open n _ C = C"

text \<open>How much a counter of a socket has grown, differences that look negative counting as zero.\<close>

fun book_growth :: "(tcp_socket_entry \<Rightarrow> 'a::len word) \<Rightarrow> bpf_event \<Rightarrow> (u64 \<rightharpoonup> tcp_socket_entry) \<Rightarrow> (u64 \<Rightarrow> 'a word) \<Rightarrow> (u64 \<Rightarrow> 'a word)" where
  "book_growth entry (Ev_rtt_estimator t srtt cwnd acked ca sk pif delivered retrans holes received rdelivered rcv_rtt) C G =
     (case C sk of
        None \<Rightarrow> G
      | Some x \<Rightarrow> G(sk := G sk + nonneg (entry (rtt_counters acked delivered retrans holes received rdelivered) - entry x)))"
| "book_growth entry _ C G = G"

record totals =
  tt_acked :: "u64 \<Rightarrow> u64"
  tt_retrans :: "u64 \<Rightarrow> u32"
  tt_received :: "u64 \<Rightarrow> u64"
  tt_holes :: "u64 \<Rightarrow> u32"

definition book_totals :: "bpf_event \<Rightarrow> (u64 \<rightharpoonup> tcp_socket_entry) \<Rightarrow> totals \<Rightarrow> totals" where
  "book_totals ev C G =
     \<lparr>tt_acked = book_growth te_bytes_acked ev C (tt_acked G),
      tt_retrans = book_growth te_packets_retrans ev C (tt_retrans G),
      tt_received = book_growth te_bytes_received ev C (tt_received G),
      tt_holes = book_growth te_rcv_holes ev C (tt_holes G)\<rparr>"

fun books :: "nat \<Rightarrow> bpf_event list \<Rightarrow> (u64 \<rightharpoonup> tcp_socket_entry) \<times> totals \<Rightarrow> (u64 \<rightharpoonup> tcp_socket_entry) \<times> totals" where
  "books n [] b = b"
| "books n (ev # evs) (C, G) = books n evs (book_open n ev C, book_totals ev C G)"

definition books0 :: "(u64 \<rightharpoonup> tcp_socket_entry) \<times> totals" where
  "books0 = (Map.empty, \<lparr>tt_acked = \<lambda>_. 0, tt_retrans = \<lambda>_. 0, tt_received = \<lambda>_. 0, tt_holes = \<lambda>_. 0\<rparr>)"

definition accounts :: "ingest list \<Rightarrow> (u64 \<rightharpoonup> u32 \<times> tcp_socket_entry) \<Rightarrow> (nat \<Rightarrow> nat \<Rightarrow> tcp_statistics) \<Rightarrow> totals \<Rightarrow> bool" where
  "accounts w T V G \<longleftrightarrow>
     balanced (msg_bytes 0) ts_bytes_acked w T V (tt_acked G) \<and> balanced (msg_lost 0) ts_retrans w T V (tt_retrans G) \<and>
     balanced (msg_bytes 1) ts_bytes_received w T V (tt_received G) \<and> balanced (msg_lost 1) ts_rcv_holes w T V (tt_holes G)"

abbreviation counters :: "(u64 \<rightharpoonup> u32 \<times> tcp_socket_entry) \<Rightarrow> u64 \<rightharpoonup> tcp_socket_entry" where
  "counters T \<equiv> (\<lambda>sk. map_option snd (T sk))"

lemma accounts_foreign: "accounts w T V G \<Longrightarrow> list_all foreign ms \<Longrightarrow> accounts (w @ ms) T V G"
  by (simp add: accounts_def ab.bal_foreign rt.bal_foreign rb.bal_foreign rh.bal_foreign)

lemma accounts_open:
  assumes "accounts w T V G" "tcp_rel E n p T V Q" "i \<notin> fst ` ran T" "unat i < n" "T sk = None"
  shows "accounts w (T(sk \<mapsto> (i, x))) V G"
  using assms(1) ab.bal_open [OF _ assms(2-)] rt.bal_open [OF _ assms(2-)] rb.bal_open [OF _ assms(2-)]
    rh.bal_open [OF _ assms(2-)] by (simp add: accounts_def)

lemma accounts_close:
  assumes "accounts w T V G" "tcp_rel E n p T V Q" "T sk = Some (i, x)" "e = 0 \<and> e' = 1 \<or> e = 1 \<and> e' = 0"
  shows "accounts (w @ stats_messages t sk (V (unat i) e) @ stats_messages t sk (V (unat i) e') @ [In_close_sock_info t sk])
    (T(sk := None)) (both_sent (unat i) V) G"
  using assms(1) ab.bal_close [OF _ assms(2-)] rt.bal_close [OF _ assms(2-)] rb.bal_close [OF _ assms(2-)]
    rh.bal_close [OF _ assms(2-)] unfolding accounts_def by blast

lemma accounts_drain:
  assumes "accounts w T V G" "tcp_rel E n p T V Q" "e < 2" "idx = tcp_index_to_sk p"
  shows "accounts (w @ concat (map (\<lambda>i. stats_messages t (idx ! unat i) (V (unat i) e)) (Q e))) T
    (\<lambda>j f. if f = e \<and> j \<in> unat ` set (Q e) then unsent (V j f) else V j f) G"
  using assms(1) ab.bal_drain [OF _ assms(2-)] rt.bal_drain [OF _ assms(2-)] rb.bal_drain [OF _ assms(2-)]
    rh.bal_drain [OF _ assms(2-)] unfolding accounts_def by blast

text \<open>The messages of the TCP side, and that a poller in balance stays so.\<close>

definition tcp_ok :: "('m, 'n, 'c, 's, 'r) poller_env \<Rightarrow> nat \<Rightarrow> ('m, 'n, 'c, 's, 'r) poller \<Rightarrow> (u64 \<rightharpoonup> tcp_socket_entry) \<times> totals \<Rightarrow> bool" where
  "tcp_ok E n p b \<longleftrightarrow> (\<exists>T V Q. tcp_rel E n p T V Q \<and> counters T = fst b \<and> accounts (p_writer p) T V (snd b))"

fun tcp_message :: "bpf_event \<Rightarrow> bool" where
  "tcp_message (Ev_new_sock_created t pid sk) = True"
| "tcp_message (Ev_reset_tcp_counters t sk acked delivered retrans received pid) = True"
| "tcp_message (Ev_set_state_ipv4 t dest src dport sport sk tx_rx) = True"
| "tcp_message (Ev_set_state_ipv6 t dest src dport sport sk tx_rx) = True"
| "tcp_message (Ev_close_sock_info t sk) = True"
| "tcp_message (Ev_rtt_estimator t srtt cwnd acked ca sk pif delivered retrans holes received rdelivered rcv_rtt) = True"
| "tcp_message _ = False"

lemma tcp_okI: "tcp_rel E n p T V Q \<Longrightarrow> counters T = C \<Longrightarrow> accounts (p_writer p) T V G \<Longrightarrow> tcp_ok E n p (C, G)"
  unfolding tcp_ok_def by auto

lemma dom_counters: "dom (counters T) = dom T"
  by auto

lemma open_rel:
  assumes rel: "tcp_rel E n p T V Q" and acc: "accounts (p_writer p) T V G" and w: "p_writer p' = p_writer p @ ms" "list_all foreign ms"
    and p': "if card (dom T) = n \<or> T sk \<noteq> None then tcp_rel E n p' T V Q
      else complaints p' = complaints p \<and> (\<exists>i. i \<notin> fst ` ran T \<and> tcp_rel E n p' (T(sk \<mapsto> (i, x))) V Q)"
  shows "tcp_ok E n p' (open_at n sk x (counters T), G)"
    and "T sk = None \<Longrightarrow> card (dom T) \<noteq> n \<Longrightarrow> complaints p' = complaints p"
proof -
  have acc': "accounts (p_writer p') T V G" using accounts_foreign [OF acc w(2)] w(1) by simp
  show "tcp_ok E n p' (open_at n sk x (counters T), G)"
  proof (cases "card (dom T) = n \<or> T sk \<noteq> None")
    case True
    then show ?thesis using p' acc' by (auto simp: open_at_def dom_counters intro!: tcp_okI)
  next
    case False
    then obtain i where i: "i \<notin> fst ` ran T" "tcp_rel E n p' (T(sk \<mapsto> (i, x))) V Q" using p' by auto
    then have "unat i < n" using tcp_relD(5) [OF i(2), of sk i x] by simp
    moreover have "T sk = None" using False by blast
    ultimately have "accounts (p_writer p') (T(sk \<mapsto> (i, x))) V G" by (rule accounts_open [OF acc' rel i(1)])
    then show ?thesis using False i(2) by (auto simp: open_at_def dom_counters intro!: tcp_okI)
  qed
  show "complaints p' = complaints p" if "T sk = None" "card (dom T) \<noteq> n" using p' that by simp
qed

text \<open>When a message is as the kernel promises, there is nothing to complain about.\<close>

fun tcp_expected :: "nat \<Rightarrow> bpf_event \<Rightarrow> (u64 \<rightharpoonup> tcp_socket_entry) \<Rightarrow> bool" where
  "tcp_expected n (Ev_new_sock_created t pid sk) C = (C sk = None \<and> card (dom C) \<noteq> n)"
| "tcp_expected n (Ev_reset_tcp_counters t sk acked delivered retrans received pid) C = (C sk = None \<and> card (dom C) \<noteq> n)"
| "tcp_expected n (Ev_set_state_ipv4 t dest src dport sport sk tx_rx) C = (C sk \<noteq> None)"
| "tcp_expected n (Ev_set_state_ipv6 t dest6 src6 dport sport sk tx_rx) C = (C sk \<noteq> None)"
| "tcp_expected n (Ev_close_sock_info t sk) C = (C sk \<noteq> None)"
| "tcp_expected n _ C = True"

lemma close_rel:
  assumes rel: "tcp_rel E n p T V Q" and acc: "accounts (p_writer p) T V G"
    and h: "nat_close_socket (pe_nat E) sk (p_nat p) = Some h"
  shows "\<exists>p'. handle_close_socket E t sk p = Some p' \<and> udp_view p' = udp_view p \<and> p_nat p' \<in> {p_nat p, h} \<and>
    tcp_ok E n p' ((counters T)(sk := None), G) \<and> (T sk \<noteq> None \<longrightarrow> complaints p' = complaints p)"
proof -
  note H = handle_close_rel [OF rel h, of t]
  show ?thesis
  proof (cases "T sk")
    case None
    then obtain p' where "handle_close_socket E t sk p = Some p'" "udp_view p' = udp_view p" "p_nat p' = p_nat p"
      "p_writer p' = p_writer p" "tcp_rel E n p' T V Q" using H by auto
    then show ?thesis using None acc by (auto intro!: tcp_okI)
  next
    case (Some ix)
    then obtain i x where x: "T sk = Some (i, x)" by (cases ix) auto
    then obtain p' e e' where p': "handle_close_socket E t sk p = Some p'" "udp_view p' = udp_view p" "p_nat p' = h"
      "complaints p' = complaints p" "e = 0 \<and> e' = 1 \<or> e = 1 \<and> e' = 0"
      "p_writer p' = p_writer p @ stats_messages t sk (V (unat i) e) @ stats_messages t sk (V (unat i) e') @ [In_close_sock_info t sk]"
      "tcp_rel E n p' (T(sk := None)) (both_sent (unat i) V) Q" using H by (simp add: x) blast
    have "accounts (p_writer p') (T(sk := None)) (both_sent (unat i) V) G"
      unfolding p'(6) by (rule accounts_close [OF acc rel x p'(5)])
    then have "tcp_ok E n p' ((counters T)(sk := None), G)" by (intro tcp_okI [OF p'(7)]) auto
    then show ?thesis using p'(1-4) by simp
  qed
qed

lemma rtt_rel:
  assumes rel: "tcp_rel E n p T V Q" and acc: "accounts (p_writer p) T V G"
    and ev: "ev = Ev_rtt_estimator t srtt cwnd acked ca sk pif delivered retrans holes received rdelivered rcv_rtt"
  shows "\<exists>p'. handle_message E ev p = Some p' \<and> udp_view p' = udp_view p \<and> p_nat p' = p_nat p \<and>
    tcp_ok E n p' (book_open n ev (counters T), book_totals ev (counters T) G) \<and> complaints p' = complaints p"
proof -
  define y where "y = rtt_counters acked delivered retrans holes received rdelivered"
  obtain p' where p': "handle_message E ev p = Some p'" "udp_view p' = udp_view p" "p_nat p' = p_nat p"
    "complaints p' = complaints p" "p_writer p' = p_writer p" "case T sk of None \<Rightarrow> tcp_rel E n p' T V Q
     | Some (i, x) \<Rightarrow> \<exists>e Q'. e < 2 \<and> tcp_rel E n p' (T(sk \<mapsto> (i, y)))
         (V(unat i := (V (unat i))(e := add_report x y srtt rcv_rtt (V (unat i) e)))) Q'"
    using handle_rtt_rel [OF rel y_def] unfolding ev handle_message.simps by blast
  have "tcp_ok E n p' (book_open n ev (counters T), book_totals ev (counters T) G)"
  proof (cases "T sk")
    case None
    then have "book_totals ev (counters T) G = G" by (cases G) (simp add: ev book_totals_def)
    then show ?thesis using None p'(5,6) acc by (auto simp: ev intro!: tcp_okI)
  next
    case (Some ix)
    then obtain i x where x: "T sk = Some (i, x)" by (cases ix) auto
    then obtain e Q' where e: "e < 2" and rel': "tcp_rel E n p' (T(sk \<mapsto> (i, y)))
      (V(unat i := (V (unat i))(e := add_report x y srtt rcv_rtt (V (unat i) e)))) Q'" using p'(6) by (simp add: x) blast
    have "accounts (p_writer p') (T(sk \<mapsto> (i, y))) (V(unat i := (V (unat i))(e := add_report x y srtt rcv_rtt (V (unat i) e))))
      (book_totals ev (counters T) G)"
      using acc ab.bal_grow [OF _ rel x e] rt.bal_grow [OF _ rel x e] rb.bal_grow [OF _ rel x e] rh.bal_grow [OF _ rel x e]
      by (simp add: p'(5) accounts_def book_totals_def ev x flip: y_def)
    then show ?thesis using x by (auto simp: ev simp flip: y_def intro!: tcp_okI [OF rel'])
  qed
  then show ?thesis using p' by blast
qed

lemma book_totals_other: "\<not> (\<exists>t srtt cwnd acked ca sk pif delivered retrans holes received rdelivered rcv_rtt.
    ev = Ev_rtt_estimator t srtt cwnd acked ca sk pif delivered retrans holes received rdelivered rcv_rtt) \<Longrightarrow> book_totals ev C G = G"
  by (cases ev) (simp_all add: book_totals_def)

lemma tcp_step:
  assumes ok: "tcp_ok E n p (C, G)" and tcp: "tcp_message ev" and h: "nat_step (pe_nat E) ev (p_nat p) = Some h"
  shows "\<exists>p'. handle_message E ev p = Some p' \<and> udp_view p' = udp_view p \<and> p_nat p' \<in> {p_nat p, h} \<and>
    tcp_ok E n p' (book_open n ev C, book_totals ev C G) \<and> (tcp_expected n ev C \<longrightarrow> complaints p' = complaints p)"
proof -
  obtain T V Q where rel: "tcp_rel E n p T V Q" and C: "counters T = C" and acc: "accounts (p_writer p) T V G"
    using ok by (auto simp: tcp_ok_def)
  have TC: "C sk = None \<longleftrightarrow> T sk = None" "card (dom C) = card (dom T)" for sk by (auto simp flip: C simp: dom_counters)
  from tcp show ?thesis
  proof (cases ev)
    case (Ev_new_sock_created t pid sk)
    from handle_new_socket_rel [OF rel, of t pid sk] obtain p' ms where p': "handle_new_socket E t pid sk p = Some p'"
      "udp_view p' = udp_view p" "p_nat p' = p_nat p" "p_writer p' = p_writer p @ ms" "set ms \<subseteq> {In_new_sock_info t pid sk}"
      "if card (dom T) = n \<or> T sk \<noteq> None then tcp_rel E n p' T V Q
       else complaints p' = complaints p \<and> (\<exists>i. i \<notin> fst ` ran T \<and> tcp_rel E n p' (T(sk \<mapsto> (i, tcp_socket_entry0))) V Q)" by blast
    moreover have "list_all foreign ms" using p'(5) by (auto simp: list_all_iff)
    ultimately show ?thesis using open_rel [OF rel acc p'(4) _ p'(6)] TC
      by (simp add: Ev_new_sock_created book_totals_other C)
  next
    case (Ev_reset_tcp_counters t sk acked delivered retrans received pid)
    let ?x = "tcp_socket_entry0\<lparr>te_bytes_acked := acked, te_packets_delivered := delivered, te_packets_retrans := retrans,
      te_bytes_received := received\<rparr>"
    from handle_reset_rel [OF rel, of t sk acked delivered retrans received "ucast pid"] obtain p' where
      p': "handle_message E ev p = Some p'" "udp_view p' = udp_view p" "p_nat p' = p_nat p"
      "p_writer p' = p_writer p @ [In_new_sock_info t (ucast pid) sk]"
      "if card (dom T) = n \<or> T sk \<noteq> None then tcp_rel E n p' T V Q
       else complaints p' = complaints p \<and> (\<exists>i. i \<notin> fst ` ran T \<and> tcp_rel E n p' (T(sk \<mapsto> (i, ?x))) V Q)"
      unfolding Ev_reset_tcp_counters handle_message.simps by blast
    then show ?thesis using open_rel [OF rel acc p'(4) _ p'(5)] TC
      by (simp add: Ev_reset_tcp_counters book_totals_other C)
  next
    case (Ev_set_state_ipv4 t dest src dport sport sk tx_rx)
    then obtain p' ms where p': "handle_message E ev p = Some p'" "udp_view p' = udp_view p" "p_nat p' \<in> {p_nat p, h}"
      "p_writer p' = p_writer p @ ms" "set ms \<subseteq> {In_set_state_ipv4 t dest src dport sport sk tx_rx}"
      "tcp_rel E n p' T V Q" "T sk \<noteq> None \<longrightarrow> complaints p' = complaints p"
      using set_state_tcp_rel(1) [OF rel, of t dest src dport sport sk h tx_rx] h by auto
    moreover have "list_all foreign ms" using p'(5) by (auto simp: list_all_iff)
    ultimately show ?thesis using accounts_foreign [OF acc] TC
      by (auto simp: Ev_set_state_ipv4 book_totals_other C intro!: tcp_okI)
  next
    case (Ev_set_state_ipv6 t dest src dport sport sk tx_rx)
    then obtain p' ms where p': "handle_message E ev p = Some p'" "udp_view p' = udp_view p" "p_nat p' \<in> {p_nat p, h}"
      "p_writer p' = p_writer p @ ms" "set ms \<subseteq> {In_set_state_ipv6 t dest src dport sport sk tx_rx}"
      "tcp_rel E n p' T V Q" "T sk \<noteq> None \<longrightarrow> complaints p' = complaints p"
      using set_state_tcp_rel(2) [OF rel, of t dest src dport sport sk h tx_rx] h by auto
    moreover have "list_all foreign ms" using p'(5) by (auto simp: list_all_iff)
    ultimately show ?thesis using accounts_foreign [OF acc] TC
      by (auto simp: Ev_set_state_ipv6 book_totals_other C intro!: tcp_okI)
  next
    case (Ev_close_sock_info t sk)
    then show ?thesis using close_rel [OF rel acc, of sk h t] h TC by (simp add: book_totals_other C)
  next
    case (Ev_rtt_estimator t srtt cwnd acked ca sk pif delivered retrans holes received rdelivered rcv_rtt)
    then show ?thesis using rtt_rel [OF rel acc Ev_rtt_estimator] C by auto
  qed simp_all
qed

text \<open>Sending the statistics of the current slot: what was owed for it is now reported.\<close>

lemma send_stats_ok:
  assumes ok: "tcp_ok E n p b"
  shows "\<exists>p'. send_stats_from_queue t p = Some p' \<and> udp_view p' = udp_view p \<and> p_nat p' = p_nat p \<and>
    complaints p' = complaints p \<and> tcp_ok E n p' b"
proof -
  obtain T V Q where rel: "tcp_rel E n p T V Q" and C: "counters T = fst b" and acc: "accounts (p_writer p) T V (snd b)"
    using ok by (auto simp: tcp_ok_def)
  define e where "e = ms_slot (tcp_stats p) 0"
  have e: "e < 2" using two_slots(1) [OF tcp_relD(9) [OF rel]] by (simp add: e_def)
  obtain p' where p': "send_stats_from_queue t p = Some p'" "udp_view p' = udp_view p" "p_nat p' = p_nat p" "complaints p' = complaints p"
    "if fst (relative_timeslot t (tcp_stats p)) = 0 then p_writer p' = p_writer p \<and> tcp_rel E n p' T V Q
     else p_writer p' = p_writer p @ concat (map (\<lambda>i. stats_messages t (tcp_index_to_sk p ! unat i) (V (unat i) e)) (Q e)) \<and>
       tcp_rel E n p' T (\<lambda>j f. if f = e \<and> j \<in> unat ` set (Q e) then unsent (V j f) else V j f) (Q(e := [])) \<and>
       ms_slot (tcp_stats p') 0 = ms_slot (tcp_stats p) 1"
    using send_stats_rel [OF rel e_def] by blast
  have "tcp_ok E n p' (fst b, snd b)"
    using p'(5) acc C accounts_drain [OF acc rel e refl, of t] by (auto simp: tcp_ok_def split: if_splits)
  then show ?thesis using p'(1-4) by simp
qed

end
