(* ===== verification/Poller_Udp.thy ===== *)
theory Poller_Udp
  imports Poller_Tcp
begin

text \<open>
  The UDP and DNS side of the poller of \<^verbatim>\<open>src/collector/kernel/buffered_poller.cc\<close>: no handler accesses an
  entry that is not in use, provided no statistics are kept for a socket that has not been reported to the
  server, which is a condition on the messages (\<open>message_fit\<close> of \<^verbatim>\<open>Poller_Run\<close>).
\<close>

section \<open>Stores of statistics\<close>

text \<open>A statistic that is to be sent is queued and belongs to a socket that has been reported.\<close>

definition owned :: "(u64 \<rightharpoonup> u32 \<times> udp_socket_entry) \<Rightarrow> u32 \<Rightarrow> bool" where
  "owned U i \<longleftrightarrow> (\<exists>sk x. U sk = Some (i, x) \<and> un_reported x)"

definition store_ok :: "nat \<Rightarrow> (u64 \<rightharpoonup> u32 \<times> udp_socket_entry) \<Rightarrow> udp_statistics metric_store \<Rightarrow> bool" where
  "store_ok m U s \<longleftrightarrow> ms_size s = m \<and> ms_epochs s = n_epochs \<and>
     (\<exists>Q. ms_rep s (\<lambda>i e. metric_at (i, e) s) Q \<and>
        (\<forall>i e. unat i < m \<longrightarrow> e < 2 \<longrightarrow> us_valid (metric_at (unat i, e) s) \<longrightarrow> i \<in> set (Q e) \<and> owned U i))"

lemma store_okD: "store_ok m U s \<Longrightarrow> ms_size s = m \<and> ms_epochs s = n_epochs \<and> ms_n s = 2"
  by (simp add: store_ok_def ms_n_def n_epochs_def)

lemma store_owned: "store_ok m U s \<Longrightarrow> unat i < m \<Longrightarrow> e < 2 \<Longrightarrow> us_valid (metric_at (unat i, e) s) \<Longrightarrow> owned U i"
  by (auto simp: store_ok_def)

lemma rep_self: "ms_rep s V Q \<Longrightarrow> ms_rep s (\<lambda>i e. metric_at (i, e) s) Q"
  by (simp add: ms_rep_def)

lemma store_okI:
  assumes "ms_rep s V Q" "ms_size s = m" "ms_epochs s = n_epochs"
    and "\<And>i e. unat i < m \<Longrightarrow> e < 2 \<Longrightarrow> us_valid (V (unat i) e) \<Longrightarrow> i \<in> set (Q e) \<and> owned U i"
  shows "store_ok m U s"
proof -
  have "metric_at (unat i, e) s = V (unat i) e" if "unat i < m" "e < 2" for i :: u32 and e
    using metric_at_rep [OF assms(1)] assms(2,3) that by (simp add: ms_n_def n_epochs_def)
  then show ?thesis using rep_self [OF assms(1)] assms(2-) unfolding store_ok_def by (intro conjI exI [of _ Q]) auto
qed

lemma store_ok_owner:
  assumes "store_ok m U s"
    and "\<And>i e. unat i < m \<Longrightarrow> e < 2 \<Longrightarrow> us_valid (metric_at (unat i, e) s) \<Longrightarrow> owned U i \<Longrightarrow> owned U' i"
  shows "store_ok m U' s"
  using assms unfolding store_ok_def by blast

text \<open>What an operation on a store keeps.\<close>

definition same_metrics :: "nat \<Rightarrow> udp_statistics metric_store \<Rightarrow> udp_statistics metric_store \<Rightarrow> bool" where
  "same_metrics m s s' \<longleftrightarrow> ms_same s s' \<and> (\<forall>i e. i < m \<longrightarrow> e < 2 \<longrightarrow> metric_at (i, e) s' = metric_at (i, e) s)"

lemma store_same:
  assumes "ms_rep s V Q" "ms_rep s' V Q'" "ms_same s s'" "ms_size s = m" "ms_epochs s = n_epochs"
  shows "same_metrics m s s'"
proof -
  have "metric_at (i, e) s' = metric_at (i, e) s" if "i < m" "e < 2" for i e
    using metric_at_rep [OF assms(1), of i e] metric_at_rep [OF assms(2), of i e] ms_same_slot [OF assms(3)] assms(4,5) that
    by (simp add: ms_n_def n_epochs_def)
  then show ?thesis using assms(3) by (simp add: same_metrics_def)
qed

lemma store_lookup:
  assumes ok: "store_ok m U s" and i: "unat i < m" and b: "b < 2"
  shows "\<exists>q s'. lookup_relative i b False s = Some ((q, (unat i, ms_slot s (unat b))), s') \<and> store_ok m U s' \<and> same_metrics m s s'"
proof -
  obtain Q where Q: "ms_rep s (\<lambda>i e. metric_at (i, e) s) Q" "ms_size s = m" "ms_epochs s = n_epochs"
    "\<And>i e. unat i < m \<Longrightarrow> e < 2 \<Longrightarrow> us_valid (metric_at (unat i, e) s) \<Longrightarrow> i \<in> set (Q e) \<and> owned U i"
    using ok by (auto simp: store_ok_def)
  obtain q s' where s': "lookup_relative i b False s = Some ((q, (unat i, ms_slot s (unat b))), s')"
    "ms_rep s' (\<lambda>i e. metric_at (i, e) s) Q" "ms_same s s'"
    using lookup_relative_rep [OF Q(1), of i b _ False] i b Q(2,3) by (auto simp: n_epochs_def)
  have "store_ok m U s'" using s'(2,3) Q by (intro store_okI [OF s'(2)]) (simp_all add: ms_same_def)
  then show ?thesis using s'(1) store_same [OF Q(1) s'(2,3) Q(2,3)] by blast
qed

text \<open>Storing a statistic that is not to be sent, or one that is queued.\<close>

lemma store_assign:
  assumes ok: "store_ok m U s" and i: "unat i < m" and e: "e < 2" and st: "\<not> us_valid st"
  shows "store_ok m U (metric_assign (unat i, e) st s)" and "ms_same s (metric_assign (unat i, e) st s)"
    and "j < m \<Longrightarrow> f < 2 \<Longrightarrow> metric_at (j, f) (metric_assign (unat i, e) st s) = (if j = unat i \<and> f = e then st else metric_at (j, f) s)"
proof -
  obtain Q where Q: "ms_rep s (\<lambda>i e. metric_at (i, e) s) Q" "ms_size s = m" "ms_epochs s = n_epochs"
    "\<And>i e. unat i < m \<Longrightarrow> e < 2 \<Longrightarrow> us_valid (metric_at (unat i, e) s) \<Longrightarrow> i \<in> set (Q e) \<and> owned U i"
    using ok by (auto simp: store_ok_def)
  let ?s = "metric_assign (unat i, e) st s" and ?V = "\<lambda>i e. metric_at (i, e) s"
  have a: "ms_rep ?s (?V(unat i := (?V (unat i))(e := st))) Q" "ms_same s ?s"
    using metric_assign_rep [OF Q(1), of "unat i" e st] i e Q(2,3) by (simp_all add: ms_n_def n_epochs_def)
  show "ms_same s ?s" by (rule a(2))
  show "store_ok m U ?s" using a Q st by (intro store_okI [OF a(1)]) (auto simp: ms_same_def split: if_splits)
  show "metric_at (j, f) ?s = (if j = unat i \<and> f = e then st else metric_at (j, f) s)" if "j < m" "f < 2"
    using metric_at_rep [OF a(1), of j f] that ms_same_slot [OF a(2)] Q(2,3) by (auto simp: ms_n_def n_epochs_def)
qed

lemma store_lookup_time:
  assumes ok: "store_ok m U s" and i: "unat i < m"
  shows "\<exists>q e s'. ms_lookup i t True s = Some ((q, (unat i, e)), s') \<and> e < 2 \<and> same_metrics m s s' \<and>
    (\<forall>st U'. (\<forall>j. owned U j \<longrightarrow> owned U' j) \<longrightarrow> owned U' i \<longrightarrow> store_ok m U' (metric_assign (unat i, e) st s'))"
proof -
  obtain Q where Q: "ms_rep s (\<lambda>i e. metric_at (i, e) s) Q" "ms_size s = m" "ms_epochs s = n_epochs"
    "\<And>i e. unat i < m \<Longrightarrow> e < 2 \<Longrightarrow> us_valid (metric_at (unat i, e) s) \<Longrightarrow> i \<in> set (Q e) \<and> owned U i"
    using ok by (auto simp: store_ok_def)
  define e where "e = ms_slot s (bin_of s t)"
  let ?V = "\<lambda>i e. metric_at (i, e) s" and ?Q = "if i \<notin> set (Q e) then Q(e := i # Q e) else Q"
  obtain q s' where s': "ms_lookup i t True s = Some ((q, (unat i, e)), s')" "ms_rep s' ?V ?Q" "ms_same s s'" "e < 2"
    using ms_lookup_rep [OF Q(1) _ e_def, of i True] i Q(2,3) by (auto simp: ms_n_def n_epochs_def)
  have "store_ok m U' (metric_assign (unat i, e) st s')" if "\<And>j. owned U j \<Longrightarrow> owned U' j" "owned U' i" for st U'
  proof -
    let ?s = "metric_assign (unat i, e) st s'"
    have a: "ms_rep ?s (?V(unat i := (?V (unat i))(e := st))) ?Q" "ms_same s' ?s"
      using metric_assign_rep [OF s'(2), of "unat i" e st] i s'(3,4) Q(2,3) by (simp_all add: ms_n_def n_epochs_def ms_same_def)
    show ?thesis
    proof (rule store_okI [OF a(1)])
      show "ms_size ?s = m" "ms_epochs ?s = n_epochs" using a(2) s'(3) Q(2,3) by (simp_all add: ms_same_def)
      fix j :: u32 and f assume "unat j < m" "f < 2" "us_valid ((?V(unat i := (?V (unat i))(e := st))) (unat j) f)"
      then show "j \<in> set (?Q f) \<and> owned U' j" using Q(4) [of j f] that by (auto split: if_splits)
    qed
  qed
  then show ?thesis using s'(1,4) store_same [OF Q(1) s'(2,3) Q(2,3)] by blast
qed

section \<open>The state of the UDP side\<close>

definition entries_ok :: "(u64 \<rightharpoonup> u32 \<times> udp_socket_entry) \<Rightarrow> bool" where
  "entries_ok U \<longleftrightarrow> (\<forall>sk i x. U sk = Some (i, x) \<longrightarrow> length (un_addrs x) = 2)"

definition udp_rel ::
    "('m, 'n, 'c, 's, 'r) poller_env \<Rightarrow> nat \<Rightarrow> ('m, 'n, 'c, 's, 'r) poller \<Rightarrow> (u64 \<rightharpoonup> u32 \<times> udp_socket_entry) \<Rightarrow> bool" where
  "udp_rel E m p U \<longleftrightarrow>
     fh_rep (pe_hash E) (udp_table p) U \<and> cap (udp_table p) = m \<and> entries_ok U \<and>
     length (udp_stats p) = 2 \<and> (\<forall>d < 2. store_ok m U (udp_stats p ! d)) \<and>
     dns_inv (p_dns p) \<and> (\<forall>(r, k, v) \<in> set (requests (p_dns p)). U (rq_sk v) \<noteq> None)"

lemma udp_relD:
  assumes "udp_rel E m p U"
  shows "fh_rep (pe_hash E) (udp_table p) U" "cap (udp_table p) = m" "entries_ok U" "length (udp_stats p) = 2"
    "d < 2 \<Longrightarrow> store_ok m U (udp_stats p ! d)" "dns_inv (p_dns p)"
    "(r, k, v) \<in> set (requests (p_dns p)) \<Longrightarrow> U (rq_sk v) \<noteq> None"
    "U sk = Some (i, x) \<Longrightarrow> unat i < m" "U sk = Some (i, x) \<Longrightarrow> length (un_addrs x) = 2"
  using assms fh.index_bound [of "pe_hash E" "udp_table p" U sk i x] by (auto simp: udp_rel_def entries_ok_def)

lemma udp_rel_view: "udp_view p' = udp_view p \<Longrightarrow> udp_rel E m p' U = udp_rel E m p U"
  by (simp add: udp_view_def udp_rel_def)

text \<open>Entries change, but keep their index, and a reported socket stays reported.\<close>

definition evolves :: "(u64 \<rightharpoonup> u32 \<times> udp_socket_entry) \<Rightarrow> (u64 \<rightharpoonup> u32 \<times> udp_socket_entry) \<Rightarrow> bool" where
  "evolves U U' \<longleftrightarrow> dom U' = dom U \<and>
     (\<forall>sk i x. U sk = Some (i, x) \<longrightarrow> (\<exists>x'. U' sk = Some (i, x') \<and> (un_reported x \<longrightarrow> un_reported x')))"

lemma evolves_refl: "evolves U U"
  by (simp add: evolves_def)

lemma evolves_trans: "evolves U U' \<Longrightarrow> evolves U' U'' \<Longrightarrow> evolves U U''"
  unfolding evolves_def by blast

lemma evolves_assign: "U sk = Some (i, x) \<Longrightarrow> (un_reported x \<Longrightarrow> un_reported y) \<Longrightarrow> evolves U (U(sk \<mapsto> (i, y)))"
  by (auto simp: evolves_def)

lemma evolves_owned: "evolves U U' \<Longrightarrow> owned U i \<Longrightarrow> owned U' i"
  unfolding evolves_def owned_def by blast

text \<open>What a handler of the UDP side leaves alone: the TCP side, the NAT handler, and the log unless there is a
  reason; and it writes no TCP statistics.\<close>

definition aside :: "('m, 'n, 'c, 's, 'r) poller \<Rightarrow> ('m, 'n, 'c, 's, 'r) poller \<Rightarrow> bool" where
  "aside p p' \<longleftrightarrow> tcp_view p' = tcp_view p \<and> p_nat p' = p_nat p \<and> complaints p' = complaints p \<and>
     (\<exists>ms. p_writer p' = p_writer p @ ms \<and> list_all foreign ms)"

lemma aside_refl: "aside p p"
  by (simp add: aside_def)

lemma aside_trans: "aside p q \<Longrightarrow> aside q r \<Longrightarrow> aside p r"
  unfolding aside_def by (metis append.assoc list_all_append)

lemma aside_say: "list_all foreign ms \<Longrightarrow> aside p (say ms p)"
  by (simp add: aside_def)

lemma aside_fields [simp]:
  "aside p (q\<lparr>udp_table := a\<rparr>) = aside p q" "aside p (q\<lparr>udp_stats := b\<rparr>) = aside p q" "aside p (q\<lparr>p_dns := c\<rparr>) = aside p q"
  "aside p (say ms (q\<lparr>udp_table := a, udp_stats := b\<rparr>)) = aside p (say ms q)"
  "aside p (say ms (q\<lparr>udp_table := a\<rparr>)) = aside p (say ms q)"
  by (simp_all add: aside_def tcp_view_def complaints_def say_def)

subsection \<open>Sending statistics\<close>

lemma udp_send_stats_ok:
  assumes "length (un_addrs x) = 2" and "unat d < 2"
  shows "\<exists>y ms. udp_send_stats t i d x st = Some (y, st\<lparr>us_valid := False\<rparr>, ms) \<and> length (un_addrs y) = 2 \<and>
    (un_reported x \<or> un_lport x \<noteq> 0 \<longrightarrow> un_reported y) \<and> list_all foreign ms"
  using assms by (auto simp: udp_send_stats_def udp_send_new_socket_def udp_stats_message_def Let_def split: prod.splits)

lemma udp_assign_ok:
  assumes rel: "udp_rel E m p U" and x: "U sk = Some (i, x)" and y: "length (un_addrs y) = 2"
    and rep: "un_reported x \<Longrightarrow> un_reported y"
  shows "\<exists>h'. fh_assign i y (udp_table p) = Some h' \<and> udp_rel E m (p\<lparr>udp_table := h'\<rparr>) (U(sk \<mapsto> (i, y))) \<and> evolves U (U(sk \<mapsto> (i, y)))"
proof -
  note r = udp_relD [OF rel]
  obtain h' where h': "fh_assign i y (udp_table p) = Some h'" "fh_rep (pe_hash E) h' (U(sk \<mapsto> (i, y)))" "cap h' = m"
    using fh.assign_rep [OF r(1) x, of y] r(2) by auto
  have ev: "evolves U (U(sk \<mapsto> (i, y)))" using evolves_assign [of U, OF x] rep by simp
  then have "store_ok m (U(sk \<mapsto> (i, y))) (udp_stats p ! d)" if "d < 2" for d
    using store_ok_owner [OF r(5) [OF that]] evolves_owned [OF ev] by blast
  then have "udp_rel E m (p\<lparr>udp_table := h'\<rparr>) (U(sk \<mapsto> (i, y)))"
    using rel h'(2,3) y by (auto simp: udp_rel_def entries_ok_def)
  then show ?thesis using h'(1) ev by blast
qed

lemma udp_store_ok:
  assumes "udp_rel E m p U" and "store_ok m U s" and "d < 2"
  shows "udp_rel E m (p\<lparr>udp_stats := (udp_stats p)[d := s]\<rparr>) U"
  using assms by (auto simp: udp_rel_def nth_list_update)

subsection \<open>Time-outs of DNS requests\<close>

lemma timeout_ok:
  assumes rel: "udp_rel E m p U" and x: "(q, k, v) \<in> set (requests (p_dns p))"
  shows "\<exists>p'. timeout_dns_request E t q p = Some p' \<and> aside p p' \<and> udp_table p' = udp_table p \<and> udp_stats p' = udp_stats p \<and>
    p_dns p' = without (q, k, v) (p_dns p) \<and> udp_rel E m p' U"
proof -
  note r = udp_relD [OF rel]
  let ?d = "without (q, k, v) (p_dns p)"
  obtain i y where i: "U (rq_sk v) = Some (i, y)" using r(7) [OF x] by auto
  note f = fh.find_Some [OF r(1) i]
  have d: "deref q (p_dns p) = Some (k, v)" "dns_remove q (p_dns p) = Some ?d" "dns_inv ?d"
    using deref_iff [OF r(6)] dns_remove_live [OF r(6) x] dns_inv_without [OF r(6) x] x by auto
  let ?m = "In_dns_timeout t i (of_nat (length (rq_name k))) (cut_name (rq_name k)) (t - timestamp_ns v)"
  have "set (requests ?d) \<subseteq> set (requests (p_dns p))" by (simp add: without_def set_remove1_subset)
  then have "udp_rel E m ((say [?m] p)\<lparr>p_dns := ?d\<rparr>) U" using rel d(3) by (auto simp: udp_rel_def)
  then show ?thesis using f d(1,2) by (simp add: timeout_dns_request_def aside_say)
qed

lemma timeout_each_ok:
  assumes "udp_rel E m p U" "distinct rs" "set rs \<subseteq> fst ` set (requests (p_dns p))"
  shows "\<exists>p'. timeout_each E t rs p = Some p' \<and> aside p p' \<and> udp_table p' = udp_table p \<and> udp_stats p' = udp_stats p \<and>
    udp_rel E m p' U \<and> requests (p_dns p') = filter (\<lambda>(r, _). r \<notin> set rs) (requests (p_dns p))"
  using assms
proof (induction rs arbitrary: p)
  case Nil
  then show ?case by (simp add: aside_refl case_prod_beta)
next
  case (Cons q rs)
  obtain k v where kv: "(q, k, v) \<in> set (requests (p_dns p))" using Cons.prems(3) by auto
  obtain p1 where p1: "timeout_dns_request E t q p = Some p1" "aside p p1" "udp_table p1 = udp_table p" "udp_stats p1 = udp_stats p"
    "p_dns p1 = without (q, k, v) (p_dns p)" "udp_rel E m p1 U" using timeout_ok [OF Cons.prems(1) kv] by blast
  have reqs: "requests (p_dns p1) = filter (\<lambda>(r, _). r \<noteq> q) (requests (p_dns p))"
    using erase_elem(3) [OF udp_relD(6) [OF Cons.prems(1)] kv, of k] p1(5) by (simp add: without_def key_equal_def)
  have sub: "set rs \<subseteq> fst ` set (requests (p_dns p1))"
    using Cons.prems(2,3) unfolding reqs by (fastforce simp: image_iff)
  obtain p2 where p2: "timeout_each E t rs p1 = Some p2" "aside p1 p2" "udp_table p2 = udp_table p1" "udp_stats p2 = udp_stats p1"
    "udp_rel E m p2 U" "requests (p_dns p2) = filter (\<lambda>(r, _). r \<notin> set rs) (requests (p_dns p1))"
    using Cons.IH [OF p1(6) _ sub] Cons.prems(2) by auto
  have "requests (p_dns p2) = filter (\<lambda>(r, _). r \<notin> set (q # rs)) (requests (p_dns p))"
    unfolding p2(6) reqs by (simp add: case_prod_unfold conj_commute)
  then show ?case using p1 p2 aside_trans [OF p1(2) p2(2)] by simp
qed

lemma process_dns_timeouts_ok:
  assumes rel: "udp_rel E m p U"
  shows "\<exists>p'. process_dns_timeouts E t p = Some p' \<and> aside p p' \<and> udp_rel E m p' U"
proof -
  let ?rs = "lookup_older_than (t - DNS_TIMEOUT_TIME_NS) (p_dns p)"
  have "distinct (map fst (requests (p_dns p)))" using udp_relD(6) [OF rel] by (simp add: dns_inv_def)
  then have "distinct ?rs" unfolding lookup_older_than_def
    by (metis distinct_append map_append takeWhile_dropWhile_id)
  moreover have "set ?rs \<subseteq> fst ` set (requests (p_dns p))" by (auto simp: lookup_older_than_def dest: set_takeWhileD)
  ultimately show ?thesis using timeout_each_ok [OF rel, of ?rs t] unfolding process_dns_timeouts_def by blast
qed

section \<open>Sockets\<close>

definition pending :: "('m, 'n, 'c, 's, 'r) poller \<Rightarrow> u32 \<Rightarrow> (nat \<times> nat) set" where
  "pending p i = {(d, e). d < 2 \<and> e < 2 \<and> us_valid (metric_at (unat i, e) (udp_stats p ! d))}"

text \<open>A socket that has not been reported has no statistics to be sent.\<close>

lemma unreported_quiet:
  assumes rel: "udp_rel E m p U" and x: "U sk = Some (i, x)" and new: "\<not> un_reported x"
  shows "pending p i = {}"
proof -
  note r = udp_relD [OF rel]
  have "\<not> owned U i"
    using fh.index_inj [OF r(1) x] x new by (fastforce simp: owned_def)
  then show ?thesis using store_owned [OF r(5) r(8) [OF x]] by (auto simp: pending_def)
qed

lemma free_quiet:
  assumes rel: "udp_rel E m p U" and i: "unat i < m" "i \<notin> fst ` ran U"
  shows "pending p i = {}"
proof -
  have "\<not> owned U i" using i(2) by (force simp: owned_def intro: ranI)
  then show ?thesis using store_owned [OF udp_relD(5) [OF rel] i(1)] by (auto simp: pending_def)
qed

text \<open>The table after a socket without statistics to be sent is added or removed.\<close>

lemma udp_new_ok:
  assumes rel: "udp_rel E m p U"
  shows "\<exists>p'. handle_udp_new_socket E t pid sk laddr lport p = Some p' \<and> tcp_view p' = tcp_view p \<and> p_nat p' = p_nat p \<and>
    (\<exists>ms. p_writer p' = p_writer p @ ms \<and> list_all foreign ms) \<and>
    (if card (dom U) = m \<or> U sk \<noteq> None then udp_rel E m p' U
     else complaints p' = complaints p \<and>
       (\<exists>i x. udp_rel E m p' (U(sk \<mapsto> (i, x))) \<and> (lport \<noteq> 0 \<longrightarrow> un_reported x)))"
proof -
  note r = udp_relD [OF rel]
  note full = fh_full_rep [OF r(1)]
  consider "card (dom U) = m" | "card (dom U) \<noteq> m" "U sk \<noteq> None" | "card (dom U) \<noteq> m" "U sk = None" by blast
  then show ?thesis
  proof cases
    case 1
    then show ?thesis using r(2) rel
      by (auto simp: handle_udp_new_socket_def full udp_rel_def tcp_view_def log_warn_def)
  next
    case 2
    then obtain h' where "fh_insert (pe_hash E) sk (Some udp_socket_entry0) (udp_table p) = Some (Inr (fh_invalid (udp_table p)), h')"
      "fh_rep (pe_hash E) h' U" "cap h' = cap (udp_table p)" "fh_invalid h' = fh_invalid (udp_table p)"
      using fh.ins_refused [OF r(1), of sk "Some udp_socket_entry0"] by auto
    then show ?thesis using 2 r(2) rel
      by (auto simp: handle_udp_new_socket_def full udp_rel_def tcp_view_def log_error_def)
  next
    case 3
    then obtain i h1 where ins: "fh_insert (pe_hash E) sk (Some udp_socket_entry0) (udp_table p) = Some (Inr i, h1)"
      "unat i < m" "i \<notin> fst ` ran U" "fh_rep (pe_hash E) h1 (U(sk \<mapsto> (i, udp_socket_entry0)))" "cap h1 = m"
      using fh.ins_new [OF r(1), of sk udp_socket_entry0] r(2) by auto
    have inv: "i \<noteq> fh_invalid h1" "fh_at i h1 = Some udp_socket_entry0"
      using fh.find_Some [OF ins(4), of sk i] by simp_all
    let ?x = "udp_socket_entry0\<lparr>un_pid := pid, un_sk := sk, un_laddr := laddr, un_lport := lport\<rparr>"
    obtain y ms where y: "udp_send_new_socket t ?x i = (y, ms)" by (cases "udp_send_new_socket t ?x i")
    then have y': "length (un_addrs y) = 2" "lport \<noteq> 0 \<longrightarrow> un_reported y" "list_all foreign ms"
      by (auto simp: udp_send_new_socket_def udp_socket_entry0_def split: if_splits)
    obtain h2 where h2: "fh_assign i y h1 = Some h2" "fh_rep (pe_hash E) h2 (U(sk \<mapsto> (i, y)))" "cap h2 = m"
      using fh.assign_rep [OF ins(4), of sk i udp_socket_entry0 y] ins(5) by auto
    have "owned U j \<Longrightarrow> owned (U(sk \<mapsto> (i, y))) j" for j
      using 3(2) unfolding owned_def by (metis fun_upd_other option.distinct(1))
    then have "store_ok m (U(sk \<mapsto> (i, y))) (udp_stats p ! d)" if "d < 2" for d using store_ok_owner [OF r(5) [OF that]] by blast
    then have "udp_rel E m (say ms (p\<lparr>udp_table := h2\<rparr>)) (U(sk \<mapsto> (i, y)))"
      using rel h2(2,3) y'(1) by (auto simp: udp_rel_def entries_ok_def)
    then show ?thesis using 3 r(2) ins(1) inv y y' h2(1)
      by (intro exI [of _ "say ms (p\<lparr>udp_table := h2\<rparr>)"])
        (auto simp: handle_udp_new_socket_def full tcp_view_def complaints_def say_def)
  qed
qed

lemma udp_close_epoch_ok:
  assumes rel: "udp_rel E m p U" and x: "U sk = Some (i, x)" and rep: "un_reported x" and d: "unat d < 2" and b: "b < 2"
  shows "\<exists>p' y. udp_close_epoch t i d b p = Some p' \<and> aside p p' \<and> udp_rel E m p' (U(sk \<mapsto> (i, y))) \<and> un_reported y \<and>
    p_dns p' = p_dns p \<and> (\<forall>d < 2. ms_same (udp_stats p ! d) (udp_stats p' ! d)) \<and>
    pending p' i \<subseteq> pending p i - {(unat d, ms_slot (udp_stats p ! unat d) (unat b))}"
proof -
  note r = udp_relD [OF rel]
  let ?s = "udp_stats p ! unat d"
  define e where "e = ms_slot ?s (unat b)"
  note ok = r(5) [OF d]
  have e: "e < 2" using ms_slot_less [of ?s "unat b"] ok store_okD [OF ok] by (auto simp: e_def store_ok_def ms_rep_def)
  obtain q s1 where s1: "lookup_relative i b False ?s = Some ((q, (unat i, e)), s1)" "store_ok m U s1" "same_metrics m ?s s1"
    using store_lookup [OF ok r(8) [OF x] b] by (auto simp: e_def)
  have m: "metric_at (unat i, e) s1 = metric_at (unat i, e) ?s" using s1(3) r(8) [OF x] e by (simp add: same_metrics_def)
  show ?thesis
  proof (cases "us_valid (metric_at (unat i, e) s1)")
    case False
    let ?p = "p\<lparr>udp_stats := (udp_stats p)[unat d := s1]\<rparr>"
    have "pending ?p i \<subseteq> pending p i - {(unat d, e)}"
      using False s1(3) r(4) r(8) [OF x] m d by (auto simp: pending_def same_metrics_def nth_list_update split: if_splits)
    moreover have "\<forall>d' < 2. ms_same (udp_stats p ! d') (udp_stats ?p ! d')"
      using s1(3) r(4) d by (auto simp: same_metrics_def nth_list_update ms_same_def)
    moreover have "U(sk \<mapsto> (i, x)) = U" using x by auto
    ultimately show ?thesis using False s1 udp_store_ok [OF rel s1(2) d] rep
      by (intro exI [of _ ?p] exI [of _ x]) (simp add: udp_close_epoch_def e_def aside_refl)
  next
    case True
    let ?st = "metric_at (unat i, e) s1" and ?st' = "(metric_at (unat i, e) s1)\<lparr>us_valid := False\<rparr>"
    obtain y ms where y: "udp_send_stats t i d x ?st = Some (y, ?st', ms)" "length (un_addrs y) = 2" "un_reported y" "list_all foreign ms"
      using udp_send_stats_ok [OF r(9) [OF x] d, of t i ?st] rep by auto
    let ?s2 = "metric_assign (unat i, e) ?st' s1" and ?p1 = "p\<lparr>udp_stats := (udp_stats p)[unat d := metric_assign (unat i, e) ?st' s1]\<rparr>"
    note a = store_assign [OF s1(2) r(8) [OF x] e, of ?st']
    have rel1: "udp_rel E m ?p1 U" using udp_store_ok [OF rel a(1) d] by simp
    obtain h' where h': "fh_assign i y (udp_table p) = Some h'" "udp_rel E m (?p1\<lparr>udp_table := h'\<rparr>) (U(sk \<mapsto> (i, y)))"
      using udp_assign_ok [OF rel1 x y(2)] y(3) by auto
    let ?p = "say ms (p\<lparr>udp_table := h', udp_stats := (udp_stats p)[unat d := ?s2]\<rparr>)"
    have "udp_rel E m ?p (U(sk \<mapsto> (i, y)))" using h'(2) by (simp add: udp_rel_def)
    moreover have "pending ?p i \<subseteq> pending p i - {(unat d, e)}"
      using s1(3) r(4) r(8) [OF x] a(3) d by (auto simp: pending_def same_metrics_def nth_list_update split: if_splits)
    moreover have "\<forall>d' < 2. ms_same (udp_stats p ! d') (udp_stats ?p ! d')"
      using s1(3) a(2) r(4) d ms_same_trans by (auto simp: same_metrics_def nth_list_update) (simp add: ms_same_def)
    moreover have "udp_close_epoch t i d b p = Some ?p"
      using True s1(1) y(1) h'(1) fh.find_Some [OF r(1) x] by (simp add: udp_close_epoch_def)
    ultimately show ?thesis using y(3,4) by (intro exI [of _ ?p] exI [of _ y]) (simp add: aside_say e_def)
  qed
qed

lemma udp_close_ok:
  assumes rel: "udp_rel E m p U" and x: "U sk = Some (i, x)" and rep: "un_reported x"
  shows "\<exists>p' y. Option.bind (udp_close_epoch t i 0 0 p) (\<lambda>p1. Option.bind (udp_close_epoch t i 0 1 p1) (\<lambda>p2.
      Option.bind (udp_close_epoch t i 1 0 p2) (udp_close_epoch t i 1 1))) = Some p' \<and>
    aside p p' \<and> udp_rel E m p' (U(sk \<mapsto> (i, y))) \<and> p_dns p' = p_dns p \<and> pending p' i = {}"
proof -
  let ?sl = "\<lambda>d b. (d, ms_slot (udp_stats p ! d) b)"
  have step: "\<exists>q' y'. udp_close_epoch t i d b q = Some q' \<and> aside p q' \<and> udp_rel E m q' (U(sk \<mapsto> (i, y'))) \<and> un_reported y' \<and>
      p_dns q' = p_dns p \<and> (\<forall>d < 2. ms_same (udp_stats p ! d) (udp_stats q' ! d)) \<and>
      pending q' i \<subseteq> pending p i - insert (?sl (unat d) (unat b)) S"
    if q: "aside p q" "udp_rel E m q (U(sk \<mapsto> (i, y)))" "un_reported y" "p_dns q = p_dns p"
      "\<forall>d < 2. ms_same (udp_stats p ! d) (udp_stats q ! d)" "pending q i \<subseteq> pending p i - S" "unat d < 2" "b < 2"
    for q y d b S
  proof -
    have y: "(U(sk \<mapsto> (i, y))) sk = Some (i, y)" by simp
    from udp_close_epoch_ok [OF q(2) y q(3,7,8), of t, unfolded fun_upd_upd]
    obtain q' y' where q': "udp_close_epoch t i d b q = Some q'" "aside q q'" "udp_rel E m q' (U(sk \<mapsto> (i, y')))" "un_reported y'"
      "p_dns q' = p_dns q" "\<forall>d < 2. ms_same (udp_stats q ! d) (udp_stats q' ! d)"
      "pending q' i \<subseteq> pending q i - {(unat d, ms_slot (udp_stats q ! unat d) (unat b))}"
      by (elim exE conjE)
    have "ms_slot (udp_stats q ! unat d) (unat b) = ms_slot (udp_stats p ! unat d) (unat b)"
      using ms_same_slot q(5,7) by blast
    then have "pending q' i \<subseteq> pending p i - insert (?sl (unat d) (unat b)) S" using q'(7) q(6) by auto
    moreover have "\<forall>d < 2. ms_same (udp_stats p ! d) (udp_stats q' ! d)" using q'(6) q(5) ms_same_trans by blast
    ultimately show ?thesis using q'(1,3-5) q(4) aside_trans [OF q(1) q'(2)] by auto
  qed
  have 0: "udp_rel E m p (U(sk \<mapsto> (i, x)))" "\<forall>d < 2. ms_same (udp_stats p ! d) (udp_stats p ! d)" "pending p i \<subseteq> pending p i - {}"
    using rel x by (simp_all add: fun_upd_idem ms_same_def)
  obtain p1 y1 where p1: "udp_close_epoch t i 0 0 p = Some p1" "aside p p1" "udp_rel E m p1 (U(sk \<mapsto> (i, y1)))" "un_reported y1"
    "p_dns p1 = p_dns p" "\<forall>d < 2. ms_same (udp_stats p ! d) (udp_stats p1 ! d)" "pending p1 i \<subseteq> pending p i - {?sl 0 0}"
    using step [OF aside_refl 0(1) rep refl 0(2,3), of 0 0] by auto
  obtain p2 y2 where p2: "udp_close_epoch t i 0 1 p1 = Some p2" "aside p p2" "udp_rel E m p2 (U(sk \<mapsto> (i, y2)))" "un_reported y2"
    "p_dns p2 = p_dns p" "\<forall>d < 2. ms_same (udp_stats p ! d) (udp_stats p2 ! d)" "pending p2 i \<subseteq> pending p i - {?sl 0 1, ?sl 0 0}"
    using step [OF p1(2-7), of 0 1] by auto
  obtain p3 y3 where p3: "udp_close_epoch t i 1 0 p2 = Some p3" "aside p p3" "udp_rel E m p3 (U(sk \<mapsto> (i, y3)))" "un_reported y3"
    "p_dns p3 = p_dns p" "\<forall>d < 2. ms_same (udp_stats p ! d) (udp_stats p3 ! d)"
    "pending p3 i \<subseteq> pending p i - {?sl 1 0, ?sl 0 1, ?sl 0 0}"
    using step [OF p2(2-7), of 1 0] by auto
  obtain p4 y4 where p4: "udp_close_epoch t i 1 1 p3 = Some p4" "aside p p4" "udp_rel E m p4 (U(sk \<mapsto> (i, y4)))" "un_reported y4"
    "p_dns p4 = p_dns p" "pending p4 i \<subseteq> pending p i - {?sl 1 1, ?sl 1 0, ?sl 0 1, ?sl 0 0}"
    using step [OF p3(2-7), of 1 1] by auto
  have sl: "e = ms_slot (udp_stats p ! d) 0 \<or> e = ms_slot (udp_stats p ! d) 1" if "e < 2" "d < 2" for d e
    using two_slots(3) store_okD [OF udp_relD(5) [OF rel that(2)]] that(1) by blast
  have "pending p i \<subseteq> {?sl 1 1, ?sl 1 0, ?sl 0 1, ?sl 0 0}"
  proof
    fix de assume "de \<in> pending p i"
    then obtain d e where de: "de = (d, e)" "d < 2" "e < 2" by (auto simp: pending_def)
    then have "d = 0 \<or> d = 1" by auto
    then show "de \<in> {?sl 1 1, ?sl 1 0, ?sl 0 1, ?sl 0 0}" using sl [OF de(3,2)] de(1) by auto
  qed
  then have "pending p4 i = {}" using p4(6) by blast
  then show ?thesis using p1(1) p2(1) p3(1) p4 by auto
qed

lemma udp_erase_ok:
  assumes rel: "udp_rel E m p U" and x: "U sk = Some (i, x)" and quiet: "pending p i = {}"
    and dns: "\<And>r k v. (r, k, v) \<in> set (requests (p_dns p)) \<Longrightarrow> rq_sk v \<noteq> sk"
  shows "\<exists>h'. fh_erase (pe_hash E) sk (udp_table p) = Some (True, h') \<and> udp_rel E m (p\<lparr>udp_table := h'\<rparr>) (U(sk := None))"
proof -
  note r = udp_relD [OF rel]
  obtain h' where h': "fh_erase (pe_hash E) sk (udp_table p) = Some (True, h')" "fh_rep (pe_hash E) h' (U(sk := None))" "cap h' = m"
    using fh.del_rep [OF r(1), of sk] x r(2) by auto
  have own: "owned (U(sk := None)) j" if "owned U j" "j \<noteq> i" for j
    using that x unfolding owned_def by (metis fun_upd_other option.inject prod.inject)
  have "store_ok m (U(sk := None)) (udp_stats p ! d)" if d: "d < 2" for d
  proof (rule store_ok_owner [OF r(5) [OF d]])
    fix j e assume "e < 2" "us_valid (metric_at (unat j, e) (udp_stats p ! d))" "owned U j"
    then show "owned (U(sk := None)) j" using own quiet d by (cases "j = i") (auto simp: pending_def)
  qed
  then have "udp_rel E m (p\<lparr>udp_table := h'\<rparr>) (U(sk := None))"
    using rel h'(2,3) dns by (fastforce simp: udp_rel_def entries_ok_def)
  then show ?thesis using h'(1) by blast
qed

lemma udp_destroy_ok:
  assumes rel: "udp_rel E m p U"
  shows "\<exists>p'. handle_udp_destroy_socket E t sk p = Some p' \<and> aside p p' \<and> udp_rel E m p' (U(sk := None))"
proof (cases "U sk")
  case None
  then show ?thesis using fh.find_None [OF udp_relD(1) [OF rel], of sk] rel
    by (simp add: handle_udp_destroy_socket_def aside_refl fun_upd_idem)
next
  case (Some ix)
  then obtain i x where x: "U sk = Some (i, x)" by (cases ix) auto
  note r = udp_relD [OF rel]
  note f = fh.find_Some [OF r(1) x]
  note l = lookup_live [OF r(6) mset_lookup(2) [OF r(6), of sk]]
  have "set (lookup_socket sk (p_dns p)) \<subseteq> fst ` set (requests (p_dns p))" unfolding l(2) by auto
  then obtain p0 where p0: "timeout_each E t (lookup_socket sk (p_dns p)) p = Some p0" "aside p p0" "udp_table p0 = udp_table p"
    "udp_rel E m p0 U" "requests (p_dns p0) = filter (\<lambda>x. \<not> (case x of (r, k, v) \<Rightarrow> rq_sk v = sk)) (requests (p_dns p))"
    using timeout_each_ok [OF rel l(1), of t] l(3) by auto
  have "\<exists>p1 y. (if un_reported x
      then map_option (say [In_udp_destroy_socket t i]) (Option.bind (udp_close_epoch t i 0 0 p0) (\<lambda>p1.
        Option.bind (udp_close_epoch t i 0 1 p1) (\<lambda>p2. Option.bind (udp_close_epoch t i 1 0 p2) (udp_close_epoch t i 1 1))))
      else Some p0) = Some p1 \<and> aside p0 p1 \<and> udp_rel E m p1 (U(sk \<mapsto> (i, y))) \<and> p_dns p1 = p_dns p0 \<and> pending p1 i = {}"
  proof (cases "un_reported x")
    case True
    obtain p' y where p': "Option.bind (udp_close_epoch t i 0 0 p0) (\<lambda>p1. Option.bind (udp_close_epoch t i 0 1 p1) (\<lambda>p2.
      Option.bind (udp_close_epoch t i 1 0 p2) (udp_close_epoch t i 1 1))) = Some p'" "aside p0 p'" "udp_rel E m p' (U(sk \<mapsto> (i, y)))"
      "p_dns p' = p_dns p0" "pending p' i = {}" using udp_close_ok [OF p0(4) x True] by blast
    have "udp_rel E m (say [In_udp_destroy_socket t i] p') (U(sk \<mapsto> (i, y)))"
      using p'(3) udp_rel_view [of "say [In_udp_destroy_socket t i] p'" p'] by simp
    moreover have "aside p0 (say [In_udp_destroy_socket t i] p')" by (rule aside_trans [OF p'(2)]) (simp add: aside_say)
    ultimately show ?thesis using True p' by (auto simp: pending_def)
  next
    case False
    moreover have "U(sk \<mapsto> (i, x)) = U" using x by auto
    ultimately show ?thesis using p0(4) unreported_quiet [OF p0(4) x]
      by (intro exI [of _ p0] exI [of _ x]) (simp add: aside_refl)
  qed
  then obtain p1 y where p1: "(if un_reported x
      then map_option (say [In_udp_destroy_socket t i]) (Option.bind (udp_close_epoch t i 0 0 p0) (\<lambda>p1.
        Option.bind (udp_close_epoch t i 0 1 p1) (\<lambda>p2. Option.bind (udp_close_epoch t i 1 0 p2) (udp_close_epoch t i 1 1))))
      else Some p0) = Some p1" "aside p0 p1" "udp_rel E m p1 (U(sk \<mapsto> (i, y)))" "p_dns p1 = p_dns p0" "pending p1 i = {}" by blast
  obtain h' where h': "fh_erase (pe_hash E) sk (udp_table p1) = Some (True, h')" "udp_rel E m (p1\<lparr>udp_table := h'\<rparr>) (U(sk := None))"
    using udp_erase_ok [OF p1(3) _ p1(5), of sk] p0(5) p1(4) by auto
  have "handle_udp_destroy_socket E t sk p = Some (p1\<lparr>udp_table := h'\<rparr>)"
    unfolding handle_udp_destroy_socket_def using f p0(1,3) p1(1) h'(1) by (simp del: bind_split)
  then show ?thesis using h'(2) aside_trans [OF p0(2) p1(2)] by simp
qed

section \<open>Statistics\<close>

lemma htons_zero: "htons x = 0 \<longleftrightarrow> x = 0"
proof
  assume "htons x = 0"
  then have z: "push_bit 8 x = 0" "drop_bit 8 x = 0" by (simp_all add: htons_def or_eq_0_iff)
  have "\<not> bit x n" for n
  proof (cases "n < 8")
    case True
    have "bit (push_bit 8 x) (n + 8) = bit x n" using True by (simp add: bit_push_bit_iff)
    then show ?thesis by (simp add: z)
  next
    case False
    have "bit (drop_bit 8 x) (n - 8) = bit x n" using False by (simp add: bit_drop_bit_eq)
    then show ?thesis by (simp add: z)
  qed
  then show "x = 0" by (intro bit_word_eqI) simp
qed (simp add: htons_def)

text \<open>The translations the NAT handler knows have a source port.\<close>

definition nat_ported :: "('n, 'c, 's, 'r) nat_maps \<Rightarrow> ('n, 'c, 's, 'r) nat_handler \<Rightarrow> bool" where
  "nat_ported M h \<longleftrightarrow> (\<forall>x y. fm_find (nat_ops M) x (nat_table h) = Some y \<longrightarrow> src_port y \<noteq> 0)"

lemma new_address_port:
  assumes "nat_ported M h" "lport \<noteq> 0"
    and "ft = (if v4 then get_nat_mapping M a b c d pr h else None)"
  shows "un_lport (udp_new_address ft is_rx af raddr rport laddr lport x) \<noteq> 0"
  using assms by (auto simp: udp_new_address_def htons_zero nat_ported_def get_nat_mapping_def split: option.splits)

lemma new_address_keeps:
  "length (un_addrs (udp_new_address ft is_rx af raddr rport laddr lport x)) = length (un_addrs x)"
  "un_reported (udp_new_address ft is_rx af raddr rport laddr lport x) = un_reported x"
  by (simp_all add: udp_new_address_def split: option.splits)

lemma address_changed_ok:
  assumes x: "length (un_addrs x) = 2" and d: "unat d < 2" and ported: "nat_ported (pe_nat E) h"
  shows "\<exists>y st' ms. udp_address_changed E h t i d af raddr rport laddr lport x st = Some (y, st', ms) \<and> length (un_addrs y) = 2 \<and>
    (un_reported x \<or> lport \<noteq> 0 \<longrightarrow> un_reported y) \<and> list_all foreign ms"
proof -
  have "\<exists>x0 st0 ms0. (if us_valid st then udp_send_stats t i d x st else Some (x, st, [])) = Some (x0, st0, ms0) \<and>
      length (un_addrs x0) = 2 \<and> (un_reported x \<longrightarrow> un_reported x0) \<and> list_all foreign ms0"
    using udp_send_stats_ok [OF x d, of t i st] x by auto
  then obtain x0 st0 ms0 where 0: "(if us_valid st then udp_send_stats t i d x st else Some (x, st, [])) = Some (x0, st0, ms0)"
    "length (un_addrs x0) = 2" "un_reported x \<longrightarrow> un_reported x0" "list_all foreign ms0" by blast
  define ft where "ft = (if ucast af = AF_INET
    then get_nat_mapping (pe_nat E) (s6_3 laddr) (s6_3 raddr) (htons lport) (htons rport) (ucast IPPROTO_UDP) h else None)"
  let ?x1 = "udp_new_address ft d af raddr rport laddr lport x0"
  have 1: "length (un_addrs ?x1) = 2" "un_reported ?x1 = un_reported x0" "lport \<noteq> 0 \<longrightarrow> un_lport ?x1 \<noteq> 0"
    using 0(2) new_address_keeps new_address_port [OF ported _ ft_def] by auto
  obtain y ms where y: "udp_send_stats t i d ?x1 st0 = Some (y, st0\<lparr>us_valid := False\<rparr>, ms)" "length (un_addrs y) = 2"
    "un_reported ?x1 \<or> un_lport ?x1 \<noteq> 0 \<longrightarrow> un_reported y" "list_all foreign ms"
    using udp_send_stats_ok [OF 1(1) d] by blast
  have "udp_address_changed E h t i d af raddr rport laddr lport x st = Some (y, st0\<lparr>us_valid := False\<rparr>, ms0 @ ms)"
    unfolding udp_address_changed_def 0(1) using y(1) by (simp add: Let_def flip: ft_def)
  then show ?thesis using 0 1 y by auto
qed

text \<open>Statistics are kept only for a socket that has been reported or is reported by the message.\<close>

lemma handle_udp_stats_ok:
  assumes rel: "udp_rel E m p U" and ported: "nat_ported (pe_nat E) (p_nat p)"
    and fit: "\<And>i x. U sk = Some (i, x) \<Longrightarrow> unat d < 2 \<and> (un_reported x \<or> af \<noteq> 0 \<and> lport \<noteq> 0)"
  shows "\<exists>p' U'. handle_udp_stats E t sk raddr packets bytes af rport d laddr lport drops p = Some p' \<and> evolves U U' \<and>
    udp_rel E m p' U' \<and> tcp_view p' = tcp_view p \<and> p_nat p' = p_nat p \<and>
    (\<exists>ms. p_writer p' = p_writer p @ ms \<and> list_all foreign ms) \<and>
    (case U' sk of None \<Rightarrow> True | Some (i, x) \<Rightarrow> un_reported x \<and> complaints p' = complaints p)"
proof (cases "U sk")
  case None
  then show ?thesis using fh.find_None [OF udp_relD(1) [OF rel], of sk] rel evolves_refl [of U]
    by (intro exI [of _ "udp_missing ''handle_udp_stats: stats for missing socket'' p"] exI [of _ U])
      (simp add: handle_udp_stats_def udp_rel_view [of "udp_missing _ _"])
next
  case (Some ix)
  then obtain i x where x: "U sk = Some (i, x)" by (cases ix) auto
  note r = udp_relD [OF rel] and f = fh.find_Some [OF udp_relD(1) [OF rel] x]
  have d: "unat d < 2" and fit': "un_reported x \<or> af \<noteq> 0 \<and> lport \<noteq> 0" using fit [OF x] by auto
  obtain q e s where s: "ms_lookup i t True (udp_stats p ! unat d) = Some ((q, (unat i, e)), s)"
    "\<And>st U'. (\<And>j. owned U j \<Longrightarrow> owned U' j) \<Longrightarrow> owned U' i \<Longrightarrow> store_ok m U' (metric_assign (unat i, e) st s)"
    using store_lookup_time [OF r(5) [OF d] r(8) [OF x], of t] by blast
  let ?st = "metric_at (unat i, e) s"
  have "\<exists>y st' ms. (if af \<noteq> 0 then udp_address_changed E (p_nat p) t i d af raddr rport laddr lport x ?st
      else Some (x, ?st, [])) = Some (y, st', ms) \<and> length (un_addrs y) = 2 \<and> un_reported y \<and> list_all foreign ms"
    using address_changed_ok [OF r(9) [OF x] d ported, of t i af raddr rport laddr lport ?st] fit' r(9) [OF x]
    by (cases "af = 0") auto
  then obtain y st' ms where y: "(if af \<noteq> 0 then udp_address_changed E (p_nat p) t i d af raddr rport laddr lport x ?st
      else Some (x, ?st, [])) = Some (y, st', ms)" "length (un_addrs y) = 2" "un_reported y" "list_all foreign ms" by blast
  let ?U = "U(sk \<mapsto> (i, y))"
  obtain h' where h': "fh_assign i y (udp_table p) = Some h'" "udp_rel E m (p\<lparr>udp_table := h'\<rparr>) ?U" "evolves U ?U"
    using udp_assign_ok [OF rel x y(2)] y(3) by auto
  have "owned ?U i" using y(3) unfolding owned_def by (metis fun_upd_same)
  then have "store_ok m ?U (metric_assign (unat i, e) (add_udp_stats packets bytes drops st') s)"
    using s(2) evolves_owned [OF h'(3)] by blast
  from udp_store_ok [OF h'(2) this d]
  have rel': "udp_rel E m (p\<lparr>udp_table := h', udp_stats := (udp_stats p)[unat d :=
      metric_assign (unat i, e) (add_udp_stats packets bytes drops st') s]\<rparr>) ?U" by simp
  let ?p = "say ms (p\<lparr>udp_table := h', udp_stats := (udp_stats p)[unat d :=
      metric_assign (unat i, e) (add_udp_stats packets bytes drops st') s]\<rparr>)"
  have "handle_udp_stats E t sk raddr packets bytes af rport d laddr lport drops p = Some ?p"
    using f d r(4) s(1) y(1) h'(1) by (simp add: handle_udp_stats_def del: if_split)
  moreover have "udp_rel E m ?p ?U" using rel' by (simp add: udp_rel_view [of "say _ _"])
  ultimately show ?thesis using h'(3) y(3,4)
    by (intro exI [of _ ?p] exI [of _ ?U]) (simp add: tcp_view_def complaints_def say_def)
qed

lemma udp_drain_list:
  assumes "fh_rep F tbl U" "cap tbl = m" "entries_ok U" "unat d < 2"
    and "\<And>i. i \<in> set js \<Longrightarrow> us_valid (V (unat i) e) \<Longrightarrow> owned U i"
  shows "\<exists>V' tbl' ms U'. drain_list (udp_drain_body t d) e js V (tbl, w) = Some (V', tbl', w @ ms) \<and> fh_rep F tbl' U' \<and> cap tbl' = m \<and>
    entries_ok U' \<and> evolves U U' \<and> list_all foreign ms \<and>
    (\<forall>j f. us_valid (V' j f) \<longrightarrow> us_valid (V j f) \<and> \<not> (f = e \<and> j \<in> unat ` set js))"
  using assms
proof (induction js arbitrary: V tbl U w)
  case Nil
  then show ?case using evolves_refl [of U] by (intro exI [of _ V] exI [of _ tbl] exI [of _ "[]"] exI [of _ U]) simp
next
  case (Cons i js)
  let ?st = "V (unat i) e"
  have "\<exists>st' tbl1 ms1 U1. udp_drain_body t d i ?st (tbl, w) = Some (st', tbl1, w @ ms1) \<and> \<not> us_valid st' \<and> fh_rep F tbl1 U1 \<and>
      cap tbl1 = m \<and> entries_ok U1 \<and> evolves U U1 \<and> list_all foreign ms1"
  proof (cases "us_valid ?st")
    case False
    then show ?thesis using Cons.prems(1-3) evolves_refl [of U]
      by (intro exI [of _ ?st] exI [of _ tbl] exI [of _ "[]"] exI [of _ U]) (simp add: udp_drain_body_def)
  next
    case True
    then obtain sk x where x: "U sk = Some (i, x)" "un_reported x" using Cons.prems(5) [of i] by (auto simp: owned_def)
    have len: "length (un_addrs x) = 2" using Cons.prems(3) x(1) by (auto simp: entries_ok_def)
    obtain y ms where y: "udp_send_stats t i d x ?st = Some (y, ?st\<lparr>us_valid := False\<rparr>, ms)" "length (un_addrs y) = 2" "un_reported y"
      "list_all foreign ms" using udp_send_stats_ok [OF len Cons.prems(4), of t i ?st] x(2) by auto
    obtain h' where h': "fh_assign i y tbl = Some h'" "fh_rep F h' (U(sk \<mapsto> (i, y)))" "cap h' = m"
      using fh.assign_rep [OF Cons.prems(1) x(1), of y] Cons.prems(2) by auto
    have "entries_ok (U(sk \<mapsto> (i, y)))" using Cons.prems(3) y(2) by (auto simp: entries_ok_def)
    then show ?thesis using True y h' evolves_assign [of U, OF x(1)] fh.find_Some [OF Cons.prems(1) x(1)]
      by (intro exI [of _ "?st\<lparr>us_valid := False\<rparr>"] exI [of _ h'] exI [of _ ms] exI [of _ "U(sk \<mapsto> (i, y))"])
        (simp add: udp_drain_body_def)
  qed
  then obtain st' tbl1 ms1 U1 where 1: "udp_drain_body t d i ?st (tbl, w) = Some (st', tbl1, w @ ms1)" "\<not> us_valid st'"
    "fh_rep F tbl1 U1" "cap tbl1 = m" "entries_ok U1" "evolves U U1" "list_all foreign ms1" by blast
  let ?V = "V(unat i := (V (unat i))(e := st'))"
  have "owned U1 j" if "j \<in> set js" "us_valid (?V (unat j) e)" for j
    using that Cons.prems(5) [of j] evolves_owned [OF 1(6)] 1(2) by (auto split: if_splits)
  from Cons.IH [where V = ?V and w = "w @ ms1", OF 1(3-5) Cons.prems(4) this, unfolded append_assoc]
  obtain V' tbl' ms U' where 2: "drain_list (udp_drain_body t d) e js ?V (tbl1, w @ ms1) = Some (V', tbl', w @ ms1 @ ms)"
    "fh_rep F tbl' U'" "cap tbl' = m" "entries_ok U'" "evolves U1 U'" "list_all foreign ms"
    "\<And>j f. us_valid (V' j f) \<Longrightarrow> us_valid (?V j f) \<and> \<not> (f = e \<and> j \<in> unat ` set js)" by blast
  have "us_valid (V j f) \<and> \<not> (f = e \<and> j \<in> unat ` set (i # js))" if "us_valid (V' j f)" for j f
    using 2(7) [OF that] 1(2) by (auto split: if_splits)
  then show ?case using 1(1,7) 2 evolves_trans [OF 1(6) 2(5)]
    by (intro exI [of _ V'] exI [of _ tbl'] exI [of _ "ms1 @ ms"] exI [of _ U']) simp
qed

lemma store_timeslot: "store_ok m U s \<Longrightarrow> store_ok m U (snd (relative_timeslot t s))"
  using relative_timeslot_store [of t s] by (auto simp: store_ok_def rep_timeslot metric_at_def)

lemma udp_drain_ok:
  assumes rel: "udp_rel E m p U" and d: "unat d < 2"
  shows "\<exists>p' U'. udp_drain t d p = Some p' \<and> aside p p' \<and> udp_rel E m p' U' \<and> evolves U U'"
proof -
  note r = udp_relD [OF rel]
  obtain rl s where rs: "relative_timeslot t (udp_stats p ! unat d) = (rl, s)" by (cases "relative_timeslot t (udp_stats p ! unat d)")
  have ok: "store_ok m U s" using store_timeslot [OF r(5) [OF d], of t] by (simp add: rs)
  show ?thesis
  proof (cases "rl = 0")
    case True
    then show ?thesis using udp_store_ok [OF rel ok d] evolves_refl [of U] by (auto simp: udp_drain_def rs aside_refl)
  next
    case False
    obtain Q where Q: "ms_rep s (\<lambda>i e. metric_at (i, e) s) Q" "ms_size s = m" "ms_epochs s = n_epochs"
      "\<And>i e. unat i < m \<Longrightarrow> e < 2 \<Longrightarrow> us_valid (metric_at (unat i, e) s) \<Longrightarrow> i \<in> set (Q e) \<and> owned U i"
      using ok by (auto simp: store_ok_def)
    let ?V = "\<lambda>i e. metric_at (i, e) s"
    define e where "e = ms_slot s 0"
    have e2: "e < 2" using two_slots(1) [of s] Q(3) by (simp add: e_def ms_n_def n_epochs_def)
    have "unat i < m" if "i \<in> set (Q e)" for i
      using Q(1,2,3) e2 that by (auto simp: ms_rep_def queue_ok_def ms_n_def n_epochs_def)
    then have "owned U i" if "i \<in> set (Q e)" "us_valid (?V (unat i) e)" for i using that Q(4) [of i e] e2 by blast
    from udp_drain_list [where js = "Q e" and V = ?V and e = e and t = t and w = "p_writer p", OF r(1-3) d this]
    obtain V' tbl' ms U' where dl: "drain_list (udp_drain_body t d) e (Q e) ?V (udp_table p, p_writer p) = Some (V', tbl', p_writer p @ ms)"
      "fh_rep (pe_hash E) tbl' U'" "cap tbl' = m" "entries_ok U'" "evolves U U'" "list_all foreign ms"
      "\<And>j f. us_valid (V' j f) \<Longrightarrow> us_valid (?V j f) \<and> \<not> (f = e \<and> j \<in> unat ` set (Q e))" by blast
    obtain s' where s': "drain_queue (udp_drain_body t d) s (udp_table p, p_writer p) = Some (s', tbl', p_writer p @ ms)"
      "ms_rep s' V' (Q(e := []))" "ms_same s s'"
      using drain_queue_rep [OF Q(1) e_def, of "udp_drain_body t d" "(udp_table p, p_writer p)"] dl(1) by auto
    have "store_ok m U' (ms_advance s')"
    proof (rule store_okI [OF advance_rep(1) [OF s'(2)]])
      show "ms_size (ms_advance s') = m" "ms_epochs (ms_advance s') = n_epochs"
        using s'(3) Q(2,3) by (simp_all add: ms_advance_def ms_same_def)
      fix i :: u32 and f assume "unat i < m" "f < 2" "us_valid (V' (unat i) f)"
      then show "i \<in> set ((Q(e := [])) f) \<and> owned U' i"
        using dl(7) [of "unat i" f] Q(4) [of i f] evolves_owned [OF dl(5)] by (cases "f = e") auto
    qed
    moreover have "store_ok m U' (udp_stats p ! d')" if "d' < 2" for d'
      using store_ok_owner [OF r(5) [OF that]] evolves_owned [OF dl(5)] by blast
    ultimately have "store_ok m U' ((udp_stats p)[unat d := ms_advance s'] ! d')" if "d' < 2" for d'
      using that r(4) by (cases "d' = unat d") simp_all
    moreover have "U' (rq_sk v) \<noteq> None" if "(q, k, v) \<in> set (requests (p_dns p))" for q k v
      using r(7) [OF that] dl(5) unfolding evolves_def by blast
    ultimately have "udp_rel E m (p\<lparr>udp_stats := (udp_stats p)[unat d := ms_advance s'], udp_table := tbl', p_writer := p_writer p @ ms\<rparr>) U'"
      using r(4,6) dl(2-4) unfolding udp_rel_def by auto
    moreover have "aside p (p\<lparr>udp_stats := (udp_stats p)[unat d := ms_advance s'], udp_table := tbl', p_writer := p_writer p @ ms\<rparr>)"
      using dl(6) by (simp add: aside_def tcp_view_def complaints_def)
    ultimately show ?thesis using False s'(1) rs dl(5) by (auto simp: udp_drain_def)
  qed
qed

lemma udp_send_stats_from_queue_ok:
  assumes rel: "udp_rel E m p U"
  shows "\<exists>p' U'. udp_send_stats_from_queue t p = Some p' \<and> aside p p' \<and> udp_rel E m p' U' \<and> evolves U U'"
proof -
  obtain p1 U1 where 1: "udp_drain t 0 p = Some p1" "aside p p1" "udp_rel E m p1 U1" "evolves U U1"
    using udp_drain_ok [OF rel, of 0 t] by auto
  obtain p2 U2 where "udp_drain t 1 p1 = Some p2" "aside p1 p2" "udp_rel E m p2 U2" "evolves U1 U2"
    using udp_drain_ok [OF 1(3), of 1 t] by auto
  then show ?thesis using 1 aside_trans evolves_trans unfolding udp_send_stats_from_queue_def by fastforce
qed

section \<open>DNS\<close>

text \<open>The buffers on the stack have their declared sizes, and a resource record does not state a negative length.\<close>

definition dns_env_ok :: "('m, 'n, 'c, 's, 'r) poller_env \<Rightarrow> bool" where
  "dns_env_ok E \<longleftrightarrow> (\<forall>f. 0 \<le> DNS_RR_LEN (pe_dns E) f) \<and> length (pe_hostname E) = DNS_NAME_MAX_LENGTH \<and>
     length (pe_rr_name E) = DNS_NAME_MAX_LENGTH \<and> length (pe_rr_data E) = DNS_NAME_MAX_LENGTH \<and>
     length (pe_ipv4 E) = MAX_ENCODED_IP_ADDRS \<and> length (pe_ipv6 E) = MAX_ENCODED_IP_ADDRS"

lemma parse_query_ok:
  assumes "length abuf < 2 ^ 31" and "length (question_out out) = DNS_NAME_MAX_LENGTH"
  shows "\<exists>st out'. dns_parse_query d abuf out = Some (st, out') \<and>
    (st = ARES_SUCCESS \<longrightarrow> length (question_out out') = DNS_NAME_MAX_LENGTH)"
proof (cases "HFIXEDSZ \<le> length abuf \<and> header_ok d (load_bytes abuf 0 HFIXEDSZ)")
  case True
  let ?h = "load_bytes abuf 0 HFIXEDSZ"
  let ?out = "out\<lparr>is_response := map_option (\<lambda>_. if DNS_HEADER_QR d ?h = 0 then 0 else 1) (is_response out),
    qid_out := map_option (\<lambda>_. DNS_HEADER_QID d ?h) (qid_out out)\<rparr>"
  have q: "dns_parse_query d abuf out = dns_parse_question d abuf ?out" using True by (simp add: parse_query_question Let_def)
  have "length (question_out ?out) = DNS_NAME_MAX_LENGTH" using assms(2) by simp
  from parse_question_cases [OF assms(1) this conjunct2 [OF True]] show ?thesis
  proof (elim disjE exE conjE)
    fix ls e assume "query_message d abuf ls e" and a: "dns_parse_question d abuf ?out = Some (ARES_SUCCESS, query_answer d abuf ls e ?out)"
    then have "length (question_out (query_answer d abuf ls e ?out)) = DNS_NAME_MAX_LENGTH"
      using expanded_buffer(1) [OF assms(2), of ls] by (simp add: query_answer_def query_message_def)
    then show ?thesis using a unfolding q by blast
  qed (unfold q, blast)
next
  case False
  then show ?thesis using parse_query_refused [of abuf d out] assms(2) by auto
qed

lemma dns_respond_ok:
  assumes rel: "udp_rel E m p U" and sk: "U sk \<noteq> None" and live: "set reqs \<subseteq> fst ` set (requests (p_dns p))"
  shows "\<exists>ms. dns_respond E t sk i d answer reqs p = Some (say ms p) \<and> list_all foreign ms"
  using rel live
proof (induction reqs arbitrary: p)
  case Nil
  then show ?case by (intro exI [of _ "[]"]) (simp add: say_def)
next
  case (Cons q reqs)
  note r = udp_relD [OF Cons.prems(1)]
  obtain k v where kv: "(q, k, v) \<in> set (requests (p_dns p))" using Cons.prems(2) by auto
  have deref: "deref q (p_dns p) = Some (k, v)" using deref_iff [OF r(6)] kv by simp
  obtain i1 x1 i2 x2 where x: "U sk = Some (i1, x1)" "U (rq_sk v) = Some (i2, x2)" using sk r(7) [OF kv] by auto
  have match: "dns_match E sk (rq_sk v) p = Some p"
    using fh.find_Some [OF r(1) x(1)] fh.find_Some [OF r(1) x(2)] by (simp add: dns_match_def)
  show ?case
  proof (cases answer)
    case None
    then show ?thesis using deref Cons.IH [OF Cons.prems(1)] Cons.prems(2) by auto
  next
    case (Some a)
    obtain len name ipv4 ipv6 where a: "a = (len, name, ipv4, ipv6)" by (cases a) auto
    let ?m = "In_dns_response t i len name ipv4 ipv6 (t - timestamp_ns v) (if d \<noteq> 0 then 0 else 1)"
    have "udp_rel E m (say [?m] p) U" using Cons.prems(1) by (simp add: udp_rel_view [of "say _ _"])
    from Cons.IH [OF this] Cons.prems(2) obtain ms where
      ms: "dns_respond E t sk i d answer reqs (say [?m] p) = Some (say ms (say [?m] p))" "list_all foreign ms" by auto
    have "say ms (say [?m] p) = say (?m # ms) p" by (simp add: say_def)
    then show ?thesis using ms Some a deref match by (intro exI [of _ "?m # ms"]) simp
  qed
qed

lemma requests_add: "requests (dns_add k v d) = requests d @ [(next_node d, k, v)]"
  by (simp add: dns_add_def Let_def)

lemma handle_dns_ok:
  assumes rel: "udp_rel E m p U" and env: "dns_env_ok E" and len: "length pkt < 2 ^ 31"
  shows "\<exists>p'. handle_dns_message E t sk (length pkt) pkt d p = Some p' \<and> udp_rel E m p' U \<and> tcp_view p' = tcp_view p \<and>
    p_nat p' = p_nat p \<and> (\<exists>ms. p_writer p' = p_writer p @ ms \<and> list_all foreign ms) \<and>
    (U sk \<noteq> None \<longrightarrow> complaints p' = complaints p)"
proof -
  note r = udp_relD [OF rel]
  let ?q = "\<lparr>is_response = Some 0, type_out = Some 0, qid_out = Some 0, question_out = pe_hostname E, question_len = Some 0\<rparr>"
  have same: "\<exists>p'. Some p = Some p' \<and> udp_rel E m p' U \<and> tcp_view p' = tcp_view p \<and>
    p_nat p' = p_nat p \<and> (\<exists>ms. p_writer p' = p_writer p @ ms \<and> list_all foreign ms) \<and> (U sk \<noteq> None \<longrightarrow> complaints p' = complaints p)"
    using rel by (intro exI [of _ p]) (simp add: exI [of _ "[]"])
  show ?thesis
  proof (cases "U sk")
    case None
    let ?p = "udp_missing ''handle_dns_message - sk not found'' p"
    have "handle_dns_message E t sk (length pkt) pkt d p = Some ?p"
      using None fh.find_None [OF r(1), of sk] by (simp add: handle_dns_message_def)
    then show ?thesis using rel None by (simp add: udp_rel_view [of "udp_missing _ _"])
  next
    case (Some ix)
    then obtain i x where x: "U sk = Some (i, x)" by (cases ix) auto
    note f = fh.find_Some [OF r(1) x]
    obtain st q where q: "dns_parse_query (pe_dns E) pkt ?q = Some (st, q)"
      "st = ARES_SUCCESS \<longrightarrow> length (question_out q) = DNS_NAME_MAX_LENGTH"
      using parse_query_ok [OF len, of ?q "pe_dns E"] env by (auto simp: dns_env_ok_def)
    define key where "key = \<lparr>rq_qid = the (qid_out q), rq_type = the (type_out q),
      rq_name = take (nat (the (question_len q))) (question_out q), rq_is_rx = (d \<noteq> 0)\<rparr>"
    have h: "handle_dns_message E t sk (length pkt) pkt d p = (if st \<noteq> ARES_SUCCESS then Some p
        else if is_response q = Some 0 then Some (p\<lparr>p_dns := dns_add key \<lparr>timestamp_ns = t, rq_sk = sk\<rparr> (p_dns p)\<rparr>)
        else dns_handle_response E t sk i d pkt (key\<lparr>rq_is_rx := (d = 0)\<rparr>) q p)"
      using f q(1) by (simp add: handle_dns_message_def Let_def key_def)
    consider "st \<noteq> ARES_SUCCESS" | "st = ARES_SUCCESS" "is_response q = Some 0" | "st = ARES_SUCCESS" "is_response q \<noteq> Some 0" by blast
    then show ?thesis
    proof cases
      case 1
      then show ?thesis unfolding h using same by simp
    next
      case 2
      have "udp_rel E m (p\<lparr>p_dns := dns_add key \<lparr>timestamp_ns = t, rq_sk = sk\<rparr> (p_dns p)\<rparr>) U"
        using rel dns_inv_add [OF r(6)] x by (auto simp: udp_rel_def requests_add)
      then show ?thesis unfolding h using 2 by (simp add: tcp_view_def complaints_def)
    next
      case 3
      let ?key = "key\<lparr>rq_is_rx := (d = 0)\<rparr>"
      let ?out = "\<lparr>hostname_out = question_out q, hostname_len = question_len q, in_addrs_out = Some (pe_ipv4 E),
        num_in_addrs = Some (int MAX_ENCODED_IP_ADDRS), in6_addrs_out = Some (pe_ipv6 E), num_in6_addrs = Some (int MAX_ENCODED_IP_ADDRS)\<rparr>"
      obtain st' out where out: "dns_parse_a_aaaa_reply (pe_dns E) (pe_rr_name E) (pe_rr_data E) pkt ?out = Some (st', out)"
        using reply_parse_ok [OF len, of "pe_dns E" "pe_rr_name E" "pe_rr_data E" ?out "pe_ipv4 E" "pe_ipv6 E"] env q(2) 3(1)
        by (auto simp: dns_env_ok_def reply_ok_def)
      define answer where "answer = (if the (hostname_len out) = 0 \<or> the (num_in_addrs out) + the (num_in6_addrs out) = 0 then None
         else Some (word_of_int (the (hostname_len out)) :: u16, cut_name (take (nat (the (hostname_len out))) (hostname_out out)),
           concat (take (nat (the (num_in_addrs out))) (the (in_addrs_out out))), concat (take (nat (the (num_in6_addrs out))) (the (in6_addrs_out out)))))"
      let ?reqs = "dns_lookup ?key (p_dns p)"
      have dh: "dns_handle_response E t sk i d pkt ?key q p = (if length ?reqs > 0
          then Option.bind (dns_respond E t sk i d answer ?reqs p) (\<lambda>p1.
                 map_option (\<lambda>d. p1\<lparr>p_dns := d\<rparr>) (remove_all_with_key ?key (p_dns p1))) else Some p)"
        using out by (simp add: dns_handle_response_def Let_def answer_def)
      have "set ?reqs \<subseteq> fst ` set (requests (p_dns p))" unfolding lookup_live(2) [OF r(6) mset_lookup(1) [OF r(6)]] by auto
      with dns_respond_ok [OF rel, of sk ?reqs t i d answer] x obtain ms where
        ms: "dns_respond E t sk i d answer ?reqs p = Some (say ms p)" "list_all foreign ms" by auto
      obtain d' where d': "remove_all_with_key ?key (p_dns p) = Some d'" "dns_inv d'" "set (requests d') \<subseteq> set (requests (p_dns p))"
        using remove_all_rel [OF r(6), of ?key] by auto
      have "udp_rel E m ((say ms p)\<lparr>p_dns := d'\<rparr>) U" using rel d'(2,3) by (auto simp: udp_rel_def)
      moreover have "tcp_view ((say ms p)\<lparr>p_dns := d'\<rparr>) = tcp_view p" "complaints ((say ms p)\<lparr>p_dns := d'\<rparr>) = complaints p"
        by (simp_all add: tcp_view_def complaints_def say_def)
      ultimately show ?thesis unfolding h dh using 3 ms d'(1) same by (cases "length ?reqs > 0") simp_all
    qed
  qed
qed

end
