(* ===== verification/Poller_Run.thy ===== *)
theory Poller_Run
  imports Poller_Udp Render_Probes
begin

text \<open>
  Runs of the whole poller of \<^verbatim>\<open>src/collector/kernel/buffered_poller.cc\<close>, fed with the messages of the BPF
  programs: it never fails, its tables hold the sockets that the messages opened, the TCP statistics it
  reports add up to what the kernel counted, and when the messages obey the contract that the probes keep
  (\<^verbatim>\<open>Lifecycle_Spec\<close>) it logs no error and no warning.
\<close>

section \<open>Calls of the poller\<close>

text \<open>\<^verbatim>\<open>poll\<close> and \<^verbatim>\<open>handle_event\<close> process the records available, \<^verbatim>\<open>slow_poll\<close> times DNS requests out; each at a time.\<close>

datatype poll_op = Poll u64 "perf_record list" | Slow_poll u64 | Probes_loaded

fun poll_do ::
    "('m, 'n, 'c, 's, 'r) poller_env \<Rightarrow> poll_op \<Rightarrow> ('m, 'n, 'c, 's, 'r) poller \<Rightarrow> ('m, 'n, 'c, 's, 'r) poller option" where
  "poll_do E (Poll t rs) p = process_samples E t rs p"
| "poll_do E (Slow_poll t) p = process_dns_timeouts E t p"
| "poll_do E Probes_loaded p = Some (set_all_probes_loaded p)"

fun poll_run ::
    "('m, 'n, 'c, 's, 'r) poller_env \<Rightarrow> poll_op list \<Rightarrow> ('m, 'n, 'c, 's, 'r) poller \<Rightarrow> ('m, 'n, 'c, 's, 'r) poller option" where
  "poll_run E [] p = Some p"
| "poll_run E (x # xs) p = Option.bind (poll_do E x p) (poll_run E xs)"

text \<open>The messages that are handled: those read while the connection was writable, up to a lost one.\<close>

fun handled :: "perf_record list \<Rightarrow> bpf_event list" where
  "handled [] = []"
| "handled (Sample ev writable # rs) = (if writable then ev # handled rs else handled rs)"
| "handled (Lost n # rs) = []"

fun seen :: "poll_op \<Rightarrow> bpf_event list" where
  "seen (Poll t rs) = handled rs"
| "seen _ = []"

abbreviation messages :: "poll_op list \<Rightarrow> bpf_event list" where
  "messages ops \<equiv> concat (map seen ops)"

fun records_known :: "perf_record list \<Rightarrow> bool" where
  "records_known [] = True"
| "records_known (Sample ev writable # rs) = (has_handler ev \<and> records_known rs)"
| "records_known (Lost n # rs) = True"

fun op_known :: "poll_op \<Rightarrow> bool" where
  "op_known (Poll t rs) = records_known rs"
| "op_known _ = True"

fun complete :: "perf_record list \<Rightarrow> bool" where
  "complete [] = True"
| "complete (Sample ev writable # rs) = complete rs"
| "complete (Lost n # rs) = False"

fun op_complete :: "poll_op \<Rightarrow> bool" where
  "op_complete (Poll t rs) = complete rs"
| "op_complete _ = True"

section \<open>What the UDP side relies on\<close>

text \<open>The UDP sockets in the table and those among them whose port the messages have told.  Statistics without
  an address may only come for the latter, a direction is 0 or 1, and a translated connection has a source port.\<close>

fun udp_step :: "nat \<Rightarrow> bpf_event \<Rightarrow> u64 set \<times> u64 set \<Rightarrow> u64 set \<times> u64 set" where
  "udp_step m (Ev_udp_new_socket t pid sk laddr lport) (D, R) =
     (if card D = m \<or> sk \<in> D then (D, R) else (insert sk D, if lport \<noteq> 0 then insert sk R else R - {sk}))"
| "udp_step m (Ev_udp_destroy_socket t sk) (D, R) = (D - {sk}, R - {sk})"
| "udp_step m (Ev_udp_stats t sk raddr packets bytes af rport is_rx laddr lport drops) (D, R) =
     (D, if sk \<in> D then insert sk R else R)"
| "udp_step m _ s = s"

fun message_fit :: "bpf_event \<Rightarrow> u64 set \<times> u64 set \<Rightarrow> bool" where
  "message_fit (Ev_udp_stats t sk raddr packets bytes af rport is_rx laddr lport drops) (D, R) =
     (sk \<in> D \<longrightarrow> unat is_rx < 2 \<and> (sk \<in> R \<or> af \<noteq> 0 \<and> lport \<noteq> 0))"
| "message_fit (Ev_dns_packet t sk pkt total_len is_rx) s = (length pkt < 2 ^ 31)"
| "message_fit (Ev_nf_conntrack_alter_reply t ct sip sp dip dp pr nsip nsp ndip ndp npr) s = (nsp \<noteq> 0)"
| "message_fit (Ev_existing_conntrack_tuple t ct sip sp dip dp pr dir) s = (sp \<noteq> 0)"
| "message_fit _ s = True"

fun stream_fit :: "nat \<Rightarrow> bpf_event list \<Rightarrow> u64 set \<times> u64 set \<Rightarrow> bool" where
  "stream_fit m [] s = True"
| "stream_fit m (ev # evs) s = (message_fit ev s \<and> stream_fit m evs (udp_step m ev s))"

lemma stream_fit_append: "stream_fit m (xs @ ys) s \<longleftrightarrow> stream_fit m xs s \<and> stream_fit m ys (fold (udp_step m) xs s)"
  by (induction xs arbitrary: s) simp_all

lemma books_append: "books n (xs @ ys) b = books n ys (books n xs b)"
  by (induction n xs b rule: books.induct) simp_all

text \<open>Messages that give no reason to complain.\<close>

fun udp_expected :: "nat \<Rightarrow> bpf_event \<Rightarrow> u64 set \<Rightarrow> bool" where
  "udp_expected m (Ev_udp_new_socket t pid sk laddr lport) D = (sk \<notin> D \<and> card D \<noteq> m)"
| "udp_expected m (Ev_udp_stats t sk raddr packets bytes af rport is_rx laddr lport drops) D = (sk \<in> D)"
| "udp_expected m (Ev_dns_packet t sk pkt total_len is_rx) D = (sk \<in> D)"
| "udp_expected m _ D = True"

fun stream_expected ::
    "nat \<Rightarrow> nat \<Rightarrow> bpf_event list \<Rightarrow> (u64 \<rightharpoonup> tcp_socket_entry) \<times> totals \<Rightarrow> u64 set \<times> u64 set \<Rightarrow> bool" where
  "stream_expected n m [] b s = True"
| "stream_expected n m (ev # evs) b s =
     (tcp_expected n ev (fst b) \<and> udp_expected m ev (fst s) \<and> stream_expected n m evs (books n [ev] b) (udp_step m ev s))"

lemma stream_expected_append:
  "stream_expected n m (xs @ ys) b s \<longleftrightarrow>
     stream_expected n m xs b s \<and> stream_expected n m ys (books n xs b) (fold (udp_step m) xs s)"
proof (induction xs arbitrary: b s)
  case (Cons ev xs)
  have "books n (ev # xs) b = books n xs (books n [ev] b)" using books_append [of n "[ev]" xs b] by simp
  then show ?case by (simp add: Cons.IH)
qed simp

section \<open>The invariant\<close>

definition udp_ok :: "('m, 'n, 'c, 's, 'r) poller_env \<Rightarrow> nat \<Rightarrow> ('m, 'n, 'c, 's, 'r) poller \<Rightarrow> u64 set \<times> u64 set \<Rightarrow> bool" where
  "udp_ok E m p s \<longleftrightarrow> (\<exists>U. udp_rel E m p U \<and> dom U = fst s \<and> (\<forall>sk i x. sk \<in> snd s \<longrightarrow> U sk = Some (i, x) \<longrightarrow> un_reported x))"

definition ported :: "(hostport_tuple \<rightharpoonup> hostport_tuple) \<Rightarrow> bool" where
  "ported m \<longleftrightarrow> (\<forall>x y. m x = Some y \<longrightarrow> src_port y \<noteq> 0)"

definition nat_ok :: "('n, 'c, 's, 'r) nat_maps \<Rightarrow> ('n, 'c, 's, 'r) nat_handler \<Rightarrow> bool" where
  "nat_ok M h \<longleftrightarrow> (\<exists>S. nat_rel M h S \<and> ported (ns_nat S))"

definition poller_ok ::
    "('m, 'n, 'c, 's, 'r) poller_env \<Rightarrow> nat \<Rightarrow> nat \<Rightarrow> ('m, 'n, 'c, 's, 'r) poller \<Rightarrow>
     (u64 \<rightharpoonup> tcp_socket_entry) \<times> totals \<Rightarrow> u64 set \<times> u64 set \<Rightarrow> bool" where
  "poller_ok E n m p b s \<longleftrightarrow> tcp_ok E n p b \<and> udp_ok E m p s \<and> nat_ok (pe_nat E) (p_nat p)"

definition env_ok :: "('m, 'n, 'c, 's, 'r) poller_env \<Rightarrow> bool" where
  "env_ok E \<longleftrightarrow> hash_ops_ok (pe_hash E) \<and> nat_maps_ok (pe_nat E) \<and> dns_env_ok E"

lemma nat_ok_ported: "nat_ok M h \<Longrightarrow> nat_ported M h"
  by (auto simp: nat_ok_def nat_ported_def ported_def nat_relD)

lemma ported_bind: "ported m \<Longrightarrow> src_port y \<noteq> 0 \<Longrightarrow> ported (bind_pair m x y)"
  by (simp add: ported_def bind_pair_def unbind_def)

lemma ported_step: "nat_spec_step ev S out S' \<Longrightarrow> message_fit ev s \<Longrightarrow> ported (ns_nat S) \<Longrightarrow> ported (ns_nat S')"
  by (induction rule: nat_spec_step.induct) (simp_all add: ported_bind, simp add: ported_def)

lemma nat_step_ok:
  assumes "nat_maps_ok M" and "nat_ok M h" and "message_fit ev s"
  shows "\<exists>h'. nat_step M ev h = Some h' \<and> nat_ok M h'"
proof -
  obtain S where S: "nat_rel M h S" "ported (ns_nat S)" using assms(2) by (auto simp: nat_ok_def)
  obtain h' out S' where "nat_step M ev h = Some h'" "nat_spec_step ev S out S'" "nat_rel M h' S'"
    using nat_step_rel [OF assms(1) S(1), of ev] by blast
  then show ?thesis using ported_step [OF _ assms(3) S(2)] unfolding nat_ok_def by blast
qed

lemma tcp_ok_aside:
  assumes "tcp_ok E n p b" and "tcp_view p' = tcp_view p" and "p_writer p' = p_writer p @ ms" "list_all foreign ms"
  shows "tcp_ok E n p' b"
proof -
  obtain T V Q where "tcp_rel E n p T V Q" "counters T = fst b" "accounts (p_writer p) T V (snd b)" using assms(1) by (auto simp: tcp_ok_def)
  then show ?thesis using accounts_foreign [OF _ assms(4)] tcp_rel_view [OF assms(2)] unfolding tcp_ok_def assms(3) by blast
qed

lemma udp_ok_view: "udp_view p' = udp_view p \<Longrightarrow> udp_ok E m p' s = udp_ok E m p s"
  unfolding udp_ok_def by (simp only: udp_rel_view [of p' p])

lemma udp_okI:
  "udp_rel E m p U \<Longrightarrow> dom U = D \<Longrightarrow> \<forall>sk i x. sk \<in> R \<longrightarrow> U sk = Some (i, x) \<longrightarrow> un_reported x \<Longrightarrow> udp_ok E m p (D, R)"
  unfolding udp_ok_def fst_conv snd_conv by blast

lemma evolves_reported:
  assumes "evolves U U'" "\<forall>sk i x. sk \<in> R \<longrightarrow> U sk = Some (i, x) \<longrightarrow> un_reported x" "sk \<in> R" "U' sk = Some (i, x)"
  shows "un_reported x"
proof -
  have "sk \<in> dom U" using assms(1,4) by (auto simp: evolves_def)
  then obtain j y where y: "U sk = Some (j, y)" by auto
  then obtain z where "U' sk = Some (j, z)" "un_reported y \<longrightarrow> un_reported z" using assms(1) unfolding evolves_def by blast
  then show ?thesis using assms(2,3,4) y by simp
qed

section \<open>One message\<close>

definition udp_advances ::
    "('m, 'n, 'c, 's, 'r) poller_env \<Rightarrow> nat \<Rightarrow> bpf_event \<Rightarrow> ('m, 'n, 'c, 's, 'r) poller \<Rightarrow> u64 set \<times> u64 set \<Rightarrow> bool" where
  "udp_advances E m ev p s \<longleftrightarrow> (\<exists>p' ms. handle_message E ev p = Some p' \<and> tcp_view p' = tcp_view p \<and> p_nat p' = p_nat p \<and>
     p_writer p' = p_writer p @ ms \<and> list_all foreign ms \<and> udp_ok E m p' (udp_step m ev s) \<and>
     (udp_expected m ev (fst s) \<longrightarrow> complaints p' = complaints p))"

lemma udp_okE:
  assumes "udp_ok E m p s"
  obtains U where "udp_rel E m p U" "dom U = fst s" "\<forall>sk i x. sk \<in> snd s \<longrightarrow> U sk = Some (i, x) \<longrightarrow> un_reported x"
  using assms unfolding udp_ok_def by blast

lemma udp_advances_new:
  assumes "udp_ok E m p (D, R)"
  shows "udp_advances E m (Ev_udp_new_socket t pid sk laddr lport) p (D, R)"
proof -
  obtain U where rel: "udp_rel E m p U" and D: "dom U = D" and R: "\<forall>sk i x. sk \<in> R \<longrightarrow> U sk = Some (i, x) \<longrightarrow> un_reported x"
    using assms by (auto elim: udp_okE)
  have dm: "U sk = None \<longleftrightarrow> sk \<notin> D" using D by auto
  obtain p' ms where p': "handle_udp_new_socket E t pid sk laddr lport p = Some p'" "tcp_view p' = tcp_view p" "p_nat p' = p_nat p"
    "p_writer p' = p_writer p @ ms" "list_all foreign ms"
    "if card (dom U) = m \<or> U sk \<noteq> None then udp_rel E m p' U
     else complaints p' = complaints p \<and> (\<exists>i x. udp_rel E m p' (U(sk \<mapsto> (i, x))) \<and> (lport \<noteq> 0 \<longrightarrow> un_reported x))"
    using udp_new_ok [OF rel, of t pid sk laddr lport] by blast
  have "udp_ok E m p' (udp_step m (Ev_udp_new_socket t pid sk laddr lport) (D, R))"
  proof (cases "card D = m \<or> sk \<in> D")
    case True
    then have "udp_rel E m p' U" using p'(6) D dm by auto
    then show ?thesis using True udp_okI [OF _ D R] by simp
  next
    case False
    then obtain i x where x: "udp_rel E m p' (U(sk \<mapsto> (i, x)))" "lport \<noteq> 0 \<longrightarrow> un_reported x" using p'(6) D dm by auto
    have "udp_ok E m p' (insert sk D, if lport \<noteq> 0 then insert sk R else R - {sk})"
      by (rule udp_okI [OF x(1)]) (use x(2) R D in \<open>auto split: if_splits\<close>)
    then show ?thesis using False by simp
  qed
  then show ?thesis using p' D dm unfolding udp_advances_def by (intro exI [of _ p'] exI [of _ ms]) auto
qed

lemma udp_advances_destroy:
  assumes "udp_ok E m p (D, R)"
  shows "udp_advances E m (Ev_udp_destroy_socket t sk) p (D, R)"
proof -
  obtain U where rel: "udp_rel E m p U" and D: "dom U = D" and R: "\<forall>sk i x. sk \<in> R \<longrightarrow> U sk = Some (i, x) \<longrightarrow> un_reported x"
    using assms by (auto elim: udp_okE)
  obtain p' where p': "handle_udp_destroy_socket E t sk p = Some p'" "aside p p'" "udp_rel E m p' (U(sk := None))"
    using udp_destroy_ok [OF rel, of t sk] by blast
  have "udp_ok E m p' (D - {sk}, R - {sk})" by (rule udp_okI [OF p'(3)]) (use D R in auto)
  then show ?thesis using p'(1,2) unfolding udp_advances_def aside_def by auto
qed

lemma udp_advances_stats:
  assumes "udp_ok E m p (D, R)" and ported: "nat_ported (pe_nat E) (p_nat p)"
    and fit: "message_fit (Ev_udp_stats t sk raddr packets bytes af rport d laddr lport drops) (D, R)"
  shows "udp_advances E m (Ev_udp_stats t sk raddr packets bytes af rport d laddr lport drops) p (D, R)"
proof -
  obtain U where rel: "udp_rel E m p U" and D: "dom U = D" and R: "\<forall>sk i x. sk \<in> R \<longrightarrow> U sk = Some (i, x) \<longrightarrow> un_reported x"
    using assms by (auto elim: udp_okE)
  have f: "unat d < 2 \<and> (un_reported x \<or> af \<noteq> 0 \<and> lport \<noteq> 0)" if "U sk = Some (i, x)" for i x
  proof -
    have "sk \<in> D" using D that by auto
    then show ?thesis using fit R that by auto
  qed
  obtain p' U' ms where p': "handle_udp_stats E t sk raddr packets bytes af rport d laddr lport drops p = Some p'" "evolves U U'"
    "udp_rel E m p' U'" "tcp_view p' = tcp_view p" "p_nat p' = p_nat p" "p_writer p' = p_writer p @ ms" "list_all foreign ms"
    "case U' sk of None \<Rightarrow> True | Some (i, x) \<Rightarrow> un_reported x \<and> complaints p' = complaints p"
    using handle_udp_stats_ok [where d = d and af = af and lport = lport and sk = sk and t = t and raddr = raddr
        and packets = packets and bytes = bytes and rport = rport and laddr = laddr and drops = drops, OF rel ported] f by blast
  have D': "dom U' = D" using p'(2) D by (simp add: evolves_def)
  have "\<forall>k i x. k \<in> (if sk \<in> D then insert sk R else R) \<longrightarrow> U' k = Some (i, x) \<longrightarrow> un_reported x"
    using evolves_reported [OF p'(2) R] p'(8) D' by (auto split: option.splits)
  then have "udp_ok E m p' (D, if sk \<in> D then insert sk R else R)" by (rule udp_okI [OF p'(3) D'])
  moreover have "sk \<in> D \<longrightarrow> complaints p' = complaints p" using p'(8) D' by (auto split: option.splits)
  ultimately show ?thesis using p'(1,4-7) unfolding udp_advances_def by (intro exI [of _ p'] exI [of _ ms]) simp
qed

lemma udp_advances_dns:
  assumes "udp_ok E m p (D, R)" and env: "dns_env_ok E" and len: "length pkt < 2 ^ 31"
  shows "udp_advances E m (Ev_dns_packet t sk pkt total_len d) p (D, R)"
proof -
  obtain U where rel: "udp_rel E m p U" and D: "dom U = D" and R: "\<forall>sk i x. sk \<in> R \<longrightarrow> U sk = Some (i, x) \<longrightarrow> un_reported x"
    using assms by (auto elim: udp_okE)
  obtain p' ms where p': "handle_dns_message E t sk (length pkt) pkt d p = Some p'" "udp_rel E m p' U" "tcp_view p' = tcp_view p"
    "p_nat p' = p_nat p" "p_writer p' = p_writer p @ ms" "list_all foreign ms" "U sk \<noteq> None \<longrightarrow> complaints p' = complaints p"
    using handle_dns_ok [OF rel env len, of t sk d] by blast
  then show ?thesis using D udp_okI [OF p'(2) D R] unfolding udp_advances_def by (intro exI [of _ p'] exI [of _ ms]) auto
qed

lemma books_single: "books n [ev] b = (book_open n ev (fst b), book_totals ev (fst b) (snd b))"
  by (cases b) simp

lemma books_other: "\<not> tcp_message ev \<Longrightarrow> books n [ev] b = b"
  by (cases b; cases "snd b"; cases ev) (simp_all add: book_totals_def)

lemma udp_step_tcp: "tcp_message ev \<Longrightarrow> udp_step m ev s = s"
  by (cases ev; cases s) simp_all

lemma tcp_expected_other: "\<not> tcp_message ev \<Longrightarrow> tcp_expected n ev C"
  by (cases ev) simp_all

lemma udp_expected_tcp: "tcp_message ev \<Longrightarrow> udp_expected m ev D"
  by (cases ev) simp_all

lemma other_message_ok:
  assumes env: "env_ok E" and udp: "udp_ok E m p s" and nat: "nat_ok (pe_nat E) (p_nat p)" and fit: "message_fit ev s"
    and other: "\<not> tcp_message ev"
  shows "\<exists>p' ms. handle_message E ev p = Some p' \<and> tcp_view p' = tcp_view p \<and> nat_ok (pe_nat E) (p_nat p') \<and>
    p_writer p' = p_writer p @ ms \<and> list_all foreign ms \<and> udp_ok E m p' (udp_step m ev s) \<and>
    (udp_expected m ev (fst s) \<longrightarrow> complaints p' = complaints p)"
proof -
  obtain D R where s: "s = (D, R)" by (cases s)
  have nat': "\<exists>h. nat_step (pe_nat E) ev (p_nat p) = Some h \<and> nat_ok (pe_nat E) h"
    using env nat_step_ok [OF _ nat fit] by (simp add: env_ok_def)
  have ported: "nat_ported (pe_nat E) (p_nat p)" using nat by (rule nat_ok_ported)
  have adv: ?thesis if "udp_advances E m ev p (D, R)" using that nat unfolding udp_advances_def s by force
  have set: "\<exists>p' ms. Some (p\<lparr>p_nat := h\<rparr>) = Some p' \<and> tcp_view p' = tcp_view p \<and> nat_ok (pe_nat E) (p_nat p') \<and>
    p_writer p' = p_writer p @ ms \<and> list_all foreign ms \<and> udp_ok E m p' s \<and> complaints p' = complaints p" if "nat_ok (pe_nat E) h" for h
    using that udp by (intro exI [of _ "p\<lparr>p_nat := h\<rparr>"] exI [of _ "[]"])
      (simp add: udp_ok_view [of "p\<lparr>p_nat := h\<rparr>" p] tcp_view_def udp_view_def complaints_def)
  have say: "\<exists>p' ms'. Some (say ms p) = Some p' \<and> tcp_view p' = tcp_view p \<and> nat_ok (pe_nat E) (p_nat p') \<and>
    p_writer p' = p_writer p @ ms' \<and> list_all foreign ms' \<and> udp_ok E m p' s \<and> complaints p' = complaints p" if "list_all foreign ms" for ms
    using that udp nat by (intro exI [of _ "say ms p"] exI [of _ ms]) (simp add: udp_ok_view [of "say ms p" p])
  have skip: "\<exists>p' ms. Some p = Some p' \<and> tcp_view p' = tcp_view p \<and> nat_ok (pe_nat E) (p_nat p') \<and>
    p_writer p' = p_writer p @ ms \<and> list_all foreign ms \<and> udp_ok E m p' s \<and> complaints p' = complaints p"
    using udp nat by (intro exI [of _ p] exI [of _ "[]"]) simp
  show ?thesis
    using other fit env udp nat' ported unfolding s
    by (cases ev) (use adv set say skip in \<open>simp_all add: env_ok_def s udp_advances_new udp_advances_destroy udp_advances_stats udp_advances_dns\<close>)
qed

lemma message_ok:
  assumes env: "env_ok E" and ok: "poller_ok E n m p b s" and fit: "message_fit ev s"
  shows "\<exists>p'. handle_message E ev p = Some p' \<and> poller_ok E n m p' (books n [ev] b) (udp_step m ev s) \<and>
    (tcp_expected n ev (fst b) \<and> udp_expected m ev (fst s) \<longrightarrow> complaints p' = complaints p)"
proof (cases "tcp_message ev")
  case True
  obtain h where h: "nat_step (pe_nat E) ev (p_nat p) = Some h" "nat_ok (pe_nat E) h"
    using env ok nat_step_ok [OF _ _ fit] by (auto simp: env_ok_def poller_ok_def)
  have tcp: "tcp_ok E n p (fst b, snd b)" using ok by (simp add: poller_ok_def)
  obtain p' where "handle_message E ev p = Some p'" "udp_view p' = udp_view p" "p_nat p' \<in> {p_nat p, h}"
    "tcp_ok E n p' (books n [ev] b)" "tcp_expected n ev (fst b) \<longrightarrow> complaints p' = complaints p"
    using tcp_step [OF tcp True h(1)] unfolding books_single by blast
  then show ?thesis using h(2) ok udp_ok_view [of p' p] udp_step_tcp [OF True] by (auto simp: poller_ok_def)
next
  case False
  obtain p' ms where "handle_message E ev p = Some p'" "tcp_view p' = tcp_view p" "nat_ok (pe_nat E) (p_nat p')"
    "p_writer p' = p_writer p @ ms" "list_all foreign ms" "udp_ok E m p' (udp_step m ev s)"
    "udp_expected m ev (fst s) \<longrightarrow> complaints p' = complaints p"
    using other_message_ok [OF env _ _ fit False, of m p] ok unfolding poller_ok_def by blast
  then show ?thesis using ok tcp_ok_aside [of E n p b p' ms] books_other [OF False] by (auto simp: poller_ok_def)
qed

section \<open>One call\<close>

lemma poller_ok_aside:
  assumes "poller_ok E n m p b s" and "aside p p'" and "udp_view p' = udp_view p"
  shows "poller_ok E n m p' b s"
  using assms tcp_ok_aside [of E n p b p'] udp_ok_view [OF assms(3)] unfolding poller_ok_def aside_def by auto

lemma loss_views:
  "tcp_view (send_report_if_recent_loss p) = tcp_view p" "udp_view (send_report_if_recent_loss p) = udp_view p"
  "p_nat (send_report_if_recent_loss p) = p_nat p" "complaints (send_report_if_recent_loss p) = complaints p"
  by (simp_all add: send_report_if_recent_loss_def tcp_view_def udp_view_def complaints_def say_def)

lemma loss_writer: "\<exists>ms. p_writer (send_report_if_recent_loss p) = p_writer p @ ms \<and> list_all foreign ms"
  by (auto simp: send_report_if_recent_loss_def say_def)

lemma loss_ok: "poller_ok E n m p b s \<Longrightarrow> poller_ok E n m (send_report_if_recent_loss p) b s"
  by (rule poller_ok_aside) (simp_all add: aside_def loss_views loss_writer)

lemma lost_ok:
  assumes "poller_ok E n m p b s"
  shows "poller_ok E n m ((log_warn w (send_report_if_recent_loss (p\<lparr>lost_count := c\<rparr>)))\<lparr>restart_requested := True\<rparr>) b s"
proof -
  have view: "poller_ok E n m q' b s" if "poller_ok E n m q b s" "tcp_view q' = tcp_view q" "udp_view q' = udp_view q" "p_nat q' = p_nat q"
    "p_writer q' = p_writer q" for q q'
    using that tcp_ok_aside [of E n q b q' "[]"] udp_ok_view [of q' q] by (simp add: poller_ok_def)
  have "poller_ok E n m (send_report_if_recent_loss (p\<lparr>lost_count := c\<rparr>)) b s"
    by (rule loss_ok, rule view [OF assms]) (simp_all add: tcp_view_def udp_view_def)
  then show ?thesis by (rule view) (simp_all add: tcp_view_def udp_view_def log_warn_def)
qed

lemma process_records_ok:
  assumes "env_ok E" and "poller_ok E n m p b s" and "stream_fit m (handled rs) s" and "records_known rs"
  shows "\<exists>p'. process_records E rs p = Some (p', complete rs) \<and>
    poller_ok E n m p' (books n (handled rs) b) (fold (udp_step m) (handled rs) s) \<and>
    (complete rs \<and> stream_expected n m (handled rs) b s \<longrightarrow> complaints p' = complaints p)"
  using assms(2-)
proof (induction rs arbitrary: p b s rule: handled.induct)
  case (2 ev writable rs)
  show ?case
  proof (cases writable)
    case True
    then obtain p' where p': "handle_message E ev p = Some p'" "poller_ok E n m p' (books n [ev] b) (udp_step m ev s)"
      "tcp_expected n ev (fst b) \<and> udp_expected m ev (fst s) \<longrightarrow> complaints p' = complaints p"
      using message_ok [OF assms(1) "2.prems"(1), of ev] "2.prems"(2) by (auto simp del: books.simps)
    have b: "books n (ev # handled rs) b = books n (handled rs) (books n [ev] b)" using books_append [of n "[ev]" "handled rs" b] by simp
    have "stream_fit m (handled rs) (udp_step m ev s)" "records_known rs" "has_handler ev" using "2.prems"(2,3) True by simp_all
    then obtain q where "process_records E rs p' = Some (q, complete rs)"
      "poller_ok E n m q (books n (handled rs) (books n [ev] b)) (fold (udp_step m) (handled rs) (udp_step m ev s))"
      "complete rs \<and> stream_expected n m (handled rs) (books n [ev] b) (udp_step m ev s) \<longrightarrow> complaints q = complaints p'"
      using "2.IH"(1) [OF True p'(2)] by blast
    then show ?thesis using True p'(1,3) \<open>has_handler ev\<close> by (intro exI [of _ q]) (simp add: b)
  next
    case False
    then show ?thesis using "2.IH"(2) [OF False "2.prems"(1)] "2.prems" by simp
  qed
next
  case (3 c rs)
  show ?case unfolding process_records.simps handled.simps complete.simps books.simps fold_simps
    by (intro exI conjI, rule refl, rule lost_ok [OF "3.prems"(1)]) simp
qed simp

lemma tcp_ok_timeslot:
  assumes "tcp_ok E n p b"
  shows "tcp_ok E n (p\<lparr>tcp_stats := snd (relative_timeslot t (tcp_stats p))\<rparr>) b"
proof -
  obtain T V Q where "tcp_rel E n p T V Q" "counters T = fst b" "accounts (p_writer p) T V (snd b)"
    using assms by (auto simp: tcp_ok_def)
  then show ?thesis using tcp_rel_timeslot [of E n p T V Q t] unfolding tcp_ok_def by auto
qed

lemma udp_sent_ok:
  assumes ok: "poller_ok E n m p b s"
  shows "\<exists>p'. udp_send_stats_from_queue t p = Some p' \<and> poller_ok E n m p' b s \<and> aside p p'"
proof -
  obtain U where rel: "udp_rel E m p U" and D: "dom U = fst s" and R: "\<forall>sk i x. sk \<in> snd s \<longrightarrow> U sk = Some (i, x) \<longrightarrow> un_reported x"
    using ok unfolding poller_ok_def udp_ok_def by blast
  obtain p' U' where p': "udp_send_stats_from_queue t p = Some p'" "aside p p'" "udp_rel E m p' U'" "evolves U U'"
    using udp_send_stats_from_queue_ok [OF rel, of t] by blast
  have D': "dom U' = fst s" using p'(4) D by (simp add: evolves_def)
  have "\<forall>sk i x. sk \<in> snd s \<longrightarrow> U' sk = Some (i, x) \<longrightarrow> un_reported x" using evolves_reported [OF p'(4) R] by blast
  then have "udp_ok E m p' s" using udp_okI [OF p'(3) D'] by (cases s) simp
  then show ?thesis using p'(1,2) ok tcp_ok_aside [of E n p b p'] unfolding poller_ok_def aside_def by auto
qed

abbreviation overdue :: "u64 \<Rightarrow> ('m, 'n, 'c, 's, 'r) poller \<Rightarrow> bool" where
  "overdue t p \<equiv> fst (relative_timeslot t (tcp_stats p)) \<noteq> 0"

abbreviation timed :: "u64 \<Rightarrow> ('m, 'n, 'c, 's, 'r) poller \<Rightarrow> ('m, 'n, 'c, 's, 'r) poller" where
  "timed t p \<equiv> p\<lparr>tcp_stats := snd (relative_timeslot t (tcp_stats p))\<rparr>"

lemma process_samples_split:
  assumes "process_records E rs p = Some (p1, c)"
  shows "process_samples E t rs p =
    (if c then
       if overdue t p1
       then map_option send_report_if_recent_loss (Option.bind (send_stats_from_queue t (timed t p1)) (udp_send_stats_from_queue t))
       else Some (timed t p1)
     else Some p1)"
  using assms by (simp add: process_samples_def Let_def case_prod_unfold split: bool.splits)

lemma timed_ok: "poller_ok E n m p b s \<Longrightarrow> poller_ok E n m (timed t p) b s"
  using tcp_ok_timeslot [of E n p b t] udp_ok_view [of "timed t p" p E m s] by (simp add: poller_ok_def udp_view_def)

lemma timed_complaints: "complaints (timed t p) = complaints p"
  by (simp add: complaints_def)

lemma sent_ok:
  assumes ok: "poller_ok E n m p b s"
  shows "\<exists>p' q. send_stats_from_queue t p = Some q \<and> udp_send_stats_from_queue t q = Some p' \<and> poller_ok E n m p' b s \<and>
    complaints p' = complaints p \<and> aside q p'"
proof -
  obtain q where q: "send_stats_from_queue t p = Some q" "udp_view q = udp_view p" "p_nat q = p_nat p"
    "complaints q = complaints p" "tcp_ok E n q b" using send_stats_ok [of E n p b t] ok by (auto simp: poller_ok_def)
  then have "poller_ok E n m q b s" using ok udp_ok_view [of q p] by (simp add: poller_ok_def)
  then show ?thesis using udp_sent_ok [of E n m q b s t] q unfolding aside_def by auto
qed

lemma process_samples_ok:
  assumes "env_ok E" and "poller_ok E n m p b s" and "stream_fit m (handled rs) s" and "records_known rs"
  shows "\<exists>p'. process_samples E t rs p = Some p' \<and>
    poller_ok E n m p' (books n (handled rs) b) (fold (udp_step m) (handled rs) s) \<and>
    (complete rs \<and> stream_expected n m (handled rs) b s \<longrightarrow> complaints p' = complaints p)"
proof -
  let ?b = "books n (handled rs) b" and ?s = "fold (udp_step m) (handled rs) s"
  obtain p1 where p1: "process_records E rs p = Some (p1, complete rs)" "poller_ok E n m p1 ?b ?s"
    "complete rs \<and> stream_expected n m (handled rs) b s \<longrightarrow> complaints p1 = complaints p"
    using process_records_ok [OF assms] by blast
  obtain q p2 where "send_stats_from_queue t (timed t p1) = Some q" "udp_send_stats_from_queue t q = Some p2"
    "poller_ok E n m p2 ?b ?s" "complaints p2 = complaints p1"
    using sent_ok [OF timed_ok [OF p1(2)], of t t] by (auto simp: timed_complaints)
  then show ?thesis
    using p1 timed_ok [OF p1(2), of t] by (auto simp: process_samples_split [OF p1(1)] loss_ok loss_views timed_complaints)
qed

section \<open>Runs\<close>

lemma poll_do_ok:
  assumes env: "env_ok E" and ok: "poller_ok E n m p b s" and fit: "stream_fit m (seen x) s" "op_known x"
  shows "\<exists>p'. poll_do E x p = Some p' \<and> poller_ok E n m p' (books n (seen x) b) (fold (udp_step m) (seen x) s) \<and>
    (op_complete x \<and> stream_expected n m (seen x) b s \<longrightarrow> complaints p' = complaints p)"
proof (cases x)
  case (Poll t rs)
  then show ?thesis using process_samples_ok [OF env ok] fit by simp
next
  case (Slow_poll t)
  obtain U where rel: "udp_rel E m p U" and D: "dom U = fst s" and R: "\<forall>sk i x. sk \<in> snd s \<longrightarrow> U sk = Some (i, x) \<longrightarrow> un_reported x"
    using ok unfolding poller_ok_def udp_ok_def by blast
  obtain p' where p': "process_dns_timeouts E t p = Some p'" "aside p p'" "udp_rel E m p' U"
    using process_dns_timeouts_ok [OF rel] by blast
  have "udp_ok E m p' s" using udp_okI [OF p'(3) D R] by (cases s) simp
  then have "poller_ok E n m p' b s" using p'(2) ok tcp_ok_aside [of E n p b p'] unfolding poller_ok_def aside_def by auto
  then show ?thesis using p'(1,2) Slow_poll by (simp add: aside_def)
next
  case Probes_loaded
  have "poller_ok E n m (set_all_probes_loaded p) b s" using ok
    by (rule poller_ok_aside) (simp_all add: aside_def set_all_probes_loaded_def tcp_view_def udp_view_def complaints_def)
  then show ?thesis using Probes_loaded by (simp add: set_all_probes_loaded_def complaints_def)
qed

lemma poll_run_ok:
  assumes "env_ok E" and "poller_ok E n m p b s" and "stream_fit m (messages ops) s" and "list_all op_known ops"
  shows "\<exists>p'. poll_run E ops p = Some p' \<and> poller_ok E n m p' (books n (messages ops) b) (fold (udp_step m) (messages ops) s) \<and>
    (list_all op_complete ops \<and> stream_expected n m (messages ops) b s \<longrightarrow> complaints p' = complaints p)"
  using assms(2-)
proof (induction ops arbitrary: p b s)
  case (Cons x ops)
  obtain p1 where p1: "poll_do E x p = Some p1" "poller_ok E n m p1 (books n (seen x) b) (fold (udp_step m) (seen x) s)"
    "op_complete x \<and> stream_expected n m (seen x) b s \<longrightarrow> complaints p1 = complaints p"
    using poll_do_ok [OF assms(1) Cons.prems(1), of x] Cons.prems(2,3) by (auto simp: stream_fit_append)
  show ?case using Cons.IH [OF p1(2)] Cons.prems(2,3) p1
    by (auto simp: stream_fit_append books_append stream_expected_append)
qed simp

section \<open>From the constructor on\<close>

definition table_fits :: "nat \<Rightarrow> u32 \<Rightarrow> 't slot list \<Rightarrow> bool" where
  "table_fits sz esize mem \<longleftrightarrow> 0 < sz \<and> sz \<le> 2 ^ 30 \<and> 4 \<le> esize \<and> sz * unat esize \<le> 2 ^ 32 \<and> length mem = sz"

lemma store_new:
  assumes "table_fits sz esize mem"
  shows "ms_rep (metric_store_new sz n_epochs m0 d smem) (\<lambda>i e. m0) (\<lambda>e. [])"
    "ms_size (metric_store_new sz n_epochs m0 d smem) = sz" "ms_epochs (metric_store_new sz n_epochs m0 d smem) = n_epochs"
  using assms metric_store_new_rep [of sz n_epochs 1 m0 d smem]
  by (simp_all add: metric_store_new_def table_fits_def size_ok_def n_epochs_def)

lemma tcp_ok_new:
  assumes "hash_ops_ok (pe_hash E)" "table_fits n te tm" "length im = n"
  shows "tcp_ok E n (poller_new E n m te ue tm um im ts us d) books0"
proof -
  let ?p = "poller_new E n m te ue tm um im ts us d"
  have valid: "\<not> ts_valid tcp_statistics0" by (simp add: tcp_statistics0_def)
  have "tcp_rel E n ?p Map.empty (\<lambda>i e. tcp_statistics0) (\<lambda>e. [])"
    using fh_new_rep [OF assms(1), of n te tm] assms(2,3) store_new [OF assms(2), of tcp_statistics0 d ts] valid
    by (simp add: tcp_rel_def poller_new_def table_fits_def)
  moreover have "accounts (p_writer ?p) Map.empty (\<lambda>i e. tcp_statistics0) (snd books0)"
    by (simp add: accounts_def balanced_def outstanding_def books0_def poller_new_def)
  ultimately show ?thesis unfolding tcp_ok_def
    by (intro exI [of _ Map.empty] exI [of _ "\<lambda>i e. tcp_statistics0"] exI [of _ "\<lambda>e. []"]) (simp add: books0_def)
qed

lemma udp_ok_new:
  assumes "hash_ops_ok (pe_hash E)" "table_fits m ue um"
  shows "udp_ok E m (poller_new E n m te ue tm um im ts us d) ({}, {})"
proof -
  let ?p = "poller_new E n m te ue tm um im ts us d"
  have "store_ok m Map.empty (metric_store_new m n_epochs udp_statistics0 d us)"
    by (rule store_okI [OF store_new [OF assms(2)]]) (simp add: udp_statistics0_def)
  then have "udp_rel E m ?p Map.empty"
    using fh_new_rep [OF assms(1), of m ue um] assms(2) dns_inv_new
    by (simp add: udp_rel_def poller_new_def table_fits_def entries_ok_def) (simp add: dns_requests_new_def)
  then show ?thesis by (intro udp_okI) simp_all
qed

lemma poller_ok_new:
  assumes "env_ok E" "table_fits n te tm" "table_fits m ue um" "length im = n"
  shows "poller_ok E n m (poller_new E n m te ue tm um im ts us d) books0 ({}, {})"
proof -
  have "nat_ok (pe_nat E) (nat_new (pe_nat E))" using assms(1) nat_new_rel [of "pe_nat E"]
    by (auto simp: nat_ok_def env_ok_def ported_def nat_spec0_def)
  moreover have "p_nat (poller_new E n m te ue tm um im ts us d) = nat_new (pe_nat E)" by (simp add: poller_new_def)
  moreover have h: "hash_ops_ok (pe_hash E)" using assms(1) by (simp add: env_ok_def)
  ultimately show ?thesis unfolding poller_ok_def by (simp add: tcp_ok_new [OF h assms(2,4)] udp_ok_new [OF h assms(3)])
qed

text \<open>The tables hold the sockets of the books, and what the books say of a closed socket has been reported.\<close>

definition in_table :: "('m, 'n, 'c, 's, 'r) poller_env \<Rightarrow> u64 \<Rightarrow> ('m, 't) fixed_hash \<Rightarrow> bool" where
  "in_table E sk h = (case fh_find (pe_hash E) sk h of None \<Rightarrow> False | Some i \<Rightarrow> i \<noteq> fh_invalid h)"

lemma in_table_rep: "fh_rep (pe_hash E) h U \<Longrightarrow> in_table E sk h \<longleftrightarrow> sk \<in> dom U"
  using fh.find_None [of "pe_hash E" h U sk] fh.find_Some [of "pe_hash E" h U sk]
  by (cases "U sk") (auto simp: in_table_def)

lemma poller_ok_tables:
  assumes "poller_ok E n m p b s"
  shows "in_table E sk (tcp_table p) \<longleftrightarrow> fst b sk \<noteq> None" "in_table E sk (udp_table p) \<longleftrightarrow> sk \<in> fst s"
proof -
  obtain T V Q where "tcp_rel E n p T V Q" "counters T = fst b" using assms by (auto simp: poller_ok_def tcp_ok_def)
  then show "in_table E sk (tcp_table p) \<longleftrightarrow> fst b sk \<noteq> None"
    using in_table_rep [OF tcp_relD(1), of E n p T V Q sk] dom_counters [of T] domIff [of sk "fst b"] by simp
  obtain U where "udp_rel E m p U" "dom U = fst s" using assms by (auto simp: poller_ok_def udp_ok_def)
  then show "in_table E sk (udp_table p) \<longleftrightarrow> sk \<in> fst s" using in_table_rep [OF udp_relD(1), of E m p U sk] by simp
qed



section \<open>Messages of the probes\<close>

text \<open>
  What the contract of the probes (\<^verbatim>\<open>Lifecycle_Spec\<close>) leaves open: that the tables have room for a socket
  that is announced, and that DNS packets come from announced sockets.
\<close>

fun roomy :: "nat \<Rightarrow> nat \<Rightarrow> bpf_event \<Rightarrow> (u64 \<rightharpoonup> tcp_socket_entry) \<Rightarrow> u64 set \<Rightarrow> bool" where
  "roomy n m (Ev_new_sock_created t pid sk) C D = (card (dom C) \<noteq> n)"
| "roomy n m (Ev_reset_tcp_counters t sk acked delivered retrans received pid) C D = (card (dom C) \<noteq> n)"
| "roomy n m (Ev_udp_new_socket t pid sk laddr lport) C D = (card D \<noteq> m)"
| "roomy n m (Ev_dns_packet t sk pkt total_len is_rx) C D = (sk \<in> D)"
| "roomy n m _ C D = True"

fun stream_roomy ::
    "nat \<Rightarrow> nat \<Rightarrow> bpf_event list \<Rightarrow> (u64 \<rightharpoonup> tcp_socket_entry) \<times> totals \<Rightarrow> u64 set \<times> u64 set \<Rightarrow> bool" where
  "stream_roomy n m [] b s = True"
| "stream_roomy n m (ev # evs) b s =
     (roomy n m ev (fst b) (fst s) \<and> stream_roomy n m evs (books n [ev] b) (udp_step m ev s))"

text \<open>The objects that the tracker follows are those in the tables of the poller.\<close>

definition agree :: "(tracked \<Rightarrow> bool) \<Rightarrow> (u64 \<rightharpoonup> tcp_socket_entry) \<times> totals \<Rightarrow> u64 set \<times> u64 set \<Rightarrow> bool" where
  "agree S b s \<longleftrightarrow> (\<forall>sk. (S (Tcp_sock sk) \<longleftrightarrow> fst b sk \<noteq> None) \<and> (S (Udp_sock sk) \<longleftrightarrow> sk \<in> fst s))"

lemma agree_step:
  assumes "agree S b s" "roomy n m ev (fst b) (fst s)" "track S (case life_event ev of None \<Rightarrow> [] | Some x \<Rightarrow> [x]) = Some S'"
  shows "tcp_expected n ev (fst b) \<and> udp_expected m ev (fst s) \<and> agree S' (books n [ev] b) (udp_step m ev s)"
proof -
  obtain C G D R where b: "b = (C, G)" and s: "s = (D, R)" by (cases b, cases s)
  show ?thesis using assms unfolding b s agree_def
    by (cases ev) (simp_all add: open_at_def split: if_splits, (hypsubst, simp)+)
qed

lemma tracked_expected:
  assumes "track S (List.map_filter life_event evs) = Some S'" "agree S b s" "stream_roomy n m evs b s"
  shows "stream_expected n m evs b s \<and> agree S' (books n evs b) (fold (udp_step m) evs s)"
  using assms
proof (induction evs arbitrary: S b s)
  case Nil
  then show ?case by (simp add: List.map_filter_def)
next
  case (Cons ev evs)
  let ?x = "case life_event ev of None \<Rightarrow> [] | Some x \<Rightarrow> [x]"
  have "List.map_filter life_event (ev # evs) = ?x @ List.map_filter life_event evs"
    by (simp add: List.map_filter_def split: option.split)
  then obtain T where T: "track S ?x = Some T" "track T (List.map_filter life_event evs) = Some S'"
    using Cons.prems(1) by (auto simp: track_append simp del: track.simps split: bind_splits)
  have step: "tcp_expected n ev (fst b) \<and> udp_expected m ev (fst s) \<and> agree T (books n [ev] b) (udp_step m ev s)"
    using Cons.prems(3) by (intro agree_step [OF Cons.prems(2) _ T(1)]) simp
  have "books n (ev # evs) b = books n evs (books n [ev] b)" using books_append [of n "[ev]" evs b] by simp
  moreover have "stream_roomy n m evs (books n [ev] b) (udp_step m ev s)" using Cons.prems(3) by simp
  ultimately show ?case using Cons.IH [OF T(2), of "books n [ev] b" "udp_step m ev s"] step by simp
qed

text \<open>
  The two sides together: whatever probes run in the kernel, when all their messages reach the poller and
  there is room in its tables, it logs no error and no warning, and its tables hold the sockets that are
  open in the kernel.
\<close>

lemma probes_and_poller:
  assumes "\<forall>pr \<in> set prs. render_env_ok (fst pr)" "run_state (run_probes prs) r = ((), r')"
    and "\<forall>k. \<not> live_object r k" "events r' = events r @ messages ops"
    and "env_ok E" "table_fits n te tm" "table_fits m ue um" "length im = n"
    and "list_all op_known ops" "list_all op_complete ops" "stream_fit m (messages ops) ({}, {})"
    and "stream_roomy n m (messages ops) books0 ({}, {})"
  shows "\<exists>p. poll_run E ops (poller_new E n m te ue tm um im ts us d) = Some p \<and> p_errors p = [] \<and> p_warnings p = [] \<and>
    (\<forall>sk. (in_table E sk (tcp_table p) \<longleftrightarrow> live_object r' (Tcp_sock sk)) \<and> (in_table E sk (udp_table p) \<longleftrightarrow> live_object r' (Udp_sock sk)))"
proof -
  obtain evs where "events r' = events r @ evs" "track (live_object r) (List.map_filter life_event evs) = Some (live_object r')"
    using io_runD [OF io_run_probes assms(2)] assms(1) unfolding tracks_def by blast
  then have tr: "track (live_object r) (List.map_filter life_event (messages ops)) = Some (live_object r')" using assms(4) by simp
  have "agree (live_object r) books0 ({}, {})" using assms(3) by (simp add: agree_def books0_def del: live_object.simps)
  from tracked_expected [OF tr this assms(12)] have ex: "stream_expected n m (messages ops) books0 ({}, {})"
    "agree (live_object r') (books n (messages ops) books0) (fold (udp_step m) (messages ops) ({}, {}))" by simp_all
  let ?p0 = "poller_new E n m te ue tm um im ts us d"
  obtain p where p: "poll_run E ops ?p0 = Some p"
    "poller_ok E n m p (books n (messages ops) books0) (fold (udp_step m) (messages ops) ({}, {}))" "complaints p = complaints ?p0"
    using poll_run_ok [OF assms(5) poller_ok_new [OF assms(5-8)] assms(11,9)] assms(10) ex(1) by blast
  then show ?thesis using ex(2) poller_ok_tables [OF p(2)]
    by (intro exI [of _ p]) (simp add: agree_def complaints_def poller_new_def)
qed

section \<open>Property\<close>






end
