(* ===== verification/Spec2Isabelle.thy ===== *)
theory Spec2Isabelle
  imports Circular_Queue Element_Queue Perf_Ring Lookup3 Tcp_Probes Render_Probes Render_Stats Dns_Parse
    Iterable_Bitmap Fixed_Hash Nat_Handler Dns_Requests Poller_Run
begin

text \<open>
  \<^bold>\<open>The program.\<close>  The OpenTelemetry eBPF collector watches the processes and the network of a host.  BPF
  programs in the kernel (\<^verbatim>\<open>src/collector/kernel/bpf_src\<close>) follow processes, control groups, TCP and UDP
  sockets, address translation and DNS packets, and submit messages to perf rings, one per CPU.  The kernel
  collector (\<^verbatim>\<open>src/collector/kernel\<close>) reads the rings, keeps a table of the open sockets, accumulates their
  statistics and writes messages for the reducer (\<^verbatim>\<open>src/reducer\<close>), whose threads exchange messages through
  the queues of \<^verbatim>\<open>src/util\<close>.  The development follows this path: the shared data structures, the BPF programs,
  and the poller that consumes what they submit.

  \<^bold>\<open>Foundations.\<close>  \<^verbatim>\<open>Prelude\<close> has the fixed-width integers, error numbers, little-endian memory and the lemmas
  that the other theories share.  Integers have the width that the source gives them unless the text of a
  definition says otherwise.

  \<^bold>\<open>Queues and hashing\<close> (\<^verbatim>\<open>src/util\<close>).
  \<^item> \<^verbatim>\<open>Fifo_Spec\<close>: the contract of a bounded first-in first-out queue, the locale \<open>bounded_fifo\<close>.
  \<^item> \<^verbatim>\<open>Circular_Queue\<close> (\<^verbatim>\<open>circular_queue.h\<close>): implements that contract; counters wrap.
  \<^item> \<^verbatim>\<open>Element_Queue\<close> (\<^verbatim>\<open>element_queue.h\<close>, \<^verbatim>\<open>element_queue.c\<close>): implements it too; and with a writer and a reader
    interleaved at single loads and stores of the shared counters (\<open>eq_step\<close>), the elements read are a prefix of
    the elements written.  In the interleaved system an element is shorter than \<open>2 ^ 32 - 7\<close> bytes;
    \<^verbatim>\<open>eq_write_branches\<close> says what happens to longer ones.
  \<^item> \<^verbatim>\<open>Perf_Ring\<close> (\<^verbatim>\<open>perf_ring.h\<close>, \<^verbatim>\<open>perf_ring.c\<close>, \<^verbatim>\<open>perf_ring_cpp.h\<close>): the same for events that wrap around the
    end of the ring, and the views that \<^verbatim>\<open>peek\<close> gives.
  \<^item> \<^verbatim>\<open>Lookup3\<close> (\<^verbatim>\<open>lookup3.c\<close>): every hash function equals one reference definition on byte lists, whatever the
    alignment of the key.

  \<^bold>\<open>BPF programs of the TCP processor\<close> (\<^verbatim>\<open>bpf_src/tcp-processor\<close>).  Programs are computations in the state monad
  over a record of the BPF maps and of the messages submitted; what the kernel supplies (helpers, memory, return
  codes of map operations) is the record \<open>env\<close>, an argument.
  \<^item> \<^verbatim>\<open>Bpf_Env\<close> (\<^verbatim>\<open>bpf_types.h\<close>, \<^verbatim>\<open>render_bpf.h\<close>): the environment, the messages, the throttled log; and the locale
    \<open>frame_rel\<close>, which lifts a relation between states through a program.
  \<^item> \<^verbatim>\<open>Tcp_Socket\<close> (\<^verbatim>\<open>bpf_tcp_socket.h\<close>, \<^verbatim>\<open>bpf_inet_csk_accept.h\<close>), \<^verbatim>\<open>Data_Channel\<close> (\<^verbatim>\<open>bpf_data_channel.h\<close>,
    \<^verbatim>\<open>bpf_tcp_events.h\<close>, \<^verbatim>\<open>bpf_memory.h\<close>), \<^verbatim>\<open>Http_Protocol\<close> (\<^verbatim>\<open>bpf_http_protocol.h\<close>, \<^verbatim>\<open>bpf_tcp_processor.c\<close>) and
    \<^verbatim>\<open>Tcp_Send_Recv\<close> (\<^verbatim>\<open>bpf_tcp_send_recv.h\<close>): which bytes of a send or a receive reach user space and how they
    are announced, what HTTP detection decides and when an exchange is reported.
  \<^item> \<^verbatim>\<open>Tcp_Probes\<close>: the tables stay consistent whatever probes fire in whatever order.

  \<^bold>\<open>BPF programs of the renderer\<close> (\<^verbatim>\<open>bpf_src/render_bpf.c\<close>).
  \<^item> \<^verbatim>\<open>Render_State\<close>, \<^verbatim>\<open>Render_Process\<close>, \<^verbatim>\<open>Render_Tcp\<close>, \<^verbatim>\<open>Render_Udp\<close>: the maps and all probes: processes, control
    groups and address translation; TCP sockets; UDP sockets and DNS packets.
  \<^item> \<^verbatim>\<open>Lifecycle_Spec\<close>: the abstract tracker of open objects (announced, used, closed once) and the locale
    \<open>life_tracker\<close>.
  \<^item> \<^verbatim>\<open>Render_Probes\<close>: every sequence of probes is a run of the tracker; racing removals close a socket once.
  \<^item> \<^verbatim>\<open>Render_Stats\<close>: UDP counts are conserved, TCP reports keep their distance in time, and a DNS message carries
    the payload of the packet.

  \<^bold>\<open>The kernel collector\<close> (\<^verbatim>\<open>src/collector/kernel\<close>, with containers of \<^verbatim>\<open>src/util\<close>).  A failed assertion or an access
  out of bounds is \<^const>\<open>None\<close>, so that a result \<^const>\<open>Some\<close> says that there was none.
  \<^item> \<^verbatim>\<open>Dns_Name\<close> (\<^verbatim>\<open>dns/ares_expand_name.c\<close>) and \<^verbatim>\<open>Dns_Parse\<close> (\<^verbatim>\<open>dns/ares_parse_query.c\<close>,
    \<^verbatim>\<open>dns/ares_parse_a_aaaa_reply.c\<close>): the parsers return on every packet, stay inside it, and decode names as RFC
    1035 encodes them.
  \<^item> \<^verbatim>\<open>Pool_Allocator\<close>, \<^verbatim>\<open>Iterable_Bitmap\<close>, \<^verbatim>\<open>Table_Spec\<close>, \<^verbatim>\<open>Fixed_Hash\<close>, \<^verbatim>\<open>Metric_Store\<close>
    (\<^verbatim>\<open>pool_allocator.h\<close>, \<^verbatim>\<open>iterable_bitmap.h\<close>, \<^verbatim>\<open>pool.h\<close>, \<^verbatim>\<open>fixed_hash.h\<close>, \<^verbatim>\<open>metric_store.h\<close>): refinements of a set of
    identifiers, a set of numbers, a bounded map with stable indices (the locale \<open>index_table\<close>) and, per epoch, a
    function and a list.
  \<^item> \<^verbatim>\<open>Nat_Handler\<close> (\<^verbatim>\<open>nat_handler.cc\<close>) and \<^verbatim>\<open>Dns_Requests\<close> (\<^verbatim>\<open>dns_requests.cc\<close>): refinements of two injective maps and
    of one list of requests.
  \<^item> \<^verbatim>\<open>Buffered_Poller\<close>, \<^verbatim>\<open>Poller_Tcp\<close>, \<^verbatim>\<open>Poller_Udp\<close>, \<^verbatim>\<open>Poller_Run\<close> (\<^verbatim>\<open>buffered_poller.cc\<close>, \<^verbatim>\<open>socket_table.h\<close>): the
    message handlers and the drains, their invariant, and runs of the whole poller: it does not fail, its tables
    follow the messages, and what it reports of a TCP socket adds up.  \<^verbatim>\<open>probes_and_poller\<close> composes it with the
    probes of \<^verbatim>\<open>render_bpf.c\<close>: the contract that the probes keep is the one the poller relies on.

  \<^bold>\<open>Bounds.\<close>  No definition takes fuel of its own.  The loops of the source whose end is not evident (name
  expansion, the loop over a bitmap, the drain of a metric queue) are partial functions with value \<^const>\<open>None\<close>
  for not returning, and are proved to return.  Chains of tail calls have the length the source gives them.

  \<^bold>\<open>Parameters.\<close>  Code outside the repository is an argument with its documented laws as hypotheses:
  \<^verbatim>\<open>absl::flat_hash_map\<close> (\<open>hash_ops\<close>, \<open>flat_map\<close>), the field macros of c-ares (\<open>ares_dns\<close>), and the kernel (\<open>env\<close>).
  Witnesses instantiate them with concrete functions.  A deletion from a BPF map leaves the key absent
  and its return code is the environment's: the model has no deletion that fails and keeps a key that is present.

  \<^bold>\<open>Not modelled.\<close>  The handlers of process, cgroup and captured-data messages, the readers of \<^verbatim>\<open>/proc\<close>, loading of
  programs and the main loop of the kernel collector: system calls, libbcc and libuv.  The channels, the
  configuration, scheduling, the OTLP exporter and the cloud and Kubernetes collectors: wrappers of external
  libraries.  The reducer: threads around containers that the render compiler generates; the generated code is
  not in the repository.  The render compiler and \<^verbatim>\<open>src/jitbuf\<close>, which generate code.  The sequence in which the
  rings of several CPUs are merged is an input of the poller.  Memory ordering is sequentially consistent.
\<close>

end
